(* ===== verification/SMQ_Prelude.thy ===== *)
theory SMQ_Prelude
  imports Main "HOL-Library.Multiset"
begin

text \<open>
  Shared vocabulary of the development: the errors the program raises, the two ways
  a callback-style function can fail, the state/error monad in which every operation
  that talks to Redis is written, and list lemmas used by several components.

  A function of the source that takes a callback \<open>cb(err, reply)\<close> is modelled as a
  function of type \<open>('s, 'a) io\<close>: from the state of the Redis server it yields the
  outcome handed to the callback and the next server state. \<open>Inr a\<close> is
  \<open>cb(null, a)\<close>, \<open>Inl (Cb e)\<close> is \<open>cb(e)\<close>, \<open>Inl (Throw e)\<close> an
  exception thrown instead of a call of the callback, and \<open>Inl NoReply\<close> says that the
  callback has not been called: the operation waits (for a timer, or for an element of an
  empty list).
\<close>

section \<open>Errors\<close>

text \<open>The error classes of \<^verbatim>\<open>src/system/common/errors\<close> and of the components, with
  the payload the constructors take; \<open>DriverError\<close> stands for any error object handed
  over by a Redis driver, \<open>LockError\<close> for redlock's, \<open>CronError\<close> for cron-parser's and
  \<open>SyntaxError\<close> for the one \<open>JSON.parse\<close> throws.\<close>

datatype err =
    ArgumentError string
  | ConfigurationError string
  | PanicError string
  | EmptyCallbackReplyError
  | MessageNotFoundError string string string int
  | RedisKeysError string
  | RedisClientError string
  | LockManagerError string
  | PowerManagerError string
  | TickerError string
  | WorkerRunnerError string
  | ConsumerError string
  | DriverError string
  | LockError
  | CronError
  | SyntaxError
  | TypeError

datatype exn = Cb err | Throw err | NoReply

type_synonym 'a result = "err + 'a"
type_synonym ('s, 'a) io = "'s \<Rightarrow> (exn + 'a) \<times> 's"

section \<open>The state and error monad\<close>

definition retM :: "'a \<Rightarrow> ('s, 'a) io" where
  "retM a s = (Inr a, s)"

definition cbErr :: "err \<Rightarrow> ('s, 'a) io" where
  "cbErr e s = (Inl (Cb e), s)"

definition throwM :: "err \<Rightarrow> ('s, 'a) io" where
  "throwM e s = (Inl (Throw e), s)"

text \<open>\<open>if (err) cb(err); else f(reply)\<close>: an error of the first call ends the chain.\<close>

definition bindM :: "('s, 'a) io \<Rightarrow> ('a \<Rightarrow> ('s, 'b) io) \<Rightarrow> ('s, 'b) io" where
  "bindM m f s = (case m s of (Inl e, s') \<Rightarrow> (Inl e, s') | (Inr a, s') \<Rightarrow> f a s')"

text \<open>A synchronous computation that may throw, run inside an operation.\<close>

definition liftT :: "'a result \<Rightarrow> ('s, 'a) io" where
  "liftT r = (case r of Inl e \<Rightarrow> throwM e | Inr a \<Rightarrow> retM a)"

text \<open>\<open>(err) => cb(err)\<close>: only the error is passed on.\<close>

definition voidM :: "('s, 'a) io \<Rightarrow> ('s, unit) io" where
  "voidM m = bindM m (\<lambda>_. retM ())"

text \<open>\<open>async.each\<close> over tasks that issue their calls when they are started: all tasks run, in order,
  and the first error is the outcome; an exception thrown by a task ends the loop.\<close>

fun eachM :: "('a \<Rightarrow> ('s, unit) io) \<Rightarrow> 'a list \<Rightarrow> ('s, unit) io" where
  "eachM f [] s = (Inr (), s)"
| "eachM f (x # xs) s =
     (case f x s of
        (Inl (Throw e), s') \<Rightarrow> (Inl (Throw e), s')
      | (Inl e, s') \<Rightarrow> (Inl e, snd (eachM f xs s'))
      | (Inr u, s') \<Rightarrow> eachM f xs s')"

text \<open>A synchronous loop that may throw.\<close>

fun mapR :: "('a \<Rightarrow> 'b result) \<Rightarrow> 'a list \<Rightarrow> 'b list result" where
  "mapR f [] = Inr []"
| "mapR f (x # xs) =
     (case f x of Inl e \<Rightarrow> Inl e
      | Inr y \<Rightarrow> (case mapR f xs of Inl e \<Rightarrow> Inl e | Inr ys \<Rightarrow> Inr (y # ys)))"

definition bindR :: "'a result \<Rightarrow> ('a \<Rightarrow> 'b result) \<Rightarrow> 'b result" where
  "bindR r f = (case r of Inl e \<Rightarrow> Inl e | Inr a \<Rightarrow> f a)"

section \<open>Inversion and evaluation rules\<close>

text \<open>\<open>io_iff\<close> collects the equations that turn "this operation returned that" into facts
  about its parts; \<open>io_run\<close> those that evaluate an operation from the outcomes of its
  parts; \<open>smq_keys\<close> the projections of the key records.\<close>

named_theorems io_iff
named_theorems io_run
named_theorems smq_keys

lemma retM_iff [io_iff]: "retM a s = (r, s') \<longleftrightarrow> r = Inr a \<and> s' = s"
  by (auto simp: retM_def)

lemma cbErr_iff [io_iff]: "cbErr e s = (r, s') \<longleftrightarrow> r = Inl (Cb e) \<and> s' = s"
  by (auto simp: cbErr_def)

lemma throwM_iff [io_iff]: "throwM e s = (r, s') \<longleftrightarrow> r = Inl (Throw e) \<and> s' = s"
  by (auto simp: throwM_def)

lemma bindM_Inr [io_iff]:
  "bindM m f s = (Inr b, s'') \<longleftrightarrow> (\<exists>a s'. m s = (Inr a, s') \<and> f a s' = (Inr b, s''))"
  by (auto simp: bindM_def split: prod.splits sum.splits)

lemma bindM_Inl [io_iff]:
  "bindM m f s = (Inl e, s'') \<longleftrightarrow>
     m s = (Inl e, s'') \<or> (\<exists>a s'. m s = (Inr a, s') \<and> f a s' = (Inl e, s''))"
  by (auto simp: bindM_def split: prod.splits sum.splits)

lemma voidM_Inr [io_iff]: "voidM m s = (Inr u, s') \<longleftrightarrow> (\<exists>a. m s = (Inr a, s'))"
  by (auto simp: voidM_def io_iff)

lemma voidM_Inl [io_iff]: "voidM m s = (Inl e, s') \<longleftrightarrow> m s = (Inl e, s')"
  by (auto simp: voidM_def io_iff)

lemma liftT_Inr [io_iff]: "liftT r s = (Inr a, s') \<longleftrightarrow> r = Inr a \<and> s' = s"
  by (auto simp: liftT_def io_iff split: sum.splits)

lemma liftT_Inl [io_iff]:
  "liftT r s = (Inl e, s') \<longleftrightarrow> (\<exists>x. r = Inl x \<and> e = Throw x) \<and> s' = s"
  by (auto simp: liftT_def io_iff split: sum.splits)

lemma bindR_Inr [io_iff]: "bindR r f = Inr b \<longleftrightarrow> (\<exists>a. r = Inr a \<and> f a = Inr b)"
  by (cases r) (auto simp: bindR_def)

lemma case_list_app [io_iff]:
  "(case xs of [] \<Rightarrow> f | y # ys \<Rightarrow> g y ys) s = r \<longleftrightarrow>
     (xs = [] \<and> f s = r) \<or> (\<exists>y ys. xs = y # ys \<and> g y ys s = r)"
  by (cases xs) auto

lemma case_option_app [io_iff]:
  "(case x of None \<Rightarrow> f | Some y \<Rightarrow> g y) s = r \<longleftrightarrow>
     (x = None \<and> f s = r) \<or> (\<exists>y. x = Some y \<and> g y s = r)"
  by (cases x) auto

lemma if_app [io_iff]: "(if b then f else g) s = r \<longleftrightarrow> (b \<and> f s = r) \<or> (\<not> b \<and> g s = r)"
  by simp

lemma retM_run [io_run]: "retM a s = (Inr a, s)"
  by (simp add: retM_def)

lemma cbErr_run [io_run]: "cbErr e s = (Inl (Cb e), s)"
  by (simp add: cbErr_def)

lemma throwM_run [io_run]: "throwM e s = (Inl (Throw e), s)"
  by (simp add: throwM_def)

lemma bindM_run_Inr [io_run]: "m s = (Inr a, s') \<Longrightarrow> bindM m f s = f a s'"
  by (simp add: bindM_def)

lemma bindM_run_Inl [io_run]: "m s = (Inl e, s') \<Longrightarrow> bindM m f s = (Inl e, s')"
  by (simp add: bindM_def)

lemma voidM_run_Inr [io_run]: "m s = (Inr a, s') \<Longrightarrow> voidM m s = (Inr (), s')"
  by (simp add: voidM_def bindM_def retM_def)

lemma liftT_run [io_run]:
  "liftT (Inr a) s = (Inr a, s)" "liftT (Inl e) s = (Inl (Throw e), s)"
  by (simp_all add: liftT_def retM_def throwM_def)

lemma bindR_simps [simp]: "bindR (Inr a) f = f a" "bindR (Inl e) f = Inl e"
  by (simp_all add: bindR_def)

lemma bindM_assoc: "bindM (bindM m f) g = bindM m (\<lambda>a. bindM (f a) g)"
  by (auto simp: bindM_def fun_eq_iff split: prod.splits sum.splits)

lemma retM_bindM [simp]: "bindM (retM a) f = f a"
  by (simp add: bindM_def retM_def fun_eq_iff)

lemma eachM_Cons_Inr [io_iff]:
  "eachM f (x # xs) s = (Inr u, s'') \<longleftrightarrow>
     (\<exists>s'. f x s = (Inr (), s') \<and> eachM f xs s' = (Inr u, s''))"
  by (auto split: prod.splits sum.splits exn.splits)

lemma eachM_run [io_run]: "f x s = (Inr u, s') \<Longrightarrow> eachM f (x # xs) s = eachM f xs s'"
  by simp

lemma mapR_Inr_map: "(\<And>x. x \<in> set xs \<Longrightarrow> f x = Inr (g x)) \<Longrightarrow> mapR f xs = Inr (map g xs)"
  by (induction xs) auto

lemma mapR_length: "mapR f xs = Inr ys \<Longrightarrow> length ys = length xs"
  by (induction xs arbitrary: ys) (auto split: sum.splits)

section \<open>Lists\<close>

lemma butlast_snoc_last: "xs \<noteq> [] \<Longrightarrow> butlast xs @ [last xs] = xs"
  by (rule append_butlast_last_id)

lemma remove1_hd: "xs \<noteq> [] \<Longrightarrow> remove1 (hd xs) xs = tl xs"
  by (cases xs) auto

lemma mset_butlast_last: "xs \<noteq> [] \<Longrightarrow> add_mset (last xs) (mset (butlast xs)) = mset xs"
  by (metis add_mset_add_single append_butlast_last_id mset.simps(1) mset.simps(2)
      mset_append union_commute)

lemma map_of_filter_fst:
  "map_of (filter (\<lambda>p. fst p \<noteq> k) al) = (map_of al)(k := None)"
  by (induction al) (auto simp: fun_eq_iff)

lemma distinct_map_fst_filter: "distinct (map fst al) \<Longrightarrow> distinct (map fst (filter P al))"
  by (induction al) auto

lemma sorted_map_snd_filter: "sorted (map snd al) \<Longrightarrow> sorted (map snd (filter P al))"
  by (induction al) auto

end
