(* ===== verification/Redis_Server.thy ===== *)
theory Redis_Server
  imports SMQ_Prelude "HOL-Library.AList"
begin

text \<open>
  The Redis server is not part of the program: it is a parameter. A server with states
  \<open>'s\<close> is a function \<open>srv :: 's \<Rightarrow> cmd \<Rightarrow> reply \<times> 's\<close> that answers one command and a function
  \<open>mul\<close> that answers a \<open>MULTI ... EXEC\<close> block. What the program relies on is the
  locale \<open>redis_server\<close>: the behaviour the Redis command reference documents, written
  over an observation \<open>view\<close> of the server state. The last section gives an executable
  in-memory server and shows that it meets the contract, so that the contract is
  satisfiable and theorems about the program can be evaluated on it.
\<close>

section \<open>Values, commands and replies\<close>

text \<open>
  Texts held by Redis. \<open>JSON.stringify\<close> maps distinct trees to distinct texts and
  \<open>JSON.parse\<close> is its inverse, so a JSON text is represented by its tree; any other
  string (an identifier, a key, a rate sample) is \<open>Str\<close>.
\<close>

datatype json =
    JNull
  | JBool bool
  | JNum int
  | JStr string
  | JArr "json list"
  | JObj "(string \<times> json) list"

datatype rstr = Str string | Json json

type_synonym key = string

datatype side = LEFT | RIGHT

datatype cmd =
    LPUSH key rstr
  | RPUSH key rstr
  | LREM key int rstr
  | LRANGE key int int
  | LLEN key
  | RPOPLPUSH key key
  | BRPOPLPUSH key key
  | LMOVE key key side side
  | HSET key rstr rstr
  | HMSET key "(rstr \<times> rstr) list"
  | HGET key rstr
  | HMGET key "rstr list"
  | HDEL key "rstr list"
  | HGETALL key
  | ZADD key int rstr
  | ZREM key rstr
  | ZRANGE key int int
  | ZRANGEBYSCORE key int int
  | ZCARD key
  | SADD key rstr
  | SREM key rstr
  | SMEMBERS key
  | DEL key
  | EXISTS key
  | PUBLISH string rstr

datatype reply =
    RErr err
  | RNil
  | RInt int
  | RStr rstr
  | RArr "rstr option list"
  | RHash "(rstr \<times> rstr) list"

fun is_err :: "reply \<Rightarrow> bool" where
  "is_err (RErr e) = True"
| "is_err r = False"

type_synonym 's server = "'s \<Rightarrow> cmd \<Rightarrow> reply \<times> 's"
type_synonym 's multi_server = "'s \<Rightarrow> cmd list \<Rightarrow> (err + reply list option) \<times> 's"

section \<open>What can be observed of a server state\<close>

text \<open>A list, a hash, a sorted set or a set that is empty does not exist. A sorted set is
  observed as its members in the order \<open>ZRANGE\<close> enumerates them, with their scores.\<close>

record store =
  lists :: "key \<Rightarrow> rstr list"
  hashes :: "key \<Rightarrow> rstr \<Rightarrow> rstr option"
  zsets :: "key \<Rightarrow> (rstr \<times> int) list"
  sets :: "key \<Rightarrow> rstr set"

abbreviation zkeys :: "store \<Rightarrow> key \<Rightarrow> rstr set" where
  "zkeys st k \<equiv> fst ` set (zsets st k)"

definition zset_ok :: "(rstr \<times> int) list \<Rightarrow> bool" where
  "zset_ok z \<longleftrightarrow> distinct (map fst z) \<and> sorted (map snd z)"

text \<open>Index arithmetic of \<open>LRANGE\<close> and \<open>ZRANGE\<close>: both ends are inclusive, a negative index
  counts from the end, an end out of range is clipped.\<close>

definition slice :: "int \<Rightarrow> int \<Rightarrow> 'a list \<Rightarrow> 'a list" where
  "slice a b xs =
     (let n = int (length xs);
          lo = (if a < 0 then max 0 (n + a) else a);
          hi = (if b < 0 then n + b else min b (n - 1))
      in if hi < lo then [] else take (nat (hi - lo + 1)) (drop (nat lo) xs))"

fun remove_n :: "nat \<Rightarrow> 'a \<Rightarrow> 'a list \<Rightarrow> 'a list" where
  "remove_n 0 v xs = xs"
| "remove_n (Suc n) v xs = remove_n n v (remove1 v xs)"

text \<open>\<open>LREM key count value\<close>: from the head, from the tail, or everywhere.\<close>

definition lrem_list :: "int \<Rightarrow> 'a \<Rightarrow> 'a list \<Rightarrow> 'a list" where
  "lrem_list n v xs =
     (if n > 0 then remove_n (nat n) v xs
      else if n < 0 then rev (remove_n (nat (- n)) v (rev xs))
      else filter (\<lambda>x. x \<noteq> v) xs)"

abbreviation set_list :: "key \<Rightarrow> rstr list \<Rightarrow> store \<Rightarrow> store" where
  "set_list k xs st \<equiv> st\<lparr>lists := (lists st)(k := xs)\<rparr>"

abbreviation set_hash :: "key \<Rightarrow> (rstr \<Rightarrow> rstr option) \<Rightarrow> store \<Rightarrow> store" where
  "set_hash k h st \<equiv> st\<lparr>hashes := (hashes st)(k := h)\<rparr>"

abbreviation set_zset :: "key \<Rightarrow> (rstr \<times> int) list \<Rightarrow> store \<Rightarrow> store" where
  "set_zset k z st \<equiv> st\<lparr>zsets := (zsets st)(k := z)\<rparr>"

text \<open>Popping one element off one end of a list and pushing it on an end of another (or of
  the same) list.\<close>

fun pop_side :: "side \<Rightarrow> 'a list \<Rightarrow> 'a \<times> 'a list" where
  "pop_side LEFT xs = (hd xs, tl xs)"
| "pop_side RIGHT xs = (last xs, butlast xs)"

fun push_side :: "side \<Rightarrow> 'a \<Rightarrow> 'a list \<Rightarrow> 'a list" where
  "push_side LEFT x xs = x # xs"
| "push_side RIGHT x xs = xs @ [x]"

definition move_list :: "key \<Rightarrow> key \<Rightarrow> side \<Rightarrow> side \<Rightarrow> store \<Rightarrow> store" where
  "move_list a b fr to st =
     (let v = fst (pop_side fr (lists st a));
          st1 = set_list a (snd (pop_side fr (lists st a))) st
      in set_list b (push_side to v (lists st1 b)) st1)"

definition key_exists :: "store \<Rightarrow> key \<Rightarrow> bool" where
  "key_exists st k \<longleftrightarrow>
     lists st k \<noteq> [] \<or> hashes st k \<noteq> Map.empty \<or> zsets st k \<noteq> [] \<or> sets st k \<noteq> {}"

section \<open>The documented effect of a command\<close>

text \<open>\<open>doc c st r st'\<close>: a server that observes as \<open>st\<close> may answer \<open>c\<close> with the reply \<open>r\<close>,
  which is not an error, and then observes as \<open>st'\<close>. \<open>HGETALL\<close> and \<open>SMEMBERS\<close> may enumerate
  in any order and \<open>ZADD\<close> may place the member anywhere among those of equal score.
  \<open>BRPOPLPUSH\<close> with timeout 0 answers only when its source has an element.\<close>

fun doc :: "cmd \<Rightarrow> store \<Rightarrow> reply \<Rightarrow> store \<Rightarrow> bool" where
  "doc (LPUSH k v) st r st' =
     (r = RInt (int (length (lists st k)) + 1) \<and> st' = set_list k (v # lists st k) st)"
| "doc (RPUSH k v) st r st' =
     (r = RInt (int (length (lists st k)) + 1) \<and> st' = set_list k (lists st k @ [v]) st)"
| "doc (LREM k n v) st r st' =
     (r = RInt (int (length (lists st k)) - int (length (lrem_list n v (lists st k)))) \<and>
      st' = set_list k (lrem_list n v (lists st k)) st)"
| "doc (LRANGE k a b) st r st' =
     (r = RArr (map Some (slice a b (lists st k))) \<and> st' = st)"
| "doc (LLEN k) st r st' = (r = RInt (int (length (lists st k))) \<and> st' = st)"
| "doc (RPOPLPUSH a b) st r st' =
     (if lists st a = [] then r = RNil \<and> st' = st
      else r = RStr (last (lists st a)) \<and> st' = move_list a b RIGHT LEFT st)"
| "doc (BRPOPLPUSH a b) st r st' =
     (lists st a \<noteq> [] \<longrightarrow> r = RStr (last (lists st a)) \<and> st' = move_list a b RIGHT LEFT st)"
| "doc (LMOVE a b fr to) st r st' =
     (if lists st a = [] then r = RNil \<and> st' = st
      else r = RStr (fst (pop_side fr (lists st a))) \<and> st' = move_list a b fr to st)"
| "doc (HSET k f v) st r st' =
     (r = RInt (if hashes st k f = None then 1 else 0) \<and>
      st' = set_hash k ((hashes st k)(f \<mapsto> v)) st)"
| "doc (HMSET k fvs) st r st' = (st' = set_hash k ((hashes st k) ++ map_of (rev fvs)) st)"
| "doc (HGET k f) st r st' =
     (r = (case hashes st k f of None \<Rightarrow> RNil | Some v \<Rightarrow> RStr v) \<and> st' = st)"
| "doc (HMGET k fs) st r st' = (r = RArr (map (hashes st k) fs) \<and> st' = st)"
| "doc (HDEL k fs) st r st' =
     (r = RInt (int (card {f \<in> set fs. hashes st k f \<noteq> None})) \<and>
      st' = set_hash k (\<lambda>f. if f \<in> set fs then None else hashes st k f) st)"
| "doc (HGETALL k) st r st' =
     ((\<exists>al. r = RHash al \<and> distinct (map fst al) \<and> map_of al = hashes st k) \<and> st' = st)"
| "doc (ZADD k sc m) st r st' =
     (r = RInt (if m \<in> zkeys st k then 0 else 1) \<and>
      (\<exists>z. zset_ok z \<and> map_of z = (map_of (zsets st k))(m \<mapsto> sc) \<and> st' = set_zset k z st))"
| "doc (ZREM k m) st r st' =
     (r = RInt (if m \<in> zkeys st k then 1 else 0) \<and>
      st' = set_zset k (filter (\<lambda>p. fst p \<noteq> m) (zsets st k)) st)"
| "doc (ZRANGE k a b) st r st' =
     (r = RArr (map Some (slice a b (map fst (zsets st k)))) \<and> st' = st)"
| "doc (ZRANGEBYSCORE k lo hi) st r st' =
     (r = RArr (map (Some \<circ> fst) (filter (\<lambda>p. lo \<le> snd p \<and> snd p \<le> hi) (zsets st k))) \<and>
      st' = st)"
| "doc (ZCARD k) st r st' = (r = RInt (int (length (zsets st k))) \<and> st' = st)"
| "doc (SADD k m) st r st' =
     (r = RInt (if m \<in> sets st k then 0 else 1) \<and>
      st' = st\<lparr>sets := (sets st)(k := insert m (sets st k))\<rparr>)"
| "doc (SREM k m) st r st' =
     (r = RInt (if m \<in> sets st k then 1 else 0) \<and>
      st' = st\<lparr>sets := (sets st)(k := sets st k - {m})\<rparr>)"
| "doc (SMEMBERS k) st r st' =
     ((\<exists>xs. r = RArr (map Some xs) \<and> distinct xs \<and> set xs = sets st k) \<and> st' = st)"
| "doc (DEL k) st r st' =
     (r = RInt (if key_exists st k then 1 else 0) \<and>
      st' = \<lparr>lists = (lists st)(k := []), hashes = (hashes st)(k := Map.empty),
             zsets = (zsets st)(k := []), sets = (sets st)(k := {})\<rparr>)"
| "doc (EXISTS k) st r st' = (r = RInt (if key_exists st k then 1 else 0) \<and> st' = st)"
| "doc (PUBLISH ch v) st r st' = (st' = st)"

text \<open>The commands of a transaction, one after the other: an error reply of one of them does
  not stop the others.\<close>

fun run_seq :: "'s server \<Rightarrow> 's \<Rightarrow> cmd list \<Rightarrow> reply list \<times> 's" where
  "run_seq srv s [] = ([], s)"
| "run_seq srv s (c # cs) =
     (case srv s c of (r, s1) \<Rightarrow> (case run_seq srv s1 cs of (rs, s2) \<Rightarrow> (r # rs, s2)))"

section \<open>The contract\<close>

text \<open>The named hypotheses about Redis. A command that is answered with an error has not been
  applied; one that is answered otherwise had its documented effect. \<open>EXEC\<close> runs the queued
  commands with nothing in between, or reports an error or a null reply and runs none.\<close>

locale redis_server =
  fixes srv :: "'s \<Rightarrow> cmd \<Rightarrow> reply \<times> 's"
    and mul :: "'s \<Rightarrow> cmd list \<Rightarrow> (err + reply list option) \<times> 's"
    and view :: "'s \<Rightarrow> store"
  assumes zset_inv: "zset_ok (zsets (view s) k)"
    and reply_doc: "srv s c = (r, s') \<Longrightarrow> \<not> is_err r \<Longrightarrow> doc c (view s) r (view s')"
    and error_noop: "srv s c = (RErr e, s') \<Longrightarrow> view s' = view s"
    and exec_runs: "mul s cs = (Inr (Some rs), s') \<Longrightarrow> run_seq srv s cs = (rs, s')"
    and exec_null: "mul s cs = (Inr None, s') \<Longrightarrow> view s' = view s"
    and exec_error: "mul s cs = (Inl e, s') \<Longrightarrow> view s' = view s"

text \<open>A server that is reachable and holds a value of the right kind at every key answers every
  command: the hypothesis of the statements that say an operation succeeds.\<close>

locale live_server = redis_server +
  assumes answers: "\<not> is_err (fst (srv s c))"
    and exec_answers: "\<exists>rs. fst (mul s cs) = Inr (Some rs)"

section \<open>Issuing commands\<close>

text \<open>One command through the driver: an error reply is handed to the callback as an error.\<close>

definition redisCmd :: "'s server \<Rightarrow> cmd \<Rightarrow> ('s, reply) io" where
  "redisCmd srv c s =
     (case srv s c of (RErr e, s') \<Rightarrow> (Inl (Cb e), s') | (r, s') \<Rightarrow> (Inr r, s'))"

text \<open>The commands of a transaction with their documented effects chained.\<close>

fun doc_seq :: "cmd list \<Rightarrow> store \<Rightarrow> reply list \<Rightarrow> store \<Rightarrow> bool" where
  "doc_seq [] st rs st' \<longleftrightarrow> rs = [] \<and> st' = st"
| "doc_seq (c # cs) st rs st' \<longleftrightarrow>
     (\<exists>r rs' st1. rs = r # rs' \<and> doc c st r st1 \<and> doc_seq cs st1 rs' st')"

lemma redisCmd_Inr:
  "redisCmd srv c s = (Inr r, s') \<longleftrightarrow> srv s c = (r, s') \<and> \<not> is_err r"
  by (auto simp: redisCmd_def split: prod.splits reply.splits)

lemma redisCmd_Inl:
  "redisCmd srv c s = (Inl e, s') \<longleftrightarrow> (\<exists>x. e = Cb x \<and> srv s c = (RErr x, s'))"
  by (auto simp: redisCmd_def split: prod.splits reply.splits)

lemma doc_seq_append:
  "doc_seq (cs @ ds) st rs st' \<Longrightarrow>
     \<exists>rs1 rs2 st1. rs = rs1 @ rs2 \<and> doc_seq cs st rs1 st1 \<and> doc_seq ds st1 rs2 st'"
proof (induction cs arbitrary: st rs)
  case Nil
  then show ?case by simp
next
  case (Cons c cs)
  then obtain r rs' st2 where rs: "rs = r # rs'" and c: "doc c st r st2"
    and rest: "doc_seq (cs @ ds) st2 rs' st'"
    by auto
  from Cons.IH [OF rest] obtain rs1 rs2 st1 where
    "rs' = rs1 @ rs2" "doc_seq cs st2 rs1 st1" "doc_seq ds st1 rs2 st'"
    by blast
  with rs c show ?case
    by (intro exI [of _ "r # rs1"] exI [of _ rs2] exI [of _ st1]) auto
qed

lemma lrem_list_1 [simp]: "lrem_list 1 v xs = remove1 v xs"
  by (simp add: lrem_list_def)

lemma slice_single: "0 \<le> i \<Longrightarrow> slice i i xs = (if nat i < length xs then [xs ! nat i] else [])"
proof (cases "nat i < length xs")
  case True
  assume "0 \<le> i"
  with True have "slice i i xs = take 1 (drop (nat i) xs)"
    by (simp add: slice_def Let_def min_def)
  with True \<open>0 \<le> i\<close> show ?thesis by (simp add: take_Suc hd_drop_conv_nth)
next
  case False
  assume "0 \<le> i"
  with False show ?thesis by (simp add: slice_def Let_def min_def)
qed

lemma slice_prefix: "0 < n \<Longrightarrow> slice 0 (int n - 1) xs = take n xs"
  by (auto simp: slice_def Let_def min_def nat_eq_iff)

lemma slice_window:
  "0 < n \<Longrightarrow> slice (int a) (int a + int n - 1) xs = take n (drop a xs)"
proof -
  assume n: "0 < n"
  consider "length xs \<le> a" | "a < length xs" "length xs \<le> a + n" | "a + n < length xs"
    by linarith
  then show ?thesis
  proof cases
    case 1
    then show ?thesis using n by (simp add: slice_def Let_def min_def)
  next
    case 2
    then have "slice (int a) (int a + int n - 1) xs = take (length xs - a) (drop a xs)"
      using n by (auto simp: slice_def Let_def min_def nat_diff_distrib)
    with 2 show ?thesis by simp
  next
    case 3
    then show ?thesis using n by (auto simp: slice_def Let_def min_def)
  qed
qed

lemma slice_0_0: "slice 0 0 xs = take 1 xs"
  using slice_prefix [of 1 xs] by simp

lemma zset_ok_filter: "zset_ok z \<Longrightarrow> zset_ok (filter P z)"
  by (simp add: zset_ok_def distinct_map_fst_filter sorted_map_snd_filter)

lemma zset_map_of: "zset_ok z \<Longrightarrow> map_of z m = Some sc \<longleftrightarrow> (m, sc) \<in> set z"
  by (simp add: zset_ok_def)

lemma zset_dom: "m \<in> fst ` set z \<longleftrightarrow> map_of z m \<noteq> None"
  by (simp add: map_of_eq_None_iff)

context redis_server
begin

lemma cmd_ok: "redisCmd srv c s = (Inr r, s') \<Longrightarrow> doc c (view s) r (view s')"
  by (auto simp: redisCmd_Inr intro: reply_doc)

lemma cmd_err: "redisCmd srv c s = (Inl e, s') \<Longrightarrow> view s' = view s \<and> (\<exists>x. e = Cb x)"
  by (auto simp: redisCmd_Inl intro: error_noop)

lemma run_seq_doc:
  "run_seq srv s cs = (rs, s') \<Longrightarrow> list_all (\<lambda>r. \<not> is_err r) rs \<Longrightarrow>
     doc_seq cs (view s) rs (view s')"
proof (induction cs arbitrary: s rs)
  case Nil
  then show ?case by simp
next
  case (Cons c cs)
  then show ?case
    by (auto split: prod.splits dest!: reply_doc) blast
qed

end

context live_server
begin

lemma cmd_live: "\<exists>r s'. redisCmd srv c s = (Inr r, s')"
  using answers [of s c] by (cases "srv s c") (auto simp: redisCmd_Inr)

lemma run_seq_live: "list_all (\<lambda>r. \<not> is_err r) (fst (run_seq srv s cs))"
proof (induction cs arbitrary: s)
  case Nil
  then show ?case by simp
next
  case (Cons c cs)
  show ?case
    using answers [of s c] Cons.IH by (auto split: prod.splits) (metis fst_conv)
qed

end

section \<open>An in-memory server\<close>

text \<open>An executable server that meets the contract. Hashes and sorted sets are association
  lists, normalised when they are read.\<close>

record mem =
  mlists :: "key \<Rightarrow> rstr list"
  mhashes :: "key \<Rightarrow> (rstr \<times> rstr) list"
  mzsets :: "key \<Rightarrow> (rstr \<times> int) list"
  msets :: "key \<Rightarrow> rstr list"

definition mem0 :: mem where
  "mem0 = \<lparr>mlists = (\<lambda>_. []), mhashes = (\<lambda>_. []), mzsets = (\<lambda>_. []), msets = (\<lambda>_. [])\<rparr>"

definition znorm :: "(rstr \<times> int) list \<Rightarrow> (rstr \<times> int) list" where
  "znorm z = sort_key snd (AList.clearjunk z)"

definition mem_view :: "mem \<Rightarrow> store" where
  "mem_view m = \<lparr>lists = mlists m, hashes = (\<lambda>k. map_of (mhashes m k)),
     zsets = (\<lambda>k. znorm (mzsets m k)), sets = (\<lambda>k. set (msets m k))\<rparr>"

definition mem_move :: "key \<Rightarrow> key \<Rightarrow> side \<Rightarrow> side \<Rightarrow> mem \<Rightarrow> reply \<times> mem" where
  "mem_move a b fr to m =
     (if mlists m a = [] then (RNil, m)
      else let (v, xs) = pop_side fr (mlists m a); l1 = (mlists m)(a := xs)
           in (RStr v, m\<lparr>mlists := l1(b := push_side to v (l1 b))\<rparr>))"

definition mem_exists :: "mem \<Rightarrow> key \<Rightarrow> bool" where
  "mem_exists m k \<longleftrightarrow>
     mlists m k \<noteq> [] \<or> mhashes m k \<noteq> [] \<or> mzsets m k \<noteq> [] \<or> msets m k \<noteq> []"

fun mem_srv :: "mem \<Rightarrow> cmd \<Rightarrow> reply \<times> mem" where
  "mem_srv m (LPUSH k v) =
     (RInt (int (length (mlists m k)) + 1), m\<lparr>mlists := (mlists m)(k := v # mlists m k)\<rparr>)"
| "mem_srv m (RPUSH k v) =
     (RInt (int (length (mlists m k)) + 1), m\<lparr>mlists := (mlists m)(k := mlists m k @ [v])\<rparr>)"
| "mem_srv m (LREM k n v) =
     (RInt (int (length (mlists m k)) - int (length (lrem_list n v (mlists m k)))),
      m\<lparr>mlists := (mlists m)(k := lrem_list n v (mlists m k))\<rparr>)"
| "mem_srv m (LRANGE k a b) = (RArr (map Some (slice a b (mlists m k))), m)"
| "mem_srv m (LLEN k) = (RInt (int (length (mlists m k))), m)"
| "mem_srv m (RPOPLPUSH a b) = mem_move a b RIGHT LEFT m"
| "mem_srv m (BRPOPLPUSH a b) = mem_move a b RIGHT LEFT m"
| "mem_srv m (LMOVE a b fr to) = mem_move a b fr to m"
| "mem_srv m (HSET k f v) =
     (RInt (if map_of (mhashes m k) f = None then 1 else 0),
      m\<lparr>mhashes := (mhashes m)(k := AList.update f v (mhashes m k))\<rparr>)"
| "mem_srv m (HMSET k fvs) = (RNil, m\<lparr>mhashes := (mhashes m)(k := rev fvs @ mhashes m k)\<rparr>)"
| "mem_srv m (HGET k f) =
     ((case map_of (mhashes m k) f of None \<Rightarrow> RNil | Some v \<Rightarrow> RStr v), m)"
| "mem_srv m (HMGET k fs) = (RArr (map (map_of (mhashes m k)) fs), m)"
| "mem_srv m (HDEL k fs) =
     (RInt (int (length (filter (\<lambda>f. map_of (mhashes m k) f \<noteq> None) (remdups fs)))),
      m\<lparr>mhashes := (mhashes m)(k := filter (\<lambda>p. fst p \<notin> set fs) (mhashes m k))\<rparr>)"
| "mem_srv m (HGETALL k) = (RHash (AList.clearjunk (mhashes m k)), m)"
| "mem_srv m (ZADD k sc v) =
     (RInt (if v \<in> fst ` set (mzsets m k) then 0 else 1),
      m\<lparr>mzsets := (mzsets m)(k := AList.update v sc (mzsets m k))\<rparr>)"
| "mem_srv m (ZREM k v) =
     (RInt (if v \<in> fst ` set (mzsets m k) then 1 else 0),
      m\<lparr>mzsets := (mzsets m)(k := AList.delete v (mzsets m k))\<rparr>)"
| "mem_srv m (ZRANGE k a b) = (RArr (map Some (slice a b (map fst (znorm (mzsets m k))))), m)"
| "mem_srv m (ZRANGEBYSCORE k lo hi) =
     (RArr (map (Some \<circ> fst) (filter (\<lambda>p. lo \<le> snd p \<and> snd p \<le> hi) (znorm (mzsets m k)))), m)"
| "mem_srv m (ZCARD k) = (RInt (int (length (znorm (mzsets m k)))), m)"
| "mem_srv m (SADD k v) =
     (RInt (if v \<in> set (msets m k) then 0 else 1), m\<lparr>msets := (msets m)(k := v # msets m k)\<rparr>)"
| "mem_srv m (SREM k v) =
     (RInt (if v \<in> set (msets m k) then 1 else 0),
      m\<lparr>msets := (msets m)(k := filter (\<lambda>x. x \<noteq> v) (msets m k))\<rparr>)"
| "mem_srv m (SMEMBERS k) = (RArr (map Some (remdups (msets m k))), m)"
| "mem_srv m (DEL k) =
     (RInt (if mem_exists m k then 1 else 0),
      \<lparr>mlists = (mlists m)(k := []), mhashes = (mhashes m)(k := []),
       mzsets = (mzsets m)(k := []), msets = (msets m)(k := [])\<rparr>)"
| "mem_srv m (EXISTS k) = (RInt (if mem_exists m k then 1 else 0), m)"
| "mem_srv m (PUBLISH ch v) = (RInt 0, m)"

definition mem_mul :: "mem \<Rightarrow> cmd list \<Rightarrow> (err + reply list option) \<times> mem" where
  "mem_mul m cs = (case run_seq mem_srv m cs of (rs, m') \<Rightarrow> (Inr (Some rs), m'))"

lemma zset_ok_znorm: "zset_ok (znorm z)"
proof -
  have "distinct (map fst (znorm z))"
    using distinct_clearjunk [of z]
    by (metis distinct_map distinct_sort set_sort znorm_def)
  then show ?thesis by (simp add: zset_ok_def znorm_def)
qed

lemma map_of_sort_key: "distinct (map fst z) \<Longrightarrow> map_of (sort_key f z) = map_of z"
  by (rule map_of_eqI) (auto simp: distinct_map)

lemma map_of_znorm [simp]: "map_of (znorm z) = map_of z"
  by (simp add: znorm_def map_of_sort_key distinct_clearjunk map_of_clearjunk)

lemma fst_set_znorm [simp]: "fst ` set (znorm z) = fst ` set z"
  by (simp add: znorm_def dom_clearjunk)

lemma znorm_eq_Nil [simp]: "znorm z = [] \<longleftrightarrow> z = []"
  by (metis fst_set_znorm image_is_empty set_empty)

lemma znorm_delete: "znorm (AList.delete v z) = filter (\<lambda>p. fst p \<noteq> v) (znorm z)"
proof -
  have *: "AList.delete v w = filter (\<lambda>p. fst p \<noteq> v) w" for w :: "(rstr \<times> int) list"
    by (auto simp: AList.delete_eq intro: filter_cong)
  show ?thesis
    by (simp add: znorm_def clearjunk_delete) (simp add: * filter_sort)
qed

lemma map_of_filter_notin:
  "map_of (filter (\<lambda>p. fst p \<notin> A) al) = (\<lambda>k. if k \<in> A then None else map_of al k)"
  by (induction al) (auto simp: fun_eq_iff)

lemma mem_move_doc:
  assumes "mem_move a b fr to m = (r, m')"
  shows "if mlists m a = [] then r = RNil \<and> m' = m
         else r = RStr (fst (pop_side fr (mlists m a))) \<and> mem_view m' = move_list a b fr to (mem_view m)"
  using assms
  by (auto simp: mem_move_def move_list_def mem_view_def Let_def split: if_splits prod.splits)

lemma mem_exists_view: "mem_exists m k = key_exists (mem_view m) k"
  by (simp add: mem_exists_def key_exists_def mem_view_def)

lemma mem_srv_no_error: "\<not> is_err (fst (mem_srv m c))"
  by (cases c) (auto simp: mem_move_def Let_def split: option.splits prod.splits)

lemma mem_srv_hdel_count:
  "length (filter P (remdups fs)) = card {f \<in> set fs. P f}"
  using distinct_card [of "filter P (remdups fs)"] by simp

lemma mem_srv_doc: "mem_srv m c = (r, m') \<Longrightarrow> doc c (mem_view m) r (mem_view m')"
proof (cases c)
  case (ZADD k sc v)
  assume "mem_srv m c = (r, m')"
  then have r: "r = RInt (if v \<in> fst ` set (mzsets m k) then 0 else 1)"
    and m': "m' = m\<lparr>mzsets := (mzsets m)(k := AList.update v sc (mzsets m k))\<rparr>"
    by (auto simp: ZADD)
  let ?z = "znorm (AList.update v sc (mzsets m k))"
  have "zset_ok ?z" by (rule zset_ok_znorm)
  moreover have "map_of ?z = (map_of (mzsets m k))(v \<mapsto> sc)" by (simp add: update_conv')
  ultimately show ?thesis
    unfolding ZADD m' r doc.simps by (auto simp: mem_view_def fun_eq_iff intro!: exI [of _ ?z])
next
  case (ZREM k v)
  assume "mem_srv m c = (r, m')"
  then show ?thesis
    by (auto simp: ZREM mem_view_def fun_eq_iff znorm_delete)
next
  case (HGETALL k)
  assume "mem_srv m c = (r, m')"
  then show ?thesis
    by (auto simp: HGETALL mem_view_def distinct_clearjunk map_of_clearjunk)
next
  case (SMEMBERS k)
  assume "mem_srv m c = (r, m')"
  then show ?thesis
    by (auto simp: SMEMBERS mem_view_def intro!: exI [of _ "remdups (msets m k)"])
qed (auto simp: mem_view_def update_conv' fun_eq_iff znorm_delete map_of_filter_notin
       mem_exists_view mem_srv_hdel_count map_add_def dest!: mem_move_doc split: if_splits option.splits)

interpretation mem: live_server mem_srv mem_mul mem_view
proof unfold_locales
  fix m c r m'
  assume "mem_srv m c = (r, m')"
  then show "doc c (mem_view m) r (mem_view m')" by (rule mem_srv_doc)
next
  fix m c e m'
  assume "mem_srv m c = (RErr e, m')"
  with mem_srv_no_error [of m c] show "mem_view m' = mem_view m" by simp
qed (auto simp: mem_view_def zset_ok_znorm mem_mul_def mem_srv_no_error split: prod.splits)

end
