(* ===== verification/Redis_Keys.thy ===== *)
theory Redis_Keys
  imports Redis_Server
begin

text \<open>
  \<^verbatim>\<open>src/system/common/redis-keys/redis-keys.ts\<close>: the names of all Redis keys, built by
  joining the prefix, a namespace, the number of an enumeration and the queue and instance
  names with \<open>|\<close>, and taken apart again by \<open>extractData\<close>. The module variable \<open>namespace\<close>
  is the argument \<open>cur\<close> of the functions that read it. The key records extend each other the
  way the object spreads of the source do.

  The lemmas show that building and taking apart are inverse, that keys of different kinds,
  namespaces, queues or instances differ, and what \<open>validateRedisKey\<close> and \<open>setNamespace\<close>
  let through.
\<close>

section \<open>Strings of the language\<close>

abbreviation bar :: char where "bar \<equiv> CHR ''|''"

fun js_join :: "string list \<Rightarrow> string" where
  "js_join [] = []"
| "js_join [w] = w"
| "js_join (w # v # ws) = w @ bar # js_join (v # ws)"

fun js_split :: "string \<Rightarrow> string list" where
  "js_split [] = [[]]"
| "js_split (c # cs) =
     (if c = bar then [] # js_split cs
      else (case js_split cs of [] \<Rightarrow> [[c]] | w # ws \<Rightarrow> (c # w) # ws))"

text \<open>Decimal numerals: how a number is printed by \<open>join\<close> and read back by \<open>Number(...)\<close>. Of the
  texts \<open>Number\<close> accepts only the unsigned decimal ones are modelled (and the empty one, which
  is 0): \<open>join\<close> prints no others. \<open>None\<close> is \<open>NaN\<close>.\<close>

definition digits :: string where
  "digits = ''0123456789''"

definition digit :: "nat \<Rightarrow> char" where
  "digit d = digits ! (d mod 10)"

definition digit_val :: "char \<Rightarrow> nat option" where
  "digit_val c = (if c \<in> set digits then Some (length (takeWhile (\<lambda>x. x \<noteq> c) digits)) else None)"

fun show_nat :: "nat \<Rightarrow> string" where
  "show_nat n = (if n < 10 then [digit n] else show_nat (n div 10) @ [digit (n mod 10)])"

declare show_nat.simps [simp del]

fun read_digits :: "nat \<Rightarrow> string \<Rightarrow> nat option" where
  "read_digits acc [] = Some acc"
| "read_digits acc (c # cs) =
     (case digit_val c of None \<Rightarrow> None | Some d \<Rightarrow> read_digits (10 * acc + d) cs)"

definition js_Number :: "string \<Rightarrow> nat option" where
  "js_Number s = read_digits 0 s"

section \<open>Key kinds\<close>

datatype ERedisKey =
    KEY_QUEUE
  | KEY_QUEUE_DL
  | KEY_QUEUE_DELAY
  | KEY_QUEUE_REQUEUE
  | KEY_QUEUE_SCHEDULED
  | KEY_QUEUE_PRIORITY
  | KEY_QUEUE_PROCESSING
  | KEY_QUEUE_ACKNOWLEDGED_MESSAGES
  | KEY_QUEUE_UNACKNOWLEDGED_MESSAGES
  | KEY_INDEX_QUEUES
  | KEY_INDEX_PROCESSING_QUEUES
  | KEY_INDEX_QUEUE_MESSAGE_PROCESSING_QUEUES
  | KEY_INDEX_RATES
  | KEY_INDEX_HEARTBEATS
  | KEY_LOCK_MESSAGE_MANAGER
  | KEY_LOCK_QUEUE_MANAGER
  | KEY_RATE_PRODUCER_INPUT
  | KEY_RATE_CONSUMER_PROCESSING
  | KEY_RATE_CONSUMER_ACKNOWLEDGED
  | KEY_RATE_CONSUMER_UNACKNOWLEDGED
  | KEY_LOCK_WORKER_STATS
  | KEY_LOCK_CONSUMER_WORKERS_RUNNER
  | KEY_LOCK_DELETE_PENDING_MESSAGE
  | KEY_LOCK_DELETE_PENDING_MESSAGE_WITH_PRIORITY
  | KEY_LOCK_DELETE_ACKNOWLEDGED_MESSAGE
  | KEY_LOCK_DELETE_DEAD_LETTER_MESSAGE
  | KEY_LOCK_DELETE_SCHEDULED_MESSAGE
  | KEY_HEARTBEAT
  | KEY_SCHEDULED_MESSAGES
  | KEY_PENDING_MESSAGES_WITH_PRIORITY

text \<open>The numbers TypeScript gives the members, counting from the explicit 58.\<close>

primrec key_code :: "ERedisKey \<Rightarrow> nat" where
  "key_code KEY_QUEUE = 58"
| "key_code KEY_QUEUE_DL = 59"
| "key_code KEY_QUEUE_DELAY = 60"
| "key_code KEY_QUEUE_REQUEUE = 61"
| "key_code KEY_QUEUE_SCHEDULED = 62"
| "key_code KEY_QUEUE_PRIORITY = 63"
| "key_code KEY_QUEUE_PROCESSING = 64"
| "key_code KEY_QUEUE_ACKNOWLEDGED_MESSAGES = 65"
| "key_code KEY_QUEUE_UNACKNOWLEDGED_MESSAGES = 66"
| "key_code KEY_INDEX_QUEUES = 67"
| "key_code KEY_INDEX_PROCESSING_QUEUES = 68"
| "key_code KEY_INDEX_QUEUE_MESSAGE_PROCESSING_QUEUES = 69"
| "key_code KEY_INDEX_RATES = 70"
| "key_code KEY_INDEX_HEARTBEATS = 71"
| "key_code KEY_LOCK_MESSAGE_MANAGER = 72"
| "key_code KEY_LOCK_QUEUE_MANAGER = 73"
| "key_code KEY_RATE_PRODUCER_INPUT = 74"
| "key_code KEY_RATE_CONSUMER_PROCESSING = 75"
| "key_code KEY_RATE_CONSUMER_ACKNOWLEDGED = 76"
| "key_code KEY_RATE_CONSUMER_UNACKNOWLEDGED = 77"
| "key_code KEY_LOCK_WORKER_STATS = 78"
| "key_code KEY_LOCK_CONSUMER_WORKERS_RUNNER = 79"
| "key_code KEY_LOCK_DELETE_PENDING_MESSAGE = 80"
| "key_code KEY_LOCK_DELETE_PENDING_MESSAGE_WITH_PRIORITY = 81"
| "key_code KEY_LOCK_DELETE_ACKNOWLEDGED_MESSAGE = 82"
| "key_code KEY_LOCK_DELETE_DEAD_LETTER_MESSAGE = 83"
| "key_code KEY_LOCK_DELETE_SCHEDULED_MESSAGE = 84"
| "key_code KEY_HEARTBEAT = 85"
| "key_code KEY_SCHEDULED_MESSAGES = 86"
| "key_code KEY_PENDING_MESSAGES_WITH_PRIORITY = 87"

definition nsPrefix :: string where "nsPrefix = ''redis-smq''"
definition globalNamespace :: string where "globalNamespace = ''global''"

definition joinSegments :: "string list \<Rightarrow> string" where
  "joinSegments segs = js_join segs"

text \<open>One entry of \<open>makeNamespacedKeys\<close>.\<close>

definition makeNamespacedKey :: "string \<Rightarrow> string \<Rightarrow> key" where
  "makeNamespacedKey k ns = joinSegments [nsPrefix, ns, k]"

section \<open>The key records\<close>

record globalKeys =
  keyIndexQueue :: key
  keyIndexRates :: key
  keyIndexProcessingQueues :: key
  keyIndexHeartbeats :: key
  keyLockMessageManager :: key
  keyLockQueueManager :: key
  keyLockConsumerWorkersRunner :: key
  keyLockWorkerStats :: key
  keyQueueDelay :: key
  keyQueueRequeue :: key
  keyQueueScheduled :: key
  keyLockDeleteAcknowledgedMessage :: key
  keyLockDeleteDeadLetterMessage :: key
  keyLockDeleteScheduledMessage :: key
  keyLockDeletePendingMessage :: key
  keyLockDeletePendingMessageWithPriority :: key
  keyScheduledMessages :: key

record queueKeys = globalKeys +
  keyQueue :: key
  keyQueueDL :: key
  keyIndexQueueMessageProcessingQueues :: key
  keyQueuePriority :: key
  keyQueueAcknowledgedMessages :: key
  keyQueueUnacknowledgedMessages :: key
  keyPendingMessagesWithPriority :: key

record instanceKeys = queueKeys +
  keyQueueProcessing :: key
  keyRateConsumerUnacknowledged :: key
  keyHeartbeat :: key
  keyRateConsumerProcessing :: key
  keyRateConsumerAcknowledged :: key
  keyRateProducerInput :: key

definition gkey :: "ERedisKey \<Rightarrow> key" where
  "gkey t = makeNamespacedKey (show_nat (key_code t)) globalNamespace"

definition qkey :: "ERedisKey \<Rightarrow> string \<Rightarrow> string \<Rightarrow> key" where
  "qkey t ns queueName =
     makeNamespacedKey (joinSegments [show_nat (key_code t), queueName]) ns"

definition ikey :: "ERedisKey \<Rightarrow> string \<Rightarrow> string \<Rightarrow> string \<Rightarrow> key" where
  "ikey t ns queueName instanceId =
     makeNamespacedKey (joinSegments [show_nat (key_code t), queueName, instanceId]) ns"

definition getGlobalKeys :: globalKeys where
  "getGlobalKeys =
     \<lparr>keyIndexQueue = gkey KEY_INDEX_QUEUES,
      keyIndexRates = gkey KEY_INDEX_RATES,
      keyIndexProcessingQueues = gkey KEY_INDEX_PROCESSING_QUEUES,
      keyIndexHeartbeats = gkey KEY_INDEX_HEARTBEATS,
      keyLockMessageManager = gkey KEY_LOCK_MESSAGE_MANAGER,
      keyLockQueueManager = gkey KEY_LOCK_QUEUE_MANAGER,
      keyLockConsumerWorkersRunner = gkey KEY_LOCK_CONSUMER_WORKERS_RUNNER,
      keyLockWorkerStats = gkey KEY_LOCK_WORKER_STATS,
      keyQueueDelay = gkey KEY_QUEUE_DELAY,
      keyQueueRequeue = gkey KEY_QUEUE_REQUEUE,
      keyQueueScheduled = gkey KEY_QUEUE_SCHEDULED,
      keyLockDeleteAcknowledgedMessage = gkey KEY_LOCK_DELETE_ACKNOWLEDGED_MESSAGE,
      keyLockDeleteDeadLetterMessage = gkey KEY_LOCK_DELETE_DEAD_LETTER_MESSAGE,
      keyLockDeleteScheduledMessage = gkey KEY_LOCK_DELETE_SCHEDULED_MESSAGE,
      keyLockDeletePendingMessage = gkey KEY_LOCK_DELETE_PENDING_MESSAGE,
      keyLockDeletePendingMessageWithPriority =
        gkey KEY_LOCK_DELETE_PENDING_MESSAGE_WITH_PRIORITY,
      keyScheduledMessages = gkey KEY_SCHEDULED_MESSAGES\<rparr>"

text \<open>\<open>ns ?? namespace\<close>.\<close>

definition ns_or :: "string option \<Rightarrow> string \<Rightarrow> string" where
  "ns_or ns cur = (case ns of None \<Rightarrow> cur | Some n \<Rightarrow> n)"

definition getKeys :: "string \<Rightarrow> string \<Rightarrow> string option \<Rightarrow> queueKeys" where
  "getKeys cur queueName ns =
     (let n = ns_or ns cur in
      globalKeys.extend getGlobalKeys
        (queueKeys.fields
           (qkey KEY_QUEUE n queueName)
           (qkey KEY_QUEUE_DL n queueName)
           (qkey KEY_INDEX_QUEUE_MESSAGE_PROCESSING_QUEUES n queueName)
           (qkey KEY_QUEUE_PRIORITY n queueName)
           (qkey KEY_QUEUE_ACKNOWLEDGED_MESSAGES n queueName)
           (qkey KEY_QUEUE_UNACKNOWLEDGED_MESSAGES n queueName)
           (qkey KEY_PENDING_MESSAGES_WITH_PRIORITY n queueName)))"

definition getInstanceKeys :: "string \<Rightarrow> string \<Rightarrow> string \<Rightarrow> instanceKeys" where
  "getInstanceKeys cur queueName instanceId =
     queueKeys.extend (getKeys cur queueName None)
       (instanceKeys.fields
          (ikey KEY_QUEUE_PROCESSING cur queueName instanceId)
          (ikey KEY_RATE_CONSUMER_UNACKNOWLEDGED cur queueName instanceId)
          (ikey KEY_HEARTBEAT cur queueName instanceId)
          (ikey KEY_RATE_CONSUMER_PROCESSING cur queueName instanceId)
          (ikey KEY_RATE_CONSUMER_ACKNOWLEDGED cur queueName instanceId)
          (ikey KEY_RATE_PRODUCER_INPUT cur queueName instanceId))"

section \<open>Taking keys apart\<close>

text \<open>A destructured array element that is not there is \<open>undefined\<close>, here \<open>None\<close>.\<close>

definition elem_at :: "nat \<Rightarrow> 'a list \<Rightarrow> 'a option" where
  "elem_at i xs = (if i < length xs then Some (xs ! i) else None)"

record key_segments =
  seg_ns :: "string option"
  seg_type :: "nat option"
  seg_rest :: "string list"

definition getSegments :: "string \<Rightarrow> key_segments" where
  "getSegments k =
     (let parts = js_split k in
      \<lparr>seg_ns = elem_at 1 parts,
       seg_type = (case elem_at 2 parts of None \<Rightarrow> None | Some t \<Rightarrow> js_Number t),
       seg_rest = drop 3 parts\<rparr>)"

record key_data =
  kd_ns :: "string option"
  kd_type :: nat
  kd_queueName :: "string option"
  kd_consumerId :: "string option"
  kd_producerId :: "string option"

definition extractData :: "string \<Rightarrow> key_data option" where
  "extractData k =
     (let sg = getSegments k; segments = seg_rest sg in
      case seg_type sg of
        None \<Rightarrow> None
      | Some t \<Rightarrow>
          if t = key_code KEY_QUEUE \<or> t = key_code KEY_QUEUE_PRIORITY \<or>
             t = key_code KEY_QUEUE_ACKNOWLEDGED_MESSAGES \<or> t = key_code KEY_QUEUE_DL
          then Some \<lparr>kd_ns = seg_ns sg, kd_type = t, kd_queueName = elem_at 0 segments,
                     kd_consumerId = None, kd_producerId = None\<rparr>
          else if t = key_code KEY_QUEUE_PROCESSING \<or> t = key_code KEY_RATE_CONSUMER_PROCESSING \<or>
             t = key_code KEY_RATE_CONSUMER_ACKNOWLEDGED \<or>
             t = key_code KEY_RATE_CONSUMER_UNACKNOWLEDGED \<or> t = key_code KEY_HEARTBEAT
          then Some \<lparr>kd_ns = seg_ns sg, kd_type = t, kd_queueName = elem_at 0 segments,
                     kd_consumerId = elem_at 1 segments, kd_producerId = None\<rparr>
          else if t = key_code KEY_RATE_PRODUCER_INPUT
          then Some \<lparr>kd_ns = seg_ns sg, kd_type = t, kd_queueName = elem_at 0 segments,
                     kd_consumerId = None, kd_producerId = elem_at 1 segments\<rparr>
          else None)"

section \<open>Validation\<close>

text \<open>\<open>toLowerCase\<close> on the characters of a \<open>string\<close> (ASCII letters change, all others stay) and
  the regular expression \<open>[^a-z0-9_-]\<close>.\<close>

definition lower :: "char \<Rightarrow> char" where
  "lower c = (if 65 \<le> (of_char c :: nat) \<and> (of_char c :: nat) \<le> 90
              then char_of ((of_char c :: nat) + 32) else c)"

definition key_char :: "char \<Rightarrow> bool" where
  "key_char c \<longleftrightarrow> (let n = (of_char c :: nat) in
     (97 \<le> n \<and> n \<le> 122) \<or> (48 \<le> n \<and> n \<le> 57) \<or> c = CHR ''_'' \<or> c = CHR ''-'')"

definition validateRedisKey :: "string \<Rightarrow> string result" where
  "validateRedisKey k =
     (if k = [] then Inl (RedisKeysError ''Invalid Redis key. Expected be a non empty string.'')
      else let filtered = filter key_char (map lower k) in
        if length filtered \<noteq> length k
        then Inl (RedisKeysError
          ''Invalid Redis key. Only letters (a-z), numbers (0-9) and (-_) are allowed.'')
        else Inr filtered)"

text \<open>\<open>setNamespace\<close> assigns the module variable: the result is its new value.\<close>

definition setNamespace :: "string \<Rightarrow> string result" where
  "setNamespace ns =
     bindR (validateRedisKey ns) (\<lambda>ns'.
       if ns' = globalNamespace
       then Inl (RedisKeysError (''Namespace ['' @ ns' @ ''] is reserved. Use another one.''))
       else Inr ns')"

section \<open>Joining and splitting\<close>

definition plain :: "string \<Rightarrow> bool" where
  "plain w \<longleftrightarrow> bar \<notin> set w"

lemma js_split_nonempty: "js_split s \<noteq> []"
  by (induction s) (auto split: list.splits)

lemma js_split_plain_append:
  "plain w \<Longrightarrow> js_split (w @ bar # s) = w # js_split s"
  by (induction w) (auto simp: plain_def)

lemma js_split_plain: "plain w \<Longrightarrow> js_split w = [w]"
  by (induction w) (auto simp: plain_def)

lemma js_split_join: "ws \<noteq> [] \<Longrightarrow> list_all plain ws \<Longrightarrow> js_split (js_join ws) = ws"
  by (induction ws rule: js_join.induct) (auto simp: js_split_plain js_split_plain_append)

lemma js_join_inj:
  "ws \<noteq> [] \<Longrightarrow> vs \<noteq> [] \<Longrightarrow> list_all plain ws \<Longrightarrow> list_all plain vs \<Longrightarrow>
     js_join ws = js_join vs \<longleftrightarrow> ws = vs"
  using js_split_join by metis

lemma js_join_nested: "vs \<noteq> [] \<Longrightarrow> js_join (ws @ [js_join vs]) = js_join (ws @ vs)"
proof (induction ws)
  case Nil
  then show ?case by simp
next
  case (Cons w ws)
  then show ?case by (cases ws; cases vs) auto
qed

section \<open>Reading numerals back\<close>

lemma digit_val_digit: "d < 10 \<Longrightarrow> digit_val (digit d) = Some d"
proof -
  assume "d < 10"
  then have "d \<in> set [0..<10]" by simp
  then show ?thesis
    by (auto simp: upt_rec digit_val_def digit_def digits_def)
qed

lemma plain_digit: "digit d \<noteq> bar"
proof -
  have "digit d \<in> set digits"
    unfolding digit_def by (rule nth_mem) (simp add: digits_def)
  then show ?thesis by (auto simp: digits_def)
qed

lemma plain_show_nat: "plain (show_nat n)"
proof (induction n rule: show_nat.induct)
  case (1 n)
  then show ?case
    by (subst show_nat.simps) (auto simp: plain_def plain_digit plain_digit [symmetric])
qed

lemma read_digits_append:
  "read_digits acc (xs @ ys) =
     (case read_digits acc xs of None \<Rightarrow> None | Some a \<Rightarrow> read_digits a ys)"
  by (induction xs arbitrary: acc) (auto split: option.splits)

lemma read_digits_show: "read_digits 0 (show_nat n) = Some n"
proof (induction n rule: show_nat.induct)
  case (1 n)
  show ?case
  proof (cases "n < 10")
    case True
    then show ?thesis by (subst show_nat.simps) (simp add: digit_val_digit)
  next
    case False
    with 1 have "read_digits 0 (show_nat (n div 10)) = Some (n div 10)" by simp
    with False show ?thesis
      by (subst show_nat.simps) (simp add: read_digits_append digit_val_digit)
  qed
qed

lemma js_Number_show: "js_Number (show_nat n) = Some n"
  by (simp add: js_Number_def read_digits_show)

lemma show_nat_inj [simp]: "show_nat m = show_nat n \<longleftrightarrow> m = n"
  by (metis js_Number_show option.inject)

lemma key_code_inj [simp]: "key_code t = key_code t' \<longleftrightarrow> t = t'"
  by (cases t; cases t') simp_all

section \<open>Keys as lists of segments\<close>

lemma plain_nsPrefix [simp]: "plain nsPrefix" and plain_global [simp]: "plain globalNamespace"
  by (simp_all add: plain_def nsPrefix_def globalNamespace_def)

lemma plain_code [simp]: "plain (show_nat n)"
  by (rule plain_show_nat)

lemma gkey_join: "gkey t = js_join [nsPrefix, globalNamespace, show_nat (key_code t)]"
  by (simp add: gkey_def makeNamespacedKey_def joinSegments_def)

lemma qkey_join: "qkey t ns q = js_join [nsPrefix, ns, show_nat (key_code t), q]"
  using js_join_nested [of "[show_nat (key_code t), q]" "[nsPrefix, ns]"]
  by (simp add: qkey_def makeNamespacedKey_def joinSegments_def)

lemma ikey_join: "ikey t ns q i = js_join [nsPrefix, ns, show_nat (key_code t), q, i]"
  using js_join_nested [of "[show_nat (key_code t), q, i]" "[nsPrefix, ns]"]
  by (simp add: ikey_def makeNamespacedKey_def joinSegments_def)

lemma js_join_eq_iff:
  "list_all plain ws \<Longrightarrow> list_all plain vs \<Longrightarrow> ws \<noteq> [] \<Longrightarrow> vs \<noteq> [] \<Longrightarrow>
     (js_join ws = js_join vs) = (ws = vs)"
  by (rule js_join_inj)

lemma gkey_inj [simp]: "gkey t = gkey t' \<longleftrightarrow> t = t'"
  unfolding gkey_join by (subst js_join_eq_iff) simp_all

lemma qkey_inj [simp]:
  "plain n \<Longrightarrow> plain q \<Longrightarrow> plain n' \<Longrightarrow> plain q' \<Longrightarrow>
     qkey t n q = qkey t' n' q' \<longleftrightarrow> t = t' \<and> n = n' \<and> q = q'"
  unfolding qkey_join by (subst js_join_eq_iff) auto

lemma ikey_inj [simp]:
  "plain n \<Longrightarrow> plain q \<Longrightarrow> plain i \<Longrightarrow> plain n' \<Longrightarrow> plain q' \<Longrightarrow> plain i' \<Longrightarrow>
     ikey t n q i = ikey t' n' q' i' \<longleftrightarrow> t = t' \<and> n = n' \<and> q = q' \<and> i = i'"
  unfolding ikey_join by (subst js_join_eq_iff) auto

lemma gkey_qkey [simp]: "plain n \<Longrightarrow> plain q \<Longrightarrow> gkey t \<noteq> qkey t' n q"
  unfolding gkey_join qkey_join by (subst js_join_eq_iff) auto

lemma gkey_ikey [simp]: "plain n \<Longrightarrow> plain q \<Longrightarrow> plain i \<Longrightarrow> gkey t \<noteq> ikey t' n q i"
  unfolding gkey_join ikey_join by (subst js_join_eq_iff) auto

lemma qkey_ikey [simp]:
  "plain n \<Longrightarrow> plain q \<Longrightarrow> plain n' \<Longrightarrow> plain q' \<Longrightarrow> plain i \<Longrightarrow> qkey t n q \<noteq> ikey t' n' q' i"
  unfolding qkey_join ikey_join by (subst js_join_eq_iff) auto

lemmas key_diffs [simp] =
  gkey_qkey [THEN not_sym] gkey_ikey [THEN not_sym] qkey_ikey [THEN not_sym]

section \<open>Projections of the key records\<close>

lemma getGlobalKeys_sel [smq_keys]:
  "keyIndexQueue getGlobalKeys = gkey KEY_INDEX_QUEUES"
  "keyIndexRates getGlobalKeys = gkey KEY_INDEX_RATES"
  "keyIndexProcessingQueues getGlobalKeys = gkey KEY_INDEX_PROCESSING_QUEUES"
  "keyIndexHeartbeats getGlobalKeys = gkey KEY_INDEX_HEARTBEATS"
  "keyQueueDelay getGlobalKeys = gkey KEY_QUEUE_DELAY"
  "keyQueueRequeue getGlobalKeys = gkey KEY_QUEUE_REQUEUE"
  "keyQueueScheduled getGlobalKeys = gkey KEY_QUEUE_SCHEDULED"
  "keyScheduledMessages getGlobalKeys = gkey KEY_SCHEDULED_MESSAGES"
  "keyLockDeleteScheduledMessage getGlobalKeys = gkey KEY_LOCK_DELETE_SCHEDULED_MESSAGE"
  by (simp_all add: getGlobalKeys_def)

lemma getKeys_sel [smq_keys]:
  "keyQueue (getKeys cur q ns) = qkey KEY_QUEUE (ns_or ns cur) q"
  "keyQueueDL (getKeys cur q ns) = qkey KEY_QUEUE_DL (ns_or ns cur) q"
  "keyIndexQueueMessageProcessingQueues (getKeys cur q ns) =
     qkey KEY_INDEX_QUEUE_MESSAGE_PROCESSING_QUEUES (ns_or ns cur) q"
  "keyQueuePriority (getKeys cur q ns) = qkey KEY_QUEUE_PRIORITY (ns_or ns cur) q"
  "keyQueueAcknowledgedMessages (getKeys cur q ns) =
     qkey KEY_QUEUE_ACKNOWLEDGED_MESSAGES (ns_or ns cur) q"
  "keyPendingMessagesWithPriority (getKeys cur q ns) =
     qkey KEY_PENDING_MESSAGES_WITH_PRIORITY (ns_or ns cur) q"
  "keyIndexQueue (getKeys cur q ns) = gkey KEY_INDEX_QUEUES"
  "keyIndexProcessingQueues (getKeys cur q ns) = gkey KEY_INDEX_PROCESSING_QUEUES"
  "keyQueueDelay (getKeys cur q ns) = gkey KEY_QUEUE_DELAY"
  "keyQueueRequeue (getKeys cur q ns) = gkey KEY_QUEUE_REQUEUE"
  "keyLockDeletePendingMessage (getKeys cur q ns) = gkey KEY_LOCK_DELETE_PENDING_MESSAGE"
  "keyLockDeletePendingMessageWithPriority (getKeys cur q ns) =
     gkey KEY_LOCK_DELETE_PENDING_MESSAGE_WITH_PRIORITY"
  "keyLockDeleteAcknowledgedMessage (getKeys cur q ns) =
     gkey KEY_LOCK_DELETE_ACKNOWLEDGED_MESSAGE"
  "keyLockDeleteDeadLetterMessage (getKeys cur q ns) =
     gkey KEY_LOCK_DELETE_DEAD_LETTER_MESSAGE"
  by (simp_all add: getKeys_def Let_def globalKeys.defs queueKeys.defs getGlobalKeys_def)

lemma getInstanceKeys_sel [smq_keys]:
  "keyQueueProcessing (getInstanceKeys cur q i) = ikey KEY_QUEUE_PROCESSING cur q i"
  "keyHeartbeat (getInstanceKeys cur q i) = ikey KEY_HEARTBEAT cur q i"
  "keyRateConsumerProcessing (getInstanceKeys cur q i) = ikey KEY_RATE_CONSUMER_PROCESSING cur q i"
  "keyRateConsumerAcknowledged (getInstanceKeys cur q i) =
     ikey KEY_RATE_CONSUMER_ACKNOWLEDGED cur q i"
  "keyRateConsumerUnacknowledged (getInstanceKeys cur q i) =
     ikey KEY_RATE_CONSUMER_UNACKNOWLEDGED cur q i"
  "keyRateProducerInput (getInstanceKeys cur q i) = ikey KEY_RATE_PRODUCER_INPUT cur q i"
  "keyIndexHeartbeats (getInstanceKeys cur q i) = gkey KEY_INDEX_HEARTBEATS"
  "keyIndexProcessingQueues (getInstanceKeys cur q i) = gkey KEY_INDEX_PROCESSING_QUEUES"
  "keyIndexQueueMessageProcessingQueues (getInstanceKeys cur q i) =
     qkey KEY_INDEX_QUEUE_MESSAGE_PROCESSING_QUEUES cur q"
  "keyQueue (getInstanceKeys cur q i) = qkey KEY_QUEUE cur q"
  by (simp_all add: getInstanceKeys_def getKeys_def ns_or_def Let_def globalKeys.defs queueKeys.defs
       instanceKeys.defs getGlobalKeys_def)

lemma ns_or_simps [simp]: "ns_or None cur = cur" "ns_or (Some n) cur = n"
  by (simp_all add: ns_or_def)

section \<open>What validation lets through\<close>

lemma key_char_lower: "key_char c \<Longrightarrow> lower c = c"
  by (auto simp: key_char_def lower_def Let_def)

lemma key_char_plain: "list_all key_char w \<Longrightarrow> plain w"
  by (auto simp: plain_def list_all_iff key_char_def Let_def)

lemma filter_length_all: "length (filter P xs) = length xs \<Longrightarrow> filter P xs = xs"
  by (metis filter_True length_filter_less nat_less_le)

lemma validateRedisKey_Inr:
  "validateRedisKey k = Inr w \<Longrightarrow> w = map lower k \<and> w \<noteq> [] \<and> list_all key_char w"
proof -
  assume v: "validateRedisKey k = Inr w"
  then have k: "k \<noteq> []" and len: "length (filter key_char (map lower k)) = length (map lower k)"
    and w: "w = filter key_char (map lower k)"
    by (auto simp: validateRedisKey_def Let_def split: if_splits)
  from filter_length_all [OF len] w have "w = map lower k" by simp
  moreover from w have "list_all key_char w" by (simp add: list_all_iff)
  ultimately show ?thesis using k by simp
qed

lemma validateRedisKey_accepts:
  "k \<noteq> [] \<Longrightarrow> list_all key_char (map lower k) \<Longrightarrow> validateRedisKey k = Inr (map lower k)"
  by (simp add: validateRedisKey_def Let_def list_all_iff del: map_map)

lemma lower_map_id: "list_all key_char w \<Longrightarrow> map lower w = w"
  by (induction w) (auto simp: key_char_lower)

lemma getSegments_join:
  "plain n \<Longrightarrow> list_all plain rest \<Longrightarrow>
     getSegments (js_join (nsPrefix # n # show_nat c # rest)) =
       \<lparr>seg_ns = Some n, seg_type = Some c, seg_rest = rest\<rparr>"
  using js_split_join [of "nsPrefix # n # show_nat c # rest"]
  by (simp add: getSegments_def elem_at_def js_Number_show Let_def del: js_join.simps)

lemma extractData_qkey:
  "plain n \<Longrightarrow> plain q \<Longrightarrow>
     t \<in> {KEY_QUEUE, KEY_QUEUE_PRIORITY, KEY_QUEUE_ACKNOWLEDGED_MESSAGES, KEY_QUEUE_DL} \<Longrightarrow>
     extractData (qkey t n q) =
       Some \<lparr>kd_ns = Some n, kd_type = key_code t, kd_queueName = Some q,
             kd_consumerId = None, kd_producerId = None\<rparr>"
  unfolding qkey_join extractData_def
  by (subst getSegments_join) (auto simp: elem_at_def)

lemma extractData_consumer:
  "plain n \<Longrightarrow> plain q \<Longrightarrow> plain i \<Longrightarrow>
     t \<in> {KEY_QUEUE_PROCESSING, KEY_RATE_CONSUMER_PROCESSING, KEY_RATE_CONSUMER_ACKNOWLEDGED,
           KEY_RATE_CONSUMER_UNACKNOWLEDGED, KEY_HEARTBEAT} \<Longrightarrow>
     extractData (ikey t n q i) =
       Some \<lparr>kd_ns = Some n, kd_type = key_code t, kd_queueName = Some q,
             kd_consumerId = Some i, kd_producerId = None\<rparr>"
  unfolding ikey_join extractData_def
  by (subst getSegments_join) (auto simp: elem_at_def)

lemma extractData_producer:
  "plain n \<Longrightarrow> plain q \<Longrightarrow> plain i \<Longrightarrow>
     extractData (ikey KEY_RATE_PRODUCER_INPUT n q i) =
       Some \<lparr>kd_ns = Some n, kd_type = key_code KEY_RATE_PRODUCER_INPUT, kd_queueName = Some q,
             kd_consumerId = None, kd_producerId = Some i\<rparr>"
  unfolding ikey_join extractData_def
  by (subst getSegments_join) (auto simp: elem_at_def)

section \<open>Properties\<close>

text \<open>Taking apart the key of a consumer's processing queue, of its heartbeat or of its rates,
  the key of a producer's rate, or the key of a queue gives back the namespace, the queue name
  and the instance identifier it was built from.\<close>

theorem extractData_getKeys:
  assumes "plain ns" and "plain q" and "plain i"
  shows "extractData (keyQueueProcessing (getInstanceKeys ns q i)) =
           Some \<lparr>kd_ns = Some ns, kd_type = key_code KEY_QUEUE_PROCESSING, kd_queueName = Some q,
                 kd_consumerId = Some i, kd_producerId = None\<rparr>
    \<and> extractData (keyHeartbeat (getInstanceKeys ns q i)) =
           Some \<lparr>kd_ns = Some ns, kd_type = key_code KEY_HEARTBEAT, kd_queueName = Some q,
                 kd_consumerId = Some i, kd_producerId = None\<rparr>
    \<and> extractData (keyRateProducerInput (getInstanceKeys ns q i)) =
           Some \<lparr>kd_ns = Some ns, kd_type = key_code KEY_RATE_PRODUCER_INPUT, kd_queueName = Some q,
                 kd_consumerId = None, kd_producerId = Some i\<rparr>
    \<and> extractData (keyQueueDL (getKeys cur q (Some ns))) =
           Some \<lparr>kd_ns = Some ns, kd_type = key_code KEY_QUEUE_DL, kd_queueName = Some q,
                 kd_consumerId = None, kd_producerId = None\<rparr>"
  using assms
  by (simp add: smq_keys extractData_consumer extractData_producer extractData_qkey)

theorem extractData_getKeys_witness:
  "extractData (keyHeartbeat (getInstanceKeys ''default'' ''q1'' ''c-1'')) =
     Some \<lparr>kd_ns = Some ''default'', kd_type = 85, kd_queueName = Some ''q1'',
           kd_consumerId = Some ''c-1'', kd_producerId = None\<rparr>"
  using extractData_getKeys [of "''default''" "''q1''" "''c-1''" "''x''"] by (simp add: plain_def)



text \<open>\<open>validateRedisKey\<close> accepts exactly the non-empty strings whose lower-cased characters are
  letters, digits, underscore or hyphen, and returns the lower-cased string; the reserved
  global namespace never becomes the current one, and a namespace that was set can be set
  again unchanged.\<close>

theorem setNamespace_spec:
  "(validateRedisKey k = Inr w \<longleftrightarrow> k \<noteq> [] \<and> list_all key_char (map lower k) \<and> w = map lower k)
   \<and> (setNamespace k = Inr w \<longrightarrow> w \<noteq> globalNamespace \<and> plain w \<and> setNamespace w = Inr w)"
proof
  show v: "validateRedisKey k = Inr w \<longleftrightarrow>
      k \<noteq> [] \<and> list_all key_char (map lower k) \<and> w = map lower k"
    using validateRedisKey_Inr validateRedisKey_accepts by (metis list.map_disc_iff)
  show "setNamespace k = Inr w \<longrightarrow> w \<noteq> globalNamespace \<and> plain w \<and> setNamespace w = Inr w"
  proof
    assume "setNamespace k = Inr w"
    then have *: "validateRedisKey k = Inr w" and ng: "w \<noteq> globalNamespace"
      by (auto simp: setNamespace_def io_iff split: if_splits)
    from validateRedisKey_Inr [OF *] have w: "w \<noteq> []" "list_all key_char w" by auto
    then have "validateRedisKey w = Inr w"
      using validateRedisKey_accepts [of w] by (simp add: lower_map_id)
    with ng w show "w \<noteq> globalNamespace \<and> plain w \<and> setNamespace w = Inr w"
      by (simp add: setNamespace_def key_char_plain)
  qed
qed

theorem setNamespace_spec_witness:
  "setNamespace ''My_App'' = Inr ''my_app'' \<and> ''my_app'' \<noteq> globalNamespace"
proof -
  have *: "setNamespace ''My_App'' = Inr ''my_app''" by code_simp
  with setNamespace_spec [of "''My_App''" "''my_app''"] show ?thesis by simp
qed

end
