(* ===== verification/Message.thy ===== *)
theory Message
  imports Redis_Server
begin

text \<open>
  \<^verbatim>\<open>src/system/message.ts\<close>: the message object, its setters with their guards, the life-cycle
  predicates the broker and the scheduler ask (expiration, retry threshold, periodicity) and its
  JSON form. A method that mutates the object returns the new record, a method that may throw
  returns a \<open>result\<close>. Numbers of the source are integers here (milliseconds, counters and
  priorities, all far below \<open>2 ^ 53\<close>); an unset nullable field is \<open>None\<close>; for \<open>body\<close>, of type
  \<open>unknown\<close>, \<open>None\<close> is \<open>undefined\<close> and \<open>Some JNull\<close> is \<open>null\<close>. The clock (\<open>now\<close>), the result of
  \<open>uuid()\<close> and the cron parser are arguments.
\<close>

section \<open>Data\<close>

record TMessageQueue =
  q_name :: string
  q_ns :: string

record TMessageDefaultOptions =
  opt_consumeTimeout :: int
  opt_ttl :: int
  opt_retryThreshold :: int
  opt_retryDelay :: int

text \<open>\<open>Partial<TMessageDefaultOptions>\<close>: an option that is not given is \<open>None\<close>.\<close>

record TPartialOptions =
  popt_consumeTimeout :: "int option"
  popt_ttl :: "int option"
  popt_retryThreshold :: "int option"
  popt_retryDelay :: "int option"

record message =
  body :: "json option"
  priority :: "int option"
  scheduledCron :: "string option"
  scheduledDelay :: "int option"
  scheduledPeriod :: "int option"
  scheduledRepeat :: int
  queue :: "TMessageQueue option"
  publishedAt :: "int option"
  scheduledAt :: "int option"
  scheduledCronFired :: bool
  attempts :: int
  scheduledRepeatCount :: int
  delayed :: bool
  expired :: bool
  createdAt :: int
  uuid :: string
  ttl :: int
  retryDelay :: int
  retryThreshold :: int
  consumeTimeout :: int

text \<open>A cron expression either does not parse or gives the first matching time after a given one:
  \<open>parseExpression(cron)\<close> and \<open>.next().getTime()\<close> of cron-parser.\<close>

type_synonym cron_parser = "string \<Rightarrow> (int \<Rightarrow> int) result"

definition defaultOpts :: TMessageDefaultOptions where
  "defaultOpts = \<lparr>opt_consumeTimeout = 0, opt_ttl = 0, opt_retryThreshold = 3,
     opt_retryDelay = 60000\<rparr>"

text \<open>The values of \<open>Message.MessagePriority\<close>, from \<open>LOWEST\<close> to \<open>HIGHEST\<close>.\<close>

definition MessagePriority :: "int list" where
  "MessagePriority = [7, 6, 5, 4, 3, 2, 1, 0]"

definition priority_NORMAL :: int where "priority_NORMAL = 4"

definition newMessage :: "TMessageDefaultOptions \<Rightarrow> int \<Rightarrow> string \<Rightarrow> message" where
  "newMessage opts now mid =
     \<lparr>body = Some JNull, priority = None, scheduledCron = None, scheduledDelay = None,
      scheduledPeriod = None, scheduledRepeat = 0, queue = None, publishedAt = None,
      scheduledAt = None, scheduledCronFired = False, attempts = 0, scheduledRepeatCount = 0,
      delayed = False, expired = False, createdAt = now, uuid = mid, ttl = opt_ttl opts,
      retryDelay = opt_retryDelay opts, retryThreshold = opt_retryThreshold opts,
      consumeTimeout = opt_consumeTimeout opts\<rparr>"

section \<open>Setters\<close>

definition reset :: "message \<Rightarrow> message" where
  "reset m = m\<lparr>publishedAt := None, scheduledAt := None, attempts := 0, expired := False,
     delayed := False, scheduledCronFired := False, scheduledRepeatCount := 0, queue := None\<rparr>"

definition setScheduledAt :: "int \<Rightarrow> message \<Rightarrow> message" where
  "setScheduledAt t m = m\<lparr>scheduledAt := Some t\<rparr>"

definition setScheduledPeriod :: "int \<Rightarrow> message \<Rightarrow> message result" where
  "setScheduledPeriod p m =
     (if p < 1000 then Inl (ArgumentError ''Scheduling period should not be less than 1 second'')
      else Inr (m\<lparr>scheduledPeriod := Some p\<rparr>))"

definition setScheduledDelay :: "int \<Rightarrow> message \<Rightarrow> message result" where
  "setScheduledDelay d m =
     (if d < 1000 then Inl (ArgumentError ''Scheduling delay should not be less than 1 second'')
      else Inr (m\<lparr>scheduledDelay := Some d, delayed := False\<rparr>))"

definition setScheduledCron :: "cron_parser \<Rightarrow> string \<Rightarrow> message \<Rightarrow> message result" where
  "setScheduledCron parseExpression c m =
     bindR (parseExpression c) (\<lambda>_. Inr (m\<lparr>scheduledCron := Some c\<rparr>))"

definition setScheduledRepeat :: "int \<Rightarrow> message \<Rightarrow> message" where
  "setScheduledRepeat n m = m\<lparr>scheduledRepeat := n\<rparr>"

definition setTTL :: "int \<Rightarrow> message \<Rightarrow> message result" where
  "setTTL t m =
     (if t < 1000 then Inl (ArgumentError ''TTL should not be less than 1 second'')
      else Inr (m\<lparr>ttl := t\<rparr>))"

definition setConsumeTimeout :: "int \<Rightarrow> message \<Rightarrow> message result" where
  "setConsumeTimeout t m =
     (if t < 1000 then Inl (ArgumentError ''Timeout should not be less than 1 second'')
      else Inr (m\<lparr>consumeTimeout := t\<rparr>))"

definition setRetryThreshold :: "int \<Rightarrow> message \<Rightarrow> message" where
  "setRetryThreshold n m = m\<lparr>retryThreshold := n\<rparr>"

definition setRetryDelay :: "int \<Rightarrow> message \<Rightarrow> message result" where
  "setRetryDelay d m =
     (if d < 1000 then Inl (ArgumentError ''Delay should not be less than 1 second'')
      else Inr (m\<lparr>retryDelay := d\<rparr>))"

definition setAttempts :: "int \<Rightarrow> message \<Rightarrow> message" where
  "setAttempts n m = m\<lparr>attempts := n\<rparr>"

text \<open>The value \<open>incrAttempts\<close> and \<open>incrMessageScheduledRepeatCount\<close> return is the new counter, which
  is read off the new record.\<close>

definition incrAttempts :: "message \<Rightarrow> message" where
  "incrAttempts m = setAttempts (attempts m + 1) m"

definition setBody :: "json option \<Rightarrow> message \<Rightarrow> message" where
  "setBody b m = m\<lparr>body := b\<rparr>"

definition setMessageScheduledRepeatCount :: "int \<Rightarrow> message \<Rightarrow> message" where
  "setMessageScheduledRepeatCount n m = m\<lparr>scheduledRepeatCount := n\<rparr>"

definition setMessageScheduledCronFired :: "bool \<Rightarrow> message \<Rightarrow> message" where
  "setMessageScheduledCronFired b m = m\<lparr>scheduledCronFired := b\<rparr>"

definition incrMessageScheduledRepeatCount :: "message \<Rightarrow> message" where
  "incrMessageScheduledRepeatCount m = m\<lparr>scheduledRepeatCount := scheduledRepeatCount m + 1\<rparr>"

definition resetMessageScheduledRepeatCount :: "message \<Rightarrow> message" where
  "resetMessageScheduledRepeatCount m = m\<lparr>scheduledRepeatCount := 0\<rparr>"

definition setMessageDelayed :: "bool \<Rightarrow> message \<Rightarrow> message" where
  "setMessageDelayed b m = m\<lparr>delayed := b\<rparr>"

definition setPriority :: "int \<Rightarrow> message \<Rightarrow> message result" where
  "setPriority p m =
     (if p \<notin> set MessagePriority then Inl (ArgumentError ''Invalid message priority.'')
      else Inr (m\<lparr>priority := Some p\<rparr>))"

definition setQueue :: "string \<Rightarrow> string \<Rightarrow> message \<Rightarrow> message" where
  "setQueue ns name m = m\<lparr>queue := Some \<lparr>q_name = name, q_ns = ns\<rparr>\<rparr>"

definition setPublishedAt :: "int \<Rightarrow> message \<Rightarrow> message" where
  "setPublishedAt t m = m\<lparr>publishedAt := Some t\<rparr>"

section \<open>Queries\<close>

text \<open>The plain getters are the record selectors: \<open>getQueue\<close> is \<open>queue\<close>, \<open>getId\<close> is \<open>uuid\<close> and so
  on.\<close>

text \<open>\<open>hasExpired\<close> caches its answer in the message.\<close>

definition hasExpired :: "int \<Rightarrow> message \<Rightarrow> bool \<times> message" where
  "hasExpired now m =
     (let m' = (if \<not> expired m \<and> ttl m \<noteq> 0
                then m\<lparr>expired := createdAt m + ttl m - now \<le> 0\<rparr> else m)
      in (expired m', m'))"

definition hasRetryThresholdExceeded :: "message \<Rightarrow> bool" where
  "hasRetryThresholdExceeded m =
     (if retryThreshold m \<noteq> 0 then attempts m + 1 \<ge> retryThreshold m else False)"

definition getSetPriority :: "int option \<Rightarrow> message \<Rightarrow> (int \<times> message) result" where
  "getSetPriority p m =
     (let defaultPriority = (case p of None \<Rightarrow> priority_NORMAL | Some x \<Rightarrow> x) in
      if defaultPriority \<notin> set MessagePriority then Inl (ArgumentError ''Invalid message priority'')
      else let msgPriority = (case priority m of None \<Rightarrow> defaultPriority | Some x \<Rightarrow> x) in
        if Some msgPriority \<noteq> priority m
        then bindR (setPriority msgPriority m) (\<lambda>m'. Inr (msgPriority, m'))
        else Inr (msgPriority, m))"

definition isSchedulable :: "message \<Rightarrow> bool" where
  "isSchedulable m \<longleftrightarrow> scheduledCron m \<noteq> None \<or> scheduledDelay m \<noteq> None \<or> scheduledRepeat m > 0"

definition isPeriodic :: "message \<Rightarrow> bool" where
  "isPeriodic m \<longleftrightarrow> scheduledCron m \<noteq> None \<or> scheduledRepeat m > 0"

section \<open>The JSON form\<close>

fun opt_json :: "('a \<Rightarrow> json) \<Rightarrow> 'a option \<Rightarrow> json" where
  "opt_json f None = JNull"
| "opt_json f (Some x) = f x"

definition queue_json :: "TMessageQueue \<Rightarrow> json" where
  "queue_json q = JObj [(''name'', JStr (q_name q)), (''ns'', JStr (q_ns q))]"

text \<open>\<open>JSON.stringify(this)\<close>: the own properties in the order the constructor creates them; a
  property whose value is \<open>undefined\<close> is left out.\<close>

definition message_fields :: "message \<Rightarrow> (string \<times> json) list" where
  "message_fields m =
     (case body m of None \<Rightarrow> [] | Some b \<Rightarrow> [(''body'', b)]) @
     [(''priority'', opt_json JNum (priority m)),
      (''scheduledCron'', opt_json JStr (scheduledCron m)),
      (''scheduledDelay'', opt_json JNum (scheduledDelay m)),
      (''scheduledPeriod'', opt_json JNum (scheduledPeriod m)),
      (''scheduledRepeat'', JNum (scheduledRepeat m)),
      (''queue'', opt_json queue_json (queue m)),
      (''publishedAt'', opt_json JNum (publishedAt m)),
      (''scheduledAt'', opt_json JNum (scheduledAt m)),
      (''scheduledCronFired'', JBool (scheduledCronFired m)),
      (''attempts'', JNum (attempts m)),
      (''scheduledRepeatCount'', JNum (scheduledRepeatCount m)),
      (''delayed'', JBool (delayed m)),
      (''expired'', JBool (expired m)),
      (''createdAt'', JNum (createdAt m)),
      (''uuid'', JStr (uuid m)),
      (''ttl'', JNum (ttl m)),
      (''retryDelay'', JNum (retryDelay m)),
      (''retryThreshold'', JNum (retryThreshold m)),
      (''consumeTimeout'', JNum (consumeTimeout m))]"

definition toString :: "message \<Rightarrow> rstr" where
  "toString m = Json (JObj (message_fields m))"

text \<open>Reading one property back. A value of a type the property never has is outside the model:
  no text written by the program has one, and it is answered with an error here.\<close>

fun j_int :: "json \<Rightarrow> int result" where
  "j_int (JNum n) = Inr n"
| "j_int _ = Inl SyntaxError"

fun j_bool :: "json \<Rightarrow> bool result" where
  "j_bool (JBool b) = Inr b"
| "j_bool _ = Inl SyntaxError"

fun j_str :: "json \<Rightarrow> string result" where
  "j_str (JStr s) = Inr s"
| "j_str _ = Inl SyntaxError"

definition j_opt :: "(json \<Rightarrow> 'a result) \<Rightarrow> json \<Rightarrow> 'a option result" where
  "j_opt f j = (if j = JNull then Inr None else bindR (f j) (\<lambda>x. Inr (Some x)))"

fun j_queue :: "json \<Rightarrow> TMessageQueue result" where
  "j_queue (JObj [(a, JStr n), (b, JStr s)]) =
     (if a = ''name'' \<and> b = ''ns'' then Inr \<lparr>q_name = n, q_ns = s\<rparr> else Inl SyntaxError)"
| "j_queue _ = Inl SyntaxError"

definition assign_field :: "string \<Rightarrow> json \<Rightarrow> message \<Rightarrow> message result" where
  "assign_field f v m =
     (if f = ''body'' then Inr (m\<lparr>body := Some v\<rparr>)
      else if f = ''priority'' then bindR (j_opt j_int v) (\<lambda>x. Inr (m\<lparr>priority := x\<rparr>))
      else if f = ''scheduledCron'' then bindR (j_opt j_str v) (\<lambda>x. Inr (m\<lparr>scheduledCron := x\<rparr>))
      else if f = ''scheduledDelay'' then bindR (j_opt j_int v) (\<lambda>x. Inr (m\<lparr>scheduledDelay := x\<rparr>))
      else if f = ''scheduledPeriod'' then bindR (j_opt j_int v) (\<lambda>x. Inr (m\<lparr>scheduledPeriod := x\<rparr>))
      else if f = ''scheduledRepeat'' then bindR (j_int v) (\<lambda>x. Inr (m\<lparr>scheduledRepeat := x\<rparr>))
      else if f = ''queue'' then bindR (j_opt j_queue v) (\<lambda>x. Inr (m\<lparr>queue := x\<rparr>))
      else if f = ''publishedAt'' then bindR (j_opt j_int v) (\<lambda>x. Inr (m\<lparr>publishedAt := x\<rparr>))
      else if f = ''scheduledAt'' then bindR (j_opt j_int v) (\<lambda>x. Inr (m\<lparr>scheduledAt := x\<rparr>))
      else if f = ''scheduledCronFired''
        then bindR (j_bool v) (\<lambda>x. Inr (m\<lparr>scheduledCronFired := x\<rparr>))
      else if f = ''attempts'' then bindR (j_int v) (\<lambda>x. Inr (m\<lparr>attempts := x\<rparr>))
      else if f = ''scheduledRepeatCount''
        then bindR (j_int v) (\<lambda>x. Inr (m\<lparr>scheduledRepeatCount := x\<rparr>))
      else if f = ''delayed'' then bindR (j_bool v) (\<lambda>x. Inr (m\<lparr>delayed := x\<rparr>))
      else if f = ''expired'' then bindR (j_bool v) (\<lambda>x. Inr (m\<lparr>expired := x\<rparr>))
      else if f = ''createdAt'' then bindR (j_int v) (\<lambda>x. Inr (m\<lparr>createdAt := x\<rparr>))
      else if f = ''uuid'' then bindR (j_str v) (\<lambda>x. Inr (m\<lparr>uuid := x\<rparr>))
      else if f = ''ttl'' then bindR (j_int v) (\<lambda>x. Inr (m\<lparr>ttl := x\<rparr>))
      else if f = ''retryDelay'' then bindR (j_int v) (\<lambda>x. Inr (m\<lparr>retryDelay := x\<rparr>))
      else if f = ''retryThreshold'' then bindR (j_int v) (\<lambda>x. Inr (m\<lparr>retryThreshold := x\<rparr>))
      else if f = ''consumeTimeout'' then bindR (j_int v) (\<lambda>x. Inr (m\<lparr>consumeTimeout := x\<rparr>))
      else Inr m)"

fun assign_fields :: "(string \<times> json) list \<Rightarrow> message \<Rightarrow> message result" where
  "assign_fields [] m = Inr m"
| "assign_fields ((f, v) # fvs) m = bindR (assign_field f v m) (assign_fields fvs)"

text \<open>\<open>createFromMessage\<close> of a text: \<open>m0\<close> is the \<open>new Message()\<close> the parsed properties are assigned
  to. \<open>null\<close> (what \<open>HMGET\<close> gives for a missing field) leaves it as it is.\<close>

definition createFromMessage :: "message \<Rightarrow> rstr option \<Rightarrow> bool \<Rightarrow> message result" where
  "createFromMessage m0 src rst =
     bindR (case src of
              None \<Rightarrow> Inr m0
            | Some (Str s) \<Rightarrow> Inl SyntaxError
            | Some (Json j) \<Rightarrow> (case j of JObj fvs \<Rightarrow> assign_fields fvs m0 | _ \<Rightarrow> Inr m0))
           (\<lambda>m. Inr (if rst then reset m else m))"

text \<open>\<open>createFromMessage\<close> of a message object copies every property.\<close>

definition createFromObject :: "message \<Rightarrow> bool \<Rightarrow> message" where
  "createFromObject m rst = (if rst then reset m else m)"

text \<open>\<open>options.x && options.x < 1000\<close>, and one entry of \<open>{...defaults, ...options}\<close>.\<close>

definition bad_span :: "int option \<Rightarrow> bool" where
  "bad_span x = (case x of None \<Rightarrow> False | Some v \<Rightarrow> v \<noteq> 0 \<and> v < 1000)"

definition opt_or :: "int option \<Rightarrow> int \<Rightarrow> int" where
  "opt_or x old = (case x of None \<Rightarrow> old | Some v \<Rightarrow> v)"

definition setDefaultOptions ::
  "TPartialOptions \<Rightarrow> TMessageDefaultOptions \<Rightarrow> TMessageDefaultOptions result" where
  "setDefaultOptions p d =
     (if bad_span (popt_consumeTimeout p)
      then Inl (ConfigurationError ''Consume timeout should not be less than 1 second'')
      else if bad_span (popt_retryDelay p)
      then Inl (ConfigurationError ''Retry delay should not be less than 1 second'')
      else if bad_span (popt_ttl p)
      then Inl (ConfigurationError ''TTL should not be less than 1 second'')
      else Inr \<lparr>opt_consumeTimeout = opt_or (popt_consumeTimeout p) (opt_consumeTimeout d),
                opt_ttl = opt_or (popt_ttl p) (opt_ttl d),
                opt_retryThreshold = opt_or (popt_retryThreshold p) (opt_retryThreshold d),
                opt_retryDelay = opt_or (popt_retryDelay p) (opt_retryDelay d)\<rparr>)"

section \<open>Round trip\<close>

text \<open>The body a message has after it went through its text.\<close>

definition body_text :: "message \<Rightarrow> message \<Rightarrow> message" where
  "body_text m0 m = (if body m = None then m\<lparr>body := body m0\<rparr> else m)"

lemma j_opt_num [simp]: "j_opt j_int (opt_json JNum x) = Inr x"
  by (cases x) (simp_all add: j_opt_def)

lemma j_opt_str [simp]: "j_opt j_str (opt_json JStr x) = Inr x"
  by (cases x) (simp_all add: j_opt_def)

lemma j_opt_queue [simp]: "j_opt j_queue (opt_json queue_json x) = Inr x"
  by (cases x) (simp_all add: j_opt_def queue_json_def)

lemma assign_field_simps [simp]:
  "assign_field ''body'' v m = Inr (m\<lparr>body := Some v\<rparr>)"
  "assign_field ''priority'' (opt_json JNum i) m = Inr (m\<lparr>priority := i\<rparr>)"
  "assign_field ''scheduledCron'' (opt_json JStr s) m = Inr (m\<lparr>scheduledCron := s\<rparr>)"
  "assign_field ''scheduledDelay'' (opt_json JNum i) m = Inr (m\<lparr>scheduledDelay := i\<rparr>)"
  "assign_field ''scheduledPeriod'' (opt_json JNum i) m = Inr (m\<lparr>scheduledPeriod := i\<rparr>)"
  "assign_field ''scheduledRepeat'' (JNum n) m = Inr (m\<lparr>scheduledRepeat := n\<rparr>)"
  "assign_field ''queue'' (opt_json queue_json q) m = Inr (m\<lparr>queue := q\<rparr>)"
  "assign_field ''publishedAt'' (opt_json JNum i) m = Inr (m\<lparr>publishedAt := i\<rparr>)"
  "assign_field ''scheduledAt'' (opt_json JNum i) m = Inr (m\<lparr>scheduledAt := i\<rparr>)"
  "assign_field ''scheduledCronFired'' (JBool b) m = Inr (m\<lparr>scheduledCronFired := b\<rparr>)"
  "assign_field ''attempts'' (JNum n) m = Inr (m\<lparr>attempts := n\<rparr>)"
  "assign_field ''scheduledRepeatCount'' (JNum n) m = Inr (m\<lparr>scheduledRepeatCount := n\<rparr>)"
  "assign_field ''delayed'' (JBool b) m = Inr (m\<lparr>delayed := b\<rparr>)"
  "assign_field ''expired'' (JBool b) m = Inr (m\<lparr>expired := b\<rparr>)"
  "assign_field ''createdAt'' (JNum n) m = Inr (m\<lparr>createdAt := n\<rparr>)"
  "assign_field ''uuid'' (JStr u) m = Inr (m\<lparr>uuid := u\<rparr>)"
  "assign_field ''ttl'' (JNum n) m = Inr (m\<lparr>ttl := n\<rparr>)"
  "assign_field ''retryDelay'' (JNum n) m = Inr (m\<lparr>retryDelay := n\<rparr>)"
  "assign_field ''retryThreshold'' (JNum n) m = Inr (m\<lparr>retryThreshold := n\<rparr>)"
  "assign_field ''consumeTimeout'' (JNum n) m = Inr (m\<lparr>consumeTimeout := n\<rparr>)"
  by (simp_all add: assign_field_def)

lemma assign_message_fields: "assign_fields (message_fields m) m0 = Inr (body_text m0 m)"
  by (cases "body m") (simp_all add: message_fields_def body_text_def)

lemma createFromMessage_toString [simp]:
  "createFromMessage m0 (Some (toString m)) rst =
     Inr (if rst then reset (body_text m0 m) else body_text m0 m)"
  by (simp add: createFromMessage_def toString_def assign_message_fields)

lemma body_text_defined [simp]: "body m \<noteq> None \<Longrightarrow> body_text m0 m = m"
  by (auto simp: body_text_def)

lemma body_text_sel [simp]:
  "uuid (body_text m0 m) = uuid m" "queue (body_text m0 m) = queue m"
  "attempts (body_text m0 m) = attempts m" "ttl (body_text m0 m) = ttl m"
  "retryDelay (body_text m0 m) = retryDelay m" "createdAt (body_text m0 m) = createdAt m"
  by (simp_all add: body_text_def)

lemma toString_inj [simp]: "toString m = toString m' \<longleftrightarrow> m = m'"
proof
  assume eq: "toString m = toString m'"
  have "body_text m0 m = body_text m0 m'" for m0
    using createFromMessage_toString [of m0 m False] createFromMessage_toString [of m0 m' False] eq
    by simp
  from this [of "newMessage defaultOpts 0 []"] have
    *: "body_text (newMessage defaultOpts 0 []) m = body_text (newMessage defaultOpts 0 []) m'" .
  from eq have "length (message_fields m) = length (message_fields m')"
    by (simp add: toString_def)
  then have "body m = None \<longleftrightarrow> body m' = None"
    by (auto simp: message_fields_def split: option.splits)
  with * show "m = m'"
    by (cases m; cases m') (auto simp: body_text_def split: if_splits)
qed simp

lemma toString_not_Str [simp]: "toString m \<noteq> Str s" "Str s \<noteq> toString m"
  by (simp_all add: toString_def)

section \<open>Well-formed messages\<close>

text \<open>A time span of a message: unset (0) or at least one second.\<close>

definition span_ok :: "int \<Rightarrow> bool" where
  "span_ok v \<longleftrightarrow> v = 0 \<or> v \<ge> 1000"

definition opts_ok :: "TMessageDefaultOptions \<Rightarrow> bool" where
  "opts_ok d \<longleftrightarrow> span_ok (opt_consumeTimeout d) \<and> span_ok (opt_ttl d) \<and> span_ok (opt_retryDelay d)"

definition opt_ok :: "('a \<Rightarrow> bool) \<Rightarrow> 'a option \<Rightarrow> bool" where
  "opt_ok P x = (case x of None \<Rightarrow> True | Some v \<Rightarrow> P v)"

definition msg_ok :: "message \<Rightarrow> bool" where
  "msg_ok m \<longleftrightarrow> span_ok (ttl m) \<and> span_ok (retryDelay m) \<and> span_ok (consumeTimeout m)
     \<and> opt_ok (\<lambda>p. p \<ge> 1000) (scheduledPeriod m) \<and> opt_ok (\<lambda>d. d \<ge> 1000) (scheduledDelay m)
     \<and> opt_ok (\<lambda>p. p \<in> set MessagePriority) (priority m)
     \<and> attempts m \<ge> 0 \<and> scheduledRepeatCount m \<ge> 0"

lemma opt_ok_simps [simp]: "opt_ok P None" "opt_ok P (Some v) = P v"
  by (simp_all add: opt_ok_def)

lemma span_ok_simps [simp]: "span_ok 0" "v \<ge> 1000 \<Longrightarrow> span_ok v"
  by (simp_all add: span_ok_def)

lemma span_ok_opt_or: "\<not> bad_span x \<Longrightarrow> span_ok old \<Longrightarrow> span_ok (opt_or x old)"
  by (auto simp: bad_span_def opt_or_def span_ok_def split: option.splits)

lemma opts_ok_default: "opts_ok defaultOpts"
  by (simp add: opts_ok_def defaultOpts_def)

lemma setDefaultOptions_ok: "opts_ok d \<Longrightarrow> setDefaultOptions p d = Inr d' \<Longrightarrow> opts_ok d'"
  by (auto simp: setDefaultOptions_def opts_ok_def span_ok_opt_or split: if_splits)

lemma msg_ok_new: "opts_ok d \<Longrightarrow> msg_ok (newMessage d now i)"
  by (simp add: msg_ok_def opts_ok_def newMessage_def)

lemmas message_updates =
  reset_def setScheduledAt_def setScheduledPeriod_def setScheduledDelay_def setScheduledCron_def
  setScheduledRepeat_def setTTL_def setConsumeTimeout_def setRetryThreshold_def setRetryDelay_def
  setAttempts_def incrAttempts_def setBody_def setMessageScheduledRepeatCount_def
  setMessageScheduledCronFired_def incrMessageScheduledRepeatCount_def
  resetMessageScheduledRepeatCount_def setMessageDelayed_def setPriority_def setQueue_def
  setPublishedAt_def

text \<open>The mutators a user of the class can call, as a datatype, so that a claim can speak of any
  sequence of calls. The two setters of counters the system uses are given by what the system
  does with them (increment and reset).\<close>

datatype msg_call =
    CallReset
  | CallScheduledPeriod int
  | CallScheduledDelay int
  | CallScheduledCron string
  | CallScheduledRepeat int
  | CallTTL int
  | CallConsumeTimeout int
  | CallRetryThreshold int
  | CallRetryDelay int
  | CallIncrAttempts
  | CallBody "json option"
  | CallIncrRepeatCount
  | CallResetRepeatCount
  | CallPriority int
  | CallQueue string string
  | CallPublishedAt int
  | CallHasExpired int
  | CallGetSetPriority "int option"

fun msg_call_run :: "cron_parser \<Rightarrow> msg_call \<Rightarrow> message \<Rightarrow> message result" where
  "msg_call_run cp CallReset m = Inr (reset m)"
| "msg_call_run cp (CallScheduledPeriod n) m = setScheduledPeriod n m"
| "msg_call_run cp (CallScheduledDelay n) m = setScheduledDelay n m"
| "msg_call_run cp (CallScheduledCron c) m = setScheduledCron cp c m"
| "msg_call_run cp (CallScheduledRepeat n) m = Inr (setScheduledRepeat n m)"
| "msg_call_run cp (CallTTL n) m = setTTL n m"
| "msg_call_run cp (CallConsumeTimeout n) m = setConsumeTimeout n m"
| "msg_call_run cp (CallRetryThreshold n) m = Inr (setRetryThreshold n m)"
| "msg_call_run cp (CallRetryDelay n) m = setRetryDelay n m"
| "msg_call_run cp CallIncrAttempts m = Inr (incrAttempts m)"
| "msg_call_run cp (CallBody b) m = Inr (setBody b m)"
| "msg_call_run cp CallIncrRepeatCount m = Inr (incrMessageScheduledRepeatCount m)"
| "msg_call_run cp CallResetRepeatCount m = Inr (resetMessageScheduledRepeatCount m)"
| "msg_call_run cp (CallPriority p) m = setPriority p m"
| "msg_call_run cp (CallQueue n q) m = Inr (setQueue n q m)"
| "msg_call_run cp (CallPublishedAt t) m = Inr (setPublishedAt t m)"
| "msg_call_run cp (CallHasExpired t) m = Inr (snd (hasExpired t m))"
| "msg_call_run cp (CallGetSetPriority p) m = bindR (getSetPriority p m) (\<lambda>r. Inr (snd r))"

fun msg_calls :: "cron_parser \<Rightarrow> msg_call list \<Rightarrow> message \<Rightarrow> message result" where
  "msg_calls cp [] m = Inr m"
| "msg_calls cp (c # cs) m = bindR (msg_call_run cp c m) (msg_calls cp cs)"

lemma getSetPriority_Inr:
  "getSetPriority p m = Inr (x, m') \<Longrightarrow>
     m' = m\<lparr>priority := Some x\<rparr> \<and> (priority m = None \<longrightarrow> x \<in> set MessagePriority)
     \<and> (\<forall>y. priority m = Some y \<longrightarrow> x = y)"
  by (auto simp: getSetPriority_def setPriority_def io_iff Let_def split: if_splits option.splits)

lemma getSetPriority_None:
  "getSetPriority None m =
     Inr (case priority m of None \<Rightarrow> priority_NORMAL | Some x \<Rightarrow> x,
          m\<lparr>priority := Some (case priority m of None \<Rightarrow> priority_NORMAL | Some x \<Rightarrow> x)\<rparr>)"
  by (auto simp: getSetPriority_def setPriority_def priority_NORMAL_def MessagePriority_def Let_def
       split: option.splits)

lemma hasExpired_sel [simp]:
  "uuid (snd (hasExpired t m)) = uuid m" "queue (snd (hasExpired t m)) = queue m"
  "msg_ok (snd (hasExpired t m)) = msg_ok m"
  by (simp_all add: hasExpired_def Let_def msg_ok_def)

lemma msg_call_ok: "msg_ok m \<Longrightarrow> msg_call_run cp c m = Inr m' \<Longrightarrow> msg_ok m'"
proof (cases c)
  case (CallGetSetPriority p)
  assume "msg_ok m" "msg_call_run cp c m = Inr m'"
  then obtain x where x: "getSetPriority p m = Inr (x, m')"
    by (auto simp: CallGetSetPriority io_iff)
  have "x \<in> set MessagePriority"
    using getSetPriority_Inr [OF x] \<open>msg_ok m\<close> by (cases "priority m") (auto simp: msg_ok_def)
  with \<open>msg_ok m\<close> show ?thesis
    using getSetPriority_Inr [OF x] by (simp add: msg_ok_def)
next
  case (CallHasExpired t)
  assume "msg_ok m" "msg_call_run cp c m = Inr m'"
  then show ?thesis by (auto simp: CallHasExpired)
qed (auto simp: message_updates msg_ok_def io_iff split: if_splits)

section \<open>Properties\<close>




text \<open>Expiration: a message without TTL does not expire; a message with one has expired exactly
  from \<open>createdAt + ttl\<close> on, the answer is kept in the message, and once given it stays whatever
  the clock says later.\<close>

theorem hasExpired_spec:
  "(expired m = False \<longrightarrow> (fst (hasExpired now m) \<longleftrightarrow> ttl m \<noteq> 0 \<and> createdAt m + ttl m \<le> now))
   \<and> expired (snd (hasExpired now m)) = fst (hasExpired now m)
   \<and> (fst (hasExpired now m) \<longrightarrow> fst (hasExpired later (snd (hasExpired now m))))"
  by (auto simp: hasExpired_def Let_def)

theorem hasExpired_spec_witness:
  "fst (hasExpired 3000 (newMessage (defaultOpts\<lparr>opt_ttl := 1000\<rparr>) 2000 ''a''))
   \<and> \<not> fst (hasExpired 2999 (newMessage (defaultOpts\<lparr>opt_ttl := 1000\<rparr>) 2000 ''a''))"
  using hasExpired_spec [of "newMessage (defaultOpts\<lparr>opt_ttl := 1000\<rparr>) 2000 ''a''" 3000 0]
    hasExpired_spec [of "newMessage (defaultOpts\<lparr>opt_ttl := 1000\<rparr>) 2000 ''a''" 2999 0]
  by (simp add: newMessage_def)

end
