(* ===== verification/Redis_Client.thy ===== *)
theory Redis_Client
  imports Redis_Keys Message
begin

text \<open>
  \<^verbatim>\<open>src/system/redis-client/redis-client.ts\<close>, \<^verbatim>\<open>lua-scripts.ts\<close> and the Lua scripts. Everything the
  program takes from outside is gathered in the record \<open>platform\<close>, which is an argument of every
  operation: the server with its driver, version and loaded scripts, redlock, the clock, the
  identifier generator, the cron parser, and the two module variables of the process
  (\<open>Message.defaultOpts\<close> and the current namespace). An operation reads one value of the clock;
  operations that read it in several callbacks take a further time as an argument.

  A Lua script runs on the server without interruption, so it is a sequence of commands here; an
  error raised inside it ends it and leaves what it did before in place.
\<close>

section \<open>The platform\<close>

datatype RedisClientName = REDIS | IOREDIS

datatype ELuaScriptName = ZPOPRPUSH | LPOPRPUSH | ZPOPHGETRPUSH | ZPUSHHSET

record 's platform =
  p_srv :: "'s \<Rightarrow> cmd \<Rightarrow> reply \<times> 's"
  p_mul :: "'s \<Rightarrow> cmd list \<Rightarrow> (err + reply list option) \<times> 's"
  p_driver :: RedisClientName
  p_version :: "int option list option"
  p_scripts :: "ELuaScriptName \<Rightarrow> string option"
  p_rlock :: "key \<Rightarrow> int \<Rightarrow> 's \<Rightarrow> (err + string option) \<times> 's"
  p_rextend :: "string \<Rightarrow> int \<Rightarrow> 's \<Rightarrow> (err + string option) \<times> 's"
  p_runlock :: "string \<Rightarrow> 's \<Rightarrow> (err + unit) \<times> 's"
  p_now :: int
  p_uuid :: string
  p_cron :: "string \<Rightarrow> (int \<Rightarrow> int) result"
  p_opts :: TMessageDefaultOptions
  p_ns :: string

text \<open>The hypotheses about the platform: the server meets its contract and redlock keeps to keys of
  its own.\<close>

locale smq_platform =
  fixes E :: "'s platform" and view :: "'s \<Rightarrow> store"
  assumes server: "redis_server (p_srv E) (p_mul E) view"
    and rlock_frame: "p_rlock E k t s = (r, s') \<Longrightarrow> view s' = view s"
    and rextend_frame: "p_rextend E tok t s = (r1, s') \<Longrightarrow> view s' = view s"
    and runlock_frame: "p_runlock E tok s = (r2, s') \<Longrightarrow> view s' = view s"

sublocale smq_platform \<subseteq> redis_server "p_srv E" "p_mul E" view
  by (rule server)

text \<open>A platform whose server answers and whose scripts were loaded when the client was set up, on a
  server of known version.\<close>

locale smq_live = smq_platform +
  assumes live: "live_server (p_srv E) (p_mul E) view"
    and scripts_loaded: "\<exists>sha. p_scripts E nm = Some sha \<and> sha \<noteq> []"
    and version_known: "p_version E \<noteq> None"

sublocale smq_live \<subseteq> live_server "p_srv E" "p_mul E" view
  by (rule live)

abbreviation freshMessage :: "'s platform \<Rightarrow> message" where
  "freshMessage E \<equiv> newMessage (p_opts E) (p_now E) (p_uuid E)"

section \<open>Commands\<close>

definition rc_lpush :: "'s platform \<Rightarrow> key \<Rightarrow> rstr \<Rightarrow> ('s, reply) io" where
  "rc_lpush E k v = redisCmd (p_srv E) (LPUSH k v)"

definition rc_rpush :: "'s platform \<Rightarrow> key \<Rightarrow> rstr \<Rightarrow> ('s, reply) io" where
  "rc_rpush E k v = redisCmd (p_srv E) (RPUSH k v)"

definition rc_lrem :: "'s platform \<Rightarrow> key \<Rightarrow> int \<Rightarrow> rstr \<Rightarrow> ('s, reply) io" where
  "rc_lrem E k n v = redisCmd (p_srv E) (LREM k n v)"

text \<open>Replies that are arrays, strings or counters, as the callbacks receive them: a reply that is
  not there is \<open>[]\<close>, \<open>None\<close> or \<open>0\<close> (\<open>reply ?? []\<close>, \<open>reply ?? 0\<close>).\<close>

fun reply_list :: "reply \<Rightarrow> rstr option list" where
  "reply_list (RArr xs) = xs"
| "reply_list _ = []"

fun reply_str :: "reply \<Rightarrow> rstr option" where
  "reply_str (RStr v) = Some v"
| "reply_str _ = None"

fun reply_int :: "reply \<Rightarrow> int" where
  "reply_int (RInt n) = n"
| "reply_int _ = 0"

fun reply_hash :: "reply \<Rightarrow> (rstr \<times> rstr) list" where
  "reply_hash (RHash al) = al"
| "reply_hash _ = []"

definition present :: "rstr option list \<Rightarrow> rstr list" where
  "present xs = map the (filter (\<lambda>x. x \<noteq> None) xs)"

definition rc_lrange :: "'s platform \<Rightarrow> key \<Rightarrow> int \<Rightarrow> int \<Rightarrow> ('s, rstr list) io" where
  "rc_lrange E k a b = bindM (redisCmd (p_srv E) (LRANGE k a b)) (\<lambda>r. retM (present (reply_list r)))"

definition rc_llen :: "'s platform \<Rightarrow> key \<Rightarrow> ('s, int) io" where
  "rc_llen E k = bindM (redisCmd (p_srv E) (LLEN k)) (\<lambda>r. retM (reply_int r))"

definition rc_zcard :: "'s platform \<Rightarrow> key \<Rightarrow> ('s, int) io" where
  "rc_zcard E k = bindM (redisCmd (p_srv E) (ZCARD k)) (\<lambda>r. retM (reply_int r))"

definition rc_zrange :: "'s platform \<Rightarrow> key \<Rightarrow> int \<Rightarrow> int \<Rightarrow> ('s, rstr list) io" where
  "rc_zrange E k a b = bindM (redisCmd (p_srv E) (ZRANGE k a b)) (\<lambda>r. retM (present (reply_list r)))"

definition rc_zrangebyscore :: "'s platform \<Rightarrow> key \<Rightarrow> int \<Rightarrow> int \<Rightarrow> ('s, rstr list) io" where
  "rc_zrangebyscore E k lo hi =
     bindM (redisCmd (p_srv E) (ZRANGEBYSCORE k lo hi)) (\<lambda>r. retM (present (reply_list r)))"

definition rc_hmget :: "'s platform \<Rightarrow> key \<Rightarrow> rstr list \<Rightarrow> ('s, rstr option list) io" where
  "rc_hmget E k fs = bindM (redisCmd (p_srv E) (HMGET k fs)) (\<lambda>r. retM (reply_list r))"

definition rc_hget :: "'s platform \<Rightarrow> key \<Rightarrow> rstr \<Rightarrow> ('s, rstr option) io" where
  "rc_hget E k f = bindM (redisCmd (p_srv E) (HGET k f)) (\<lambda>r. retM (reply_str r))"

definition rc_hgetall :: "'s platform \<Rightarrow> key \<Rightarrow> ('s, (rstr \<times> rstr) list) io" where
  "rc_hgetall E k = bindM (redisCmd (p_srv E) (HGETALL k)) (\<lambda>r. retM (reply_hash r))"

definition rc_hset :: "'s platform \<Rightarrow> key \<Rightarrow> rstr \<Rightarrow> rstr \<Rightarrow> ('s, reply) io" where
  "rc_hset E k f v = redisCmd (p_srv E) (HSET k f v)"

definition rc_hdel :: "'s platform \<Rightarrow> key \<Rightarrow> rstr list \<Rightarrow> ('s, reply) io" where
  "rc_hdel E k fs = redisCmd (p_srv E) (HDEL k fs)"

definition rc_hmset :: "'s platform \<Rightarrow> key \<Rightarrow> (rstr \<times> rstr) list \<Rightarrow> ('s, reply) io" where
  "rc_hmset E k fvs = redisCmd (p_srv E) (HMSET k fvs)"

definition rc_smembers :: "'s platform \<Rightarrow> key \<Rightarrow> ('s, rstr list) io" where
  "rc_smembers E k = bindM (redisCmd (p_srv E) (SMEMBERS k)) (\<lambda>r. retM (present (reply_list r)))"

definition rc_sadd :: "'s platform \<Rightarrow> key \<Rightarrow> rstr \<Rightarrow> ('s, reply) io" where
  "rc_sadd E k v = redisCmd (p_srv E) (SADD k v)"

definition rc_zadd :: "'s platform \<Rightarrow> key \<Rightarrow> int \<Rightarrow> rstr \<Rightarrow> ('s, reply) io" where
  "rc_zadd E k sc v = redisCmd (p_srv E) (ZADD k sc v)"

definition rc_zrem :: "'s platform \<Rightarrow> key \<Rightarrow> rstr \<Rightarrow> ('s, unit) io" where
  "rc_zrem E k v = voidM (redisCmd (p_srv E) (ZREM k v))"

definition rc_publish :: "'s platform \<Rightarrow> string \<Rightarrow> rstr \<Rightarrow> ('s, reply) io" where
  "rc_publish E ch v = redisCmd (p_srv E) (PUBLISH ch v)"

definition rc_del :: "'s platform \<Rightarrow> key \<Rightarrow> ('s, reply) io" where
  "rc_del E k = redisCmd (p_srv E) (DEL k)"

definition rc_rpoplpush :: "'s platform \<Rightarrow> key \<Rightarrow> key \<Rightarrow> ('s, rstr option) io" where
  "rc_rpoplpush E a b = bindM (redisCmd (p_srv E) (RPOPLPUSH a b)) (\<lambda>r. retM (reply_str r))"

definition rc_brpoplpush :: "'s platform \<Rightarrow> key \<Rightarrow> key \<Rightarrow> ('s, rstr option) io" where
  "rc_brpoplpush E a b = bindM (redisCmd (p_srv E) (BRPOPLPUSH a b)) (\<lambda>r. retM (reply_str r))"

section \<open>Server version\<close>

text \<open>A component of the version that is missing, or was no numeral (\<open>NaN\<close>), is never equal and never greater.\<close>

definition ver_at :: "nat \<Rightarrow> int option list \<Rightarrow> int option" where
  "ver_at i v = (case elem_at i v of None \<Rightarrow> None | Some x \<Rightarrow> x)"

definition ver_gt :: "int option \<Rightarrow> int \<Rightarrow> bool" where
  "ver_gt x n = (case x of None \<Rightarrow> False | Some v \<Rightarrow> v > n)"

definition ver_ge :: "int option \<Rightarrow> int \<Rightarrow> bool" where
  "ver_ge x n = (case x of None \<Rightarrow> False | Some v \<Rightarrow> v \<ge> n)"

definition validateRedisVersion :: "int option list option \<Rightarrow> int \<Rightarrow> int \<Rightarrow> int \<Rightarrow> bool result" where
  "validateRedisVersion ver major feature minor =
     (case ver of
        None \<Rightarrow> Inl (RedisClientError ''Unknown Redis server version.'')
      | Some v \<Rightarrow> Inr (ver_gt (ver_at 0 v) major \<or>
          (ver_at 0 v = Some major \<and> ver_ge (ver_at 1 v) feature \<and> ver_ge (ver_at 2 v) minor)))"

definition rc_lmove :: "'s platform \<Rightarrow> key \<Rightarrow> key \<Rightarrow> side \<Rightarrow> side \<Rightarrow> ('s, rstr option) io" where
  "rc_lmove E a b fr to =
     bindM (liftT (validateRedisVersion (p_version E) 6 2 0)) (\<lambda>ok.
       if \<not> ok then cbErr (RedisClientError
         ''Command not supported by your Redis server. Minimal required Redis server version is 6.2.0.'')
       else bindM (redisCmd (p_srv E) (LMOVE a b fr to)) (\<lambda>r. retM (reply_str r)))"

section \<open>Scripts\<close>

definition getScriptId :: "(ELuaScriptName \<Rightarrow> string option) \<Rightarrow> ELuaScriptName \<Rightarrow> string result" where
  "getScriptId ids nm =
     (case ids nm of
        None \<Rightarrow> Inl (RedisClientError ''ID of script is missing'')
      | Some sha \<Rightarrow> if sha = [] then Inl (RedisClientError ''ID of script is missing'') else Inr sha)"

definition lua_lpoprpush :: "'s server \<Rightarrow> key \<Rightarrow> key \<Rightarrow> ('s, rstr option) io" where
  "lua_lpoprpush srv k1 k2 =
     bindM (redisCmd srv (EXISTS k1)) (\<lambda>ex.
       if ex = RInt 1 then
         bindM (redisCmd srv (LRANGE k1 0 0)) (\<lambda>result.
           case present (reply_list result) of
             [] \<Rightarrow> cbErr (DriverError ''Lua redis() command arguments must be strings or integers'')
           | message # _ \<Rightarrow>
               bindM (redisCmd srv (LREM k1 1 message)) (\<lambda>_.
               bindM (redisCmd srv (RPUSH k2 message)) (\<lambda>_. retM (Some message))))
       else retM None)"

definition lua_zpoprpush :: "'s server \<Rightarrow> key \<Rightarrow> key \<Rightarrow> ('s, rstr option) io" where
  "lua_zpoprpush srv k1 k2 =
     bindM (redisCmd srv (EXISTS k1)) (\<lambda>ex.
       if ex = RInt 1 then
         bindM (redisCmd srv (ZRANGE k1 0 0)) (\<lambda>result.
           case present (reply_list result) of
             [] \<Rightarrow> cbErr (DriverError ''Lua redis() command arguments must be strings or integers'')
           | message # _ \<Rightarrow>
               bindM (redisCmd srv (ZREM k1 message)) (\<lambda>_.
               bindM (redisCmd srv (RPUSH k2 message)) (\<lambda>_. retM (Some message))))
       else retM None)"

text \<open>A hash field that is missing is \<open>false\<close> in Lua, which \<open>redis.call\<close> refuses as an argument:
  the script then fails after the member was removed from the sorted set.\<close>

definition lua_zpophgetrpush :: "'s server \<Rightarrow> key \<Rightarrow> key \<Rightarrow> key \<Rightarrow> ('s, rstr option) io" where
  "lua_zpophgetrpush srv k1 k2 k3 =
     bindM (redisCmd srv (EXISTS k1)) (\<lambda>ex.
       if ex = RInt 1 then
         bindM (redisCmd srv (ZRANGE k1 0 0)) (\<lambda>result.
           case present (reply_list result) of
             [] \<Rightarrow> cbErr (DriverError ''Lua redis() command arguments must be strings or integers'')
           | messageId # _ \<Rightarrow>
               bindM (redisCmd srv (HGET k2 messageId)) (\<lambda>message.
               bindM (redisCmd srv (ZREM k1 messageId)) (\<lambda>_.
               bindM (redisCmd srv (HDEL k2 [messageId])) (\<lambda>_.
                 case reply_str message of
                   None \<Rightarrow> cbErr (DriverError
                     ''Lua redis() command arguments must be strings or integers'')
                 | Some msg \<Rightarrow> bindM (redisCmd srv (RPUSH k3 msg)) (\<lambda>_. retM (Some msg))))))
       else retM None)"

definition lua_zpushhset :: "'s server \<Rightarrow> key \<Rightarrow> key \<Rightarrow> int \<Rightarrow> rstr \<Rightarrow> rstr \<Rightarrow> ('s, unit) io" where
  "lua_zpushhset srv k1 k2 score keyId keyValue =
     bindM (redisCmd srv (ZADD k1 score keyId)) (\<lambda>_.
     bindM (redisCmd srv (HSET k2 keyId keyValue)) (\<lambda>_. retM ()))"

definition rc_zpoprpush :: "'s platform \<Rightarrow> key \<Rightarrow> key \<Rightarrow> ('s, rstr option) io" where
  "rc_zpoprpush E source dest =
     bindM (liftT (getScriptId (p_scripts E) ZPOPRPUSH)) (\<lambda>_. lua_zpoprpush (p_srv E) source dest)"

definition rc_zpophgetrpush :: "'s platform \<Rightarrow> key \<Rightarrow> key \<Rightarrow> key \<Rightarrow> ('s, rstr option) io" where
  "rc_zpophgetrpush E source sourceHash dest =
     bindM (liftT (getScriptId (p_scripts E) ZPOPHGETRPUSH))
       (\<lambda>_. lua_zpophgetrpush (p_srv E) source sourceHash dest)"

definition rc_zpushhset ::
  "'s platform \<Rightarrow> key \<Rightarrow> key \<Rightarrow> int \<Rightarrow> rstr \<Rightarrow> rstr \<Rightarrow> ('s, unit) io" where
  "rc_zpushhset E sortedSet hash score keyId keyValue =
     bindM (liftT (getScriptId (p_scripts E) ZPUSHHSET))
       (\<lambda>_. lua_zpushhset (p_srv E) sortedSet hash score keyId keyValue)"

definition rc_lpoprpush :: "'s platform \<Rightarrow> key \<Rightarrow> key \<Rightarrow> ('s, rstr option) io" where
  "rc_lpoprpush E source dest =
     bindM (liftT (validateRedisVersion (p_version E) 6 2 0)) (\<lambda>ok.
       if ok then rc_lmove E source dest LEFT RIGHT
       else bindM (liftT (getScriptId (p_scripts E) LPOPRPUSH))
              (\<lambda>_. lua_lpoprpush (p_srv E) source dest))"

section \<open>Transactions\<close>

fun first_err :: "reply list \<Rightarrow> err option" where
  "first_err [] = None"
| "first_err (RErr e # rs) = Some e"
| "first_err (r # rs) = first_err rs"

text \<open>\<open>execMulti\<close>: node_redis hands the replies on as they are, for ioredis the first error among
  them becomes the error of the call. A null reply (a watched key changed) is an empty list of
  results.\<close>

definition execMulti :: "'s platform \<Rightarrow> cmd list \<Rightarrow> ('s, reply list) io" where
  "execMulti E cs s =
     (case p_mul E s cs of
        (Inl e, s') \<Rightarrow> (Inl (Cb e), s')
      | (Inr None, s') \<Rightarrow> (Inr [], s')
      | (Inr (Some rs), s') \<Rightarrow>
          (case p_driver E of
             REDIS \<Rightarrow> (Inr rs, s')
           | IOREDIS \<Rightarrow> (case first_err rs of Some e \<Rightarrow> (Inl (Cb e), s') | None \<Rightarrow> (Inr rs, s'))))"

section \<open>Effects of the client's operations\<close>

lemma present_map_Some [simp]: "present (map Some xs) = xs"
  by (induction xs) (simp_all add: present_def)

lemma present_simps [simp]:
  "present [] = []" "present (Some x # xs) = x # present xs" "present (None # xs) = present xs"
  by (simp_all add: present_def)

lemma present_map_Some_comp [simp]: "present (map (\<lambda>x. Some (f x)) xs) = map f xs"
  by (induction xs) (simp_all add: present_def)

lemma reply_str_option [simp]:
  "reply_str (case x of None \<Rightarrow> RNil | Some v \<Rightarrow> RStr v) = x"
  by (cases x) simp_all

lemma if_None_upd: "(\<lambda>f. if f = m then None else h f) = h(m := None)"
  by auto

lemma first_err_None: "first_err rs = None \<longleftrightarrow> list_all (\<lambda>r. \<not> is_err r) rs"
  by (induction rs rule: first_err.induct) auto

lemma ver_simps [simp]:
  "ver_gt None n = False" "ver_gt (Some v) n = (v > n)"
  "ver_ge None n = False" "ver_ge (Some v) n = (v \<ge> n)"
  by (simp_all add: ver_gt_def ver_ge_def)

lemma move_left_right:
  "lists st a = x # xs \<Longrightarrow>
     move_list a b LEFT RIGHT st =
       (let st1 = set_list a xs st in set_list b (lists st1 b @ [x]) st1)"
  by (simp add: move_list_def)

context smq_platform
begin

lemma rc_ok:
  "bindM (redisCmd (p_srv E) c) (\<lambda>r. retM (g r)) s = (Inr x, s') \<Longrightarrow>
     \<exists>r. x = g r \<and> doc c (view s) r (view s')"
  by (auto simp: io_iff dest: cmd_ok)

lemma rc_err:
  "bindM (redisCmd (p_srv E) c) (\<lambda>r. retM (g r)) s = (Inl e, s') \<Longrightarrow>
     view s' = view s \<and> (\<exists>x. e = Cb x)"
  by (auto simp: io_iff dest: cmd_err)

lemma rc_lrange_ok:
  "rc_lrange E k a b s = (Inr xs, s') \<Longrightarrow> xs = slice a b (lists (view s) k) \<and> view s' = view s"
  unfolding rc_lrange_def by (drule rc_ok) auto

lemma rc_llen_ok:
  "rc_llen E k s = (Inr n, s') \<Longrightarrow> n = int (length (lists (view s) k)) \<and> view s' = view s"
  unfolding rc_llen_def by (drule rc_ok) auto

lemma rc_zcard_ok:
  "rc_zcard E k s = (Inr n, s') \<Longrightarrow> n = int (length (zsets (view s) k)) \<and> view s' = view s"
  unfolding rc_zcard_def by (drule rc_ok) auto

lemma rc_zrange_ok:
  "rc_zrange E k a b s = (Inr xs, s') \<Longrightarrow>
     xs = slice a b (map fst (zsets (view s) k)) \<and> view s' = view s"
  unfolding rc_zrange_def by (drule rc_ok) auto

lemma rc_zrangebyscore_ok:
  "rc_zrangebyscore E k lo hi s = (Inr xs, s') \<Longrightarrow>
     xs = map fst (filter (\<lambda>p. lo \<le> snd p \<and> snd p \<le> hi) (zsets (view s) k)) \<and> view s' = view s"
  unfolding rc_zrangebyscore_def by (drule rc_ok) (auto simp: comp_def)

lemma rc_hmget_ok:
  "rc_hmget E k fs s = (Inr xs, s') \<Longrightarrow> xs = map (hashes (view s) k) fs \<and> view s' = view s"
  unfolding rc_hmget_def by (drule rc_ok) auto

lemma rc_hget_ok:
  "rc_hget E k f s = (Inr x, s') \<Longrightarrow> x = hashes (view s) k f \<and> view s' = view s"
  unfolding rc_hget_def by (drule rc_ok) auto

lemma rc_hgetall_ok:
  "rc_hgetall E k s = (Inr al, s') \<Longrightarrow>
     distinct (map fst al) \<and> map_of al = hashes (view s) k \<and> view s' = view s"
  unfolding rc_hgetall_def by (drule rc_ok) auto

lemma rc_smembers_ok:
  "rc_smembers E k s = (Inr xs, s') \<Longrightarrow>
     distinct xs \<and> set xs = sets (view s) k \<and> view s' = view s"
  unfolding rc_smembers_def by (drule rc_ok, elim exE conjE) (simp, elim exE conjE, simp)

lemmas rc_read_ok =
  rc_lrange_ok rc_llen_ok rc_zcard_ok rc_zrange_ok rc_zrangebyscore_ok rc_hmget_ok rc_hget_ok

lemma rc_rpoplpush_ok:
  "rc_rpoplpush E a b s = (Inr x, s') \<Longrightarrow>
     (if lists (view s) a = [] then x = None \<and> view s' = view s
      else x = Some (last (lists (view s) a)) \<and> view s' = move_list a b RIGHT LEFT (view s))"
  unfolding rc_rpoplpush_def by (drule rc_ok) (auto split: if_splits)

lemma rc_brpoplpush_ok:
  "rc_brpoplpush E a b s = (Inr x, s') \<Longrightarrow> lists (view s) a \<noteq> [] \<Longrightarrow>
     x = Some (last (lists (view s) a)) \<and> view s' = move_list a b RIGHT LEFT (view s)"
  unfolding rc_brpoplpush_def by (drule rc_ok) auto

lemma rc_lmove_ok:
  "rc_lmove E a b fr to s = (Inr x, s') \<Longrightarrow>
     (if lists (view s) a = [] then x = None \<and> view s' = view s
      else x = Some (fst (pop_side fr (lists (view s) a))) \<and> view s' = move_list a b fr to (view s))"
  unfolding rc_lmove_def
  by (auto simp: io_iff split: if_splits dest!: cmd_ok)

lemma lua_lpoprpush_ok:
  assumes "lua_lpoprpush (p_srv E) a b s = (Inr x, s')"
  shows "if lists (view s) a = [] then x = None \<and> view s' = view s
         else x = Some (hd (lists (view s) a)) \<and> view s' = move_list a b LEFT RIGHT (view s)"
proof (cases "lists (view s) a")
  case Nil
  with assms show ?thesis
    unfolding lua_lpoprpush_def
    by (auto simp: io_iff slice_0_0 key_exists_def split: if_splits dest!: cmd_ok)
next
  case (Cons v vs)
  from assms show ?thesis
    unfolding lua_lpoprpush_def
    by (auto simp: Cons io_iff slice_0_0 key_exists_def move_left_right [OF Cons] Let_def
        split: if_splits dest!: cmd_ok)
qed

lemma rc_lpoprpush_ok:
  assumes "rc_lpoprpush E a b s = (Inr x, s')"
  shows "if lists (view s) a = [] then x = None \<and> view s' = view s
         else x = Some (hd (lists (view s) a)) \<and> view s' = move_list a b LEFT RIGHT (view s)"
proof -
  from assms consider "rc_lmove E a b LEFT RIGHT s = (Inr x, s')"
    | "lua_lpoprpush (p_srv E) a b s = (Inr x, s')"
    by (auto simp: rc_lpoprpush_def io_iff split: if_splits)
  then show ?thesis
  proof cases
    case 1
    from rc_lmove_ok [OF this] show ?thesis by simp
  next
    case 2
    then show ?thesis by (rule lua_lpoprpush_ok)
  qed
qed

lemma zset_tl_filter:
  "zsets (view s) k = (m, sc) # z \<Longrightarrow> filter (\<lambda>p. fst p \<noteq> m) (zsets (view s) k) = z"
  using zset_inv [of s k] by (auto simp: zset_ok_def filter_id_conv)

lemma lua_zpophgetrpush_Nil:
  assumes "lua_zpophgetrpush (p_srv E) k1 k2 k3 s = (Inr x, s')" and "zsets (view s) k1 = []"
  shows "x = None \<and> view s' = view s"
proof -
  from assms(1) obtain r1 a1 where c1: "redisCmd (p_srv E) (EXISTS k1) s = (Inr r1, a1)"
    by (auto simp: lua_zpophgetrpush_def io_iff)
  from assms(1) c1 consider "x = None" "s' = a1"
    | r2 a2 m ms where "redisCmd (p_srv E) (ZRANGE k1 0 0) a1 = (Inr r2, a2)"
        "present (reply_list r2) = m # ms"
    by (auto simp: lua_zpophgetrpush_def io_iff)
  then show ?thesis
  proof cases
    case 1
    with cmd_ok [OF c1] show ?thesis by simp
  next
    case 2
    with cmd_ok [OF 2(1)] cmd_ok [OF c1] assms(2) show ?thesis by (simp add: slice_0_0)
  qed
qed

lemma lua_zpophgetrpush_Cons:
  assumes "lua_zpophgetrpush (p_srv E) k1 k2 k3 s = (Inr x, s')"
    and z: "zsets (view s) k1 = (m, sc) # z"
  shows "x \<noteq> None \<and> hashes (view s) k2 m = x \<and>
     view s' = set_list k3 (lists (view s) k3 @ [the x])
       (set_hash k2 ((hashes (view s) k2)(m := None)) (set_zset k1 z (view s)))"
proof -
  from assms(1) obtain r1 a1 where c1: "redisCmd (p_srv E) (EXISTS k1) s = (Inr r1, a1)"
    by (auto simp: lua_zpophgetrpush_def io_iff)
  from cmd_ok [OF c1] z have r1: "r1 = RInt 1" and v1: "view a1 = view s"
    by (simp_all add: key_exists_def)
  from assms(1) c1 r1 obtain r2 a2 m' ms r3 a3 r4 a4 r5 a5 r6 v where
    c2: "redisCmd (p_srv E) (ZRANGE k1 0 0) a1 = (Inr r2, a2)" and
    m': "present (reply_list r2) = m' # ms" and
    c3: "redisCmd (p_srv E) (HGET k2 m') a2 = (Inr r3, a3)" and
    c4: "redisCmd (p_srv E) (ZREM k1 m') a3 = (Inr r4, a4)" and
    c5: "redisCmd (p_srv E) (HDEL k2 [m']) a4 = (Inr r5, a5)" and
    v: "reply_str r3 = Some v" "x = Some v" and
    c6: "redisCmd (p_srv E) (RPUSH k3 v) a5 = (Inr r6, s')"
    by (auto simp: lua_zpophgetrpush_def io_iff)
  from cmd_ok [OF c2] v1 z m' have m: "m' = m" and v2: "view a2 = view s"
    by (simp_all add: slice_0_0)
  from cmd_ok [OF c3] v2 v m have h: "hashes (view s) k2 m = x" and v3: "view a3 = view s"
    by simp_all
  from cmd_ok [OF c4] v3 m zset_tl_filter [OF z] have v4: "view a4 = set_zset k1 z (view s)"
    by simp
  from cmd_ok [OF c5] v4 m
  have v5: "view a5 = set_hash k2 ((hashes (view s) k2)(m := None)) (set_zset k1 z (view s))"
    by (simp add: if_None_upd)
  from cmd_ok [OF c6] v5 v h show ?thesis by simp
qed

lemma lua_zpophgetrpush_ok:
  assumes "lua_zpophgetrpush (p_srv E) k1 k2 k3 s = (Inr x, s')"
  shows "case zsets (view s) k1 of
           [] \<Rightarrow> x = None \<and> view s' = view s
         | (m, sc) # z \<Rightarrow>
             x \<noteq> None \<and> hashes (view s) k2 m = x \<and>
             view s' = set_list k3 (lists (view s) k3 @ [the x])
               (set_hash k2 ((hashes (view s) k2)(m := None)) (set_zset k1 z (view s)))"
proof (cases "zsets (view s) k1")
  case Nil
  with lua_zpophgetrpush_Nil [OF assms] show ?thesis by simp
next
  case (Cons p z)
  obtain m sc where p: "p = (m, sc)" by (cases p)
  from Cons p have z: "zsets (view s) k1 = (m, sc) # z" by simp
  show ?thesis
    unfolding z list.case prod.case by (rule lua_zpophgetrpush_Cons [OF assms z])
qed

lemma rc_zpophgetrpush_ok:
  assumes "rc_zpophgetrpush E k1 k2 k3 s = (Inr x, s')"
  shows "case zsets (view s) k1 of
           [] \<Rightarrow> x = None \<and> view s' = view s
         | (m, sc) # z \<Rightarrow>
             x \<noteq> None \<and> hashes (view s) k2 m = x \<and>
             view s' = set_list k3 (lists (view s) k3 @ [the x])
               (set_hash k2 ((hashes (view s) k2)(m := None)) (set_zset k1 z (view s)))"
  using assms lua_zpophgetrpush_ok by (simp add: rc_zpophgetrpush_def io_iff)

lemma rc_zpushhset_ok:
  assumes "rc_zpushhset E k1 k2 sc f v s = (Inr u, s')"
  shows "\<exists>z. zset_ok z \<and> map_of z = (map_of (zsets (view s) k1))(f \<mapsto> sc) \<and>
           view s' = set_hash k2 ((hashes (view s) k2)(f \<mapsto> v)) (set_zset k1 z (view s))"
proof -
  from assms obtain r1 s1 r2 where
    c1: "redisCmd (p_srv E) (ZADD k1 sc f) s = (Inr r1, s1)" and
    c2: "redisCmd (p_srv E) (HSET k2 f v) s1 = (Inr r2, s')"
    by (auto simp: rc_zpushhset_def lua_zpushhset_def io_iff)
  from cmd_ok [OF c1] obtain z where z: "zset_ok z"
    "map_of z = (map_of (zsets (view s) k1))(f \<mapsto> sc)" and v1: "view s1 = set_zset k1 z (view s)"
    by auto
  from cmd_ok [OF c2] v1
  have "view s' = set_hash k2 ((hashes (view s) k2)(f \<mapsto> v)) (set_zset k1 z (view s))"
    by simp
  with z show ?thesis by blast
qed

lemma execMulti_err: "execMulti E cs s = (Inl e, s') \<Longrightarrow> p_driver E = REDIS \<Longrightarrow> view s' = view s"
  by (auto simp: execMulti_def split: prod.splits sum.splits option.splits dest: exec_error)

end

context smq_live
begin

lemma rc_live: "\<exists>x s'. bindM (redisCmd (p_srv E) c) (\<lambda>r. retM (g r)) s = (Inr x, s')"
  using cmd_live [of c s] by (auto simp: io_iff)

lemma script_live: "\<exists>sha. getScriptId (p_scripts E) nm = Inr sha"
  using scripts_loaded [of nm] by (auto simp: getScriptId_def)

lemma version_live: "\<exists>ok. validateRedisVersion (p_version E) a b c = Inr ok"
  using version_known by (auto simp: validateRedisVersion_def)

lemma execMulti_live: "\<exists>rs s'. execMulti E cs s = (Inr rs, s') \<and> doc_seq cs (view s) rs (view s')"
proof -
  from exec_answers [of s cs] obtain rs s' where m: "p_mul E s cs = (Inr (Some rs), s')"
    by (cases "p_mul E s cs") auto
  from exec_runs [OF this] have r: "run_seq (p_srv E) s cs = (rs, s')" .
  with run_seq_live [of s cs] have ok: "list_all (\<lambda>r. \<not> is_err r) rs" by simp
  from run_seq_doc [OF r ok] m ok show ?thesis
    by (cases "p_driver E") (auto simp: execMulti_def first_err_None split: option.splits)
qed

lemma execMulti_doc: "execMulti E cs s = (x, s') \<Longrightarrow> \<exists>rs. x = Inr rs \<and> doc_seq cs (view s) rs (view s')"
  using execMulti_live [of cs s] by auto

lemma lpoprpush_live:
  assumes "hashes (view s) a = Map.empty" "zsets (view s) a = []" "sets (view s) a = {}"
  shows "\<exists>x s'. rc_lpoprpush E a b s = (Inr x, s')"
proof -
  obtain ok where v: "validateRedisVersion (p_version E) 6 2 0 = Inr ok"
    using version_live by blast
  show ?thesis
  proof (cases ok)
    case True
    with v rc_live [of "LMOVE a b LEFT RIGHT" reply_str s] show ?thesis
      by (auto simp: rc_lpoprpush_def rc_lmove_def io_run bindM_def liftT_def retM_def)
  next
    case False
    obtain r1 s1 where 1: "redisCmd (p_srv E) (EXISTS a) s = (Inr r1, s1)"
      using cmd_live by blast
    obtain r2 s2 where 2: "redisCmd (p_srv E) (LRANGE a 0 0) s1 = (Inr r2, s2)"
      using cmd_live by blast
    have "\<exists>x s'. lua_lpoprpush (p_srv E) a b s = (Inr x, s')"
    proof (cases "lists (view s) a")
      case Nil
      with assms cmd_ok [OF 1] 1 show ?thesis
        by (auto simp: lua_lpoprpush_def io_iff key_exists_def)
    next
      case (Cons m ms)
      with cmd_ok [OF 1] have r1: "r1 = RInt 1" and v1: "view s1 = view s"
        by (auto simp: key_exists_def)
      from cmd_ok [OF 2] v1 Cons have r2: "present (reply_list r2) = [m]"
        by (auto simp: slice_0_0)
      obtain r3 s3 where 3: "redisCmd (p_srv E) (LREM a 1 m) s2 = (Inr r3, s3)"
        using cmd_live by blast
      obtain r4 s4 where 4: "redisCmd (p_srv E) (RPUSH b m) s3 = (Inr r4, s4)"
        using cmd_live by blast
      show ?thesis
        using 1 2 3 4 r1 r2 by (auto simp: lua_lpoprpush_def bindM_def retM_def)
    qed
    with v False script_live [of LPOPRPUSH] show ?thesis
      by (auto simp: rc_lpoprpush_def bindM_def liftT_def retM_def)
  qed
qed

lemma zpophgetrpush_prefix:
  assumes z: "zsets (view s) k1 = (m, sc) # z"
  obtains r1 a1 r2 a2 r3 a3 r4 a4 r5 a5 where
    "redisCmd (p_srv E) (EXISTS k1) s = (Inr r1, a1)" "r1 = RInt 1"
    "redisCmd (p_srv E) (ZRANGE k1 0 0) a1 = (Inr r2, a2)" "present (reply_list r2) = [m]"
    "redisCmd (p_srv E) (HGET k2 m) a2 = (Inr r3, a3)" "reply_str r3 = hashes (view s) k2 m"
    "redisCmd (p_srv E) (ZREM k1 m) a3 = (Inr r4, a4)"
    "redisCmd (p_srv E) (HDEL k2 [m]) a4 = (Inr r5, a5)"
    "view a5 = set_hash k2 ((hashes (view s) k2)(m := None)) (set_zset k1 z (view s))"
proof -
  obtain r1 a1 where c1: "redisCmd (p_srv E) (EXISTS k1) s = (Inr r1, a1)" using cmd_live by blast
  obtain r2 a2 where c2: "redisCmd (p_srv E) (ZRANGE k1 0 0) a1 = (Inr r2, a2)"
    using cmd_live by blast
  obtain r3 a3 where c3: "redisCmd (p_srv E) (HGET k2 m) a2 = (Inr r3, a3)" using cmd_live by blast
  obtain r4 a4 where c4: "redisCmd (p_srv E) (ZREM k1 m) a3 = (Inr r4, a4)" using cmd_live by blast
  obtain r5 a5 where c5: "redisCmd (p_srv E) (HDEL k2 [m]) a4 = (Inr r5, a5)"
    using cmd_live by blast
  from cmd_ok [OF c1] z have r1: "r1 = RInt 1" and v1: "view a1 = view s"
    by (simp_all add: key_exists_def)
  from cmd_ok [OF c2] v1 z have r2: "present (reply_list r2) = [m]" and v2: "view a2 = view s"
    by (simp_all add: slice_0_0)
  from cmd_ok [OF c3] v2 have r3: "reply_str r3 = hashes (view s) k2 m" and v3: "view a3 = view s"
    by simp_all
  from cmd_ok [OF c4] v3 zset_tl_filter [OF z] have v4: "view a4 = set_zset k1 z (view s)"
    by simp
  from cmd_ok [OF c5] v4
  have v5: "view a5 = set_hash k2 ((hashes (view s) k2)(m := None)) (set_zset k1 z (view s))"
    by (simp add: if_None_upd)
  show ?thesis by (rule that [OF c1 r1 c2 r2 c3 r3 c4 c5 v5])
qed

lemma zpophgetrpush_missing:
  assumes z: "zsets (view s) k1 = (m, sc) # z" and h: "hashes (view s) k2 m = None"
  shows "\<exists>e s'. rc_zpophgetrpush E k1 k2 k3 s = (Inl (Cb e), s') \<and> view s' = set_zset k1 z (view s)"
proof -
  obtain sha where sha: "getScriptId (p_scripts E) ZPOPHGETRPUSH = Inr sha"
    using script_live by blast
  obtain r1 a1 r2 a2 r3 a3 r4 a4 r5 a5 where
    c: "redisCmd (p_srv E) (EXISTS k1) s = (Inr r1, a1)" "r1 = RInt 1"
    "redisCmd (p_srv E) (ZRANGE k1 0 0) a1 = (Inr r2, a2)" "present (reply_list r2) = [m]"
    "redisCmd (p_srv E) (HGET k2 m) a2 = (Inr r3, a3)" "reply_str r3 = hashes (view s) k2 m"
    "redisCmd (p_srv E) (ZREM k1 m) a3 = (Inr r4, a4)"
    "redisCmd (p_srv E) (HDEL k2 [m]) a4 = (Inr r5, a5)"
    "view a5 = set_hash k2 ((hashes (view s) k2)(m := None)) (set_zset k1 z (view s))"
    by (rule zpophgetrpush_prefix [OF z])
  have "(hashes (view s) k2)(m := None) = hashes (view s) k2" using h by auto
  with c h sha show ?thesis
    by (simp add: rc_zpophgetrpush_def lua_zpophgetrpush_def io_run)
qed

lemma zpophgetrpush_found:
  assumes z: "zsets (view s) k1 = (m, sc) # z" and h: "hashes (view s) k2 m = Some v"
  shows "\<exists>s'. rc_zpophgetrpush E k1 k2 k3 s = (Inr (Some v), s')"
proof -
  obtain sha where sha: "getScriptId (p_scripts E) ZPOPHGETRPUSH = Inr sha"
    using script_live by blast
  obtain r1 a1 r2 a2 r3 a3 r4 a4 r5 a5 where
    c: "redisCmd (p_srv E) (EXISTS k1) s = (Inr r1, a1)" "r1 = RInt 1"
    "redisCmd (p_srv E) (ZRANGE k1 0 0) a1 = (Inr r2, a2)" "present (reply_list r2) = [m]"
    "redisCmd (p_srv E) (HGET k2 m) a2 = (Inr r3, a3)" "reply_str r3 = hashes (view s) k2 m"
    "redisCmd (p_srv E) (ZREM k1 m) a3 = (Inr r4, a4)"
    "redisCmd (p_srv E) (HDEL k2 [m]) a4 = (Inr r5, a5)"
    "view a5 = set_hash k2 ((hashes (view s) k2)(m := None)) (set_zset k1 z (view s))"
    by (rule zpophgetrpush_prefix [OF z])
  obtain r6 a6 where c6: "redisCmd (p_srv E) (RPUSH k3 v) a5 = (Inr r6, a6)"
    using cmd_live by blast
  from c c6 h sha show ?thesis
    by (simp add: rc_zpophgetrpush_def lua_zpophgetrpush_def io_run)
qed

end

section \<open>A concrete platform\<close>

text \<open>The in-memory server with a lock manager that always grants, a clock at \<open>t\<close> and a cron parser
  that fires every full minute: the instance on which the properties are evaluated.\<close>

definition mem_platform :: "int \<Rightarrow> mem platform" where
  "mem_platform t =
     \<lparr>p_srv = mem_srv, p_mul = mem_mul, p_driver = REDIS, p_version = Some [Some 6, Some 2, Some 0],
      p_scripts = (\<lambda>_. Some ''sha''),
      p_rlock = (\<lambda>k ttl m. (Inr (Some k), m)), p_rextend = (\<lambda>k ttl m. (Inr (Some k), m)),
      p_runlock = (\<lambda>k m. (Inr (), m)), p_now = t, p_uuid = ''fresh'',
      p_cron = (\<lambda>c. if c = [] then Inl CronError else Inr (\<lambda>n. (n div 60000 + 1) * 60000)),
      p_opts = defaultOpts, p_ns = ''default''\<rparr>"

lemma mem_platform_sel [simp]:
  "p_srv (mem_platform t) = mem_srv" "p_mul (mem_platform t) = mem_mul"
  "p_driver (mem_platform t) = REDIS" "p_version (mem_platform t) = Some [Some 6, Some 2, Some 0]"
  "p_scripts (mem_platform t) = (\<lambda>_. Some ''sha'')" "p_now (mem_platform t) = t"
  "p_uuid (mem_platform t) = ''fresh''" "p_opts (mem_platform t) = defaultOpts"
  "p_ns (mem_platform t) = ''default''"
  "p_rlock (mem_platform t) = (\<lambda>k ttl m. (Inr (Some k), m))"
  "p_runlock (mem_platform t) = (\<lambda>k m. (Inr (), m))"
  by (simp_all add: mem_platform_def)

lemma mem_platform_live: "smq_live (mem_platform t) mem_view"
  by (intro smq_live.intro smq_platform.intro smq_live_axioms.intro)
    (auto simp: mem.redis_server_axioms mem.live_server_axioms mem_platform_def)

interpretation memp: smq_live "mem_platform t" mem_view for t
  by (rule mem_platform_live)

section \<open>Properties\<close>

text \<open>C36. \<open>lpoprpush\<close> moves the head of a list to the tail of another one (and returns it, or nothing
  for an empty source) whichever of its two implementations runs: the \<open>LMOVE\<close> command of servers
  from 6.2.0 on or the Lua script for older ones. All other data is untouched.\<close>

theorem lpoprpush_moves_head:
  assumes "smq_live E view"
    and "hashes (view s) a = Map.empty" and "zsets (view s) a = []" and "sets (view s) a = {}"
  shows "\<exists>x s'. rc_lpoprpush E a b s = (Inr x, s') \<and>
    (if lists (view s) a = [] then x = None \<and> view s' = view s
     else x = Some (hd (lists (view s) a)) \<and> view s' = move_list a b LEFT RIGHT (view s))"
proof -
  obtain x s' where r: "rc_lpoprpush E a b s = (Inr x, s')"
    using smq_live.lpoprpush_live [OF assms] by blast
  from smq_platform.rc_lpoprpush_ok [OF smq_live.axioms(1) [OF assms(1)] r] r show ?thesis
    by blast
qed

theorem lpoprpush_moves_head_witness:
  "\<exists>x s'. rc_lpoprpush (mem_platform 0\<lparr>p_version := Some [Some 5, Some 0, Some 7]\<rparr>) ''a'' ''b''
     (mem0\<lparr>mlists := (\<lambda>_. [])(''a'' := [Str ''m''])\<rparr>) = (Inr x, s') \<and> x = Some (Str ''m'')"
proof -
  let ?E = "mem_platform 0\<lparr>p_version := Some [Some 5, Some 0, Some 7]\<rparr>"
  let ?s = "mem0\<lparr>mlists := (\<lambda>_. [])(''a'' := [Str ''m''])\<rparr>"
  have live: "smq_live ?E mem_view"
    using memp.smq_live_axioms [of 0]
    by (simp add: smq_live_def smq_platform_def smq_live_axioms_def mem_platform_def)
  have "hashes (mem_view ?s) ''a'' = Map.empty" "zsets (mem_view ?s) ''a'' = []"
    "sets (mem_view ?s) ''a'' = {}" "lists (mem_view ?s) ''a'' = [Str ''m'']"
    by (simp_all add: mem_view_def mem0_def)
  with lpoprpush_moves_head [OF live, of ?s "''a''" "''b''"] show ?thesis
    by auto
qed

end
