(* ===== verification/Lock_Manager.thy ===== *)
theory Lock_Manager
  imports Redis_Client
begin

text \<open>
  \<^verbatim>\<open>src/system/common/lock-manager/lock-manager.ts\<close>: the wrapper around redlock that guards the
  deletions of the message manager and elects the process that runs the workers. Redlock is a
  parameter (\<open>p_rlock\<close>, \<open>p_rextend\<close>, \<open>p_runlock\<close> of the platform): locking and extending answer with an
  error or a lock, unlocking with an error or nothing.
\<close>

section \<open>State and operations\<close>

record lock_manager =
  lm_redlock :: bool
  lm_lockKey :: key
  lm_ttl :: int
  lm_retryOnFail :: bool
  lm_acquiredLock :: "string option"
  lm_timer :: bool

definition newLockManager :: "key \<Rightarrow> int \<Rightarrow> bool \<Rightarrow> lock_manager" where
  "newLockManager lockKey lockTtl retryOnFail =
     \<lparr>lm_redlock = True, lm_lockKey = lockKey, lm_ttl = lockTtl, lm_retryOnFail = retryOnFail,
      lm_acquiredLock = None, lm_timer = False\<rparr>"

text \<open>A failed attempt of a manager with \<open>retryOnFail\<close> arms a timer that calls \<open>acquireLock\<close> again: the
  callback is not called yet.\<close>

definition acquireLockRetryOnFail :: "err \<Rightarrow> lock_manager \<Rightarrow> (exn + bool) \<times> lock_manager" where
  "acquireLockRetryOnFail e lm =
     (if e = LockError then
        (if lm_retryOnFail lm then (Inl NoReply, lm\<lparr>lm_acquiredLock := None, lm_timer := True\<rparr>)
         else (Inr False, lm))
      else (Inl (Cb e), lm))"

fun handleRedlockReply :: "err + string option \<Rightarrow> lock_manager \<Rightarrow> (exn + bool) \<times> lock_manager" where
  "handleRedlockReply (Inl e) lm = acquireLockRetryOnFail e lm"
| "handleRedlockReply (Inr None) lm = (Inl (Cb EmptyCallbackReplyError), lm)"
| "handleRedlockReply (Inr (Some lock)) lm = (Inr True, lm\<lparr>lm_acquiredLock := Some lock\<rparr>)"

definition acquireLock ::
  "'s platform \<Rightarrow> lock_manager \<Rightarrow> 's \<Rightarrow> ((exn + bool) \<times> lock_manager) \<times> 's" where
  "acquireLock E lm s =
     (case lm_acquiredLock lm of
        Some lock \<Rightarrow> (case p_rextend E lock (lm_ttl lm) s of (r, s') \<Rightarrow> (handleRedlockReply r lm, s'))
      | None \<Rightarrow>
          if \<not> lm_redlock lm then
            ((Inl (Cb (LockManagerError ''Instance is no longer usable after calling quit(). Create a new instance.'')), lm), s)
          else (case p_rlock E (lm_lockKey lm) (lm_ttl lm) s of
                  (r, s') \<Rightarrow> (handleRedlockReply r lm, s')))"

definition releaseLock ::
  "'s platform \<Rightarrow> lock_manager \<Rightarrow> 's \<Rightarrow> ((exn + unit) \<times> lock_manager) \<times> 's" where
  "releaseLock E lm0 s =
     (let lm = lm0\<lparr>lm_timer := False\<rparr> in
      case lm_acquiredLock lm of
        None \<Rightarrow> ((Inr (), lm), s)
      | Some lock \<Rightarrow>
          (case p_runlock E lock s of
             (Inl e, s') \<Rightarrow> if e \<noteq> LockError then ((Inl (Cb e), lm), s')
                           else ((Inr (), lm\<lparr>lm_acquiredLock := None\<rparr>), s')
           | (Inr _, s') \<Rightarrow> ((Inr (), lm\<lparr>lm_acquiredLock := None\<rparr>), s')))"

definition lm_quit ::
  "'s platform \<Rightarrow> lock_manager \<Rightarrow> 's \<Rightarrow> ((exn + unit) \<times> lock_manager) \<times> 's" where
  "lm_quit E lm s = (if \<not> lm_redlock lm then ((Inr (), lm), s) else releaseLock E lm s)"

definition isLocked :: "lock_manager \<Rightarrow> bool" where
  "isLocked lm \<longleftrightarrow> lm_acquiredLock lm \<noteq> None"

text \<open>\<open>lockFN\<close>: the callback given to \<open>quit\<close> ignores the outcome of the unlocking. An exception of \<open>fn\<close>, or
  a callback it never calls, leaves the lock to its time to live.\<close>

definition lockFN :: "'s platform \<Rightarrow> key \<Rightarrow> ('s, unit) io \<Rightarrow> ('s, unit) io" where
  "lockFN E k fn s =
     (case acquireLock E (newLockManager k 10000 False) s of
        ((Inl e, _), s1) \<Rightarrow> (Inl e, s1)
      | ((Inr False, _), s1) \<Rightarrow>
          (Inl (Cb (LockManagerError ''Could not acquire a  lock. Try again later.'')), s1)
      | ((Inr True, lm), s1) \<Rightarrow>
          (case fn s1 of
             (Inl (Cb e), s2) \<Rightarrow> (Inl (Cb e), snd (lm_quit E lm s2))
           | (Inl e, s2) \<Rightarrow> (Inl e, s2)
           | (Inr u, s2) \<Rightarrow> (Inr u, snd (lm_quit E lm s2))))"

section \<open>Facts\<close>

lemma lockFN_run:
  assumes "p_rlock E k 10000 s = (Inr (Some tok), s1)"
  shows "lockFN E k fn s =
    (case fn s1 of
       (Inl (Cb e), s2) \<Rightarrow> (Inl (Cb e), snd (p_runlock E tok s2))
     | (Inl e, s2) \<Rightarrow> (Inl e, s2)
     | (Inr u, s2) \<Rightarrow> (Inr u, snd (p_runlock E tok s2)))"
  using assms
  by (auto simp: lockFN_def acquireLock_def newLockManager_def lm_quit_def releaseLock_def Let_def
      split: prod.splits sum.splits exn.splits)

lemma lockFN_refused:
  assumes "p_rlock E k 10000 s = (r, s1)" and "\<nexists>tok. r = Inr (Some tok)"
  shows "\<exists>e. lockFN E k fn s = (Inl (Cb e), s1)"
  using assms
  by (cases r rule: sum.exhaust)
    (auto simp: lockFN_def acquireLock_def newLockManager_def acquireLockRetryOnFail_def
      split: option.splits)

context smq_platform
begin

lemma rlock_view [simp]: "view (snd (p_rlock E k t s)) = view s"
  using rlock_frame [of k t s] by (cases "p_rlock E k t s") auto

lemma runlock_view [simp]: "view (snd (p_runlock E tok s)) = view s"
  using runlock_frame [of tok s] by (cases "p_runlock E tok s") auto

lemma lockFN_ok:
  assumes "lockFN E k fn s = (Inr u, s')"
  obtains s1 s2 where "view s1 = view s" "fn s1 = (Inr (), s2)" "view s' = view s2"
proof (cases "p_rlock E k 10000 s")
  case (Pair r s1)
  have v: "view s1 = view s" using rlock_frame [OF Pair] .
  show ?thesis
  proof (cases "\<exists>tok. r = Inr (Some tok)")
    case True
    then obtain tok where "r = Inr (Some tok)" ..
    with assms lockFN_run [of E k s tok s1 fn] Pair
    have "fn s1 = (Inr (), snd (fn s1))" "view s' = view (snd (fn s1))"
      by (auto split: prod.splits sum.splits exn.splits)
    with v that show ?thesis by blast
  next
    case False
    from lockFN_refused [OF Pair False, of fn] assms show ?thesis by auto
  qed
qed

lemma lockFN_err:
  assumes "lockFN E k fn s = (Inl e, s')"
  obtains "view s' = view s"
  | s1 s2 where "view s1 = view s" "fn s1 = (Inl e, s2)" "view s' = view s2"
proof (cases "p_rlock E k 10000 s")
  case (Pair r s1)
  have v: "view s1 = view s" using rlock_frame [OF Pair] .
  show ?thesis
  proof (cases "\<exists>tok. r = Inr (Some tok)")
    case True
    then obtain tok where "r = Inr (Some tok)" ..
    with assms lockFN_run [of E k s tok s1 fn] Pair
    have "fn s1 = (Inl e, snd (fn s1))" "view s' = view (snd (fn s1))"
      by (auto split: prod.splits sum.splits exn.splits)
    with v that(2) show ?thesis by blast
  next
    case False
    from lockFN_refused [OF Pair False, of fn] assms v that(1) show ?thesis by auto
  qed
qed

lemma lockFN_granted:
  assumes "p_rlock E k 10000 s = (Inr (Some tok), s1)" and "fn s1 = (Inr (), s2)"
  shows "\<exists>s'. lockFN E k fn s = (Inr (), s') \<and> view s' = view s2"
  using lockFN_run [OF assms(1), of fn] assms(2) by simp

end

end
