(* ===== verification/Message_Common.thy ===== *)
theory Message_Common
  imports Lock_Manager
begin

text \<open>
  \<^verbatim>\<open>src/system/message-manager/common.ts\<close>: reading a message at a position of a list, deleting it under
  a lock, and the paginated listings of lists and of sorted sets with their payload hash.
\<close>

section \<open>Operations\<close>

definition validatePaginationParams :: "int \<Rightarrow> int \<Rightarrow> unit result" where
  "validatePaginationParams skip tk =
     (if skip < 0 \<or> tk < 1 then
        Inl (ArgumentError ''Parameter [skip] should be >= 0. Parameter [take] should be >= 1.'')
      else Inr ())"

definition getListMessageAtSequenceId ::
  "'s platform \<Rightarrow> key \<Rightarrow> int \<Rightarrow> string \<Rightarrow> string \<Rightarrow> string \<Rightarrow> ('s, message) io" where
  "getListMessageAtSequenceId E from sequenceId messageId queueName namespace =
     bindM (rc_lrange E from sequenceId sequenceId) (\<lambda>reply.
       case reply of
         [] \<Rightarrow> cbErr (MessageNotFoundError messageId queueName namespace sequenceId)
       | msg # _ \<Rightarrow>
           bindM (liftT (createFromMessage (freshMessage E) (Some msg) False)) (\<lambda>message.
             if uuid message \<noteq> messageId then
               cbErr (MessageNotFoundError messageId queueName namespace sequenceId)
             else retM message))"

text \<open>The reply of \<open>getListMessageAtSequenceId\<close> without an error is always a message, so the branch of
  the source for an empty reply is not taken.\<close>

definition deleteListMessageAtSequenceId ::
  "'s platform \<Rightarrow> key \<Rightarrow> key \<Rightarrow> int \<Rightarrow> string \<Rightarrow> string \<Rightarrow> string \<Rightarrow> ('s, unit) io" where
  "deleteListMessageAtSequenceId E lockKey from sequenceId messageId queueName namespace =
     lockFN E lockKey
       (bindM (getListMessageAtSequenceId E from sequenceId messageId queueName namespace)
          (\<lambda>message. voidM (rc_lrem E from 1 (toString message))))"

definition getSortedSetSize :: "'s platform \<Rightarrow> key \<Rightarrow> ('s, int) io" where
  "getSortedSetSize E k = rc_zcard E k"

definition getListLength :: "'s platform \<Rightarrow> key \<Rightarrow> ('s, int) io" where
  "getListLength E k = rc_llen E k"

definition getListMessages :: "'s platform \<Rightarrow> key \<Rightarrow> int \<Rightarrow> int \<Rightarrow> ('s, message list) io" where
  "getListMessages E from skip tk =
     bindM (liftT (validatePaginationParams skip tk)) (\<lambda>_.
     bindM (rc_lrange E from skip (skip + tk - 1)) (\<lambda>result.
       liftT (mapR (\<lambda>msg. createFromMessage (freshMessage E) (Some msg) False) result)))"

record TGetMessagesReply =
  gm_total :: int
  gm_items :: "(int \<times> message) list"

definition getPaginatedListMessages ::
  "'s platform \<Rightarrow> key \<Rightarrow> int \<Rightarrow> int \<Rightarrow> ('s, TGetMessagesReply) io" where
  "getPaginatedListMessages E k skip tk =
     bindM (getListLength E k) (\<lambda>tot.
       if tot = 0 then retM \<lparr>gm_total = tot, gm_items = []\<rparr>
       else bindM (getListMessages E k skip tk) (\<lambda>reply.
         retM \<lparr>gm_total = tot,
               gm_items = zip (map (\<lambda>index. skip + int index) [0..<length reply]) reply\<rparr>))"

record TPaginatedMessages =
  pm_total :: int
  pm_items :: "message list"

definition getPaginatedSortedSetMessages ::
  "'s platform \<Rightarrow> key \<Rightarrow> key \<Rightarrow> int \<Rightarrow> int \<Rightarrow> ('s, TPaginatedMessages) io" where
  "getPaginatedSortedSetMessages E keyMessages keySortedSet skip tk =
     bindM (getSortedSetSize E keySortedSet) (\<lambda>tot.
     bindM (if tot = 0 then retM [] else rc_zrange E keySortedSet skip (skip + tk - 1)) (\<lambda>ids.
       if tot = 0 \<or> ids = [] then retM \<lparr>pm_total = tot, pm_items = []\<rparr>
       else bindM (rc_hmget E keyMessages ids) (\<lambda>msg.
         bindM (liftT (mapR (\<lambda>i. createFromMessage (freshMessage E) i False) msg)) (\<lambda>ms.
           retM \<lparr>pm_total = tot, pm_items = ms\<rparr>))))"

section \<open>Stored messages\<close>

text \<open>A list holds the texts of the messages \<open>ms\<close>. The body of a message that went through Redis is
  never \<open>undefined\<close> again.\<close>

definition msgs_at :: "store \<Rightarrow> key \<Rightarrow> message list \<Rightarrow> bool" where
  "msgs_at st k ms \<longleftrightarrow> lists st k = map toString ms \<and> list_all (\<lambda>m. body m \<noteq> None) ms"

text \<open>A sorted set holds the identifiers of the messages \<open>zs\<close> with their scores, and the hash that
  belongs to it their texts.\<close>

definition zmsgs_at :: "store \<Rightarrow> key \<Rightarrow> key \<Rightarrow> (message \<times> int) list \<Rightarrow> bool" where
  "zmsgs_at st zk hk zs \<longleftrightarrow>
     zsets st zk = map (\<lambda>(m, sc). (Str (uuid m), sc)) zs \<and>
     list_all (\<lambda>(m, sc). body m \<noteq> None \<and> hashes st hk (Str (uuid m)) = Some (toString m)) zs"

lemma createFromMessage_stored [simp]:
  "body m \<noteq> None \<Longrightarrow> createFromMessage m0 (Some (toString m)) False = Inr m"
  by simp

lemma msgs_at_lists: "msgs_at st k ms \<Longrightarrow> lists st k = map toString ms"
  by (simp add: msgs_at_def)

lemma msgs_at_body: "msgs_at st k ms \<Longrightarrow> m \<in> set ms \<Longrightarrow> body m \<noteq> None"
  by (simp add: msgs_at_def list_all_iff)

lemma msgs_at_nth_body: "msgs_at st k ms \<Longrightarrow> i < length ms \<Longrightarrow> body (ms ! i) \<noteq> None"
  by (simp add: msgs_at_def list_all_length)

lemma mapR_stored:
  "list_all (\<lambda>m. body m \<noteq> None) ms \<Longrightarrow>
     mapR (\<lambda>msg. createFromMessage m0 (Some msg) False) (map toString ms) = Inr ms"
  by (induction ms) auto

lemma mapR_stored_opt:
  "list_all (\<lambda>m. body m \<noteq> None) ms \<Longrightarrow>
     mapR (\<lambda>i. createFromMessage m0 i False) (map (Some \<circ> toString) ms) = Inr ms"
  by (induction ms) auto

lemma list_all_take_drop: "list_all P xs \<Longrightarrow> list_all P (take n (drop a xs))"
  by (auto simp: list_all_iff dest: in_set_takeD in_set_dropD)

lemma remove1_nth_distinct:
  "distinct xs \<Longrightarrow> i < length xs \<Longrightarrow> remove1 (xs ! i) xs = take i xs @ drop (Suc i) xs"
proof (induction xs arbitrary: i)
  case Nil
  then show ?case by simp
next
  case (Cons x xs)
  then show ?case
    by (cases i) (auto simp: nth_mem)
qed

section \<open>Behaviour of the operations\<close>

context smq_live
begin

lemma cmd_doc: "\<exists>r s'. redisCmd (p_srv E) c s = (Inr r, s') \<and> doc c (view s) r (view s')"
  using cmd_live [of c s] cmd_ok by blast

lemma lrange_live: "\<exists>s'. rc_lrange E k a b s = (Inr (slice a b (lists (view s) k)), s') \<and> view s' = view s"
  using rc_live [of "LRANGE k a b" "\<lambda>r. present (reply_list r)" s] rc_lrange_ok [of k a b s]
  unfolding rc_lrange_def by blast

lemma llen_live: "\<exists>s'. rc_llen E k s = (Inr (int (length (lists (view s) k))), s') \<and> view s' = view s"
  using rc_live [of "LLEN k" reply_int s] rc_llen_ok [of k s] unfolding rc_llen_def by blast

lemma zcard_live: "\<exists>s'. rc_zcard E k s = (Inr (int (length (zsets (view s) k))), s') \<and> view s' = view s"
  using rc_live [of "ZCARD k" reply_int s] rc_zcard_ok [of k s] unfolding rc_zcard_def by blast

lemma zrange_live:
  "\<exists>s'. rc_zrange E k a b s = (Inr (slice a b (map fst (zsets (view s) k))), s') \<and> view s' = view s"
  using rc_live [of "ZRANGE k a b" "\<lambda>r. present (reply_list r)" s] rc_zrange_ok [of k a b s]
  unfolding rc_zrange_def by blast

lemma zrangebyscore_live:
  "\<exists>s'. rc_zrangebyscore E k lo hi s =
      (Inr (map fst (filter (\<lambda>p. lo \<le> snd p \<and> snd p \<le> hi) (zsets (view s) k))), s') \<and> view s' = view s"
  using rc_live [of "ZRANGEBYSCORE k lo hi" "\<lambda>r. present (reply_list r)" s]
    rc_zrangebyscore_ok [of k lo hi s]
  unfolding rc_zrangebyscore_def by blast

lemma hmget_live:
  "\<exists>s'. rc_hmget E k fs s = (Inr (map (hashes (view s) k) fs), s') \<and> view s' = view s"
  using rc_live [of "HMGET k fs" reply_list s] rc_hmget_ok [of k fs s]
  unfolding rc_hmget_def by blast

lemma lrem_live:
  "\<exists>r s'. rc_lrem E k 1 v s = (Inr r, s') \<and>
     view s' = set_list k (remove1 v (lists (view s) k)) (view s)"
  using cmd_doc [of "LREM k 1 v" s] unfolding rc_lrem_def by auto

lemma getListMessageAtSequenceId_live:
  assumes ms: "msgs_at (view s) from ms"
  shows "\<exists>s'. getListMessageAtSequenceId E from (int i) messageId q n s =
           (if i < length ms \<and> uuid (ms ! i) = messageId then Inr (ms ! i)
            else Inl (Cb (MessageNotFoundError messageId q n (int i))), s') \<and> view s' = view s"
proof -
  obtain s' where r: "rc_lrange E from (int i) (int i) s =
      (Inr (slice (int i) (int i) (lists (view s) from)), s')" and v: "view s' = view s"
    using lrange_live by blast
  show ?thesis
    using r v ms
    by (auto simp: getListMessageAtSequenceId_def bindM_run_Inr slice_single msgs_at_lists
        msgs_at_nth_body io_run)
qed

lemma deleteListMessageAtSequenceId_live:
  assumes ms: "msgs_at (view s) from ms"
    and lock: "p_rlock E lockKey 10000 s = (Inr (Some tok), s1)"
  shows "\<exists>s'. deleteListMessageAtSequenceId E lockKey from (int i) messageId q n s =
           (if i < length ms \<and> uuid (ms ! i) = messageId then Inr ()
            else Inl (Cb (MessageNotFoundError messageId q n (int i))), s') \<and>
         view s' = (if i < length ms \<and> uuid (ms ! i) = messageId
                    then set_list from (remove1 (toString (ms ! i)) (lists (view s) from)) (view s)
                    else view s)"
proof -
  have v1: "view s1 = view s" using rlock_frame [OF lock] .
  with ms have ms1: "msgs_at (view s1) from ms" by simp
  obtain s2 where g: "getListMessageAtSequenceId E from (int i) messageId q n s1 =
      (if i < length ms \<and> uuid (ms ! i) = messageId then Inr (ms ! i)
       else Inl (Cb (MessageNotFoundError messageId q n (int i))), s2)" and v2: "view s2 = view s1"
    using getListMessageAtSequenceId_live [OF ms1] by blast
  obtain r s3 where l: "rc_lrem E from 1 (toString (ms ! i)) s2 = (Inr r, s3)"
    and v3: "view s3 = set_list from (remove1 (toString (ms ! i)) (lists (view s2) from)) (view s2)"
    using lrem_live by blast
  show ?thesis
    using g l v1 v2 v3
    by (auto simp: deleteListMessageAtSequenceId_def lockFN_run [OF lock] bindM_run_Inr
        voidM_run_Inr bindM_run_Inl)
qed

lemma getPaginatedListMessages_live:
  assumes ms: "msgs_at (view s) k ms" and n: "0 < n"
  shows "\<exists>s'. getPaginatedListMessages E k (int a) (int n) s =
      (Inr \<lparr>gm_total = int (length ms),
            gm_items = zip (map int [a..<a + n]) (take n (drop a ms))\<rparr>, s') \<and> view s' = view s"
proof -
  obtain s1 where r1: "rc_llen E k s = (Inr (int (length ms)), s1)" and v1: "view s1 = view s"
    using llen_live [of k s] ms by (auto simp: msgs_at_lists)
  obtain s2 where r2: "rc_lrange E k (int a) (int a + int n - 1) s1 =
      (Inr (map toString (take n (drop a ms))), s2)" and v2: "view s2 = view s"
    using lrange_live [of k "int a" "int a + int n - 1" s1] ms v1 n
    by (auto simp: msgs_at_lists slice_window take_map drop_map)
  have "list_all (\<lambda>m. body m \<noteq> None) (take n (drop a ms))"
    using ms by (simp add: msgs_at_def list_all_take_drop)
  moreover have "zip (map (\<lambda>i. int a + int i) [0..<length (take n (drop a ms))]) (take n (drop a ms)) =
      zip (map int [a..<a + n]) (take n (drop a ms))"
    by (auto simp: list_eq_iff_nth_eq)
  ultimately show ?thesis
    using r1 r2 v1 v2 n
    by (auto simp: getPaginatedListMessages_def getListLength_def getListMessages_def
        validatePaginationParams_def bindM_run_Inr mapR_stored io_run)
qed

lemma getPaginatedSortedSetMessages_live:
  assumes ms: "zmsgs_at (view s) zk hk zs" and n: "0 < n"
  shows "\<exists>s'. getPaginatedSortedSetMessages E hk zk (int a) (int n) s =
      (Inr \<lparr>pm_total = int (length zs), pm_items = map fst (take n (drop a zs))\<rparr>, s') \<and>
      view s' = view s"
proof -
  let ?page = "take n (drop a zs)"
  obtain s1 where r1: "rc_zcard E zk s = (Inr (int (length zs)), s1)" and v1: "view s1 = view s"
    using zcard_live [of zk s] ms by (auto simp: zmsgs_at_def)
  obtain s2 where r2: "rc_zrange E zk (int a) (int a + int n - 1) s1 =
      (Inr (map (\<lambda>p. Str (uuid (fst p))) ?page), s2)" and v2: "view s2 = view s"
    using zrange_live [of zk "int a" "int a + int n - 1" s1] ms v1 n
    by (auto simp: zmsgs_at_def slice_window take_map drop_map comp_def case_prod_beta)
  have page: "list_all (\<lambda>(m, sc). body m \<noteq> None \<and> hashes (view s) hk (Str (uuid m)) = Some (toString m)) ?page"
    using ms by (simp add: zmsgs_at_def list_all_take_drop)
  then have h: "map (hashes (view s) hk) (map (\<lambda>p. Str (uuid (fst p))) ?page) =
      map (Some \<circ> toString) (map fst ?page)" and b: "list_all (\<lambda>m. body m \<noteq> None) (map fst ?page)"
    by (auto simp: list_all_iff)
  obtain s3 where r3: "rc_hmget E hk (map (\<lambda>p. Str (uuid (fst p))) ?page) s2 =
      (Inr (map (Some \<circ> toString) (map fst ?page)), s3)" and v3: "view s3 = view s"
    using hmget_live [of hk "map (\<lambda>p. Str (uuid (fst p))) ?page" s2] h v2 by auto
  show ?thesis
    using r1 r2 r3 v1 v2 v3 mapR_stored_opt [OF b, of "freshMessage E"]
    by (auto simp: getPaginatedSortedSetMessages_def getSortedSetSize_def bindM_run_Inr io_run)
qed

end

section \<open>Properties\<close>

lemma concat_pages: "concat (map (\<lambda>j. take n (drop (j * n) xs)) [0..<p]) = take (p * n) xs"
proof (induction p)
  case 0
  then show ?case by simp
next
  case (Suc p)
  have "take (Suc p * n) xs = take (p * n) xs @ take n (drop (p * n) xs)"
    using take_add [of "p * n" n xs] by (simp add: add.commute)
  with Suc show ?case by simp
qed

text \<open>Deleting the message at a position of a list: when the position holds a message with the given
  identifier exactly that element goes and the rest keeps its order; otherwise the reply is
  \<open>MessageNotFoundError\<close> and nothing changes. (The texts of the list are distinct; the lock is granted.)\<close>

theorem delete_list_message_spec:
  assumes "smq_live E view"
    and "p_rlock E lockKey 10000 s = (Inr (Some tok), s1)"
    and "msgs_at (view s) from ms" and "distinct (lists (view s) from)"
  shows "\<exists>s'. deleteListMessageAtSequenceId E lockKey from (int i) messageId q n s =
       (if i < length ms \<and> uuid (ms ! i) = messageId then Inr ()
        else Inl (Cb (MessageNotFoundError messageId q n (int i))), s') \<and>
     view s' = (if i < length ms \<and> uuid (ms ! i) = messageId
                then set_list from (map toString (take i ms @ drop (Suc i) ms)) (view s)
                else view s)"
proof -
  have "remove1 (toString (ms ! i)) (lists (view s) from) = map toString (take i ms @ drop (Suc i) ms)"
    if "i < length ms"
    using remove1_nth_distinct [OF assms(4), of i] that msgs_at_lists [OF assms(3)]
    by (simp add: take_map drop_map)
  with smq_live.deleteListMessageAtSequenceId_live [OF assms(1,3,2), of i messageId q n]
  show ?thesis by auto
qed

text \<open>Pagination: page \<open>j\<close> of size \<open>n\<close> of a list reports the length of the list and the messages at
  positions \<open>j * n\<close> to \<open>j * n + n - 1\<close> with their positions, reading changes nothing, and the pages put
  together are the whole list in order: no message is skipped or repeated.\<close>

theorem paginated_list_pages:
  assumes "smq_live E view" and "msgs_at (view s) k ms" and "0 < n" and "length ms \<le> p * n"
  shows "(\<forall>j. \<exists>s'. getPaginatedListMessages E k (int (j * n)) (int n) s =
            (Inr \<lparr>gm_total = int (length ms),
                  gm_items = zip (map int [j * n..<j * n + n]) (take n (drop (j * n) ms))\<rparr>, s') \<and>
            view s' = view s) \<and>
     concat (map (\<lambda>j. map snd (gm_items (projr (fst
       (getPaginatedListMessages E k (int (j * n)) (int n) s))))) [0..<p]) = ms"
proof -
  note page = smq_live.getPaginatedListMessages_live [OF assms(1-3)]
  have snd_zip: "map snd (zip (map int [a..<a + n]) (take n (drop a ms))) = take n (drop a ms)" for a
    by (simp add: list_eq_iff_nth_eq)
  have "map snd (gm_items (projr (fst (getPaginatedListMessages E k (int (j * n)) (int n) s)))) =
      take n (drop (j * n) ms)" for j
    using page [of "j * n"] snd_zip [of "j * n"] by auto
  then have "concat (map (\<lambda>j. map snd (gm_items (projr (fst
       (getPaginatedListMessages E k (int (j * n)) (int n) s))))) [0..<p]) = ms"
    using concat_pages [of n ms p] assms(4) by simp
  with page show ?thesis by blast
qed

text \<open>Invalid pagination parameters are refused with an \<open>ArgumentError\<close> exception and change
  nothing, but only when the list has elements: for an empty list they are not looked at.\<close>

theorem paginated_list_invalid:
  assumes "smq_live E view" and "skip < 0 \<or> tk < 1"
  shows "\<exists>s'. getPaginatedListMessages E k skip tk s =
      (if lists (view s) k = [] then Inr \<lparr>gm_total = 0, gm_items = []\<rparr>
       else Inl (Throw (ArgumentError
         ''Parameter [skip] should be >= 0. Parameter [take] should be >= 1.'')), s') \<and>
      view s' = view s"
proof -
  obtain s1 where "rc_llen E k s = (Inr (int (length (lists (view s) k))), s1)" "view s1 = view s"
    using smq_live.llen_live [OF assms(1)] by blast
  with assms(2) show ?thesis
    by (auto simp: getPaginatedListMessages_def getListLength_def getListMessages_def
        validatePaginationParams_def bindM_run_Inr bindM_run_Inl io_run)
qed

definition demo_msg :: "string \<Rightarrow> message" where
  "demo_msg i = newMessage defaultOpts 0 i"

definition demo_mem :: "key \<Rightarrow> message list \<Rightarrow> mem" where
  "demo_mem k ms = mem0\<lparr>mlists := (\<lambda>_. [])(k := map toString ms)\<rparr>"

lemma demo_msg_simps [simp]:
  "uuid (demo_msg i) = i" "body (demo_msg i) = Some JNull" "queue (demo_msg i) = None"
  "demo_msg i = demo_msg j \<longleftrightarrow> i = j"
  by (auto simp: demo_msg_def newMessage_def)

lemma demo_mem_at: "list_all (\<lambda>m. body m \<noteq> None) ms \<Longrightarrow> msgs_at (mem_view (demo_mem k ms)) k ms"
  by (simp add: msgs_at_def demo_mem_def mem_view_def)

lemma demo_mem_lists [simp]:
  "lists (mem_view (demo_mem k ms)) k = map toString ms"
  by (simp add: demo_mem_def mem_view_def)

theorem delete_list_message_spec_witness:
  "\<exists>s'. deleteListMessageAtSequenceId (mem_platform 0) ''lock'' ''k'' 1 ''b'' ''q'' ''ns''
       (demo_mem ''k'' [demo_msg ''a'', demo_msg ''b'', demo_msg ''c'']) = (Inr (), s') \<and>
     lists (mem_view s') ''k'' = [toString (demo_msg ''a''), toString (demo_msg ''c'')]"
  using delete_list_message_spec [OF mem_platform_live [of 0], of "''lock''"
      "demo_mem ''k'' [demo_msg ''a'', demo_msg ''b'', demo_msg ''c'']" "''lock''" _ "''k''"
      "[demo_msg ''a'', demo_msg ''b'', demo_msg ''c'']" 1 "''b''" "''q''" "''ns''"]
    demo_mem_at [of "[demo_msg ''a'', demo_msg ''b'', demo_msg ''c'']" "''k''"]
  by auto

theorem paginated_list_pages_witness:
  "concat (map (\<lambda>j. map snd (gm_items (projr (fst (getPaginatedListMessages (mem_platform 0) ''k''
      (int (j * 2)) (int 2) (demo_mem ''k'' [demo_msg ''a'', demo_msg ''b'', demo_msg ''c''])))))) [0..<2])
   = [demo_msg ''a'', demo_msg ''b'', demo_msg ''c'']"
  using paginated_list_pages [OF mem_platform_live [of 0]
      demo_mem_at [of "[demo_msg ''a'', demo_msg ''b'', demo_msg ''c'']" "''k''"], of 2 2]
  by (simp del: upt_Suc)

theorem paginated_list_invalid_witness:
  "\<exists>s'. getPaginatedListMessages (mem_platform 0) ''k'' (- 1) 5 (demo_mem ''k'' [demo_msg ''a'']) =
     (Inl (Throw (ArgumentError
         ''Parameter [skip] should be >= 0. Parameter [take] should be >= 1.'')), s')"
  using paginated_list_invalid [OF mem_platform_live [of 0], of "- 1" 5 "''k''"
      "demo_mem ''k'' [demo_msg ''a'']"]
  by auto

end
