(* ===== verification/Queue_Handlers.thy ===== *)
theory Queue_Handlers
  imports Message_Common
begin

text \<open>
  The handlers of \<^verbatim>\<open>src/system/message-manager/handlers\<close> through which a message enters a queue, is
  taken by a consumer and leaves the consumer's processing queue: \<open>enqueue.handler.ts\<close>,
  \<open>dequeue.handler.ts\<close> and \<open>processing.handler.ts\<close>. A message object that an operation changes is
  returned changed. A call with a \<open>multi\<close> only adds commands to it: it yields the commands added.
\<close>

section \<open>Enqueue handler\<close>

definition getAcknowledgedMessages ::
  "'s platform \<Rightarrow> string \<Rightarrow> string option \<Rightarrow> int \<Rightarrow> int \<Rightarrow> ('s, TGetMessagesReply) io" where
  "getAcknowledgedMessages E queueName n skip tk =
     getPaginatedListMessages E (keyQueueAcknowledgedMessages (getKeys (p_ns E) queueName n)) skip tk"

definition getDeadLetteredMessages ::
  "'s platform \<Rightarrow> string \<Rightarrow> string option \<Rightarrow> int \<Rightarrow> int \<Rightarrow> ('s, TGetMessagesReply) io" where
  "getDeadLetteredMessages E queueName n skip tk =
     getPaginatedListMessages E (keyQueueDL (getKeys (p_ns E) queueName n)) skip tk"

definition getPendingMessages ::
  "'s platform \<Rightarrow> string \<Rightarrow> string option \<Rightarrow> int \<Rightarrow> int \<Rightarrow> ('s, TGetMessagesReply) io" where
  "getPendingMessages E queueName n skip tk =
     getPaginatedListMessages E (keyQueue (getKeys (p_ns E) queueName n)) skip tk"

definition getPendingMessagesWithPriority ::
  "'s platform \<Rightarrow> string \<Rightarrow> string option \<Rightarrow> int \<Rightarrow> int \<Rightarrow> ('s, TPaginatedMessages) io" where
  "getPendingMessagesWithPriority E queueName n skip tk =
     (let keys = getKeys (p_ns E) queueName n in
      getPaginatedSortedSetMessages E (keyPendingMessagesWithPriority keys) (keyQueuePriority keys)
        skip tk)"

text \<open>An error that is a \<open>MessageNotFoundError\<close> counts as success.\<close>

fun ignoreNotFound :: "exn + unit \<Rightarrow> exn + unit" where
  "ignoreNotFound (Inl (Cb (MessageNotFoundError i q n k))) = Inr ()"
| "ignoreNotFound r = r"

definition deletePendingMessage ::
  "'s platform \<Rightarrow> string \<Rightarrow> string option \<Rightarrow> int \<Rightarrow> string \<Rightarrow> ('s, unit) io" where
  "deletePendingMessage E queueName n sequenceId messageId s =
     (let namespace = ns_or n (p_ns E); keys = getKeys (p_ns E) queueName (Some namespace) in
      case deleteListMessageAtSequenceId E (keyLockDeletePendingMessage keys) (keyQueue keys)
             sequenceId messageId queueName namespace s of
        (r, s') \<Rightarrow> (ignoreNotFound r, s'))"

definition deletePendingMessageWithPriority ::
  "'s platform \<Rightarrow> string \<Rightarrow> string option \<Rightarrow> string \<Rightarrow> ('s, unit) io" where
  "deletePendingMessageWithPriority E queueName n messageId =
     (let keys = getKeys (p_ns E) queueName n in
      lockFN E (keyLockDeletePendingMessageWithPriority keys)
        (voidM (execMulti E
          [HDEL (keyPendingMessagesWithPriority keys) [Str messageId],
           ZREM (keyQueuePriority keys) (Str messageId)])))"

definition enqueueMessageWithPriorityMulti ::
  "'s platform \<Rightarrow> string \<Rightarrow> string \<Rightarrow> message \<Rightarrow> (cmd list \<times> message) result" where
  "enqueueMessageWithPriorityMulti E namespace queueName message =
     bindR (getSetPriority None message) (\<lambda>(prio, message').
       let keys = getKeys (p_ns E) queueName (Some namespace) in
       Inr ([HSET (keyPendingMessagesWithPriority keys) (Str (uuid message)) (toString message'),
             ZADD (keyQueuePriority keys) prio (Str (uuid message))], message'))"

definition enqueueMessageWithPriority ::
  "'s platform \<Rightarrow> string \<Rightarrow> string \<Rightarrow> message \<Rightarrow> ('s, message) io" where
  "enqueueMessageWithPriority E namespace queueName message =
     bindM (liftT (getSetPriority None message)) (\<lambda>(prio, message').
       let keys = getKeys (p_ns E) queueName (Some namespace) in
       bindM (rc_zpushhset E (keyQueuePriority keys) (keyPendingMessagesWithPriority keys) prio
                (Str (uuid message)) (toString message')) (\<lambda>_. retM message'))"

text \<open>\<open>enqueue\<close> with a client and with a \<open>multi\<close>.\<close>

definition enqueue :: "'s platform \<Rightarrow> message \<Rightarrow> bool \<Rightarrow> ('s, message) io" where
  "enqueue E message withPriority =
     (case queue message of
        None \<Rightarrow> throwM (PanicError ''Can not enqueue a message without a queue name'')
      | Some q \<Rightarrow>
          let message1 = setPublishedAt (p_now E) message in
          if withPriority then enqueueMessageWithPriority E (q_ns q) (q_name q) message1
          else bindM (rc_rpush E (keyQueue (getKeys (p_ns E) (q_name q) (Some (q_ns q))))
                        (toString message1)) (\<lambda>_. retM message1))"

definition enqueueMulti :: "'s platform \<Rightarrow> message \<Rightarrow> bool \<Rightarrow> (cmd list \<times> message) result" where
  "enqueueMulti E message withPriority =
     (case queue message of
        None \<Rightarrow> Inl (PanicError ''Can not enqueue a message without a queue name'')
      | Some q \<Rightarrow>
          let message1 = setPublishedAt (p_now E) message in
          if withPriority then enqueueMessageWithPriorityMulti E (q_ns q) (q_name q) message1
          else Inr ([RPUSH (keyQueue (getKeys (p_ns E) (q_name q) (Some (q_ns q))))
                       (toString message1)], message1))"

section \<open>Dequeue handler\<close>

record dequeueHandler =
  dh_keyQueue :: key
  dh_keyQueuePriority :: key
  dh_keyPendingMessagesWithPriority :: key
  dh_keyQueueProcessing :: key

definition newDequeueHandler :: "'s platform \<Rightarrow> string \<Rightarrow> key \<Rightarrow> dequeueHandler" where
  "newDequeueHandler E queueName keyProcessing =
     (let keys = getKeys (p_ns E) queueName None in
      \<lparr>dh_keyQueue = keyQueue keys, dh_keyQueuePriority = keyQueuePriority keys,
       dh_keyPendingMessagesWithPriority = keyPendingMessagesWithPriority keys,
       dh_keyQueueProcessing = keyProcessing\<rparr>)"

text \<open>The polling of a priority queue. Between two ticks the other processes change the server:
  \<open>env t\<close> is what they do in tick \<open>t\<close>. The fuel bounds the number of polls looked at; running out of
  it is \<open>NoReply\<close>, the callback not having been called yet.\<close>

fun dequeueWithPriority ::
  "'s platform \<Rightarrow> dequeueHandler \<Rightarrow> (nat \<Rightarrow> 's \<Rightarrow> 's) \<Rightarrow> nat \<Rightarrow> nat \<Rightarrow> ('s, rstr) io" where
  "dequeueWithPriority E h env t 0 s = (Inl NoReply, s)"
| "dequeueWithPriority E h env t (Suc fuel) s =
     (case rc_zpophgetrpush E (dh_keyQueuePriority h) (dh_keyPendingMessagesWithPriority h)
             (dh_keyQueueProcessing h) s of
        (Inl e, s') \<Rightarrow> (Inl e, s')
      | (Inr (Some reply), s') \<Rightarrow> (Inr reply, s')
      | (Inr None, s') \<Rightarrow> dequeueWithPriority E h env (Suc t) fuel (env t s'))"

text \<open>\<open>BRPOPLPUSH\<close> with timeout 0 answers when there is an element.\<close>

definition dequeue :: "'s platform \<Rightarrow> dequeueHandler \<Rightarrow> ('s, rstr option) io" where
  "dequeue E h = rc_brpoplpush E (dh_keyQueue h) (dh_keyQueueProcessing h)"

section \<open>Processing handler\<close>

definition deleteDeadLetterMessage ::
  "'s platform \<Rightarrow> string \<Rightarrow> string option \<Rightarrow> int \<Rightarrow> string \<Rightarrow> ('s, unit) io" where
  "deleteDeadLetterMessage E queueName n index messageId =
     (let namespace = ns_or n (p_ns E); keys = getKeys (p_ns E) queueName (Some namespace) in
      deleteListMessageAtSequenceId E (keyLockDeleteDeadLetterMessage keys) (keyQueueDL keys) index
        messageId queueName namespace)"

definition deleteAcknowledgedMessage ::
  "'s platform \<Rightarrow> string \<Rightarrow> string option \<Rightarrow> int \<Rightarrow> string \<Rightarrow> ('s, unit) io" where
  "deleteAcknowledgedMessage E queueName n index messageId =
     (let namespace = ns_or n (p_ns E); keys = getKeys (p_ns E) queueName (Some namespace) in
      deleteListMessageAtSequenceId E (keyLockDeleteAcknowledgedMessage keys)
        (keyQueueAcknowledgedMessages keys) index messageId queueName namespace)"

text \<open>The message and the causes are arguments of the source's methods that they do not use; the
  methods move whatever is at the end of the processing queue.\<close>

definition deadLetterMessage :: "'s platform \<Rightarrow> string \<Rightarrow> key \<Rightarrow> ('s, unit) io" where
  "deadLetterMessage E queueName keyProcessing =
     voidM (rc_lpoprpush E keyProcessing (keyQueueDL (getKeys (p_ns E) queueName None)))"

definition acknowledge :: "'s platform \<Rightarrow> string \<Rightarrow> key \<Rightarrow> ('s, unit) io" where
  "acknowledge E queueName keyProcessing =
     voidM (rc_lpoprpush E keyProcessing
       (keyQueueAcknowledgedMessages (getKeys (p_ns E) queueName None)))"

definition delayBeforeRequeue :: "'s platform \<Rightarrow> string \<Rightarrow> key \<Rightarrow> ('s, unit) io" where
  "delayBeforeRequeue E queueName keyProcessing =
     voidM (rc_rpoplpush E keyProcessing (keyQueueDelay (getKeys (p_ns E) queueName None)))"

definition requeue :: "'s platform \<Rightarrow> string \<Rightarrow> key \<Rightarrow> ('s, unit) io" where
  "requeue E queueName keyProcessing =
     voidM (rc_rpoplpush E keyProcessing (keyQueueRequeue (getKeys (p_ns E) queueName None)))"

section \<open>Behaviour\<close>

text \<open>The message as it is stored: published now, and with a priority when it goes to a priority
  queue.\<close>

definition prio_of :: "message \<Rightarrow> int" where
  "prio_of m = (case priority m of None \<Rightarrow> priority_NORMAL | Some x \<Rightarrow> x)"

definition published :: "'s platform \<Rightarrow> bool \<Rightarrow> message \<Rightarrow> message" where
  "published E withPriority m =
     (let m1 = m\<lparr>publishedAt := Some (p_now E)\<rparr>
      in if withPriority then m1\<lparr>priority := Some (prio_of m)\<rparr> else m1)"

lemma getSetPriority_prio_of:
  "getSetPriority None m = Inr (prio_of m, m\<lparr>priority := Some (prio_of m)\<rparr>)"
  by (simp add: getSetPriority_None prio_of_def)

lemma published_sel [simp]:
  "uuid (published E b m) = uuid m" "queue (published E b m) = queue m"
  "body (published E b m) = body m" "attempts (published E b m) = attempts m"
  by (simp_all add: published_def Let_def)

lemma prio_of_published [simp]: "prio_of (m\<lparr>publishedAt := t\<rparr>) = prio_of m"
  by (simp add: prio_of_def)

definition enqueueCmds :: "'s platform \<Rightarrow> TMessageQueue \<Rightarrow> message \<Rightarrow> bool \<Rightarrow> cmd list" where
  "enqueueCmds E q m withPriority =
     (let n = q_ns q; nm = q_name q; m1 = published E withPriority m in
      if withPriority then
        [HSET (qkey KEY_PENDING_MESSAGES_WITH_PRIORITY n nm) (Str (uuid m)) (toString m1),
         ZADD (qkey KEY_QUEUE_PRIORITY n nm) (prio_of m) (Str (uuid m))]
      else [RPUSH (qkey KEY_QUEUE n nm) (toString m1)])"

lemma enqueueMulti_eq:
  "queue m = Some q \<Longrightarrow> enqueueMulti E m b = Inr (enqueueCmds E q m b, published E b m)"
  by (simp add: enqueueMulti_def enqueueCmds_def enqueueMessageWithPriorityMulti_def smq_keys
      getSetPriority_prio_of setPublishedAt_def published_def Let_def)

text \<open>The effect of an enqueue operation on what can be observed.\<close>

definition enqueued :: "'s platform \<Rightarrow> TMessageQueue \<Rightarrow> message \<Rightarrow> bool \<Rightarrow> store \<Rightarrow> store \<Rightarrow> bool" where
  "enqueued E q m withPriority st st' \<longleftrightarrow>
     (let n = q_ns q; nm = q_name q; m1 = published E withPriority m in
      if withPriority then
        (\<exists>z. zset_ok z \<and>
           map_of z = (map_of (zsets st (qkey KEY_QUEUE_PRIORITY n nm)))(Str (uuid m) \<mapsto> prio_of m) \<and>
           st' = set_hash (qkey KEY_PENDING_MESSAGES_WITH_PRIORITY n nm)
             ((hashes st (qkey KEY_PENDING_MESSAGES_WITH_PRIORITY n nm))(Str (uuid m) \<mapsto> toString m1))
             (set_zset (qkey KEY_QUEUE_PRIORITY n nm) z st))
      else st' = set_list (qkey KEY_QUEUE n nm) (lists st (qkey KEY_QUEUE n nm) @ [toString m1]) st)"

lemma enqueueCmds_doc:
  "doc_seq (enqueueCmds E q m b) st rs st' \<Longrightarrow> enqueued E q m b st st'"
  by (auto simp: enqueueCmds_def enqueued_def Let_def split: if_splits)

context smq_live
begin

lemma rpush_live:
  "\<exists>r s'. rc_rpush E k v s = (Inr r, s') \<and> view s' = set_list k (lists (view s) k @ [v]) (view s)"
  using cmd_doc [of "RPUSH k v" s] unfolding rc_rpush_def by auto

lemma zpushhset_live: "\<exists>s'. rc_zpushhset E k1 k2 sc f v s = (Inr (), s')"
proof -
  obtain sha where "getScriptId (p_scripts E) ZPUSHHSET = Inr sha" using script_live by blast
  moreover obtain r1 s1 where "redisCmd (p_srv E) (ZADD k1 sc f) s = (Inr r1, s1)"
    using cmd_live by blast
  moreover obtain r2 s2 where "redisCmd (p_srv E) (HSET k2 f v) s1 = (Inr r2, s2)"
    using cmd_live by blast
  ultimately show ?thesis
    by (simp add: rc_zpushhset_def lua_zpushhset_def io_run)
qed

lemma enqueue_live:
  assumes q: "queue m = Some q"
  shows "\<exists>s'. enqueue E m b s = (Inr (published E b m), s') \<and> enqueued E q m b (view s) (view s')"
proof (cases b)
  case True
  let ?zk = "qkey KEY_QUEUE_PRIORITY (q_ns q) (q_name q)"
  let ?hk = "qkey KEY_PENDING_MESSAGES_WITH_PRIORITY (q_ns q) (q_name q)"
  obtain s' where r: "rc_zpushhset E ?zk ?hk (prio_of m) (Str (uuid m))
      (toString (published E True m)) s = (Inr (), s')"
    using zpushhset_live by blast
  from rc_zpushhset_ok [OF r] r q True show ?thesis
    by (auto simp: enqueue_def enqueueMessageWithPriority_def enqueued_def smq_keys
        getSetPriority_prio_of setPublishedAt_def published_def Let_def io_run)
next
  case False
  with q rpush_live [of "qkey KEY_QUEUE (q_ns q) (q_name q)" "toString (published E False m)" s]
  show ?thesis
    by (auto simp: enqueue_def enqueued_def smq_keys setPublishedAt_def published_def Let_def io_run)
qed

lemma rpoplpush_live:
  "\<exists>x s'. rc_rpoplpush E a b s = (Inr x, s') \<and>
     view s' = (if lists (view s) a = [] then view s else move_list a b RIGHT LEFT (view s))"
proof -
  obtain x s' where r: "rc_rpoplpush E a b s = (Inr x, s')"
    using rc_live [of "RPOPLPUSH a b" reply_str s] unfolding rc_rpoplpush_def by blast
  from rc_rpoplpush_ok [OF this] r show ?thesis by (auto split: if_splits)
qed

lemma lpoprpush_view:
  assumes "hashes (view s) a = Map.empty" "zsets (view s) a = []" "sets (view s) a = {}"
  shows "\<exists>x s'. rc_lpoprpush E a b s = (Inr x, s') \<and>
     view s' = (if lists (view s) a = [] then view s else move_list a b LEFT RIGHT (view s))"
proof -
  obtain x s' where r: "rc_lpoprpush E a b s = (Inr x, s')"
    using lpoprpush_live [OF assms] by blast
  from rc_lpoprpush_ok [OF this] r show ?thesis by (auto split: if_splits)
qed

end

section \<open>The contract of a queue\<close>

text \<open>What producers and consumers expect of either kind of queue: \<open>put\<close> adds the stored form of a
  message, \<open>get\<close> takes one message that is there and, in the order \<open>first\<close>, is one of the first, and a
  queue that is not empty can be read. The interface is relational: \<open>put m s s'\<close> and \<open>get s m s'\<close> are
  successful calls.\<close>

inductive qrun ::
  "(message \<Rightarrow> 's \<Rightarrow> 's \<Rightarrow> bool) \<Rightarrow> ('s \<Rightarrow> message \<Rightarrow> 's \<Rightarrow> bool) \<Rightarrow>
     's \<Rightarrow> message list \<Rightarrow> message list \<Rightarrow> 's \<Rightarrow> bool"
  for put get where
  start: "qrun put get s [] [] s"
| put_step: "qrun put get s ins outs s1 \<Longrightarrow> put m s1 s2 \<Longrightarrow> qrun put get s (ins @ [m]) outs s2"
| get_step: "qrun put get s ins outs s1 \<Longrightarrow> get s1 m s2 \<Longrightarrow> qrun put get s ins (outs @ [m]) s2"

locale delivery_queue =
  fixes put :: "message \<Rightarrow> 's \<Rightarrow> 's \<Rightarrow> bool"
    and get :: "'s \<Rightarrow> message \<Rightarrow> 's \<Rightarrow> bool"
    and holds :: "'s \<Rightarrow> message multiset \<Rightarrow> bool"
    and stored :: "message \<Rightarrow> message"
    and first :: "message \<Rightarrow> message multiset \<Rightarrow> bool"
  assumes put_holds: "holds s M \<Longrightarrow> put m s s' \<Longrightarrow> holds s' (add_mset (stored m) M)"
    and get_holds: "holds s M \<Longrightarrow> get s m s' \<Longrightarrow> m \<in># M \<and> first m M \<and> holds s' (M - {#m#})"
    and get_enabled: "holds s M \<Longrightarrow> M \<noteq> {#} \<Longrightarrow> \<exists>m s'. get s m s'"
begin

lemma run_conserves:
  "qrun put get s ins outs s' \<Longrightarrow> holds s M \<Longrightarrow>
     \<exists>M'. holds s' M' \<and> M' + mset outs = M + mset (map stored ins)"
proof (induction arbitrary: M rule: qrun.induct)
  case (start s)
  then show ?case by auto
next
  case (put_step s ins outs s1 m s2)
  then obtain M' where "holds s1 M'" "M' + mset outs = M + mset (map stored ins)" by blast
  with put_holds [of s1 M' m s2] put_step.hyps show ?case
    by (intro exI [of _ "add_mset (stored m) M'"]) auto
next
  case (get_step s ins outs s1 m s2)
  then obtain M' where M': "holds s1 M'" "M' + mset outs = M + mset (map stored ins)" by blast
  with get_holds [of s1 M' m s2] get_step.hyps
  obtain A where "M' = add_mset m A" "holds s2 A"
    by (metis add_mset_remove_trivial multi_member_split)
  with M' show ?case
    by (intro exI [of _ A]) auto
qed

lemma qrun_trans:
  "qrun put get s1 ins' outs' s2 \<Longrightarrow> qrun put get s ins outs s1 \<Longrightarrow>
     qrun put get s (ins @ ins') (outs @ outs') s2"
  by (induction rule: qrun.induct) (auto simp flip: append_assoc intro: qrun.intros)

lemma drain:
  "holds s M \<Longrightarrow> \<exists>outs s'. qrun put get s [] outs s' \<and> mset outs = M \<and> holds s' {#}"
proof (induction "size M" arbitrary: s M)
  case 0
  then show ?case by (auto intro: qrun.start)
next
  case (Suc n)
  then have "M \<noteq> {#}" by auto
  with get_enabled [OF Suc.prems] obtain m s1 where g: "get s m s1" by blast
  from get_holds [OF Suc.prems g] have m: "m \<in># M" and h: "holds s1 (M - {#m#})" by auto
  from Suc.hyps(2) m have "n = size (M - {#m#})" by (simp add: size_Diff_singleton)
  from Suc.hyps(1) [OF this h] obtain outs s' where
    r: "qrun put get s1 [] outs s'" "mset outs = M - {#m#}" "holds s' {#}" by blast
  have "qrun put get s ([] @ []) ([m] @ outs) s'"
    by (rule qrun_trans [OF r(1)]) (use qrun.get_step [OF qrun.start, of get s m s1] g in auto)
  with r m show ?case by (intro exI [of _ "m # outs"]) auto
qed

end

text \<open>The calls of the two kinds of queue, for a queue of the process's namespace.\<close>

definition lifo_put :: "'s platform \<Rightarrow> string \<Rightarrow> message \<Rightarrow> 's \<Rightarrow> 's \<Rightarrow> bool" where
  "lifo_put E nm m s s' \<longleftrightarrow>
     queue m = Some \<lparr>q_name = nm, q_ns = p_ns E\<rparr> \<and> body m \<noteq> None \<and>
     (\<exists>m'. enqueue E m False s = (Inr m', s'))"

definition lifo_get ::
  "'s platform \<Rightarrow> ('s \<Rightarrow> store) \<Rightarrow> dequeueHandler \<Rightarrow> 's \<Rightarrow> message \<Rightarrow> 's \<Rightarrow> bool" where
  "lifo_get E view h s m s' \<longleftrightarrow>
     lists (view s) (dh_keyQueue h) \<noteq> [] \<and>
     (\<exists>t. dequeue E h s = (Inr (Some t), s') \<and> createFromMessage (freshMessage E) (Some t) False = Inr m)"

definition lifo_holds :: "('s \<Rightarrow> store) \<Rightarrow> dequeueHandler \<Rightarrow> 's \<Rightarrow> message multiset \<Rightarrow> bool" where
  "lifo_holds view h s M \<longleftrightarrow> (\<exists>ms. msgs_at (view s) (dh_keyQueue h) ms \<and> mset ms = M)"

text \<open>In a priority queue an identifier has one place: the contract is about messages whose identifier
  is not pending.\<close>

definition prio_put ::
  "'s platform \<Rightarrow> ('s \<Rightarrow> store) \<Rightarrow> string \<Rightarrow> message \<Rightarrow> 's \<Rightarrow> 's \<Rightarrow> bool" where
  "prio_put E view nm m s s' \<longleftrightarrow>
     queue m = Some \<lparr>q_name = nm, q_ns = p_ns E\<rparr> \<and> body m \<noteq> None \<and>
     Str (uuid m) \<notin> zkeys (view s) (qkey KEY_QUEUE_PRIORITY (p_ns E) nm) \<and>
     (\<exists>m'. enqueue E m True s = (Inr m', s'))"

definition prio_get :: "'s platform \<Rightarrow> dequeueHandler \<Rightarrow> 's \<Rightarrow> message \<Rightarrow> 's \<Rightarrow> bool" where
  "prio_get E h s m s' \<longleftrightarrow>
     (\<exists>t. dequeueWithPriority E h (\<lambda>_ x. x) 0 1 s = (Inr t, s') \<and>
        createFromMessage (freshMessage E) (Some t) False = Inr m)"

definition prio_msgs :: "store \<Rightarrow> dequeueHandler \<Rightarrow> (message \<times> int) list \<Rightarrow> bool" where
  "prio_msgs st h zs \<longleftrightarrow>
     zmsgs_at st (dh_keyQueuePriority h) (dh_keyPendingMessagesWithPriority h) zs \<and>
     list_all (\<lambda>(m, sc). priority m = Some sc) zs"

definition prio_holds :: "('s \<Rightarrow> store) \<Rightarrow> dequeueHandler \<Rightarrow> 's \<Rightarrow> message multiset \<Rightarrow> bool" where
  "prio_holds view h s M \<longleftrightarrow> (\<exists>zs. prio_msgs (view s) h zs \<and> mset (map fst zs) = M)"

definition most_urgent :: "message \<Rightarrow> message multiset \<Rightarrow> bool" where
  "most_urgent m M \<longleftrightarrow> (\<forall>x \<in># M. prio_of m \<le> prio_of x)"

text \<open>A consumer's view of one queue of its namespace; the names passed validation.\<close>

locale queue_client = smq_live +
  fixes nm inst :: string
  assumes plain_names: "plain (p_ns E)" "plain nm" "plain inst"

definition consumerHandler :: "'s platform \<Rightarrow> string \<Rightarrow> string \<Rightarrow> dequeueHandler" where
  "consumerHandler E nm inst =
     newDequeueHandler E nm (keyQueueProcessing (getInstanceKeys (p_ns E) nm inst))"

lemma consumerHandler_sel [smq_keys]:
  "dh_keyQueue (consumerHandler E nm inst) = qkey KEY_QUEUE (p_ns E) nm"
  "dh_keyQueuePriority (consumerHandler E nm inst) = qkey KEY_QUEUE_PRIORITY (p_ns E) nm"
  "dh_keyPendingMessagesWithPriority (consumerHandler E nm inst) =
     qkey KEY_PENDING_MESSAGES_WITH_PRIORITY (p_ns E) nm"
  "dh_keyQueueProcessing (consumerHandler E nm inst) = ikey KEY_QUEUE_PROCESSING (p_ns E) nm inst"
  by (simp_all add: consumerHandler_def newDequeueHandler_def Let_def smq_keys)

lemma move_right_left:
  "a \<noteq> b \<Longrightarrow> lists st a \<noteq> [] \<Longrightarrow>
     move_list a b RIGHT LEFT st =
       set_list b (last (lists st a) # lists st b) (set_list a (butlast (lists st a)) st)"
  by (simp add: move_list_def Let_def)

context queue_client
begin

lemma enqueue_lifo_at:
  assumes "lifo_put E nm m s s'" and "msgs_at (view s) (qkey KEY_QUEUE (p_ns E) nm) ms"
  shows "msgs_at (view s') (qkey KEY_QUEUE (p_ns E) nm) (ms @ [published E False m])"
proof -
  from assms(1) obtain m' where q: "queue m = Some \<lparr>q_name = nm, q_ns = p_ns E\<rparr>" and b: "body m \<noteq> None"
    and e: "enqueue E m False s = (Inr m', s')"
    by (auto simp: lifo_put_def)
  from enqueue_live [OF q, of False s] e assms(2) b show ?thesis
    by (auto simp: enqueued_def msgs_at_def Let_def)
qed

lemma brpoplpush_live: "\<exists>x s'. rc_brpoplpush E a b s = (Inr x, s')"
  using rc_live [of "BRPOPLPUSH a b" reply_str s] unfolding rc_brpoplpush_def .

lemma dequeue_step:
  assumes ms: "msgs_at (view s) (qkey KEY_QUEUE (p_ns E) nm) (ms @ [m])"
  shows "\<exists>s'. dequeue E (consumerHandler E nm inst) s = (Inr (Some (toString m)), s') \<and>
     view s' = set_list (ikey KEY_QUEUE_PROCESSING (p_ns E) nm inst)
       (toString m # lists (view s) (ikey KEY_QUEUE_PROCESSING (p_ns E) nm inst))
       (set_list (qkey KEY_QUEUE (p_ns E) nm) (map toString ms) (view s))"
proof -
  let ?a = "qkey KEY_QUEUE (p_ns E) nm" and ?b = "ikey KEY_QUEUE_PROCESSING (p_ns E) nm inst"
  obtain x s' where r: "rc_brpoplpush E ?a ?b s = (Inr x, s')"
    using brpoplpush_live by blast
  have l: "lists (view s) ?a = map toString ms @ [toString m]"
    using ms by (simp add: msgs_at_def)
  from rc_brpoplpush_ok [OF r] r l plain_names show ?thesis
    by (simp add: dequeue_def smq_keys move_right_left)
qed

lemma lifo_get_inv:
  assumes "lifo_get E view (consumerHandler E nm inst) s m s'"
    and "msgs_at (view s) (qkey KEY_QUEUE (p_ns E) nm) ms"
  shows "ms \<noteq> [] \<and> m = last ms \<and> msgs_at (view s') (qkey KEY_QUEUE (p_ns E) nm) (butlast ms)"
proof -
  from assms have ne: "ms \<noteq> []" by (auto simp: lifo_get_def msgs_at_def smq_keys)
  then have at: "msgs_at (view s) (qkey KEY_QUEUE (p_ns E) nm) (butlast ms @ [last ms])"
    using assms(2) by simp
  from msgs_at_body [OF at, of "last ms"] have b: "body (last ms) \<noteq> None" by simp
  from dequeue_step [OF at] assms(1) b ne have m: "m = last ms"
    and v: "lists (view s') (qkey KEY_QUEUE (p_ns E) nm) = map toString (butlast ms)"
    using plain_names by (auto simp: lifo_get_def)
  from assms(2) have "list_all (\<lambda>m. body m \<noteq> None) (butlast ms)"
    by (auto simp: msgs_at_def list_all_iff dest: in_set_butlastD)
  with ne m v show ?thesis by (simp add: msgs_at_def)
qed

lemma lifo_get_enabled:
  assumes "msgs_at (view s) (qkey KEY_QUEUE (p_ns E) nm) ms" and "ms \<noteq> []"
  shows "\<exists>s'. lifo_get E view (consumerHandler E nm inst) s (last ms) s'"
proof -
  from assms have at: "msgs_at (view s) (qkey KEY_QUEUE (p_ns E) nm) (butlast ms @ [last ms])"
    by simp
  from msgs_at_body [OF at, of "last ms"] have "body (last ms) \<noteq> None" by simp
  with dequeue_step [OF at] assms show ?thesis
    by (fastforce simp: lifo_get_def smq_keys msgs_at_def)
qed

end

sublocale queue_client \<subseteq> lifo: delivery_queue "lifo_put E nm"
    "lifo_get E view (consumerHandler E nm inst)" "lifo_holds view (consumerHandler E nm inst)"
    "published E False" "\<lambda>_ _. True"
proof
  fix s M m s'
  assume "lifo_holds view (consumerHandler E nm inst) s M" "lifo_put E nm m s s'"
  then show "lifo_holds view (consumerHandler E nm inst) s' (add_mset (published E False m) M)"
    using enqueue_lifo_at unfolding lifo_holds_def smq_keys by force
next
  fix s M m s'
  assume "lifo_holds view (consumerHandler E nm inst) s M"
    "lifo_get E view (consumerHandler E nm inst) s m s'"
  then obtain ms where ms: "msgs_at (view s) (qkey KEY_QUEUE (p_ns E) nm) ms" "mset ms = M"
    and g: "lifo_get E view (consumerHandler E nm inst) s m s'"
    by (auto simp: lifo_holds_def smq_keys)
  from lifo_get_inv [OF g ms(1)] have *: "ms \<noteq> []" "m = last ms"
    "msgs_at (view s') (qkey KEY_QUEUE (p_ns E) nm) (butlast ms)" by auto
  then have "M = add_mset m (mset (butlast ms))"
    using ms(2) mset_butlast_last by metis
  with * show "m \<in># M \<and> True \<and> lifo_holds view (consumerHandler E nm inst) s' (M - {#m#})"
    by (auto simp: lifo_holds_def smq_keys)
next
  fix s M
  assume "lifo_holds view (consumerHandler E nm inst) s M" "M \<noteq> {#}"
  then show "\<exists>m s'. lifo_get E view (consumerHandler E nm inst) s m s'"
    using lifo_get_enabled by (fastforce simp: lifo_holds_def smq_keys)
qed

lemma mset_map_lift: "mset z = image_mset f N \<Longrightarrow> \<exists>zs. mset zs = N \<and> z = map f zs"
proof (induction z arbitrary: N)
  case Nil
  then show ?case by (auto intro: exI [of _ "[]"])
next
  case (Cons a z)
  then have "image_mset f N = add_mset a (mset z)" by simp
  then obtain x N1 where N: "N = add_mset x N1" "f x = a" "image_mset f N1 = mset z"
    by (auto dest: msed_map_invR)
  from Cons.IH [of N1] N(3) obtain zs where "mset zs = N1" "z = map f zs" by auto
  with N show ?case by (intro exI [of _ "x # zs"]) auto
qed

lemma zset_insert_mset:
  assumes "zset_ok z" "zset_ok w" "map_of z = (map_of w)(k \<mapsto> p)" "k \<notin> fst ` set w"
  shows "mset z = add_mset (k, p) (mset w)"
proof -
  have "(x, y) \<in> set z \<longleftrightarrow> (x, y) \<in> set ((k, p) # w)" for x y
    using assms zset_map_of [of z x y] zset_map_of [of w x y]
    by (auto simp: image_iff split: if_splits)
  then have "set z = set ((k, p) # w)" by auto
  moreover have "distinct z" "distinct ((k, p) # w)"
    using assms by (force simp: zset_ok_def distinct_map)+
  ultimately have "mset z = mset ((k, p) # w)" by (simp only: set_eq_iff_mset_eq_distinct)
  then show ?thesis by simp
qed

lemma zmsgs_at_ids:
  "zmsgs_at st zk hk zs \<Longrightarrow> zkeys st zk = (\<lambda>p. Str (uuid (fst p))) ` set zs"
  by (force simp: zmsgs_at_def image_iff case_prod_beta)

context queue_client
begin

lemma prio_get_inv:
  assumes g: "prio_get E (consumerHandler E nm inst) s m s'"
    and zs: "prio_msgs (view s) (consumerHandler E nm inst) zs"
  shows "\<exists>sc rest. zs = (m, sc) # rest \<and> prio_msgs (view s') (consumerHandler E nm inst) rest \<and>
    view s' = set_list (ikey KEY_QUEUE_PROCESSING (p_ns E) nm inst)
      (lists (view s) (ikey KEY_QUEUE_PROCESSING (p_ns E) nm inst) @ [toString m])
      (set_hash (qkey KEY_PENDING_MESSAGES_WITH_PRIORITY (p_ns E) nm)
        ((hashes (view s) (qkey KEY_PENDING_MESSAGES_WITH_PRIORITY (p_ns E) nm))(Str (uuid m) := None))
        (set_zset (qkey KEY_QUEUE_PRIORITY (p_ns E) nm)
          (tl (zsets (view s) (qkey KEY_QUEUE_PRIORITY (p_ns E) nm))) (view s)))"
proof -
  let ?h = "consumerHandler E nm inst"
  from g obtain t where r: "rc_zpophgetrpush E (dh_keyQueuePriority ?h)
      (dh_keyPendingMessagesWithPriority ?h) (dh_keyQueueProcessing ?h) s = (Inr (Some t), s')"
    and m: "createFromMessage (freshMessage E) (Some t) False = Inr m"
    by (auto simp: prio_get_def split: prod.splits sum.splits option.splits)
  from rc_zpophgetrpush_ok [OF r] zs obtain m0 sc rest where z: "zs = (m0, sc) # rest"
    by (cases zs) (auto simp: prio_msgs_def zmsgs_at_def)
  have t: "t = toString m0" and b: "body m0 \<noteq> None"
    using rc_zpophgetrpush_ok [OF r] zs z by (auto simp: prio_msgs_def zmsgs_at_def)
  with m have m0: "m0 = m" by simp
  have "distinct (map fst (zsets (view s) (dh_keyQueuePriority ?h)))"
    using zset_inv by (simp add: zset_ok_def)
  with zs z have other: "uuid x \<noteq> uuid m0" if "(x, c) \<in> set rest" for x c
    using that by (force simp: prio_msgs_def zmsgs_at_def)
  have "prio_msgs (view s') ?h rest"
    using rc_zpophgetrpush_ok [OF r] zs z other
    by (auto simp: prio_msgs_def zmsgs_at_def list_all_iff)
  with rc_zpophgetrpush_ok [OF r] zs z t m0 show ?thesis
    by (auto simp: prio_msgs_def zmsgs_at_def smq_keys)
qed

lemma prio_get_enabled:
  assumes zs: "prio_msgs (view s) (consumerHandler E nm inst) ((m, sc) # rest)"
  shows "\<exists>s'. prio_get E (consumerHandler E nm inst) s m s'"
proof -
  let ?h = "consumerHandler E nm inst"
  have "zsets (view s) (dh_keyQueuePriority ?h) =
      (Str (uuid m), sc) # map (\<lambda>(m, sc). (Str (uuid m), sc)) rest"
    "hashes (view s) (dh_keyPendingMessagesWithPriority ?h) (Str (uuid m)) = Some (toString m)"
    "body m \<noteq> None"
    using zs by (auto simp: prio_msgs_def zmsgs_at_def)
  with zpophgetrpush_found [of s "dh_keyQueuePriority ?h" "Str (uuid m)" sc _
      "dh_keyPendingMessagesWithPriority ?h" "toString m" "dh_keyQueueProcessing ?h"]
  show ?thesis
    by (auto simp: prio_get_def)
qed

lemma prio_put_at:
  assumes p: "prio_put E view nm m s s'" and zs: "prio_msgs (view s) (consumerHandler E nm inst) zs"
  shows "\<exists>zs'. prio_msgs (view s') (consumerHandler E nm inst) zs' \<and>
    mset zs' = add_mset (published E True m, prio_of m) (mset zs)"
proof -
  let ?zk = "qkey KEY_QUEUE_PRIORITY (p_ns E) nm"
  let ?hk = "qkey KEY_PENDING_MESSAGES_WITH_PRIORITY (p_ns E) nm"
  let ?f = "\<lambda>(m, sc :: int). (Str (uuid m), sc)"
  from p obtain m' where q: "queue m = Some \<lparr>q_name = nm, q_ns = p_ns E\<rparr>" and b: "body m \<noteq> None"
    and new: "Str (uuid m) \<notin> zkeys (view s) ?zk" and e: "enqueue E m True s = (Inr m', s')"
    by (auto simp: prio_put_def)
  from enqueue_live [OF q, of True s] e obtain z where z: "zset_ok z"
    "map_of z = (map_of (zsets (view s) ?zk))(Str (uuid m) \<mapsto> prio_of m)"
    and v: "view s' = set_hash ?hk ((hashes (view s) ?hk)(Str (uuid m) \<mapsto> toString (published E True m)))
              (set_zset ?zk z (view s))"
    by (auto simp: enqueued_def Let_def)
  from zs have w: "zsets (view s) ?zk = map ?f zs"
    by (simp add: prio_msgs_def zmsgs_at_def smq_keys)
  from zset_insert_mset [OF z(1) zset_inv z(2) new] w
  have "mset z = image_mset ?f (add_mset (published E True m, prio_of m) (mset zs))" by simp
  from mset_map_lift [OF this] obtain zs' where
    ms: "mset zs' = add_mset (published E True m, prio_of m) (mset zs)" and z': "z = map ?f zs'"
    by blast
  have other: "uuid x \<noteq> uuid m" if "(x, c) \<in> set zs" for x c
    using that new zs by (force simp: prio_msgs_def zmsgs_at_def smq_keys image_iff)
  have "set zs' = insert (published E True m, prio_of m) (set zs)"
    using ms by (metis set_mset_add_mset_insert set_mset_mset)
  then have "prio_msgs (view s') (consumerHandler E nm inst) zs'"
    using v z' zs b other
    by (auto simp: prio_msgs_def zmsgs_at_def smq_keys list_all_iff published_def)
  with ms show ?thesis by blast
qed

lemma prio_first:
  assumes "prio_msgs (view s) (consumerHandler E nm inst) ((m, sc) # rest)" and "(x, c) \<in> set rest"
  shows "prio_of m \<le> prio_of x"
proof -
  have "sorted (map snd (zsets (view s) (dh_keyQueuePriority (consumerHandler E nm inst))))"
    using zset_inv by (simp add: zset_ok_def)
  with assms show ?thesis
    by (force simp: prio_msgs_def zmsgs_at_def prio_of_def list_all_iff)
qed

end

sublocale queue_client \<subseteq> prio: delivery_queue "prio_put E view nm"
    "prio_get E (consumerHandler E nm inst)" "prio_holds view (consumerHandler E nm inst)"
    "published E True" most_urgent
proof
  fix s M m s'
  assume "prio_holds view (consumerHandler E nm inst) s M" "prio_put E view nm m s s'"
  then show "prio_holds view (consumerHandler E nm inst) s' (add_mset (published E True m) M)"
    using prio_put_at unfolding prio_holds_def by fastforce
next
  fix s M m s'
  assume h: "prio_holds view (consumerHandler E nm inst) s M"
    and g: "prio_get E (consumerHandler E nm inst) s m s'"
  from h obtain zs where zs: "prio_msgs (view s) (consumerHandler E nm inst) zs" "mset (map fst zs) = M"
    by (auto simp: prio_holds_def)
  from prio_get_inv [OF g zs(1)] obtain sc rest where z: "zs = (m, sc) # rest"
    "prio_msgs (view s') (consumerHandler E nm inst) rest" by blast
  then have "most_urgent m M"
    using prio_first [of s m sc rest] zs by (auto simp: most_urgent_def)
  with z zs show "m \<in># M \<and> most_urgent m M \<and> prio_holds view (consumerHandler E nm inst) s' (M - {#m#})"
    by (auto simp: prio_holds_def)
next
  fix s M
  assume "prio_holds view (consumerHandler E nm inst) s M" "M \<noteq> {#}"
  then obtain m sc rest where "prio_msgs (view s) (consumerHandler E nm inst) ((m, sc) # rest)"
    unfolding prio_holds_def by (metis list.exhaust list.map_disc_iff mset_zero_iff surj_pair)
  from prio_get_enabled [OF this]
  show "\<exists>m s'. prio_get E (consumerHandler E nm inst) s m s'" by blast
qed

interpretation memq: queue_client "mem_platform t" mem_view "''orders''" "''c1''" for t
  by (intro queue_client.intro queue_client_axioms.intro mem_platform_live) (auto simp: plain_def)

section \<open>Facts about runs, polling and the processing queue\<close>

context queue_client
begin

lemma prio_drain_sorted:
  "qrun (prio_put E view nm) (prio_get E (consumerHandler E nm inst)) s ins outs s' \<Longrightarrow> ins = [] \<Longrightarrow>
     prio_holds view (consumerHandler E nm inst) s M \<Longrightarrow>
     sorted (map prio_of outs) \<and>
     (\<forall>M'. prio_holds view (consumerHandler E nm inst) s' M' \<longrightarrow> M' + mset outs = M \<longrightarrow>
        (\<forall>x \<in> set outs. most_urgent x M'))"
proof (induction rule: qrun.induct)
  case (start s)
  then show ?case by simp
next
  case (put_step s ins outs s1 m s2)
  then show ?case by simp
next
  case (get_step s ins outs s1 m s2)
  from prio.run_conserves [OF get_step.hyps(1) get_step.prems(2)] get_step.prems(1)
  obtain M1 where M1: "prio_holds view (consumerHandler E nm inst) s1 M1" "M1 + mset outs = M" by auto
  from prio.get_holds [OF M1(1) get_step.hyps(2)] have m: "m \<in># M1" "most_urgent m M1" by auto
  from get_step.IH [OF get_step.prems] M1
  have s: "sorted (map prio_of outs)" and u: "\<forall>x \<in> set outs. most_urgent x M1" by auto
  have "sorted (map prio_of (outs @ [m]))"
    using s u m by (auto simp: sorted_append most_urgent_def)
  moreover have "most_urgent x M'" if "M' + mset (outs @ [m]) = M" "x \<in> set (outs @ [m])" for x M'
  proof -
    from that(1) M1(2) m(1) have "M1 = add_mset m M'" by auto
    with that(2) u m(2) show ?thesis by (auto simp: most_urgent_def)
  qed
  ultimately show ?case by blast
qed

lemma poll_none:
  assumes "zsets (view s) zk = []" and "lists (view s) zk = []" "hashes (view s) zk = Map.empty"
    "sets (view s) zk = {}"
  shows "\<exists>s'. rc_zpophgetrpush E zk hk kp s = (Inr None, s')"
proof -
  obtain sha where sha: "getScriptId (p_scripts E) ZPOPHGETRPUSH = Inr sha"
    using script_live by blast
  obtain r1 a1 where c1: "redisCmd (p_srv E) (EXISTS zk) s = (Inr r1, a1)" using cmd_live by blast
  from cmd_ok [OF c1] assms have "r1 = RInt 0" by (simp add: key_exists_def)
  with sha c1 show ?thesis
    by (simp add: rc_zpophgetrpush_def lua_zpophgetrpush_def io_run)
qed

end

text \<open>A key of the right kind holds nothing but a list, nothing but a sorted set.\<close>

definition list_only :: "store \<Rightarrow> key \<Rightarrow> bool" where
  "list_only st k \<longleftrightarrow> hashes st k = Map.empty \<and> zsets st k = [] \<and> sets st k = {}"

definition zset_only :: "store \<Rightarrow> key \<Rightarrow> bool" where
  "zset_only st k \<longleftrightarrow> hashes st k = Map.empty \<and> lists st k = [] \<and> sets st k = {}"

definition prio_ready :: "('s \<Rightarrow> store) \<Rightarrow> dequeueHandler \<Rightarrow> 's \<Rightarrow> bool" where
  "prio_ready view h s \<longleftrightarrow>
     zset_only (view s) (dh_keyQueuePriority h) \<and> (\<exists>zs. prio_msgs (view s) h zs)"

context queue_client
begin

lemma poll_cases:
  assumes "prio_ready view (consumerHandler E nm inst) s"
  obtains (empty) s' where "zsets (view s) (qkey KEY_QUEUE_PRIORITY (p_ns E) nm) = []"
      "rc_zpophgetrpush E (dh_keyQueuePriority (consumerHandler E nm inst))
         (dh_keyPendingMessagesWithPriority (consumerHandler E nm inst))
         (dh_keyQueueProcessing (consumerHandler E nm inst)) s = (Inr None, s')"
    | (found) t s' where "zsets (view s) (qkey KEY_QUEUE_PRIORITY (p_ns E) nm) \<noteq> []"
      "rc_zpophgetrpush E (dh_keyQueuePriority (consumerHandler E nm inst))
         (dh_keyPendingMessagesWithPriority (consumerHandler E nm inst))
         (dh_keyQueueProcessing (consumerHandler E nm inst)) s = (Inr (Some t), s')"
proof -
  let ?h = "consumerHandler E nm inst"
  from assms obtain zs where zs: "prio_msgs (view s) ?h zs"
    and only: "zset_only (view s) (dh_keyQueuePriority ?h)"
    by (auto simp: prio_ready_def)
  show ?thesis
  proof (cases zs)
    case Nil
    with zs have "zsets (view s) (dh_keyQueuePriority ?h) = []"
      by (simp add: prio_msgs_def zmsgs_at_def)
    with poll_none [OF this] only empty show ?thesis
      unfolding zset_only_def consumerHandler_sel by blast
  next
    case (Cons p rest)
    obtain m sc where p: "p = (m, sc)" by (cases p)
    from zs Cons p have z: "zsets (view s) (dh_keyQueuePriority ?h) =
        (Str (uuid m), sc) # map (\<lambda>(m, sc). (Str (uuid m), sc)) rest"
      and h: "hashes (view s) (dh_keyPendingMessagesWithPriority ?h) (Str (uuid m)) = Some (toString m)"
      by (auto simp: prio_msgs_def zmsgs_at_def)
    from z have "zsets (view s) (qkey KEY_QUEUE_PRIORITY (p_ns E) nm) \<noteq> []" by (simp add: smq_keys)
    with zpophgetrpush_found [OF z h, of "dh_keyQueueProcessing ?h"] found show ?thesis by blast
  qed
qed

lemma poll_returns:
  assumes "\<And>k x. prio_ready view (consumerHandler E nm inst) (env k x)"
    and "\<And>x. zsets (view (env n x)) (qkey KEY_QUEUE_PRIORITY (p_ns E) nm) \<noteq> []"
  shows "prio_ready view (consumerHandler E nm inst) s \<Longrightarrow> t \<le> n \<Longrightarrow> n + 2 \<le> t + fuel \<Longrightarrow>
    \<exists>v s'. dequeueWithPriority E (consumerHandler E nm inst) env t fuel s = (Inr v, s')"
proof (induction fuel arbitrary: t s)
  case 0
  then show ?case by simp
next
  case (Suc fuel)
  show ?case
  proof (cases rule: poll_cases [OF Suc.prems(1)])
    case (1 s')
    note empty = this
    show ?thesis
    proof (cases "t = n")
      case False
      with Suc.IH [of "env t s'" "Suc t"] Suc.prems assms(1) empty show ?thesis by simp
    next
      case True
      from Suc.prems True obtain fuel' where fuel: "fuel = Suc fuel'" by (cases fuel) auto
      obtain v s'' where "rc_zpophgetrpush E (dh_keyQueuePriority (consumerHandler E nm inst))
         (dh_keyPendingMessagesWithPriority (consumerHandler E nm inst))
         (dh_keyQueueProcessing (consumerHandler E nm inst)) (env t s') = (Inr (Some v), s'')"
        using poll_cases [OF assms(1) [of t s']] assms(2) [of s'] True by metis
      with empty fuel show ?thesis by simp
    qed
  next
    case (2 v s')
    then show ?thesis by simp
  qed
qed

lemmas queue_runs =
  lifo.run_conserves prio.run_conserves lifo.drain prio.drain

lemma processing_lpop:
  assumes "lists (view s) a = [x]" "list_only (view s) a" "a \<noteq> b"
  shows "\<exists>s'. voidM (rc_lpoprpush E a b) s = (Inr (), s') \<and>
    view s' = set_list b (lists (view s) b @ [x]) (set_list a [] (view s))"
  using lpoprpush_view [of s a b] assms
  by (auto simp: list_only_def voidM_run_Inr move_list_def Let_def)

lemma processing_rpop:
  assumes "lists (view s) a = [x]" "a \<noteq> b"
  shows "\<exists>s'. voidM (rc_rpoplpush E a b) s = (Inr (), s') \<and>
    view s' = set_list b (x # lists (view s) b) (set_list a [] (view s))"
  using rpoplpush_live [of a b s] assms by (auto simp: voidM_run_Inr move_list_def Let_def)

end

section \<open>Properties\<close>

text \<open>C22. A queue without priorities is a stack: a successful \<open>enqueue\<close> puts the published message on
  top of what is pending, a delivery takes the top one, and whenever something is pending
  \<open>dequeue\<close> succeeds with it.\<close>

theorem lifo_refines_stack:
  assumes "queue_client E view nm inst" and "msgs_at (view s) (qkey KEY_QUEUE (p_ns E) nm) ms"
  shows "(lifo_put E nm m s s' \<longrightarrow>
       msgs_at (view s') (qkey KEY_QUEUE (p_ns E) nm) (ms @ [published E False m])) \<and>
     (lifo_get E view (consumerHandler E nm inst) s m s' \<longrightarrow>
       ms \<noteq> [] \<and> m = last ms \<and> msgs_at (view s') (qkey KEY_QUEUE (p_ns E) nm) (butlast ms)) \<and>
     (ms \<noteq> [] \<longrightarrow> (\<exists>s'. lifo_get E view (consumerHandler E nm inst) s (last ms) s'))"
  using queue_client.enqueue_lifo_at [OF assms(1) _ assms(2)]
    queue_client.lifo_get_inv [OF assms(1) _ assms(2)]
    queue_client.lifo_get_enabled [OF assms(1,2)]
  by blast

text \<open>Nothing is lost and nothing delivered twice: after any interleaving of enqueue operations and
  deliveries of a queue without priorities, what is pending together with what was delivered is
  what was pending at the start together with what was enqueued.\<close>

theorem lifo_runs_conserve:
  assumes "queue_client E view nm inst" and "lifo_holds view (consumerHandler E nm inst) s M"
    and "qrun (lifo_put E nm) (lifo_get E view (consumerHandler E nm inst)) s ins outs s'"
  shows "\<exists>M'. lifo_holds view (consumerHandler E nm inst) s' M' \<and>
    M' + mset outs = M + mset (map (published E False) ins)"
  using queue_client.queue_runs(1) [OF assms(1) assms(3) assms(2)] .


text \<open>Everything pending can be delivered: from any state of a queue, of either kind, deliveries alone
  empty it, and what they deliver is exactly what was pending.\<close>

theorem queues_drain:
  assumes "queue_client E view nm inst"
  shows "(lifo_holds view (consumerHandler E nm inst) s M \<longrightarrow>
      (\<exists>outs s'. qrun (lifo_put E nm) (lifo_get E view (consumerHandler E nm inst)) s [] outs s' \<and>
         mset outs = M \<and> lifo_holds view (consumerHandler E nm inst) s' {#})) \<and>
    (prio_holds view (consumerHandler E nm inst) s M \<longrightarrow>
      (\<exists>outs s'. qrun (prio_put E view nm) (prio_get E (consumerHandler E nm inst)) s [] outs s' \<and>
         mset outs = M \<and> prio_holds view (consumerHandler E nm inst) s' {#}))"
  using queue_client.queue_runs(3,4) [OF assms] by blast


text \<open>The four ways a message leaves a consumer's processing queue: acknowledging and
  dead-lettering append it to their list, delaying and requeuing put it at the head of theirs; it is
  gone from the processing queue and nothing else changes.\<close>

theorem processing_outcomes:
  assumes "queue_client E view nm inst"
    and "kp = keyQueueProcessing (getInstanceKeys (p_ns E) nm inst)"
    and "lists (view s) kp = [x]" and "list_only (view s) kp"
  shows "(\<exists>s'. acknowledge E nm kp s = (Inr (), s') \<and>
       view s' = (let k = qkey KEY_QUEUE_ACKNOWLEDGED_MESSAGES (p_ns E) nm in
         set_list k (lists (view s) k @ [x]) (set_list kp [] (view s)))) \<and>
     (\<exists>s'. deadLetterMessage E nm kp s = (Inr (), s') \<and>
       view s' = (let k = qkey KEY_QUEUE_DL (p_ns E) nm in
         set_list k (lists (view s) k @ [x]) (set_list kp [] (view s)))) \<and>
     (\<exists>s'. delayBeforeRequeue E nm kp s = (Inr (), s') \<and>
       view s' = (let k = gkey KEY_QUEUE_DELAY in
         set_list k (x # lists (view s) k) (set_list kp [] (view s)))) \<and>
     (\<exists>s'. requeue E nm kp s = (Inr (), s') \<and>
       view s' = (let k = gkey KEY_QUEUE_REQUEUE in
         set_list k (x # lists (view s) k) (set_list kp [] (view s))))"
proof -
  have plain: "plain (p_ns E)" "plain nm" "plain inst"
    using queue_client.plain_names [OF assms(1)] by auto
  with assms(2) have ne: "kp \<noteq> qkey KEY_QUEUE_ACKNOWLEDGED_MESSAGES (p_ns E) nm"
    "kp \<noteq> qkey KEY_QUEUE_DL (p_ns E) nm" "kp \<noteq> gkey KEY_QUEUE_DELAY" "kp \<noteq> gkey KEY_QUEUE_REQUEUE"
    by (simp_all add: smq_keys)
  show ?thesis
    unfolding acknowledge_def deadLetterMessage_def delayBeforeRequeue_def requeue_def smq_keys
      ns_or_simps Let_def
    using queue_client.processing_lpop [OF assms(1,3,4)]
      queue_client.processing_rpop [OF assms(1,3)] ne
    by blast
qed

text \<open>Deleting a pending message of a priority queue removes it from the sorted set and from the
  payload hash and touches nothing else; deleting one that is not there succeeds and changes
  nothing. (The lock is granted.)\<close>

theorem delete_pending_with_priority_spec:
  assumes "smq_live E view"
    and "p_rlock E (gkey KEY_LOCK_DELETE_PENDING_MESSAGE_WITH_PRIORITY) 10000 s = (Inr (Some tok), s1)"
  shows "\<exists>s'. deletePendingMessageWithPriority E nm n mid s = (Inr (), s') \<and>
    view s' = (let zk = qkey KEY_QUEUE_PRIORITY (ns_or n (p_ns E)) nm;
                   hk = qkey KEY_PENDING_MESSAGES_WITH_PRIORITY (ns_or n (p_ns E)) nm in
      set_zset zk (filter (\<lambda>p. fst p \<noteq> Str mid) (zsets (view s) zk))
        (set_hash hk ((hashes (view s) hk)(Str mid := None)) (view s)))"
proof -
  let ?zk = "qkey KEY_QUEUE_PRIORITY (ns_or n (p_ns E)) nm"
  let ?hk = "qkey KEY_PENDING_MESSAGES_WITH_PRIORITY (ns_or n (p_ns E)) nm"
  obtain rs s2 where x: "execMulti E [HDEL ?hk [Str mid], ZREM ?zk (Str mid)] s1 = (Inr rs, s2)"
    and d: "doc_seq [HDEL ?hk [Str mid], ZREM ?zk (Str mid)] (view s1) rs (view s2)"
    using smq_live.execMulti_live [OF assms(1)] by blast
  have plat: "smq_platform E view" using smq_live.axioms(1) [OF assms(1)] .
  have v1: "view s1 = view s" using smq_platform.rlock_frame [OF plat assms(2)] .
  obtain s' where "lockFN E (gkey KEY_LOCK_DELETE_PENDING_MESSAGE_WITH_PRIORITY)
      (voidM (execMulti E [HDEL ?hk [Str mid], ZREM ?zk (Str mid)])) s = (Inr (), s')"
    "view s' = view s2"
    using smq_platform.lockFN_granted [OF plat assms(2), of "voidM (execMulti E [HDEL ?hk [Str mid], ZREM ?zk (Str mid)])" s2]
      x by (auto simp: voidM_run_Inr)
  with d v1 show ?thesis
    by (auto simp: deletePendingMessageWithPriority_def Let_def smq_keys if_None_upd)
qed

section \<open>The properties on the in-memory server\<close>

definition order_msg :: "string \<Rightarrow> message" where
  "order_msg i = (demo_msg i)\<lparr>queue := Some \<lparr>q_name = ''orders'', q_ns = ''default''\<rparr>\<rparr>"

definition orders_key :: key where
  "orders_key = qkey KEY_QUEUE ''default'' ''orders''"

abbreviation orders_handler :: dequeueHandler where
  "orders_handler \<equiv> consumerHandler (mem_platform 0) ''orders'' ''c1''"

lemma order_msg_sel [simp]:
  "uuid (order_msg i) = i" "body (order_msg i) = Some JNull"
  "queue (order_msg i) = Some \<lparr>q_name = ''orders'', q_ns = ''default''\<rparr>" "priority (order_msg i) = None"
  by (simp_all add: order_msg_def demo_msg_def newMessage_def)

lemma orders_client: "queue_client (mem_platform 0) mem_view ''orders'' ''c1''"
  by (rule memq.queue_client_axioms)

lemma mem0_view [simp]:
  "lists (mem_view mem0) k = []" "zsets (mem_view mem0) k = []"
  "hashes (mem_view mem0) k = Map.empty" "sets (mem_view mem0) k = {}"
  by (simp_all add: mem_view_def mem0_def)

lemma qrun_one: "put m s s' \<Longrightarrow> qrun put get s [m] [] s'"
  using qrun.put_step [OF qrun.start [of put get s], of m s'] by simp

lemma orders_put: "\<exists>s'. lifo_put (mem_platform 0) ''orders'' (order_msg i) s s'"
  using smq_live.enqueue_live [OF mem_platform_live [of 0], of "order_msg i" _ False s] by (auto simp: lifo_put_def)

lemma orders_prio_put:
  "\<exists>s'. prio_put (mem_platform 0) mem_view ''orders'' (order_msg i) mem0 s'"
  using smq_live.enqueue_live [OF mem_platform_live [of 0], of "order_msg i" _ True mem0] by (auto simp: prio_put_def)

theorem lifo_refines_stack_witness:
  "\<exists>s'. lifo_get (mem_platform 0) mem_view orders_handler
     (demo_mem orders_key [order_msg ''a'', order_msg ''b'']) (order_msg ''b'') s'"
  using lifo_refines_stack [OF orders_client, of "demo_mem orders_key [order_msg ''a'', order_msg ''b'']"
      "[order_msg ''a'', order_msg ''b'']"]
    demo_mem_at [of "[order_msg ''a'', order_msg ''b'']" orders_key]
  by (simp add: orders_key_def)

theorem lifo_runs_conserve_witness:
  "\<exists>s' M'. lifo_holds mem_view orders_handler s' M' \<and>
     M' + mset [] = {#} + mset (map (published (mem_platform 0) False) [order_msg ''a''])"
proof -
  obtain s' where "lifo_put (mem_platform 0) ''orders'' (order_msg ''a'') mem0 s'"
    using orders_put by blast
  then have r: "qrun (lifo_put (mem_platform 0) ''orders'') (lifo_get (mem_platform 0) mem_view orders_handler)
    mem0 [order_msg ''a''] [] s'" by (rule qrun_one)
  have h: "lifo_holds mem_view orders_handler mem0 {#}"
    by (simp add: lifo_holds_def msgs_at_def)
  from lifo_runs_conserve [OF orders_client h r] show ?thesis by blast
qed


theorem queues_drain_witness:
  "\<exists>outs s'. qrun (lifo_put (mem_platform 0) ''orders'') (lifo_get (mem_platform 0) mem_view orders_handler)
       (demo_mem orders_key [order_msg ''a'', order_msg ''b'']) [] outs s' \<and>
     mset outs = {#order_msg ''a'', order_msg ''b''#}"
proof -
  have "lifo_holds mem_view orders_handler (demo_mem orders_key [order_msg ''a'', order_msg ''b''])
      {#order_msg ''a'', order_msg ''b''#}"
    using demo_mem_at [of "[order_msg ''a'', order_msg ''b'']" orders_key]
    by (auto simp: lifo_holds_def smq_keys orders_key_def)
  with queues_drain [OF orders_client] show ?thesis by blast
qed

definition one_pending :: mem where
  "one_pending = mem0\<lparr>
     mzsets := (\<lambda>_. [])(qkey KEY_QUEUE_PRIORITY ''default'' ''orders'' := [(Str ''a'', 4)]),
     mhashes := (\<lambda>_. [])(qkey KEY_PENDING_MESSAGES_WITH_PRIORITY ''default'' ''orders'' :=
       [(Str ''a'', toString ((order_msg ''a'')\<lparr>priority := Some 4\<rparr>))])\<rparr>"

lemma plain_demo [simp]: "plain ''default''" "plain ''orders''" "plain ''c1''"
  by (simp_all add: plain_def)

lemma one_pending_zset:
  "zsets (mem_view one_pending) (qkey KEY_QUEUE_PRIORITY ''default'' ''orders'') = [(Str ''a'', 4)]"
  by (simp add: one_pending_def mem_view_def znorm_def)

lemma one_pending_ready: "prio_ready mem_view orders_handler one_pending"
  by (auto simp: prio_ready_def zset_only_def prio_msgs_def zmsgs_at_def smq_keys one_pending_def
      mem_view_def mem0_def znorm_def
      intro!: exI [of _ "[((order_msg ''a'')\<lparr>priority := Some 4\<rparr>, 4)]"])


theorem processing_outcomes_witness:
  "\<exists>s'. acknowledge (mem_platform 0) ''orders'' (ikey KEY_QUEUE_PROCESSING ''default'' ''orders'' ''c1'')
       (demo_mem (ikey KEY_QUEUE_PROCESSING ''default'' ''orders'' ''c1'') [order_msg ''a'']) = (Inr (), s')"
  using processing_outcomes [OF orders_client, of "ikey KEY_QUEUE_PROCESSING ''default'' ''orders'' ''c1''"
      "demo_mem (ikey KEY_QUEUE_PROCESSING ''default'' ''orders'' ''c1'') [order_msg ''a'']"]
  by (auto simp: smq_keys list_only_def demo_mem_def mem_view_def mem0_def)

theorem delete_pending_with_priority_spec_witness:
  "\<exists>s'. deletePendingMessageWithPriority (mem_platform 0) ''orders'' None ''a'' one_pending = (Inr (), s') \<and>
     zsets (mem_view s') (qkey KEY_QUEUE_PRIORITY ''default'' ''orders'') = []"
  using delete_pending_with_priority_spec [OF mem_platform_live [of 0], of one_pending _ _ "''orders''" None "''a''"]
  by (auto simp: Let_def one_pending_zset)

end
