(* ===== verification/Schedule_Handlers.thy ===== *)
theory Schedule_Handlers
  imports Queue_Handlers
begin

text \<open>
  The handlers \<open>schedule.handler.ts\<close>, \<open>delay.handler.ts\<close> and \<open>requeue.handler.ts\<close> of
  \<^verbatim>\<open>src/system/message-manager/handlers\<close>: the computation of the next delivery time, the sorted set of
  scheduled messages with its payload hash, the batch that schedules delayed messages and the requeuing
  of messages by hand. \<open>Date.now()\<close> is \<open>p_now\<close>: one reading per operation.
\<close>

section \<open>The next delivery time\<close>

text \<open>A number that is \<open>null\<close> or 0, a string that is \<open>null\<close> or empty is false.\<close>

definition truthy_num :: "int option \<Rightarrow> bool" where
  "truthy_num x = (case x of None \<Rightarrow> False | Some v \<Rightarrow> v \<noteq> 0)"

definition cronTimestamp :: "int \<Rightarrow> cron_parser \<Rightarrow> message \<Rightarrow> int result" where
  "cronTimestamp now cron m =
     (case scheduledCron m of
        None \<Rightarrow> Inr 0
      | Some c \<Rightarrow> if c = [] then Inr 0 else bindR (cron c) (\<lambda>next. Inr (next now)))"

definition repeatTimestamp :: "int \<Rightarrow> message \<Rightarrow> int" where
  "repeatTimestamp now m =
     (if scheduledRepeat m \<noteq> 0 \<and> scheduledRepeatCount m + 1 \<le> scheduledRepeat m
      then (if truthy_num (scheduledPeriod m) then now + the (scheduledPeriod m) else now)
      else 0)"

definition getNextScheduledTimestamp ::
  "int \<Rightarrow> cron_parser \<Rightarrow> message \<Rightarrow> (int \<times> message) result" where
  "getNextScheduledTimestamp now cron m =
     (if \<not> isSchedulable m then Inr (0, m)
      else if truthy_num (scheduledDelay m) \<and> \<not> delayed m then
        Inr (now + the (scheduledDelay m), setMessageDelayed True m)
      else bindR (cronTimestamp now cron m) (\<lambda>ct.
        let rt = repeatTimestamp now m in
        if rt \<noteq> 0 \<and> ct \<noteq> 0 \<and> rt < ct \<and> scheduledCronFired m then
          Inr (rt, incrMessageScheduledRepeatCount m)
        else if ct \<noteq> 0 then
          Inr (ct, setMessageScheduledCronFired True (resetMessageScheduledRepeatCount m))
        else if rt \<noteq> 0 then Inr (rt, incrMessageScheduledRepeatCount m)
        else Inr (0, m)))"

section \<open>Schedule handler\<close>

definition getScheduledMessagesCount :: "'s platform \<Rightarrow> ('s, int) io" where
  "getScheduledMessagesCount E = getSortedSetSize E (keyQueueScheduled getGlobalKeys)"

definition getScheduledMessages :: "'s platform \<Rightarrow> int \<Rightarrow> int \<Rightarrow> ('s, TPaginatedMessages) io" where
  "getScheduledMessages E skip tk =
     getPaginatedSortedSetMessages E (keyScheduledMessages getGlobalKeys)
       (keyQueueScheduled getGlobalKeys) skip tk"

definition deleteScheduled :: "'s platform \<Rightarrow> string \<Rightarrow> ('s, unit) io" where
  "deleteScheduled E messageId =
     lockFN E (keyLockDeleteScheduledMessage getGlobalKeys)
       (voidM (execMulti E
         [HDEL (keyScheduledMessages getGlobalKeys) [Str messageId],
          ZREM (keyQueueScheduled getGlobalKeys) (Str messageId)]))"

definition scheduleMessage :: "'s platform \<Rightarrow> message \<Rightarrow> int \<Rightarrow> cmd list \<times> message" where
  "scheduleMessage E message timestamp =
     (let message1 = setScheduledAt (p_now E) message; messageId = Str (uuid message1) in
      ([ZADD (keyQueueScheduled getGlobalKeys) timestamp messageId,
        HSET (keyScheduledMessages getGlobalKeys) messageId (toString message1)], message1))"

text \<open>\<open>schedule\<close> with a \<open>multi\<close> and without.\<close>

definition scheduleMulti :: "'s platform \<Rightarrow> message \<Rightarrow> (cmd list \<times> message) result" where
  "scheduleMulti E message =
     bindR (getNextScheduledTimestamp (p_now E) (p_cron E) message) (\<lambda>(timestamp, message1).
       if timestamp > 0 then Inr (scheduleMessage E message1 timestamp) else Inr ([], message1))"

definition schedule :: "'s platform \<Rightarrow> message \<Rightarrow> ('s, bool \<times> message) io" where
  "schedule E message =
     bindM (liftT (getNextScheduledTimestamp (p_now E) (p_cron E) message)) (\<lambda>(timestamp, message1).
       if timestamp > 0 then
         (case scheduleMessage E message1 timestamp of
            (cmds, message2) \<Rightarrow> bindM (execMulti E cmds) (\<lambda>_. retM (True, message2)))
       else retM (False, message1))"

definition enqueueScheduledMessage :: "'s platform \<Rightarrow> bool \<Rightarrow> message \<Rightarrow> ('s, unit) io" where
  "enqueueScheduledMessage E withPriority msg =
     (let message = createFromObject msg False; messageId = Str (uuid message) in
      bindM (liftT (enqueueMulti E message withPriority)) (\<lambda>(cmds, message1).
      bindM (liftT (getNextScheduledTimestamp (p_now E) (p_cron E) message1)) (\<lambda>(timestamp, message2).
        voidM (execMulti E (cmds @
          (if timestamp \<noteq> 0 then
             [ZADD (keyQueueScheduled getGlobalKeys) timestamp messageId,
              HSET (keyScheduledMessages getGlobalKeys) messageId (toString message2)]
           else
             [ZREM (keyQueueScheduled getGlobalKeys) messageId,
              HDEL (keyScheduledMessages getGlobalKeys) [messageId]]))))))"

definition enqueueScheduledMessages :: "'s platform \<Rightarrow> bool \<Rightarrow> ('s, unit) io" where
  "enqueueScheduledMessages E withPriority =
     bindM (rc_zrangebyscore E (keyQueueScheduled getGlobalKeys) 0 (p_now E)) (\<lambda>ids.
     bindM (if ids \<noteq> [] then
              bindM (rc_hmget E (keyScheduledMessages getGlobalKeys) ids) (\<lambda>reply.
                liftT (mapR (\<lambda>i. createFromMessage (freshMessage E) i False) reply))
            else retM []) (\<lambda>messages.
       eachM (enqueueScheduledMessage E withPriority) messages))"

section \<open>Delay handler\<close>

definition delayTask :: "'s platform \<Rightarrow> rstr \<Rightarrow> cmd list result" where
  "delayTask E i =
     bindR (createFromMessage (freshMessage E) (Some i) False) (\<lambda>message.
     bindR (setScheduledDelay (retryDelay (incrAttempts message)) (incrAttempts message)) (\<lambda>message1.
     bindR (scheduleMulti E message1) (\<lambda>(cmds, message2).
       Inr (LREM (keyQueueDelay getGlobalKeys) 1 i # cmds))))"

definition delay_schedule :: "'s platform \<Rightarrow> ('s, unit) io" where
  "delay_schedule E =
     bindM (rc_lrange E (keyQueueDelay getGlobalKeys) 0 99) (\<lambda>messages.
       if messages \<noteq> [] then
         bindM (liftT (mapR (delayTask E) messages)) (\<lambda>cmds. voidM (execMulti E (concat cmds)))
       else retM ())"

section \<open>Requeue handler\<close>

definition requeueListMessage ::
  "'s platform \<Rightarrow> string \<Rightarrow> string option \<Rightarrow> key \<Rightarrow> int \<Rightarrow> string \<Rightarrow> bool \<Rightarrow> int option \<Rightarrow> ('s, unit) io" where
  "requeueListMessage E queueName n from index messageId withPriority prio =
     (let namespace = ns_or n (p_ns E) in
      bindM (getListMessageAtSequenceId E from index messageId queueName namespace) (\<lambda>msg.
      bindM (liftT
        (let message = setQueue namespace queueName (createFromObject msg True) in
         bindR (case prio of
                  Some p \<Rightarrow> if withPriority then setPriority p message else Inr message
                | None \<Rightarrow> Inr message) (\<lambda>message1.
           enqueueMulti E message1 withPriority))) (\<lambda>(cmds, message2).
        voidM (execMulti E (LREM from 1 (toString msg) # cmds)))))"

definition requeueMessageFromDLQueue ::
  "'s platform \<Rightarrow> string \<Rightarrow> string option \<Rightarrow> int \<Rightarrow> string \<Rightarrow> bool \<Rightarrow> int option \<Rightarrow> ('s, unit) io" where
  "requeueMessageFromDLQueue E queueName n index messageId withPriority prio =
     requeueListMessage E queueName n (keyQueueDL (getKeys (p_ns E) queueName n)) index messageId
       withPriority prio"

definition requeueMessageFromAcknowledgedQueue ::
  "'s platform \<Rightarrow> string \<Rightarrow> string option \<Rightarrow> int \<Rightarrow> string \<Rightarrow> bool \<Rightarrow> int option \<Rightarrow> ('s, unit) io" where
  "requeueMessageFromAcknowledgedQueue E queueName n index messageId withPriority prio =
     requeueListMessage E queueName n (keyQueueAcknowledgedMessages (getKeys (p_ns E) queueName n))
       index messageId withPriority prio"

section \<open>The life of a schedule\<close>

text \<open>The delivery times a message goes through when the readings of the clock are \<open>nows\<close>: each time is
  computed from the message as the previous computation left it, until there is none.\<close>

fun timestamps :: "cron_parser \<Rightarrow> int list \<Rightarrow> message \<Rightarrow> int list result" where
  "timestamps cron [] m = Inr []"
| "timestamps cron (now # nows) m =
     bindR (getNextScheduledTimestamp now cron m) (\<lambda>(ts, m').
       if ts = 0 then Inr [] else bindR (timestamps cron nows m') (\<lambda>tss. Inr (ts # tss)))"

definition deliveries_left :: "message \<Rightarrow> nat" where
  "deliveries_left m =
     (if truthy_num (scheduledDelay m) \<and> \<not> delayed m then 1 else 0) +
     nat (scheduledRepeat m - scheduledRepeatCount m)"

lemma truthy_num_simps [simp]: "truthy_num None = False" "truthy_num (Some v) = (v \<noteq> 0)"
  by (simp_all add: truthy_num_def)

lemma next_no_cron:
  assumes "scheduledCron m = None" "msg_ok m" "now > 0"
  shows "\<exists>ts m'. getNextScheduledTimestamp now cron m = Inr (ts, m') \<and> scheduledCron m' = None \<and>
    msg_ok m' \<and> (if deliveries_left m = 0 then ts = 0 else ts \<ge> now \<and> deliveries_left m = Suc (deliveries_left m'))"
proof -
  have pos: "opt_ok (\<lambda>p. p \<ge> 1000) (scheduledPeriod m)" "opt_ok (\<lambda>d. d \<ge> 1000) (scheduledDelay m)"
    "scheduledRepeatCount m \<ge> 0"
    using assms(2) by (auto simp: msg_ok_def)
  consider (none) "\<not> isSchedulable m"
    | (delay) "isSchedulable m" "truthy_num (scheduledDelay m)" "\<not> delayed m"
    | (rep) "isSchedulable m" "\<not> (truthy_num (scheduledDelay m) \<and> \<not> delayed m)"
    by blast
  then show ?thesis
  proof cases
    case none
    with assms pos show ?thesis
      by (auto simp: getNextScheduledTimestamp_def isSchedulable_def deliveries_left_def)
  next
    case delay
    with assms pos show ?thesis
      by (auto simp: getNextScheduledTimestamp_def deliveries_left_def setMessageDelayed_def msg_ok_def
          opt_ok_def split: option.splits)
  next
    case rep
    let ?rt = "repeatTimestamp now m"
    have eq: "getNextScheduledTimestamp now cron m =
        (if ?rt \<noteq> 0 then Inr (?rt, incrMessageScheduledRepeatCount m) else Inr (0, m))"
      using rep assms(1) by (auto simp: getNextScheduledTimestamp_def cronTimestamp_def Let_def)
    have left: "deliveries_left m = nat (scheduledRepeat m - scheduledRepeatCount m)"
      using rep(2) by (auto simp: deliveries_left_def)
    show ?thesis
    proof (cases "deliveries_left m = 0")
      case True
      with left pos have "?rt = 0" by (simp add: repeatTimestamp_def)
      with eq True assms show ?thesis by simp
    next
      case False
      with left pos assms have rt: "?rt \<ge> now" "?rt \<noteq> 0"
        by (auto simp: repeatTimestamp_def opt_ok_def split: option.splits)
      have "deliveries_left m = Suc (deliveries_left (incrMessageScheduledRepeatCount m))"
        using False left rep(2) by (auto simp: deliveries_left_def incrMessageScheduledRepeatCount_def)
      moreover have "msg_ok (incrMessageScheduledRepeatCount m)"
        using assms(2) by (simp add: msg_ok_def incrMessageScheduledRepeatCount_def)
      ultimately show ?thesis
        using eq rt assms(1) False by (simp add: incrMessageScheduledRepeatCount_def)
    qed
  qed
qed

lemma timestamps_no_cron:
  "scheduledCron m = None \<Longrightarrow> msg_ok m \<Longrightarrow> list_all (\<lambda>n. n > 0) nows \<Longrightarrow>
     \<exists>tss. timestamps cron nows m = Inr tss \<and> length tss = min (length nows) (deliveries_left m) \<and>
       list_all2 (\<le>) (take (length tss) nows) tss"
proof (induction nows arbitrary: m)
  case Nil
  then show ?case by simp
next
  case (Cons now nows)
  from next_no_cron [OF Cons.prems(1,2), of now cron] Cons.prems(3) obtain ts m' where
    n: "getNextScheduledTimestamp now cron m = Inr (ts, m')" "scheduledCron m' = None" "msg_ok m'"
    and d: "if deliveries_left m = 0 then ts = 0
            else ts \<ge> now \<and> deliveries_left m = Suc (deliveries_left m')"
    by auto
  from Cons.IH [OF n(2,3)] Cons.prems(3) obtain tss where
    "timestamps cron nows m' = Inr tss" "length tss = min (length nows) (deliveries_left m')"
    "list_all2 (\<le>) (take (length tss) nows) tss" by auto
  with n d Cons.prems(3) show ?case
    by (cases "deliveries_left m = 0") auto
qed

lemma next_cron:
  assumes "scheduledCron m = Some c" "c \<noteq> []" "cron c = Inr nxt" "nxt now > now" "now > 0" "msg_ok m"
  shows "\<exists>ts m'. getNextScheduledTimestamp now cron m = Inr (ts, m') \<and> scheduledCron m' = Some c \<and>
    msg_ok m' \<and> ts \<ge> now"
  using assms
  by (auto simp: getNextScheduledTimestamp_def isSchedulable_def cronTimestamp_def Let_def
      repeatTimestamp_def msg_ok_def opt_ok_def message_updates split: option.splits)

lemma timestamps_cron:
  "scheduledCron m = Some c \<Longrightarrow> c \<noteq> [] \<Longrightarrow> cron c = Inr nxt \<Longrightarrow> (\<And>n. nxt n > n) \<Longrightarrow> msg_ok m \<Longrightarrow>
     list_all (\<lambda>n. n > 0) nows \<Longrightarrow>
     \<exists>tss. timestamps cron nows m = Inr tss \<and> list_all2 (\<le>) nows tss"
proof (induction nows arbitrary: m)
  case Nil
  then show ?case by simp
next
  case (Cons now nows)
  then have now: "now > 0" "nxt now > now" by auto
  from next_cron [of m c cron nxt now] Cons.prems now obtain ts m' where
    n: "getNextScheduledTimestamp now cron m = Inr (ts, m')" "scheduledCron m' = Some c" "msg_ok m'"
      "ts \<ge> now" by blast
  from Cons.IH [OF n(2) Cons.prems(2-4) n(3)] Cons.prems(6) obtain tss where
    "timestamps cron nows m' = Inr tss" "list_all2 (\<le>) nows tss" by auto
  with n now show ?case by auto
qed

section \<open>The delayed batch\<close>

definition delayedForm :: "'s platform \<Rightarrow> message \<Rightarrow> message" where
  "delayedForm E m = m\<lparr>attempts := attempts m + 1, scheduledDelay := Some (retryDelay m),
     delayed := True, scheduledAt := Some (p_now E)\<rparr>"

definition delayCmds :: "'s platform \<Rightarrow> message \<Rightarrow> cmd list" where
  "delayCmds E m =
     [LREM (gkey KEY_QUEUE_DELAY) 1 (toString m),
      ZADD (gkey KEY_QUEUE_SCHEDULED) (p_now E + retryDelay m) (Str (uuid m)),
      HSET (gkey KEY_SCHEDULED_MESSAGES) (Str (uuid m)) (toString (delayedForm E m))]"

lemma delayTask_eq:
  assumes "body m \<noteq> None" "retryDelay m \<ge> 1000" "p_now E > 0"
  shows "delayTask E (toString m) = Inr (delayCmds E m)"
  using assms
  by (simp add: delayTask_def delayCmds_def delayedForm_def scheduleMulti_def smq_keys
      getNextScheduledTimestamp_def isSchedulable_def scheduleMessage_def message_updates Let_def)

lemma mapR_map: "mapR f (map g xs) = mapR (\<lambda>x. f (g x)) xs"
  by (induction xs) (auto split: sum.splits)

lemma slice_100: "slice 0 99 xs = take 100 xs"
  using slice_prefix [of 100 xs] by simp

lemma map_add_map_upd: "(m ++ map_of (xs @ [(k, v)])) = (m(k \<mapsto> v)) ++ map_of xs"
  by (auto simp: map_add_def fun_eq_iff split: option.splits)

lemma delayCmds_doc:
  assumes "doc_seq (concat (map (delayCmds E) ms)) st rs st'"
    and "lists st (gkey KEY_QUEUE_DELAY) = map toString ms @ rest"
  shows "lists st' = (lists st)(gkey KEY_QUEUE_DELAY := rest) \<and>
    hashes st' = (hashes st)(gkey KEY_SCHEDULED_MESSAGES := hashes st (gkey KEY_SCHEDULED_MESSAGES) ++
      map_of (rev (map (\<lambda>m. (Str (uuid m), toString (delayedForm E m))) ms))) \<and>
    map_of (zsets st' (gkey KEY_QUEUE_SCHEDULED)) = map_of (zsets st (gkey KEY_QUEUE_SCHEDULED)) ++
      map_of (rev (map (\<lambda>m. (Str (uuid m), p_now E + retryDelay m)) ms)) \<and>
    (\<forall>k. k \<noteq> gkey KEY_QUEUE_SCHEDULED \<longrightarrow> zsets st' k = zsets st k) \<and> sets st' = sets st"
  using assms
proof (induction ms arbitrary: st rs)
  case Nil
  then show ?case by (auto simp: fun_eq_iff)
next
  case (Cons m ms)
  from Cons.prems(1) obtain rs1 rs2 st1 where
    d1: "doc_seq (delayCmds E m) st rs1 st1" and
    d2: "doc_seq (concat (map (delayCmds E) ms)) st1 rs2 st'"
    using doc_seq_append [of "delayCmds E m"] by force
  from d1 obtain z where z: "map_of z = (map_of (zsets st (gkey KEY_QUEUE_SCHEDULED)))
      (Str (uuid m) \<mapsto> p_now E + retryDelay m)" and
    st1: "st1 = set_hash (gkey KEY_SCHEDULED_MESSAGES)
      ((hashes st (gkey KEY_SCHEDULED_MESSAGES))(Str (uuid m) \<mapsto> toString (delayedForm E m)))
      (set_zset (gkey KEY_QUEUE_SCHEDULED) z
        (set_list (gkey KEY_QUEUE_DELAY) (remove1 (toString m) (lists st (gkey KEY_QUEUE_DELAY))) st))"
    by (auto simp: delayCmds_def)
  have "lists st1 (gkey KEY_QUEUE_DELAY) = map toString ms @ rest"
    using st1 Cons.prems(2) by simp
  note IH = Cons.IH [OF d2 this]
  have eq: "rev (map f (m # ms)) = rev (map f ms) @ [f m]" for f :: "message \<Rightarrow> rstr \<times> 'b" by simp
  from IH have l: "lists st' = (lists st1)(gkey KEY_QUEUE_DELAY := rest)" by blast
  from IH have h: "hashes st' = (hashes st1)(gkey KEY_SCHEDULED_MESSAGES :=
      hashes st1 (gkey KEY_SCHEDULED_MESSAGES) ++
      map_of (rev (map (\<lambda>m. (Str (uuid m), toString (delayedForm E m))) ms)))" by blast
  from IH have zz: "map_of (zsets st' (gkey KEY_QUEUE_SCHEDULED)) =
      map_of (zsets st1 (gkey KEY_QUEUE_SCHEDULED)) ++
      map_of (rev (map (\<lambda>m. (Str (uuid m), p_now E + retryDelay m)) ms))" by blast
  show ?case
    unfolding l h zz eq map_add_map_upd using IH st1 z by simp
qed

context smq_live
begin

lemma delay_schedule_live:
  assumes ms: "msgs_at (view s) (gkey KEY_QUEUE_DELAY) ms" and now: "p_now E > 0"
    and rd: "list_all (\<lambda>m. retryDelay m \<ge> 1000) ms"
  shows "\<exists>s' rs. delay_schedule E s = (Inr (), s') \<and>
    doc_seq (concat (map (delayCmds E) (take 100 ms))) (view s) rs (view s')"
proof -
  obtain s1 where r: "rc_lrange E (gkey KEY_QUEUE_DELAY) 0 99 s = (Inr (map toString (take 100 ms)), s1)"
    and v1: "view s1 = view s"
    using lrange_live [of "gkey KEY_QUEUE_DELAY" 0 99 s] msgs_at_lists [OF ms]
    unfolding slice_100 take_map [symmetric] by metis
  have "mapR (delayTask E) (map toString (take 100 ms)) = Inr (map (delayCmds E) (take 100 ms))"
    unfolding mapR_map
    by (rule mapR_Inr_map, rule delayTask_eq)
      (use ms rd now in \<open>auto simp: msgs_at_def list_all_iff dest: in_set_takeD\<close>)
  moreover obtain rs s' where "execMulti E (concat (map (delayCmds E) (take 100 ms))) s1 = (Inr rs, s')"
    "doc_seq (concat (map (delayCmds E) (take 100 ms))) (view s1) rs (view s')"
    using execMulti_live by blast
  ultimately show ?thesis
    using r v1
    by (auto simp: delay_schedule_def smq_keys io_run)
qed

end

section \<open>The due messages\<close>

text \<open>What the schedule says of an identifier: its time and its payload.\<close>

definition sched :: "store \<Rightarrow> rstr \<Rightarrow> int option \<times> rstr option" where
  "sched st i = (map_of (zsets st (gkey KEY_QUEUE_SCHEDULED)) i, hashes st (gkey KEY_SCHEDULED_MESSAGES) i)"

definition pendingKey :: "message \<Rightarrow> key" where
  "pendingKey m = (case queue m of None \<Rightarrow> [] | Some q \<Rightarrow> qkey KEY_QUEUE (q_ns q) (q_name q))"

text \<open>The entry of the schedule after a delivery: the next time, or none.\<close>

definition sched_next :: "'s platform \<Rightarrow> message \<Rightarrow> int option \<times> rstr option" where
  "sched_next E m =
     (case getNextScheduledTimestamp (p_now E) (p_cron E) (published E False m) of
        Inl e \<Rightarrow> (None, None)
      | Inr (ts, m') \<Rightarrow> if ts = 0 then (None, None) else (Some ts, Some (toString m')))"

definition schedulable_ok :: "'s platform \<Rightarrow> message \<Rightarrow> bool" where
  "schedulable_ok E m \<longleftrightarrow> queue m \<noteq> None \<and>
     (\<exists>r. getNextScheduledTimestamp (p_now E) (p_cron E) (published E False m) = Inr r)"

text \<open>Nothing but lists and the schedule differs.\<close>

definition beside_schedule :: "store \<Rightarrow> store \<Rightarrow> bool" where
  "beside_schedule st st' \<longleftrightarrow> sets st' = sets st \<and> (\<forall>k. k \<noteq> gkey KEY_SCHEDULED_MESSAGES \<longrightarrow> hashes st' k = hashes st k) \<and>
     (\<forall>k. k \<noteq> gkey KEY_QUEUE_SCHEDULED \<longrightarrow> zsets st' k = zsets st k)"

lemma sched_set_list [simp]: "sched (st\<lparr>lists := l\<rparr>) = sched st"
  by (simp add: sched_def fun_eq_iff)

context smq_live
begin

lemma enqueueScheduledMessage_live:
  assumes "schedulable_ok E m"
  shows "\<exists>s'. enqueueScheduledMessage E False m s = (Inr (), s') \<and>
    lists (view s') = (lists (view s))(pendingKey m :=
      lists (view s) (pendingKey m) @ [toString (published E False m)]) \<and>
    (\<forall>i. sched (view s') i = (if i = Str (uuid m) then sched_next E m else sched (view s) i)) \<and>
    beside_schedule (view s) (view s')"
proof -
  let ?zk = "gkey KEY_QUEUE_SCHEDULED" and ?hk = "gkey KEY_SCHEDULED_MESSAGES" and ?i = "Str (uuid m)"
  from assms obtain q ts m2 where q: "queue m = Some q"
    and n: "getNextScheduledTimestamp (p_now E) (p_cron E) (published E False m) = Inr (ts, m2)"
    by (auto simp: schedulable_ok_def)
  let ?cs = "enqueueCmds E q m False @
    (if ts \<noteq> 0 then [ZADD ?zk ts ?i, HSET ?hk ?i (toString m2)] else [ZREM ?zk ?i, HDEL ?hk [?i]])"
  obtain rs s' where x: "execMulti E ?cs s = (Inr rs, s')" and d: "doc_seq ?cs (view s) rs (view s')"
    using execMulti_live by blast
  from doc_seq_append [OF d] obtain rs1 rs2 st1 where
    d1: "doc_seq (enqueueCmds E q m False) (view s) rs1 st1" and
    d2: "doc_seq (if ts \<noteq> 0 then [ZADD ?zk ts ?i, HSET ?hk ?i (toString m2)]
                  else [ZREM ?zk ?i, HDEL ?hk [?i]]) st1 rs2 (view s')" by blast
  from enqueueCmds_doc [OF d1] q
  have st1: "st1 = set_list (pendingKey m) (lists (view s) (pendingKey m) @ [toString (published E False m)]) (view s)"
    by (simp add: enqueued_def pendingKey_def Let_def)
  have "lists (view s') = lists st1" "sched (view s') i = (if i = ?i then sched_next E m else sched st1 i)" for i
    using d2 n by (auto simp: sched_def sched_next_def map_of_filter_fst split: if_splits)
  moreover have "beside_schedule (view s) (view s')"
    using d2 st1 by (auto simp: beside_schedule_def split: if_splits)
  ultimately show ?thesis
    using x q n st1
    by (auto simp: enqueueScheduledMessage_def createFromObject_def enqueueMulti_eq smq_keys Let_def
        voidM_run_Inr io_run)
qed

lemma enqueueScheduled_each:
  "list_all (schedulable_ok E) ms \<Longrightarrow> distinct (map uuid ms) \<Longrightarrow>
   \<exists>s'. eachM (enqueueScheduledMessage E False) ms s = (Inr (), s') \<and>
     (\<forall>k. lists (view s') k = lists (view s) k @
        map (\<lambda>m. toString (published E False m)) (filter (\<lambda>m. pendingKey m = k) ms)) \<and>
     (\<forall>m \<in> set ms. sched (view s') (Str (uuid m)) = sched_next E m) \<and>
     (\<forall>i. i \<notin> (\<lambda>m. Str (uuid m)) ` set ms \<longrightarrow> sched (view s') i = sched (view s) i) \<and>
     beside_schedule (view s) (view s')"
proof (induction ms arbitrary: s)
  case Nil
  then show ?case by (simp add: beside_schedule_def)
next
  case (Cons m ms)
  then obtain s1 where s1: "enqueueScheduledMessage E False m s = (Inr (), s1)"
    "lists (view s1) = (lists (view s))(pendingKey m :=
      lists (view s) (pendingKey m) @ [toString (published E False m)])"
    "\<forall>i. sched (view s1) i = (if i = Str (uuid m) then sched_next E m else sched (view s) i)"
    "beside_schedule (view s) (view s1)"
    using enqueueScheduledMessage_live [of m s] by auto
  from Cons.IH [of s1] Cons.prems obtain s' where s': "eachM (enqueueScheduledMessage E False) ms s1 = (Inr (), s')"
    "\<forall>k. lists (view s') k = lists (view s1) k @
        map (\<lambda>m. toString (published E False m)) (filter (\<lambda>m. pendingKey m = k) ms)"
    "\<forall>m \<in> set ms. sched (view s') (Str (uuid m)) = sched_next E m"
    "\<forall>i. i \<notin> (\<lambda>m. Str (uuid m)) ` set ms \<longrightarrow> sched (view s') i = sched (view s1) i"
    "beside_schedule (view s1) (view s')"
    by auto
  from Cons.prems(2) have fresh: "Str (uuid m) \<notin> (\<lambda>m. Str (uuid m)) ` set ms" by auto
  show ?case
    using s1 s' fresh by (intro exI [of _ s']) (auto simp: beside_schedule_def)
qed

lemma enqueueScheduledMessages_live:
  assumes zs: "zmsgs_at (view s) (gkey KEY_QUEUE_SCHEDULED) (gkey KEY_SCHEDULED_MESSAGES) zs"
    and due: "due = map fst (filter (\<lambda>p. 0 \<le> snd p \<and> snd p \<le> p_now E) zs)"
  shows "\<exists>s1. view s1 = view s \<and>
    enqueueScheduledMessages E wp s = eachM (enqueueScheduledMessage E wp) due s1"
proof -
  let ?zk = "gkey KEY_QUEUE_SCHEDULED" and ?hk = "gkey KEY_SCHEDULED_MESSAGES"
  let ?ids = "map (\<lambda>m. Str (uuid m)) due"
  have ids: "map fst (filter (\<lambda>p. 0 \<le> snd p \<and> snd p \<le> p_now E) (zsets (view s) ?zk)) = ?ids"
    using zs by (auto simp: zmsgs_at_def due filter_map comp_def case_prod_beta)
  obtain s1 where r1: "rc_zrangebyscore E ?zk 0 (p_now E) s = (Inr ?ids, s1)" and v1: "view s1 = view s"
    using zrangebyscore_live [of ?zk 0 "p_now E" s] ids by auto
  have "list_all (\<lambda>m. body m \<noteq> None \<and> hashes (view s) ?hk (Str (uuid m)) = Some (toString m)) due"
    using zs by (auto simp: zmsgs_at_def due list_all_iff)
  then have h: "map (hashes (view s) ?hk) ?ids = map (Some \<circ> toString) due"
    and b: "list_all (\<lambda>m. body m \<noteq> None) due" by (auto simp: list_all_iff)
  obtain s2 where r2: "rc_hmget E ?hk ?ids s1 = (Inr (map (Some \<circ> toString) due), s2)"
    and v2: "view s2 = view s"
    using hmget_live [of ?hk ?ids s1] v1 h by auto
  show ?thesis
  proof (cases "due = []")
    case True
    with r1 v1 show ?thesis by (auto simp: enqueueScheduledMessages_def smq_keys io_run)
  next
    case False
    with r1 r2 v2 mapR_stored_opt [OF b, of "freshMessage E"] show ?thesis
      by (auto simp: enqueueScheduledMessages_def smq_keys io_run)
  qed
qed

end

context smq_live
begin

lemma delay_schedule_effect:
  assumes "msgs_at (view s) (gkey KEY_QUEUE_DELAY) ms" and "p_now E > 0"
    and "list_all (\<lambda>m. retryDelay m \<ge> 1000) ms"
  shows "\<exists>s'. delay_schedule E s = (Inr (), s') \<and>
    lists (view s') = (lists (view s))(gkey KEY_QUEUE_DELAY := map toString (drop 100 ms)) \<and>
    hashes (view s') = (hashes (view s))(gkey KEY_SCHEDULED_MESSAGES :=
      hashes (view s) (gkey KEY_SCHEDULED_MESSAGES) ++
      map_of (rev (map (\<lambda>m. (Str (uuid m), toString (delayedForm E m))) (take 100 ms)))) \<and>
    map_of (zsets (view s') (gkey KEY_QUEUE_SCHEDULED)) =
      map_of (zsets (view s) (gkey KEY_QUEUE_SCHEDULED)) ++
      map_of (rev (map (\<lambda>m. (Str (uuid m), p_now E + retryDelay m)) (take 100 ms))) \<and>
    (\<forall>k. k \<noteq> gkey KEY_QUEUE_SCHEDULED \<longrightarrow> zsets (view s') k = zsets (view s) k) \<and>
    sets (view s') = sets (view s)"
proof -
  obtain s' rs where "delay_schedule E s = (Inr (), s')"
    "doc_seq (concat (map (delayCmds E) (take 100 ms))) (view s) rs (view s')"
    using delay_schedule_live [OF assms] by blast
  moreover have "lists (view s) (gkey KEY_QUEUE_DELAY) =
      map toString (take 100 ms) @ map toString (drop 100 ms)"
    using msgs_at_lists [OF assms(1)] by (simp flip: map_append)
  ultimately show ?thesis
    using delayCmds_doc [of E "take 100 ms" "view s" rs "view s'" "map toString (drop 100 ms)"] by blast
qed

lemma scheduled_due_effect:
  assumes "zmsgs_at (view s) (gkey KEY_QUEUE_SCHEDULED) (gkey KEY_SCHEDULED_MESSAGES) zs"
    and "due = map fst (filter (\<lambda>p. 0 \<le> snd p \<and> snd p \<le> p_now E) zs)"
    and "list_all (schedulable_ok E) due"
  shows "\<exists>s'. enqueueScheduledMessages E False s = (Inr (), s') \<and>
    (\<forall>k. lists (view s') k = lists (view s) k @
       map (\<lambda>m. toString (published E False m)) (filter (\<lambda>m. pendingKey m = k) due)) \<and>
    (\<forall>m \<in> set due. sched (view s') (Str (uuid m)) = sched_next E m) \<and>
    (\<forall>i. i \<notin> (\<lambda>m. Str (uuid m)) ` set due \<longrightarrow> sched (view s') i = sched (view s) i) \<and>
    beside_schedule (view s) (view s')"
proof -
  have "distinct (map fst (zsets (view s) (gkey KEY_QUEUE_SCHEDULED)))"
    using zset_inv
    by (simp add: zset_ok_def)
  with assms(1) have "distinct (map (\<lambda>p. uuid (fst p)) zs)"
    by (auto simp: zmsgs_at_def distinct_map inj_on_def case_prod_beta)
  then have d: "distinct (map uuid due)"
    unfolding assms(2) by (simp add: distinct_map inj_on_def)
  from enqueueScheduledMessages_live [OF assms(1,2), of False] obtain s1 where
    "view s1 = view s" "enqueueScheduledMessages E False s = eachM (enqueueScheduledMessage E False) due s1"
    by blast
  with enqueueScheduled_each [OF assms(3) d, of s1] show ?thesis by simp
qed

end

section \<open>Requeuing by hand\<close>

definition requeueForm :: "string \<Rightarrow> string \<Rightarrow> bool \<Rightarrow> int option \<Rightarrow> message \<Rightarrow> message" where
  "requeueForm n nm withPriority prio m =
     (let m1 = (reset m)\<lparr>queue := Some \<lparr>q_name = nm, q_ns = n\<rparr>\<rparr> in
      if withPriority \<and> prio \<noteq> None then m1\<lparr>priority := prio\<rparr> else m1)"

definition prio_valid :: "bool \<Rightarrow> int option \<Rightarrow> bool" where
  "prio_valid withPriority prio \<longleftrightarrow>
     (case prio of None \<Rightarrow> True | Some p \<Rightarrow> withPriority \<longrightarrow> p \<in> set MessagePriority)"

lemma requeueForm_sel [simp]:
  "queue (requeueForm n nm b p m) = Some \<lparr>q_name = nm, q_ns = n\<rparr>" "uuid (requeueForm n nm b p m) = uuid m"
  by (simp_all add: requeueForm_def reset_def Let_def)

lemma requeueForm_steps:
  assumes "prio_valid b prio"
  shows "bindR (case prio of
      Some p \<Rightarrow> if b then setPriority p (setQueue n nm (reset m)) else Inr (setQueue n nm (reset m))
    | None \<Rightarrow> Inr (setQueue n nm (reset m))) f = f (requeueForm n nm b prio m)"
  using assms
  by (cases prio) (auto simp: requeueForm_def prio_valid_def setPriority_def setQueue_def Let_def)

context smq_live
begin

lemma requeueListMessage_live:
  assumes ms: "msgs_at (view s) from ms" and p: "prio_valid b prio"
    and hit: "i < length ms" "uuid (ms ! i) = mid"
  shows "\<exists>s'. requeueListMessage E nm n from (int i) mid b prio s = (Inr (), s') \<and>
    enqueued E \<lparr>q_name = nm, q_ns = ns_or n (p_ns E)\<rparr> (requeueForm (ns_or n (p_ns E)) nm b prio (ms ! i)) b
      (set_list from (remove1 (toString (ms ! i)) (lists (view s) from)) (view s)) (view s')"
proof -
  let ?ns = "ns_or n (p_ns E)" and ?m = "ms ! i"
  let ?m1 = "requeueForm ?ns nm b prio ?m" and ?q = "\<lparr>q_name = nm, q_ns = ?ns\<rparr>"
  obtain s1 where g: "getListMessageAtSequenceId E from (int i) mid nm ?ns s = (Inr ?m, s1)"
    and v1: "view s1 = view s"
    using getListMessageAtSequenceId_live [OF ms, of i mid nm ?ns] hit by auto
  let ?cs = "LREM from 1 (toString ?m) # enqueueCmds E ?q ?m1 b"
  obtain rs s' where x: "execMulti E ?cs s1 = (Inr rs, s')" and d: "doc_seq ?cs (view s1) rs (view s')"
    using execMulti_live by blast
  from d v1 obtain rs1 where "doc_seq (enqueueCmds E ?q ?m1 b)
      (set_list from (remove1 (toString ?m) (lists (view s) from)) (view s)) rs1 (view s')"
    by auto
  note e = enqueueCmds_doc [OF this]
  have "requeueListMessage E nm n from (int i) mid b prio s = (Inr (), s')"
    using g x enqueueMulti_eq [of ?m1 ?q E b]
    by (simp add: requeueListMessage_def Let_def createFromObject_def requeueForm_steps [OF p]
        voidM_run_Inr io_run)
  with e show ?thesis by blast
qed

lemma requeueListMessage_missing:
  assumes ms: "msgs_at (view s) from ms" and miss: "\<not> (i < length ms \<and> uuid (ms ! i) = mid)"
  shows "\<exists>s'. requeueListMessage E nm n from (int i) mid b prio s =
      (Inl (Cb (MessageNotFoundError mid nm (ns_or n (p_ns E)) (int i))), s') \<and> view s' = view s"
  using getListMessageAtSequenceId_live [OF ms, of i mid nm "ns_or n (p_ns E)"] miss
  by (auto simp: requeueListMessage_def Let_def bindM_run_Inl)

end

section \<open>Properties\<close>

text \<open>A message without a cron expression is delivered a fixed number of times: once after its delay,
  if it has one, and \<open>scheduledRepeat\<close> times (less the repetitions already counted). For any readings of
  the clock the computed delivery times are exactly that many, none lies in the past, and then the
  schedule ends.\<close>

theorem schedule_countdown:
  assumes "scheduledCron m = None" and "msg_ok m" and "list_all (\<lambda>n. n > 0) nows"
  shows "\<exists>tss. timestamps cron nows m = Inr tss \<and> length tss = min (length nows) (deliveries_left m) \<and>
    list_all2 (\<le>) (take (length tss) nows) tss"
  by (rule timestamps_no_cron [OF assms])

theorem schedule_countdown_witness:
  "\<exists>tss. timestamps (\<lambda>_. Inl CronError) [10, 20, 30, 40, 50]
      ((newMessage defaultOpts 0 ''a'')\<lparr>scheduledDelay := Some 1000, scheduledRepeat := 2\<rparr>) = Inr tss \<and>
    length tss = 3"
  using schedule_countdown [of "(newMessage defaultOpts 0 ''a'')\<lparr>scheduledDelay := Some 1000, scheduledRepeat := 2\<rparr>"
      "[10, 20, 30, 40, 50]" "\<lambda>_. Inl CronError"]
  by (auto simp: msg_ok_def newMessage_def defaultOpts_def deliveries_left_def)

text \<open>A message with a valid cron expression never leaves the schedule: whatever its delay and repeat
  settings, every computation yields a delivery time that is not in the past.\<close>

theorem schedule_cron_forever:
  assumes "scheduledCron m = Some c" and "c \<noteq> []" and "cron c = Inr nxt" and "\<And>n. nxt n > n"
    and "msg_ok m" and "list_all (\<lambda>n. n > 0) nows"
  shows "\<exists>tss. timestamps cron nows m = Inr tss \<and> list_all2 (\<le>) nows tss"
  by (rule timestamps_cron [where nxt = nxt and c = c]) (use assms in auto)

theorem schedule_cron_forever_witness:
  "\<exists>tss. timestamps (\<lambda>_. Inr (\<lambda>n. n + 60000)) [10, 20, 30]
      ((newMessage defaultOpts 0 ''a'')\<lparr>scheduledCron := Some ''* * * * *''\<rparr>) = Inr tss \<and>
    list_all2 (\<le>) [10, 20, 30] tss"
  using schedule_cron_forever [of "(newMessage defaultOpts 0 ''a'')\<lparr>scheduledCron := Some ''* * * * *''\<rparr>"
      "''* * * * *''" "\<lambda>_. Inr (\<lambda>n. n + 60000)" "\<lambda>n. n + 60000" "[10, 20, 30]"]
  by (simp add: msg_ok_def newMessage_def defaultOpts_def)

text \<open>One run of the delay handler: the first hundred messages of the delay queue leave it and are in
  the schedule, each with its attempts counted, its retry delay as the time to wait and its payload;
  the rest of the delay queue, the other lists and the other sorted sets are as before.\<close>

theorem delay_schedule_moves:
  assumes "smq_live E view" and "msgs_at (view s) (gkey KEY_QUEUE_DELAY) ms" and "p_now E > 0"
    and "list_all (\<lambda>m. retryDelay m \<ge> 1000) ms"
  shows "\<exists>s'. delay_schedule E s = (Inr (), s') \<and>
    lists (view s') = (lists (view s))(gkey KEY_QUEUE_DELAY := map toString (drop 100 ms)) \<and>
    hashes (view s') = (hashes (view s))(gkey KEY_SCHEDULED_MESSAGES :=
      hashes (view s) (gkey KEY_SCHEDULED_MESSAGES) ++
      map_of (rev (map (\<lambda>m. (Str (uuid m), toString (delayedForm E m))) (take 100 ms)))) \<and>
    map_of (zsets (view s') (gkey KEY_QUEUE_SCHEDULED)) =
      map_of (zsets (view s) (gkey KEY_QUEUE_SCHEDULED)) ++
      map_of (rev (map (\<lambda>m. (Str (uuid m), p_now E + retryDelay m)) (take 100 ms))) \<and>
    (\<forall>k. k \<noteq> gkey KEY_QUEUE_SCHEDULED \<longrightarrow> zsets (view s') k = zsets (view s) k) \<and>
    sets (view s') = sets (view s)"
  using assms by (rule smq_live.delay_schedule_effect)

theorem delay_schedule_moves_witness:
  "\<exists>s'. delay_schedule (mem_platform 5) (demo_mem (gkey KEY_QUEUE_DELAY) [demo_msg ''a'']) = (Inr (), s') \<and>
     lists (mem_view s') (gkey KEY_QUEUE_DELAY) = [] \<and>
     map_of (zsets (mem_view s') (gkey KEY_QUEUE_SCHEDULED)) (Str ''a'') = Some 60005"
  using delay_schedule_moves [OF mem_platform_live [of 5] demo_mem_at [of "[demo_msg ''a'']"]]
  by (auto simp: demo_msg_def newMessage_def defaultOpts_def)


definition due_mem :: mem where
  "due_mem = mem0\<lparr>mzsets := (\<lambda>_. [])(gkey KEY_QUEUE_SCHEDULED := [(Str ''a'', 3)]),
     mhashes := (\<lambda>_. [])(gkey KEY_SCHEDULED_MESSAGES := [(Str ''a'', toString (order_msg ''a''))])\<rparr>"

lemma due_mem_at:
  "zmsgs_at (mem_view due_mem) (gkey KEY_QUEUE_SCHEDULED) (gkey KEY_SCHEDULED_MESSAGES) [(order_msg ''a'', 3)]"
  by (simp add: zmsgs_at_def due_mem_def mem_view_def znorm_def)


text \<open>Requeuing a message of a dead-letter or acknowledged queue: if the position holds the message,
  it leaves that list and is enqueued again, without the traces of its previous delivery, in the
  queue named; otherwise the reply is \<open>MessageNotFoundError\<close> and nothing changes.\<close>

theorem requeue_list_message_spec:
  assumes "smq_live E view" and "msgs_at (view s) from ms" and "prio_valid b prio"
  shows "\<exists>s'. if i < length ms \<and> uuid (ms ! i) = mid
    then requeueListMessage E nm n from (int i) mid b prio s = (Inr (), s') \<and>
      enqueued E \<lparr>q_name = nm, q_ns = ns_or n (p_ns E)\<rparr>
        (requeueForm (ns_or n (p_ns E)) nm b prio (ms ! i)) b
        (set_list from (remove1 (toString (ms ! i)) (lists (view s) from)) (view s)) (view s')
    else requeueListMessage E nm n from (int i) mid b prio s =
        (Inl (Cb (MessageNotFoundError mid nm (ns_or n (p_ns E)) (int i))), s') \<and> view s' = view s"
  using smq_live.requeueListMessage_live [OF assms, of i mid nm n]
    smq_live.requeueListMessage_missing [OF assms(1,2), of i mid nm n b prio]
  by auto

theorem requeue_list_message_spec_witness:
  "\<exists>s'. requeueListMessage (mem_platform 0) ''orders'' None ''dl'' (int 0) ''a'' False None
     (demo_mem ''dl'' [demo_msg ''a'']) = (Inr (), s')"
  using requeue_list_message_spec [OF mem_platform_live [of 0] demo_mem_at [of "[demo_msg ''a'']" "''dl''"],
      of False None 0 "''a''" "''orders''" None]
  by (auto simp: prio_valid_def)

end
