(* ===== verification/Power_Ticker.thy ===== *)
theory Power_Ticker
  imports SMQ_Prelude "HOL-Library.Sublist"
begin

text \<open>
  The life-cycle state machines under \<^verbatim>\<open>src/system/common\<close>: \<open>power-manager.ts\<close> (up, down and the
  transitions in progress), \<open>ticker.ts\<close> (the timer every worker runs on) and \<open>worker-runner.ts\<close> (the child
  processes a consumer starts). An operation that throws is \<open>Inl\<close>.
\<close>

section \<open>Power manager\<close>

datatype TStates = UP | DOWN

record powerManager =
  pm_state :: TStates
  pm_pendingState :: "TStates option"

definition newPowerManager :: powerManager where
  "newPowerManager = \<lparr>pm_state = DOWN, pm_pendingState = None\<rparr>"

definition switchState :: "TStates \<Rightarrow> powerManager \<Rightarrow> powerManager result" where
  "switchState s pm =
     (if pm_pendingState pm \<noteq> None then
        Inl (PowerManagerError ''Can not switch state while another state transition is in progress.'')
      else if s = pm_state pm then Inl (PowerManagerError ''Can not switch to the same current state.'')
      else Inr (pm\<lparr>pm_pendingState := Some s\<rparr>))"

definition isUp :: "powerManager \<Rightarrow> bool" where
  "isUp pm \<longleftrightarrow> pm_state pm = UP"

definition isDown :: "powerManager \<Rightarrow> bool" where
  "isDown pm \<longleftrightarrow> pm_state pm = DOWN"

definition isGoingUp :: "powerManager \<Rightarrow> bool" where
  "isGoingUp pm \<longleftrightarrow> pm_pendingState pm = Some UP"

definition isGoingDown :: "powerManager \<Rightarrow> bool" where
  "isGoingDown pm \<longleftrightarrow> pm_pendingState pm = Some DOWN"

text \<open>\<open>UP\<close> is 0 in the enumeration, so \<open>!this.pendingState\<close> holds for \<open>null\<close> and for \<open>UP\<close>.\<close>

definition isRunning :: "powerManager \<Rightarrow> bool" where
  "isRunning pm \<longleftrightarrow> isUp pm \<and> pm_pendingState pm \<in> {None, Some UP}"

definition goingUp :: "powerManager \<Rightarrow> powerManager result" where
  "goingUp pm = switchState UP pm"

definition goingDown :: "powerManager \<Rightarrow> powerManager result" where
  "goingDown pm = switchState DOWN pm"

definition commit :: "powerManager \<Rightarrow> powerManager result" where
  "commit pm =
     (case pm_pendingState pm of
        None \<Rightarrow> Inl (PowerManagerError ''Expected a pending state'')
      | Some s \<Rightarrow> Inr (pm\<lparr>pm_state := s, pm_pendingState := None\<rparr>))"

definition rollback :: "powerManager \<Rightarrow> powerManager result" where
  "rollback pm =
     (case pm_pendingState pm of
        None \<Rightarrow> Inl (PowerManagerError ''Expected a pending state'')
      | Some s \<Rightarrow> Inr (pm\<lparr>pm_pendingState := None\<rparr>))"

datatype pm_call = GoingUp | GoingDown | Commit | Rollback

fun pm_do :: "pm_call \<Rightarrow> powerManager \<Rightarrow> powerManager result" where
  "pm_do GoingUp pm = goingUp pm"
| "pm_do GoingDown pm = goingDown pm"
| "pm_do Commit pm = commit pm"
| "pm_do Rollback pm = rollback pm"

text \<open>Any sequence of calls; a call that throws leaves the state as it was.\<close>

fun pm_run :: "pm_call list \<Rightarrow> powerManager \<Rightarrow> powerManager" where
  "pm_run [] pm = pm"
| "pm_run (c # cs) pm = pm_run cs (case pm_do c pm of Inl e \<Rightarrow> pm | Inr pm' \<Rightarrow> pm')"

definition pm_ok :: "powerManager \<Rightarrow> bool" where
  "pm_ok pm \<longleftrightarrow> pm_pendingState pm \<noteq> Some (pm_state pm)"

section \<open>Ticker\<close>

text \<open>A timer handle: \<open>NoTimer\<close> is \<open>null\<close>, \<open>Armed\<close> a timer that will fire, \<open>Cleared\<close> one that was cleared
  while the property still refers to it.\<close>

datatype timer = NoTimer | Armed | Cleared

record 'f ticker =
  tk_powerManager :: powerManager
  tk_onTickFn :: 'f
  tk_onNextTickFn :: "'f option"
  tk_timeout :: timer
  tk_interval :: timer

definition newTicker :: "'f \<Rightarrow> 'f ticker result" where
  "newTicker fn =
     bindR (goingUp newPowerManager) (\<lambda>pm.
       Inr \<lparr>tk_powerManager = pm, tk_onTickFn = fn, tk_onNextTickFn = None, tk_timeout = NoTimer,
            tk_interval = NoTimer\<rparr>)"

definition clearTimer :: "timer \<Rightarrow> timer" where
  "clearTimer t = (if t = NoTimer then NoTimer else Cleared)"

definition tk_shutdown :: "'f ticker \<Rightarrow> 'f ticker result" where
  "tk_shutdown tk =
     bindR (commit (tk_powerManager tk)) (\<lambda>pm.
       Inr (tk\<lparr>tk_timeout := clearTimer (tk_timeout tk), tk_interval := clearTimer (tk_interval tk),
              tk_powerManager := pm\<rparr>))"

text \<open>\<open>onTick\<close>: the function it calls, if any. Both \<open>quit\<close> paths emit \<open>DOWN\<close>.\<close>

definition onTick :: "'f ticker \<Rightarrow> 'f option \<times> 'f ticker" where
  "onTick tk =
     (if isRunning (tk_powerManager tk) then
        (Some (case tk_onNextTickFn tk of None \<Rightarrow> tk_onTickFn tk | Some f \<Rightarrow> f),
         tk\<lparr>tk_onNextTickFn := None\<rparr>)
      else (None, tk))"

definition tk_quit :: "'f ticker \<Rightarrow> 'f ticker result" where
  "tk_quit tk =
     (if isGoingUp (tk_powerManager tk) then
        bindR (rollback (tk_powerManager tk)) (\<lambda>pm. Inr (tk\<lparr>tk_powerManager := pm\<rparr>))
      else bindR (goingDown (tk_powerManager tk)) (\<lambda>pm. tk_shutdown (tk\<lparr>tk_powerManager := pm\<rparr>)))"

definition commitIfGoingUp :: "'f ticker \<Rightarrow> 'f ticker result" where
  "commitIfGoingUp tk =
     (if isGoingUp (tk_powerManager tk) then
        bindR (commit (tk_powerManager tk)) (\<lambda>pm. Inr (tk\<lparr>tk_powerManager := pm\<rparr>))
      else Inr tk)"

definition nextTick :: "'f ticker \<Rightarrow> 'f ticker result" where
  "nextTick tk =
     (if tk_timeout tk \<noteq> NoTimer \<or> tk_interval tk \<noteq> NoTimer then
        Inl (TickerError ''A timer is already running'')
      else if isGoingUp (tk_powerManager tk) \<or> isRunning (tk_powerManager tk) then
        bindR (commitIfGoingUp tk) (\<lambda>tk'. Inr (tk'\<lparr>tk_timeout := Armed\<rparr>))
      else Inr tk)"

text \<open>The state after \<open>nextTickFn\<close>: the function is stored before \<open>nextTick\<close> may throw.\<close>

definition nextTickFn :: "'f \<Rightarrow> 'f ticker \<Rightarrow> 'f ticker \<times> err option" where
  "nextTickFn fn tk =
     (let tk1 = tk\<lparr>tk_onNextTickFn := Some fn\<rparr> in
      case nextTick tk1 of Inl e \<Rightarrow> (tk1, Some e) | Inr tk2 \<Rightarrow> (tk2, None))"

definition runTimer :: "'f ticker \<Rightarrow> 'f ticker result" where
  "runTimer tk =
     (if tk_interval tk \<noteq> NoTimer \<or> tk_timeout tk \<noteq> NoTimer then
        Inl (TickerError ''A timer is already running'')
      else if isGoingUp (tk_powerManager tk) \<or> isRunning (tk_powerManager tk) then
        bindR (commitIfGoingUp tk) (\<lambda>tk'. Inr (tk'\<lparr>tk_interval := Armed\<rparr>))
      else Inr tk)"

text \<open>What happens to a ticker: its methods are called (a call that throws changes nothing, \<open>nextTickFn\<close>
  apart), and an armed timer fires. The label is the function that was run.\<close>

inductive tk_step :: "'f ticker \<Rightarrow> 'f option \<Rightarrow> 'f ticker \<Rightarrow> bool" where
  call_nextTick: "nextTick tk = Inr tk' \<Longrightarrow> tk_step tk None tk'"
| call_nextTickFn: "nextTickFn fn tk = (tk', e) \<Longrightarrow> tk_step tk None tk'"
| call_runTimer: "runTimer tk = Inr tk' \<Longrightarrow> tk_step tk None tk'"
| call_quit: "tk_quit tk = Inr tk' \<Longrightarrow> tk_step tk None tk'"
| timeout_fires: "tk_timeout tk = Armed \<Longrightarrow> onTick (tk\<lparr>tk_timeout := NoTimer\<rparr>) = (r, tk') \<Longrightarrow> tk_step tk r tk'"
| interval_fires: "tk_interval tk = Armed \<Longrightarrow> onTick tk = (r, tk') \<Longrightarrow> tk_step tk r tk'"

inductive tk_steps :: "'f ticker \<Rightarrow> 'f list \<Rightarrow> 'f ticker \<Rightarrow> bool" where
  refl: "tk_steps tk [] tk"
| step_none: "tk_steps tk fs tk' \<Longrightarrow> tk_step tk' None tk'' \<Longrightarrow> tk_steps tk fs tk''"
| step_run: "tk_steps tk fs tk' \<Longrightarrow> tk_step tk' (Some f) tk'' \<Longrightarrow> tk_steps tk (fs @ [f]) tk''"

inductive_cases tk_step_cases: "tk_step tk r tk'"

text \<open>The three phases of a ticker: created and not started, running with at most one timer armed,
  stopped with none armed.\<close>

definition tk_idle :: "'f ticker \<Rightarrow> bool" where
  "tk_idle tk \<longleftrightarrow> tk_powerManager tk = \<lparr>pm_state = DOWN, pm_pendingState = Some UP\<rparr> \<and>
     tk_timeout tk = NoTimer \<and> tk_interval tk = NoTimer"

definition tk_running :: "'f ticker \<Rightarrow> bool" where
  "tk_running tk \<longleftrightarrow> tk_powerManager tk = \<lparr>pm_state = UP, pm_pendingState = None\<rparr> \<and>
     (tk_timeout tk, tk_interval tk) \<in> {(NoTimer, NoTimer), (Armed, NoTimer), (NoTimer, Armed)}"

definition tk_stopped :: "'f ticker \<Rightarrow> bool" where
  "tk_stopped tk \<longleftrightarrow> tk_powerManager tk = \<lparr>pm_state = DOWN, pm_pendingState = None\<rparr> \<and>
     (tk_timeout tk, tk_interval tk) \<in> {(NoTimer, NoTimer), (Cleared, NoTimer), (NoTimer, Cleared)}"

definition tk_ok :: "'f ticker \<Rightarrow> bool" where
  "tk_ok tk \<longleftrightarrow> tk_idle tk \<or> tk_running tk \<or> tk_stopped tk"

section \<open>Worker runner\<close>

record workerRunner =
  wr_powerManager :: powerManager
  wr_workers :: "string list"

definition newWorkerRunner :: workerRunner where
  "newWorkerRunner = \<lparr>wr_powerManager = newPowerManager, wr_workers = []\<rparr>"

text \<open>\<open>run\<close>: \<open>reply\<close> is what \<open>readdir\<close> hands over; every file with the suffix is forked. The callback's
  outcome is the second component; an error of \<open>readdir\<close> leaves the transition pending.\<close>

definition isWorkerFile :: "string \<Rightarrow> bool" where
  "isWorkerFile f \<longleftrightarrow> suffix ''.worker.js'' f"

definition wr_run :: "err + string list \<Rightarrow> workerRunner \<Rightarrow> (err option \<times> workerRunner) result" where
  "wr_run reply wr =
     bindR (goingUp (wr_powerManager wr)) (\<lambda>pm.
       case reply of
         Inl e \<Rightarrow> Inr (Some e, wr\<lparr>wr_powerManager := pm\<rparr>)
       | Inr files \<Rightarrow>
           bindR (commit pm) (\<lambda>pm'.
             Inr (None, wr\<lparr>wr_powerManager := pm',
                           wr_workers := wr_workers wr @ filter isWorkerFile files\<rparr>)))"

text \<open>\<open>shutdownFn\<close> kills the workers from the last to the first, each after the previous one exited.\<close>

fun shutdownFn :: "string list \<Rightarrow> string list" where
  "shutdownFn [] = []"
| "shutdownFn (w # ws) = last (w # ws) # shutdownFn (butlast (w # ws))"

definition wr_shutdown :: "workerRunner \<Rightarrow> (string list \<times> workerRunner) result" where
  "wr_shutdown wr =
     (if isRunning (wr_powerManager wr) then
        bindR (goingDown (wr_powerManager wr)) (\<lambda>pm.
        bindR (commit pm) (\<lambda>pm'.
          Inr (shutdownFn (wr_workers wr), wr\<lparr>wr_powerManager := pm', wr_workers := []\<rparr>)))
      else Inr ([], wr))"

text \<open>A worker that exits: an exception unless the runner is going down or down.\<close>

definition workerExit :: "string \<Rightarrow> workerRunner \<Rightarrow> unit result" where
  "workerExit f wr =
     (if isGoingUp (wr_powerManager wr) \<or> isRunning (wr_powerManager wr)
      then Inl (WorkerRunnerError f) else Inr ())"

section \<open>Facts\<close>

lemmas pm_defs =
  newPowerManager_def switchState_def isUp_def isDown_def isGoingUp_def isGoingDown_def isRunning_def
  goingUp_def goingDown_def commit_def rollback_def pm_ok_def

lemma pm_do_ok: "pm_ok pm \<Longrightarrow> pm_do c pm = Inr pm' \<Longrightarrow> pm_ok pm'"
  by (cases c) (auto simp: pm_defs split: if_splits option.splits)

lemma pm_run_ok: "pm_ok pm \<Longrightarrow> pm_ok (pm_run cs pm)"
  by (induction cs arbitrary: pm) (auto split: sum.splits dest: pm_do_ok)

lemma pm_ok_new: "pm_ok newPowerManager"
  by (simp add: pm_defs)

lemma TStates_not [simp]: "s \<noteq> UP \<longleftrightarrow> s = DOWN" "s \<noteq> DOWN \<longleftrightarrow> s = UP"
  by (cases s; simp)+

lemmas tk_defs =
  newTicker_def clearTimer_def tk_shutdown_def onTick_def tk_quit_def commitIfGoingUp_def nextTick_def
  nextTickFn_def runTimer_def

lemmas tk_phases = tk_idle_def tk_running_def tk_stopped_def

lemma tk_ok_new: "newTicker fn = Inr tk \<Longrightarrow> tk_idle tk"
  by (auto simp: tk_phases tk_defs pm_defs)

lemma tk_step_idle: "tk_step tk r tk' \<Longrightarrow> tk_idle tk \<Longrightarrow> r = None \<and> (tk_running tk' \<or> tk_stopped tk')"
  by (induction rule: tk_step.induct) (auto simp: tk_phases tk_defs pm_defs Let_def)

lemma tk_step_running: "tk_step tk r tk' \<Longrightarrow> tk_running tk \<Longrightarrow> tk_running tk' \<or> tk_stopped tk'"
  by (induction rule: tk_step.induct)
    (auto simp: tk_phases tk_defs pm_defs Let_def split: if_splits)

lemma tk_step_stopped: "tk_step tk r tk' \<Longrightarrow> tk_stopped tk \<Longrightarrow> r = None \<and> tk_stopped tk'"
  by (induction rule: tk_step.induct)
    (auto simp: tk_phases tk_defs pm_defs Let_def split: if_splits)

lemma tk_steps_ok: "tk_steps tk fs tk' \<Longrightarrow> tk_ok tk \<Longrightarrow> tk_ok tk'"
  by (induction rule: tk_steps.induct)
    (auto simp: tk_ok_def dest: tk_step_idle tk_step_running tk_step_stopped)

lemma tk_steps_stopped: "tk_steps tk fs tk' \<Longrightarrow> tk_stopped tk \<Longrightarrow> fs = [] \<and> tk_stopped tk'"
  by (induction rule: tk_steps.induct) (auto dest: tk_step_stopped)

lemma tk_quit_stops: "tk_ok tk \<Longrightarrow> tk_quit tk = Inr tk' \<Longrightarrow> tk_stopped tk'"
  unfolding tk_ok_def
  by (elim disjE) (auto simp: tk_phases tk_defs pm_defs)

lemma shutdownFn_snoc: "shutdownFn (ws @ [w]) = w # shutdownFn ws"
proof -
  have "shutdownFn xs = last xs # shutdownFn (butlast xs)" if "xs \<noteq> []" for xs
    using that by (cases xs) simp_all
  from this [of "ws @ [w]"] show ?thesis by simp
qed

lemma shutdownFn_rev: "shutdownFn ws = rev ws"
  by (induction ws rule: rev_induct) (simp_all add: shutdownFn_snoc)

section \<open>Properties\<close>

text \<open>Whatever the order in which its methods are called, a power manager is in exactly one of four
  phases: down, going up, running, going down. In particular \<open>isRunning\<close>, which tests the pending state
  for being false rather than null, never holds during a transition.\<close>

theorem power_manager_phases:
  "(let pm = pm_run cs newPowerManager in
     (isDown pm \<and> pm_pendingState pm = None) = (\<not> isGoingUp pm \<and> \<not> isRunning pm \<and> \<not> isGoingDown pm) \<and>
     (isGoingUp pm = (isDown pm \<and> pm_pendingState pm \<noteq> None)) \<and>
     (isRunning pm = (isUp pm \<and> pm_pendingState pm = None)) \<and>
     (isGoingDown pm = (isUp pm \<and> pm_pendingState pm \<noteq> None)))"
proof -
  have "pm_ok (pm_run cs newPowerManager)" by (rule pm_run_ok [OF pm_ok_new])
  then show ?thesis
    by (cases "pm_state (pm_run cs newPowerManager)"; cases "pm_pendingState (pm_run cs newPowerManager)")
      (auto simp: pm_defs Let_def)
qed

text \<open>C39. A ticker never runs anything after it was quit: from any state its calls and timers can lead
  to, a successful \<open>quit\<close> leaves a ticker on which no sequence of calls and timer events runs a tick
  function again; and before that at most one timer is armed at a time.\<close>

theorem ticker_silent_after_quit:
  assumes "newTicker fn = Inr tk0" and "tk_steps tk0 fs tk" and "tk_quit tk = Inr tk1"
    and "tk_steps tk1 gs tk2"
  shows "gs = [] \<and> (tk_timeout tk = NoTimer \<or> tk_interval tk = NoTimer)"
proof -
  have ok: "tk_ok tk"
    using tk_steps_ok [OF assms(2)] tk_ok_new [OF assms(1)] by (simp add: tk_ok_def)
  from tk_steps_stopped [OF assms(4) tk_quit_stops [OF ok assms(3)]] ok show ?thesis
    by (auto simp: tk_ok_def tk_phases)
qed

theorem ticker_silent_after_quit_witness:
  "\<exists>tk0 tk1 :: nat ticker. newTicker 1 = Inr tk0 \<and> tk_quit tk0 = Inr tk1 \<and>
     (\<forall>gs tk2. tk_steps tk1 gs tk2 \<longrightarrow> gs = [])"
proof -
  let ?tk = "\<lambda>p. \<lparr>tk_powerManager = \<lparr>pm_state = DOWN, pm_pendingState = p\<rparr>, tk_onTickFn = 1 :: nat,
    tk_onNextTickFn = None, tk_timeout = NoTimer, tk_interval = NoTimer\<rparr>"
  have n: "newTicker 1 = Inr (?tk (Some UP))" and q: "tk_quit (?tk (Some UP)) = Inr (?tk None)"
    by (simp_all add: tk_defs pm_defs)
  have "gs = []" if "tk_steps (?tk None) gs tk2" for gs tk2
    using ticker_silent_after_quit [OF n tk_steps.refl q that] by (rule conjunct1)
  with n q show ?thesis by (intro exI conjI) auto
qed

text \<open>A ticker whose \<open>nextTick\<close>, \<open>nextTickFn\<close> or \<open>runTimer\<close> is never called does nothing: no timer of
  a new ticker can fire. Calling \<open>nextTick\<close> on it arms the timer, and when that fires the tick function
  runs.\<close>

theorem ticker_needs_start:
  assumes "newTicker fn = Inr tk"
  shows "tk_timeout tk \<noteq> Armed \<and> tk_interval tk \<noteq> Armed \<and>
    (\<exists>tk1 tk2. nextTick tk = Inr tk1 \<and> tk_timeout tk1 = Armed \<and> tk_step tk1 (Some fn) tk2)"
proof -
  from assms have tk: "tk = \<lparr>tk_powerManager = \<lparr>pm_state = DOWN, pm_pendingState = Some UP\<rparr>,
      tk_onTickFn = fn, tk_onNextTickFn = None, tk_timeout = NoTimer, tk_interval = NoTimer\<rparr>"
    by (simp add: newTicker_def pm_defs)
  let ?up = "tk\<lparr>tk_powerManager := \<lparr>pm_state = UP, pm_pendingState = None\<rparr>\<rparr>"
  have n: "nextTick tk = Inr (?up\<lparr>tk_timeout := Armed\<rparr>)"
    by (simp add: tk nextTick_def commitIfGoingUp_def pm_defs)
  have "onTick ?up = (Some fn, ?up)"
    by (simp add: tk onTick_def pm_defs)
  then have "tk_step (?up\<lparr>tk_timeout := Armed\<rparr>) (Some fn) ?up"
    by (intro tk_step.timeout_fires) (simp_all add: tk)
  moreover have "tk_timeout (?up\<lparr>tk_timeout := Armed\<rparr>) = Armed" by simp
  ultimately have "\<exists>tk1 tk2. nextTick tk = Inr tk1 \<and> tk_timeout tk1 = Armed \<and> tk_step tk1 (Some fn) tk2"
    using n by blast
  moreover have "tk_timeout tk \<noteq> Armed" "tk_interval tk \<noteq> Armed" by (simp_all add: tk)
  ultimately show ?thesis by blast
qed

theorem ticker_needs_start_witness:
  "\<exists>tk :: nat ticker. newTicker 7 = Inr tk \<and> tk_timeout tk \<noteq> Armed"
proof -
  obtain tk :: "nat ticker" where "newTicker 7 = Inr tk" by (auto simp: tk_defs pm_defs)
  with ticker_needs_start [of 7 tk] show ?thesis by blast
qed

end
