(* ===== verification/Broker.thy ===== *)
theory Broker
  imports Schedule_Handlers Power_Ticker
begin

text \<open>
  \<^verbatim>\<open>src/system/message-manager/message-manager.ts\<close>, which hands every call to one of the handlers,
  \<^verbatim>\<open>src/system/queue-manager/queue-manager.ts\<close>, \<^verbatim>\<open>src/system/broker.ts\<close>, which decides what becomes of a
  message that was not acknowledged, and \<^verbatim>\<open>src/system/producer/producer.ts\<close>. Logging is left out.
\<close>

section \<open>Message manager\<close>

datatype EMessageUnacknowledgedCause =
  UNACKNOWLEDGED | CAUGHT_ERROR | TIMEOUT | RECOVERY | CAUSE_TTL_EXPIRED

datatype EMessageDeadLetterCause = RETRY_THRESHOLD_EXCEEDED | TTL_EXPIRED | PERIODIC_MESSAGE

text \<open>The handlers are stateless apart from the dequeue handler, which is created by the first call that
  needs it and kept.\<close>

record messageManager =
  mm_dequeueHandler :: "dequeueHandler option"

definition newMessageManager :: messageManager where
  [simp]: "newMessageManager = \<lparr>mm_dequeueHandler = None\<rparr>"

definition getDequeueHandler ::
  "'s platform \<Rightarrow> string \<Rightarrow> key \<Rightarrow> messageManager \<Rightarrow> dequeueHandler \<times> messageManager" where
  "getDequeueHandler E queueName keyProcessing mm =
     (case mm_dequeueHandler mm of
        Some h \<Rightarrow> (h, mm)
      | None \<Rightarrow> let h = newDequeueHandler E queueName keyProcessing
                in (h, mm\<lparr>mm_dequeueHandler := Some h\<rparr>))"

definition mm_dequeueMessage ::
  "'s platform \<Rightarrow> string \<Rightarrow> key \<Rightarrow> messageManager \<Rightarrow> 's \<Rightarrow> ((exn + rstr option) \<times> messageManager) \<times> 's" where
  "mm_dequeueMessage E queueName keyProcessing mm s =
     (case getDequeueHandler E queueName keyProcessing mm of
        (h, mm') \<Rightarrow> (case dequeue E h s of (r, s') \<Rightarrow> ((r, mm'), s')))"

definition mm_dequeueMessageWithPriority ::
  "'s platform \<Rightarrow> string \<Rightarrow> key \<Rightarrow> (nat \<Rightarrow> 's \<Rightarrow> 's) \<Rightarrow> nat \<Rightarrow> messageManager \<Rightarrow> 's \<Rightarrow>
     ((exn + rstr) \<times> messageManager) \<times> 's" where
  "mm_dequeueMessageWithPriority E queueName keyProcessing env fuel mm s =
     (case getDequeueHandler E queueName keyProcessing mm of
        (h, mm') \<Rightarrow> (case dequeueWithPriority E h env 0 fuel s of (r, s') \<Rightarrow> ((r, mm'), s')))"

definition mm_enqueueMessage :: "'s platform \<Rightarrow> message \<Rightarrow> bool \<Rightarrow> ('s, message) io" where
  "mm_enqueueMessage E message withPriority = enqueue E message withPriority"

definition mm_enqueueScheduledMessages :: "'s platform \<Rightarrow> bool \<Rightarrow> ('s, unit) io" where
  "mm_enqueueScheduledMessages E withPriority = enqueueScheduledMessages E withPriority"

definition mm_scheduleMessage :: "'s platform \<Rightarrow> message \<Rightarrow> ('s, bool \<times> message) io" where
  "mm_scheduleMessage E message = schedule E message"

definition requeueUnacknowledgedMessage :: "'s platform \<Rightarrow> message \<Rightarrow> string \<Rightarrow> key \<Rightarrow> ('s, unit) io" where
  "requeueUnacknowledgedMessage E message queueName keyProcessing = requeue E queueName keyProcessing"

definition scheduleDelayedMessages :: "'s platform \<Rightarrow> ('s, unit) io" where
  "scheduleDelayedMessages E = delay_schedule E"

definition delayUnacknowledgedMessageBeforeRequeuing ::
  "'s platform \<Rightarrow> message \<Rightarrow> string \<Rightarrow> key \<Rightarrow> ('s, unit) io" where
  "delayUnacknowledgedMessageBeforeRequeuing E message queueName keyProcessing =
     delayBeforeRequeue E queueName keyProcessing"

definition mm_acknowledgeMessage :: "'s platform \<Rightarrow> message \<Rightarrow> string \<Rightarrow> key \<Rightarrow> ('s, unit) io" where
  "mm_acknowledgeMessage E message queueName keyProcessing = acknowledge E queueName keyProcessing"

definition deadLetterUnacknowledgedMessage ::
  "'s platform \<Rightarrow> message \<Rightarrow> string \<Rightarrow> key \<Rightarrow> EMessageUnacknowledgedCause \<Rightarrow> EMessageDeadLetterCause \<Rightarrow>
     ('s, unit) io" where
  "deadLetterUnacknowledgedMessage E message queueName keyProcessing cause deadCause =
     deadLetterMessage E queueName keyProcessing"

definition mm_deleteScheduledMessage :: "'s platform \<Rightarrow> string \<Rightarrow> ('s, unit) io" where
  "mm_deleteScheduledMessage E messageId = deleteScheduled E messageId"

definition mm_deleteDeadLetterMessage ::
  "'s platform \<Rightarrow> string \<Rightarrow> string option \<Rightarrow> int \<Rightarrow> string \<Rightarrow> ('s, unit) io" where
  "mm_deleteDeadLetterMessage E queueName n sequenceId messageId =
     deleteDeadLetterMessage E queueName n sequenceId messageId"

definition mm_deleteAcknowledgedMessage ::
  "'s platform \<Rightarrow> string \<Rightarrow> string option \<Rightarrow> int \<Rightarrow> string \<Rightarrow> ('s, unit) io" where
  "mm_deleteAcknowledgedMessage E queueName n sequenceId messageId =
     deleteAcknowledgedMessage E queueName n sequenceId messageId"

definition mm_deletePendingMessage ::
  "'s platform \<Rightarrow> string \<Rightarrow> string option \<Rightarrow> int \<Rightarrow> string \<Rightarrow> ('s, unit) io" where
  "mm_deletePendingMessage E queueName n sequenceId messageId =
     deletePendingMessage E queueName n sequenceId messageId"

definition mm_deletePendingMessageWithPriority ::
  "'s platform \<Rightarrow> string \<Rightarrow> string option \<Rightarrow> string \<Rightarrow> ('s, unit) io" where
  "mm_deletePendingMessageWithPriority E queueName n messageId =
     deletePendingMessageWithPriority E queueName n messageId"

definition mm_requeueMessageFromDLQueue ::
  "'s platform \<Rightarrow> string \<Rightarrow> string option \<Rightarrow> int \<Rightarrow> string \<Rightarrow> bool \<Rightarrow> int option \<Rightarrow> ('s, unit) io" where
  "mm_requeueMessageFromDLQueue E queueName n sequenceId messageId withPriority prio =
     requeueMessageFromDLQueue E queueName n sequenceId messageId withPriority prio"

definition mm_requeueMessageFromAcknowledgedQueue ::
  "'s platform \<Rightarrow> string \<Rightarrow> string option \<Rightarrow> int \<Rightarrow> string \<Rightarrow> bool \<Rightarrow> int option \<Rightarrow> ('s, unit) io" where
  "mm_requeueMessageFromAcknowledgedQueue E queueName n sequenceId messageId withPriority prio =
     requeueMessageFromAcknowledgedQueue E queueName n sequenceId messageId withPriority prio"

definition mm_getAcknowledgedMessages ::
  "'s platform \<Rightarrow> string \<Rightarrow> string option \<Rightarrow> int \<Rightarrow> int \<Rightarrow> ('s, TGetMessagesReply) io" where
  "mm_getAcknowledgedMessages E queueName n skip tk = getAcknowledgedMessages E queueName n skip tk"

definition mm_getDeadLetteredMessages ::
  "'s platform \<Rightarrow> string \<Rightarrow> string option \<Rightarrow> int \<Rightarrow> int \<Rightarrow> ('s, TGetMessagesReply) io" where
  "mm_getDeadLetteredMessages E queueName n skip tk = getDeadLetteredMessages E queueName n skip tk"

definition mm_getPendingMessages ::
  "'s platform \<Rightarrow> string \<Rightarrow> string option \<Rightarrow> int \<Rightarrow> int \<Rightarrow> ('s, TGetMessagesReply) io" where
  "mm_getPendingMessages E queueName n skip tk = getPendingMessages E queueName n skip tk"

definition mm_getPendingMessagesWithPriority ::
  "'s platform \<Rightarrow> string \<Rightarrow> string option \<Rightarrow> int \<Rightarrow> int \<Rightarrow> ('s, TPaginatedMessages) io" where
  "mm_getPendingMessagesWithPriority E queueName n skip tk =
     getPendingMessagesWithPriority E queueName n skip tk"

definition mm_getScheduledMessages :: "'s platform \<Rightarrow> int \<Rightarrow> int \<Rightarrow> ('s, TPaginatedMessages) io" where
  "mm_getScheduledMessages E skip tk = getScheduledMessages E skip tk"

definition mm_getScheduledMessagesCount :: "'s platform \<Rightarrow> ('s, int) io" where
  "mm_getScheduledMessagesCount E = getScheduledMessagesCount E"

text \<open>\<open>quit\<close> drops the dequeue handler once its ticker is down.\<close>

definition mm_quit :: "messageManager \<Rightarrow> messageManager" where
  "mm_quit mm = mm\<lparr>mm_dequeueHandler := None\<rparr>"

section \<open>Queue manager\<close>

text \<open>\<open>multi.exec\<close> of the driver, without the inspection of the replies \<open>execMulti\<close> does.\<close>

definition rawExec :: "'s platform \<Rightarrow> cmd list \<Rightarrow> ('s, unit) io" where
  "rawExec E cs s = (case p_mul E s cs of (Inl e, s') \<Rightarrow> (Inl (Cb e), s') | (Inr _, s') \<Rightarrow> (Inr (), s'))"

definition deleteProcessingQueue :: "'s platform \<Rightarrow> string \<Rightarrow> key \<Rightarrow> ('s, unit) io" where
  "deleteProcessingQueue E queueName processingQueueName =
     (let keys = getKeys (p_ns E) queueName None in
      rawExec E
        [SREM (keyIndexProcessingQueues keys) (Str processingQueueName),
         HDEL (keyIndexQueueMessageProcessingQueues keys) [Str processingQueueName],
         DEL processingQueueName])"

definition purgeDeadLetterQueue :: "'s platform \<Rightarrow> string \<Rightarrow> string option \<Rightarrow> ('s, unit) io" where
  "purgeDeadLetterQueue E queueName n = voidM (rc_del E (keyQueueDL (getKeys (p_ns E) queueName n)))"

definition purgeAcknowledgedMessagesQueue ::
  "'s platform \<Rightarrow> string \<Rightarrow> string option \<Rightarrow> ('s, unit) io" where
  "purgeAcknowledgedMessagesQueue E queueName n =
     voidM (rc_del E (keyQueueAcknowledgedMessages (getKeys (p_ns E) queueName n)))"

definition purgeQueue :: "'s platform \<Rightarrow> string \<Rightarrow> string option \<Rightarrow> ('s, unit) io" where
  "purgeQueue E queueName n = voidM (rc_del E (keyQueue (getKeys (p_ns E) queueName n)))"

definition purgePriorityQueue :: "'s platform \<Rightarrow> string \<Rightarrow> string option \<Rightarrow> ('s, unit) io" where
  "purgePriorityQueue E queueName n = voidM (rc_del E (keyQueuePriority (getKeys (p_ns E) queueName n)))"

definition purgeScheduledMessagesQueue :: "'s platform \<Rightarrow> ('s, unit) io" where
  "purgeScheduledMessagesQueue E = voidM (rc_del E (keyQueueScheduled getGlobalKeys))"

definition getProcessingQueues :: "'s platform \<Rightarrow> ('s, rstr list) io" where
  "getProcessingQueues E = rc_smembers E (keyIndexProcessingQueues getGlobalKeys)"

definition queue_text :: "TMessageQueue \<Rightarrow> rstr" where
  "queue_text q = Json (queue_json q)"

definition parse_queue :: "rstr \<Rightarrow> TMessageQueue result" where
  "parse_queue t = (case t of Str s \<Rightarrow> Inl SyntaxError | Json j \<Rightarrow> j_queue j)"

definition getMessageQueues :: "'s platform \<Rightarrow> ('s, TMessageQueue list) io" where
  "getMessageQueues E =
     bindM (rc_smembers E (keyIndexQueue getGlobalKeys)) (\<lambda>reply. liftT (mapR parse_queue reply))"

record IQueueMetrics =
  qm_acknowledged :: int
  qm_pendingWithPriority :: int
  qm_deadLettered :: int
  qm_pending :: int

definition getQueueMetrics :: "'s platform \<Rightarrow> string \<Rightarrow> string option \<Rightarrow> ('s, IQueueMetrics) io" where
  "getQueueMetrics E queueName n =
     (let keys = getKeys (p_ns E) queueName n in
      bindM (rc_llen E (keyQueue keys)) (\<lambda>pending.
      bindM (rc_llen E (keyQueueDL keys)) (\<lambda>deadLettered.
      bindM (rc_llen E (keyQueueAcknowledgedMessages keys)) (\<lambda>acknowledged.
      bindM (rc_zcard E (keyQueuePriority keys)) (\<lambda>pendingWithPriority.
        retM \<lparr>qm_acknowledged = acknowledged, qm_pendingWithPriority = pendingWithPriority,
              qm_deadLettered = deadLettered, qm_pending = pending\<rparr>)))))"

definition setUpProcessingQueue :: "'s platform \<Rightarrow> string \<Rightarrow> string \<Rightarrow> ('s, unit) io" where
  "setUpProcessingQueue E queueName consumerId =
     (let keys = getInstanceKeys (p_ns E) queueName consumerId in
      voidM (execMulti E
        [HSET (keyIndexQueueMessageProcessingQueues keys) (Str (keyQueueProcessing keys)) (Str consumerId),
         SADD (keyIndexProcessingQueues keys) (Str (keyQueueProcessing keys))]))"

definition setUpMessageQueue :: "'s platform \<Rightarrow> string \<Rightarrow> ('s, unit) io" where
  "setUpMessageQueue E queueName =
     voidM (rc_sadd E (keyIndexQueue (getKeys (p_ns E) queueName None))
       (queue_text \<lparr>q_name = queueName, q_ns = p_ns E\<rparr>))"

section \<open>Broker\<close>

text \<open>\<open>wp\<close> is the flag \<open>priorityQueue\<close> of the configuration.\<close>

definition br_scheduleMessage :: "'s platform \<Rightarrow> message \<Rightarrow> ('s, bool \<times> message) io" where
  "br_scheduleMessage E msg = mm_scheduleMessage E msg"

definition br_enqueueMessage :: "'s platform \<Rightarrow> bool \<Rightarrow> message \<Rightarrow> ('s, message) io" where
  "br_enqueueMessage E wp msg = mm_enqueueMessage E msg wp"

definition br_dequeueMessage ::
  "'s platform \<Rightarrow> bool \<Rightarrow> string \<Rightarrow> string \<Rightarrow> (nat \<Rightarrow> 's \<Rightarrow> 's) \<Rightarrow> nat \<Rightarrow> messageManager \<Rightarrow> 's \<Rightarrow>
     ((exn + rstr option) \<times> messageManager) \<times> 's" where
  "br_dequeueMessage E wp queueName consumerId env fuel mm s =
     (let kp = keyQueueProcessing (getInstanceKeys (p_ns E) queueName consumerId) in
      if wp then
        (case mm_dequeueMessageWithPriority E queueName kp env fuel mm s of
           ((r, mm'), s') \<Rightarrow> ((map_sum (\<lambda>e. e) Some r, mm'), s'))
      else mm_dequeueMessage E queueName kp mm s)"

definition br_acknowledgeMessage :: "'s platform \<Rightarrow> string \<Rightarrow> key \<Rightarrow> message \<Rightarrow> ('s, unit) io" where
  "br_acknowledgeMessage E queueName processingQueue msg =
     mm_acknowledgeMessage E msg queueName processingQueue"

definition retry ::
  "'s platform \<Rightarrow> string \<Rightarrow> key \<Rightarrow> message \<Rightarrow> EMessageUnacknowledgedCause \<Rightarrow> ('s, unit) io" where
  "retry E queueName processingQueue message cause =
     (if cause = CAUSE_TTL_EXPIRED \<or> fst (hasExpired (p_now E) message) then
        deadLetterUnacknowledgedMessage E message queueName processingQueue cause TTL_EXPIRED
      else if isPeriodic message then
        deadLetterUnacknowledgedMessage E message queueName processingQueue cause PERIODIC_MESSAGE
      else if \<not> hasRetryThresholdExceeded message then
        (if retryDelay message \<noteq> 0 then
           delayUnacknowledgedMessageBeforeRequeuing E message queueName processingQueue
         else requeueUnacknowledgedMessage E message queueName processingQueue)
      else
        deadLetterUnacknowledgedMessage E message queueName processingQueue cause
          RETRY_THRESHOLD_EXCEEDED)"

definition unacknowledgeMessage ::
  "'s platform \<Rightarrow> string \<Rightarrow> key \<Rightarrow> message \<Rightarrow> EMessageUnacknowledgedCause \<Rightarrow> ('s, unit) io" where
  "unacknowledgeMessage E queueName processingQueue message cause =
     retry E queueName processingQueue message cause"

section \<open>Producer\<close>

text \<open>\<open>produceMessage\<close> of a message object. Before the producer is up the call waits for the event \<open>UP\<close>,
  then proceeds.\<close>

definition proceed :: "'s platform \<Rightarrow> bool \<Rightarrow> message \<Rightarrow> ('s, bool \<times> message) io" where
  "proceed E wp message =
     (if isSchedulable message then br_scheduleMessage E message
      else bindM (br_enqueueMessage E wp message) (\<lambda>message'. retM (True, message')))"

definition produceMessage ::
  "'s platform \<Rightarrow> powerManager \<Rightarrow> bool \<Rightarrow> string \<Rightarrow> message \<Rightarrow> ('s, bool \<times> message) io" where
  "produceMessage E pm wp queueName msg =
     (let message = setQueue (p_ns E) queueName (reset msg) in
      if \<not> isUp pm then
        (if isGoingUp pm then (\<lambda>s. (Inl NoReply, s))
         else cbErr (PanicError ''Producer is not running''))
      else proceed E wp message)"

text \<open>A value that is not a message becomes the body of a new one.\<close>

definition produceValue ::
  "'s platform \<Rightarrow> powerManager \<Rightarrow> bool \<Rightarrow> string \<Rightarrow> json option \<Rightarrow> ('s, bool \<times> message) io" where
  "produceValue E pm wp queueName v = produceMessage E pm wp queueName (setBody v (freshMessage E))"

section \<open>What becomes of an unacknowledged message\<close>

datatype fate = ToDeadLetter | ToDelay | ToRequeue

definition fate_of :: "int \<Rightarrow> EMessageUnacknowledgedCause \<Rightarrow> message \<Rightarrow> fate" where
  "fate_of now cause m =
     (if cause = CAUSE_TTL_EXPIRED \<or> expired m \<or> (ttl m \<noteq> 0 \<and> createdAt m + ttl m \<le> now) then ToDeadLetter
      else if scheduledCron m \<noteq> None \<or> scheduledRepeat m > 0 then ToDeadLetter
      else if retryThreshold m \<noteq> 0 \<and> attempts m + 1 \<ge> retryThreshold m then ToDeadLetter
      else if retryDelay m \<noteq> 0 then ToDelay else ToRequeue)"

definition moved :: "key \<Rightarrow> key \<Rightarrow> rstr list \<Rightarrow> store \<Rightarrow> store" where
  "moved kp k xs st = set_list k xs (set_list kp [] st)"

definition fate_view :: "string \<Rightarrow> string \<Rightarrow> key \<Rightarrow> rstr \<Rightarrow> fate \<Rightarrow> store \<Rightarrow> store" where
  "fate_view n nm kp x f st =
     (case f of
        ToDeadLetter \<Rightarrow> (let k = qkey KEY_QUEUE_DL n nm in moved kp k (lists st k @ [x]) st)
      | ToDelay \<Rightarrow> (let k = gkey KEY_QUEUE_DELAY in moved kp k (x # lists st k) st)
      | ToRequeue \<Rightarrow> (let k = gkey KEY_QUEUE_REQUEUE in moved kp k (x # lists st k) st))"

lemma retry_eq:
  "retry E nm kp m cause =
     (case fate_of (p_now E) cause m of
        ToDeadLetter \<Rightarrow> deadLetterMessage E nm kp
      | ToDelay \<Rightarrow> delayBeforeRequeue E nm kp
      | ToRequeue \<Rightarrow> requeue E nm kp)"
  by (auto simp: retry_def fate_of_def hasExpired_def isPeriodic_def hasRetryThresholdExceeded_def
      deadLetterUnacknowledgedMessage_def delayUnacknowledgedMessageBeforeRequeuing_def
      requeueUnacknowledgedMessage_def Let_def)

context queue_client
begin

lemma processing_keys_ne:
  "ikey KEY_QUEUE_PROCESSING (p_ns E) nm inst \<noteq> qkey t (p_ns E) nm"
  "ikey KEY_QUEUE_PROCESSING (p_ns E) nm inst \<noteq> gkey t"
  using plain_names by simp_all

lemma retry_any:
  assumes "lists (view s) kp = [x]" and "list_only (view s) kp"
    and "kp \<noteq> qkey KEY_QUEUE_DL (p_ns E) nm" and "\<And>t. kp \<noteq> gkey t"
  shows "\<exists>s'. retry E nm kp m cause s = (Inr (), s') \<and>
    view s' = fate_view (p_ns E) nm kp x (fate_of (p_now E) cause m) (view s)"
proof (cases "fate_of (p_now E) cause m")
  case ToDeadLetter
  with processing_lpop [OF assms(1-3)] show ?thesis
    by (simp add: retry_eq deadLetterMessage_def smq_keys fate_view_def moved_def Let_def)
next
  case ToDelay
  with processing_rpop [OF assms(1,4)] show ?thesis
    by (simp add: retry_eq delayBeforeRequeue_def smq_keys fate_view_def moved_def Let_def)
next
  case ToRequeue
  with processing_rpop [OF assms(1,4)] show ?thesis
    by (simp add: retry_eq requeue_def smq_keys fate_view_def moved_def Let_def)
qed

lemma retry_live:
  assumes "kp = ikey KEY_QUEUE_PROCESSING (p_ns E) nm inst"
    and "lists (view s) kp = [x]" and "list_only (view s) kp"
  shows "\<exists>s'. retry E nm kp m cause s = (Inr (), s') \<and>
    view s' = fate_view (p_ns E) nm kp x (fate_of (p_now E) cause m) (view s)"
  using retry_any [OF assms(2,3)] assms(1) processing_keys_ne by simp

end

section \<open>Producing\<close>

lemma next_positive:
  assumes "isSchedulable m" "msg_ok m" "now > 0" "\<not> delayed m" "scheduledRepeatCount m = 0"
    and "\<And>c. scheduledCron m = Some c \<Longrightarrow> c \<noteq> [] \<and> (\<exists>nxt. cron c = Inr nxt \<and> (\<forall>n. nxt n > n))"
  shows "\<exists>ts m'. getNextScheduledTimestamp now cron m = Inr (ts, m') \<and> ts \<ge> now \<and> uuid m' = uuid m"
proof (cases "scheduledCron m")
  case None
  with assms(1,2,4,5) have "deliveries_left m \<noteq> 0"
    by (auto simp: isSchedulable_def deliveries_left_def msg_ok_def opt_ok_def split: option.splits)
  moreover obtain ts m' where "getNextScheduledTimestamp now cron m = Inr (ts, m')"
    "if deliveries_left m = 0 then ts = 0 else ts \<ge> now \<and> deliveries_left m = Suc (deliveries_left m')"
    using next_no_cron [OF None assms(2,3), of cron] by blast
  moreover from this(1) have "uuid m' = uuid m"
    by (auto simp: getNextScheduledTimestamp_def message_updates Let_def bindR_def split: if_splits sum.splits)
  ultimately show ?thesis by auto
next
  case (Some c)
  with assms(6) obtain nxt where c: "c \<noteq> []" "cron c = Inr nxt" "\<forall>n. nxt n > n" by blast
  then have "nxt now > now" by blast
  from next_cron [where nxt = nxt and cron = cron and now = now, OF Some c(1,2) this assms(3,2)] obtain ts m' where
    n: "getNextScheduledTimestamp now cron m = Inr (ts, m')" "ts \<ge> now" by blast
  from n(1) have "uuid m' = uuid m"
    by (auto simp: getNextScheduledTimestamp_def message_updates Let_def bindR_def split: if_splits sum.splits)
  with n show ?thesis by blast
qed

text \<open>The store holds the message in its queue, or in the schedule.\<close>

definition produced_form :: "'s platform \<Rightarrow> string \<Rightarrow> message \<Rightarrow> message" where
  "produced_form E nm m = (reset m)\<lparr>queue := Some \<lparr>q_name = nm, q_ns = p_ns E\<rparr>\<rparr>"

definition in_schedule :: "store \<Rightarrow> string \<Rightarrow> bool" where
  "in_schedule st i \<longleftrightarrow>
     (\<exists>ts m'. sched st (Str i) = (Some ts, Some (toString m')) \<and> uuid m' = i)"

lemma produced_form_sel [simp]:
  "uuid (produced_form E nm m) = uuid m" "isSchedulable (produced_form E nm m) = isSchedulable m"
  "queue (produced_form E nm m) = Some \<lparr>q_name = nm, q_ns = p_ns E\<rparr>"
  "delayed (produced_form E nm m) = False" "scheduledRepeatCount (produced_form E nm m) = 0"
  "scheduledCron (produced_form E nm m) = scheduledCron m"
  by (simp_all add: produced_form_def reset_def isSchedulable_def)

lemma msg_ok_produced [simp]: "msg_ok m \<Longrightarrow> msg_ok (produced_form E nm m)"
  by (simp add: produced_form_def reset_def msg_ok_def)

lemma produceMessage_up:
  "isUp pm \<Longrightarrow> produceMessage E pm wp nm m = proceed E wp (produced_form E nm m)"
  by (simp add: produceMessage_def produced_form_def setQueue_def)

context smq_live
begin

lemma schedule_effect:
  assumes n: "getNextScheduledTimestamp (p_now E) (p_cron E) m = Inr (ts, m1)" and "ts > 0"
    and "uuid m1 = uuid m" and m2: "m2 = m1\<lparr>scheduledAt := Some (p_now E)\<rparr>"
  shows "\<exists>s'. schedule E m s = (Inr (True, m2), s') \<and> sched (view s') (Str (uuid m)) = (Some ts, Some (toString m2)) \<and>
    (\<forall>i. i \<noteq> Str (uuid m) \<longrightarrow> sched (view s') i = sched (view s) i) \<and> lists (view s') = lists (view s) \<and>
    beside_schedule (view s) (view s')"
proof -
  let ?cs = "[ZADD (gkey KEY_QUEUE_SCHEDULED) ts (Str (uuid m)),
      HSET (gkey KEY_SCHEDULED_MESSAGES) (Str (uuid m)) (toString m2)]"
  obtain rs s' where x: "execMulti E ?cs s = (Inr rs, s')" and d: "doc_seq ?cs (view s) rs (view s')"
    using execMulti_live by blast
  have "schedule E m s = (Inr (True, m2), s')"
    using n x assms(2,3)
    by (simp add: m2 schedule_def scheduleMessage_def setScheduledAt_def smq_keys Let_def io_run)
  moreover have "sched (view s') (Str (uuid m)) = (Some ts, Some (toString m2))"
    "\<forall>i. i \<noteq> Str (uuid m) \<longrightarrow> sched (view s') i = sched (view s) i"
    "lists (view s') = lists (view s)" "beside_schedule (view s) (view s')"
    using d by (auto simp: sched_def beside_schedule_def)
  ultimately show ?thesis by blast
qed

lemma schedule_live:
  assumes n: "getNextScheduledTimestamp (p_now E) (p_cron E) m = Inr (ts, m1)" and "ts > 0"
    and "uuid m1 = uuid m"
  shows "\<exists>m2 s'. schedule E m s = (Inr (True, m2), s') \<and> in_schedule (view s') (uuid m) \<and>
    lists (view s') = lists (view s) \<and> sets (view s') = sets (view s)"
proof -
  have "uuid (m1\<lparr>scheduledAt := Some (p_now E)\<rparr>) = uuid m" using assms(3) by simp
  with schedule_effect [OF assms HOL.refl, of s] show ?thesis
    unfolding in_schedule_def beside_schedule_def by blast
qed

end

section \<open>Properties\<close>

text \<open>C13. The decision about an unacknowledged message: an expired one, a periodic one and one that used
  up its retry threshold goes to the dead-letter queue of its queue; any other goes to the delay queue
  if it has a retry delay, else to the requeue queue. In every case it leaves the consumer's processing
  queue and nothing else changes.\<close>

theorem broker_retry_spec:
  assumes "queue_client E view nm inst" and "kp = ikey KEY_QUEUE_PROCESSING (p_ns E) nm inst"
    and "lists (view s) kp = [x]" and "list_only (view s) kp"
  shows "\<exists>s'. unacknowledgeMessage E nm kp m cause s = (Inr (), s') \<and>
    view s' = fate_view (p_ns E) nm kp x (fate_of (p_now E) cause m) (view s)"
  unfolding unacknowledgeMessage_def by (rule queue_client.retry_live [OF assms])

theorem broker_retry_spec_witness:
  "\<exists>s'. unacknowledgeMessage (mem_platform 5) ''orders'' (ikey KEY_QUEUE_PROCESSING ''default'' ''orders'' ''c1'')
       (order_msg ''a'') TIMEOUT
       (demo_mem (ikey KEY_QUEUE_PROCESSING ''default'' ''orders'' ''c1'') [order_msg ''a'']) = (Inr (), s') \<and>
     lists (mem_view s') (gkey KEY_QUEUE_DELAY) = [toString (order_msg ''a'')]"
proof -
  let ?kp = "ikey KEY_QUEUE_PROCESSING ''default'' ''orders'' ''c1''"
  let ?s = "demo_mem ?kp [order_msg ''a'']"
  have c: "queue_client (mem_platform 5) mem_view ''orders'' ''c1''" by (rule memq.queue_client_axioms)
  have f: "fate_of 5 TIMEOUT (order_msg ''a'') = ToDelay"
    by (simp add: fate_of_def order_msg_def demo_msg_def newMessage_def defaultOpts_def)
  have "list_only (mem_view ?s) ?kp" "lists (mem_view ?s) (gkey KEY_QUEUE_DELAY) = []"
    by (simp_all add: list_only_def demo_mem_def mem_view_def mem0_def)
  with broker_retry_spec [OF c, of ?kp ?s "toString (order_msg ''a'')" "order_msg ''a''" TIMEOUT] f
  show ?thesis by (auto simp: fate_view_def moved_def Let_def)
qed

context smq_live
begin

lemma produce_enqueues:
  assumes "isUp pm" and "\<not> isSchedulable m"
  shows "\<exists>m' s'. produceMessage E pm False nm m s = (Inr (True, m'), s') \<and>
    view s' = set_list (qkey KEY_QUEUE (p_ns E) nm)
      (lists (view s) (qkey KEY_QUEUE (p_ns E) nm) @ [toString (published E False (produced_form E nm m))]) (view s)"
  using enqueue_live [of "produced_form E nm m" _ False s] assms
  by (auto simp: produceMessage_up proceed_def br_enqueueMessage_def mm_enqueueMessage_def enqueued_def Let_def io_run)

end



text \<open>Purging a priority queue empties its sorted set but leaves every payload in the hash, and purging
  the schedule does the same: the payloads of purged messages stay in Redis.\<close>

theorem purge_leaves_payloads:
  assumes "smq_live E view" and "plain (ns_or n (p_ns E))" and "plain nm"
  shows "(\<exists>s'. purgePriorityQueue E nm n s = (Inr (), s') \<and>
      zsets (view s') (qkey KEY_QUEUE_PRIORITY (ns_or n (p_ns E)) nm) = [] \<and>
      hashes (view s') (qkey KEY_PENDING_MESSAGES_WITH_PRIORITY (ns_or n (p_ns E)) nm) =
        hashes (view s) (qkey KEY_PENDING_MESSAGES_WITH_PRIORITY (ns_or n (p_ns E)) nm)) \<and>
    (\<exists>s'. purgeScheduledMessagesQueue E s = (Inr (), s') \<and>
      zsets (view s') (gkey KEY_QUEUE_SCHEDULED) = [] \<and>
      hashes (view s') (gkey KEY_SCHEDULED_MESSAGES) = hashes (view s) (gkey KEY_SCHEDULED_MESSAGES))"
proof -
  have del: "\<exists>s'. voidM (rc_del E k) s = (Inr (), s') \<and> zsets (view s') k = [] \<and>
      (\<forall>k'. k' \<noteq> k \<longrightarrow> hashes (view s') k' = hashes (view s) k')" for k
    using smq_live.cmd_doc [OF assms(1), of "DEL k" s] by (auto simp: rc_del_def voidM_run_Inr)
  show ?thesis
    using del [of "qkey KEY_QUEUE_PRIORITY (ns_or n (p_ns E)) nm"] del [of "gkey KEY_QUEUE_SCHEDULED"] assms(2,3)
    by (auto simp: purgePriorityQueue_def purgeScheduledMessagesQueue_def smq_keys)
qed

theorem purge_leaves_payloads_witness:
  "\<exists>s'. purgePriorityQueue (mem_platform 0) ''orders'' None one_pending = (Inr (), s') \<and>
     zsets (mem_view s') (qkey KEY_QUEUE_PRIORITY ''default'' ''orders'') = [] \<and>
     hashes (mem_view s') (qkey KEY_PENDING_MESSAGES_WITH_PRIORITY ''default'' ''orders'') (Str ''a'') \<noteq> None"
  using purge_leaves_payloads [OF mem_platform_live [of 0], of None "''orders''" one_pending]
  by (auto simp: one_pending_def mem_view_def)

text \<open>What the index of queues holds is what \<open>getMessageQueues\<close> lists.\<close>

lemma parse_queue_text: "parse_queue (queue_text q) = Inr q"
  by (simp add: parse_queue_def queue_text_def queue_json_def)

lemma getMessageQueues_live:
  assumes "smq_live E view" and Q: "sets (view s) (gkey KEY_INDEX_QUEUES) = queue_text ` Q"
  shows "\<exists>qs s'. getMessageQueues E s = (Inr qs, s') \<and> distinct qs \<and> set qs = Q \<and> view s' = view s"
proof -
  obtain ts s' where s': "rc_smembers E (gkey KEY_INDEX_QUEUES) s = (Inr ts, s')" and v: "view s' = view s"
    and ts: "distinct ts" "set ts = queue_text ` Q"
    using smq_live.cmd_doc [OF assms(1), of "SMEMBERS (gkey KEY_INDEX_QUEUES)" s] Q
    by (auto simp: rc_smembers_def io_iff)
  have inj: "inj queue_text" by (auto simp: inj_def queue_text_def queue_json_def)
  obtain qs where qs: "ts = map queue_text qs" using ts(2) by (metis ex_map_conv imageE)
  have "mapR parse_queue ts = Inr qs"
    using mapR_Inr_map [of qs "\<lambda>q. parse_queue (queue_text q)" "\<lambda>q. q"] parse_queue_text by (simp add: qs mapR_map)
  moreover have "distinct qs" "set qs = Q"
    using ts inj unfolding qs set_map by (auto simp: distinct_map inj_image_eq_iff)
  ultimately show ?thesis using s' v by (auto simp: getMessageQueues_def smq_keys io_run)
qed

text \<open>A queue that a producer or consumer set up is listed by \<open>getMessageQueues\<close>, once, together with the
  queues registered before.\<close>

theorem queue_registration:
  assumes "smq_live E view" and "sets (view s) (gkey KEY_INDEX_QUEUES) = queue_text ` Q"
  shows "\<exists>s1 s2 qs. setUpMessageQueue E nm s = (Inr (), s1) \<and> getMessageQueues E s1 = (Inr qs, s2) \<and>
    distinct qs \<and> set qs = insert \<lparr>q_name = nm, q_ns = p_ns E\<rparr> Q \<and> view s2 = view s1"
proof -
  let ?k = "gkey KEY_INDEX_QUEUES" and ?q = "\<lparr>q_name = nm, q_ns = p_ns E\<rparr>"
  obtain r s1 where s1: "redisCmd (p_srv E) (SADD ?k (queue_text ?q)) s = (Inr r, s1)"
    and v1: "sets (view s1) ?k = queue_text ` insert ?q Q"
    using smq_live.cmd_doc [OF assms(1), of "SADD ?k (queue_text ?q)" s] assms(2) by auto
  from getMessageQueues_live [OF assms(1) v1] s1 show ?thesis
    by (auto simp: setUpMessageQueue_def rc_sadd_def smq_keys voidM_run_Inr)
qed

theorem queue_registration_witness:
  "\<exists>s1 s2 qs. setUpMessageQueue (mem_platform 0) ''orders'' mem0 = (Inr (), s1) \<and>
     getMessageQueues (mem_platform 0) s1 = (Inr qs, s2) \<and> set qs = {\<lparr>q_name = ''orders'', q_ns = ''default''\<rparr>}"
  using queue_registration [OF mem_platform_live [of 0], of mem0 "{}" "''orders''"] by auto

text \<open>The metrics of a queue are the numbers of its pending, dead-lettered, acknowledged and prioritised
  messages, and asking for them changes nothing.\<close>

theorem queue_metrics_spec:
  assumes "smq_live E view"
  shows "\<exists>s'. getQueueMetrics E nm n s =
     (Inr \<lparr>qm_acknowledged = int (length (lists (view s) (qkey KEY_QUEUE_ACKNOWLEDGED_MESSAGES (ns_or n (p_ns E)) nm))),
           qm_pendingWithPriority = int (length (zsets (view s) (qkey KEY_QUEUE_PRIORITY (ns_or n (p_ns E)) nm))),
           qm_deadLettered = int (length (lists (view s) (qkey KEY_QUEUE_DL (ns_or n (p_ns E)) nm))),
           qm_pending = int (length (lists (view s) (qkey KEY_QUEUE (ns_or n (p_ns E)) nm)))\<rparr>, s') \<and>
     view s' = view s"
proof -
  let ?k = "\<lambda>t. qkey t (ns_or n (p_ns E)) nm"
  note llen = smq_live.llen_live [OF assms]
  obtain s1 where "rc_llen E (?k KEY_QUEUE) s = (Inr (int (length (lists (view s) (?k KEY_QUEUE)))), s1)"
    "view s1 = view s" using llen by blast
  moreover obtain s2 where "rc_llen E (?k KEY_QUEUE_DL) s1 =
      (Inr (int (length (lists (view s1) (?k KEY_QUEUE_DL)))), s2)" "view s2 = view s1" using llen by blast
  moreover obtain s3 where "rc_llen E (?k KEY_QUEUE_ACKNOWLEDGED_MESSAGES) s2 =
      (Inr (int (length (lists (view s2) (?k KEY_QUEUE_ACKNOWLEDGED_MESSAGES)))), s3)" "view s3 = view s2"
    using llen by blast
  moreover obtain s4 where "rc_zcard E (?k KEY_QUEUE_PRIORITY) s3 =
      (Inr (int (length (zsets (view s3) (?k KEY_QUEUE_PRIORITY)))), s4)" "view s4 = view s3"
    using smq_live.zcard_live [OF assms] by blast
  ultimately show ?thesis
    by (simp add: getQueueMetrics_def smq_keys Let_def io_run)
qed

theorem queue_metrics_spec_witness:
  "\<exists>r s'. getQueueMetrics (mem_platform 0) ''orders'' None (demo_mem orders_key [order_msg ''a'']) = (Inr r, s') \<and>
     qm_pending r = 1"
  using queue_metrics_spec [OF mem_platform_live [of 0], of "''orders''" None "demo_mem orders_key [order_msg ''a'']"]
  by (auto simp flip: orders_key_def)

end
