(* ===== verification/Workers.thy ===== *)
theory Workers
  imports Broker
begin

text \<open>
  The heartbeat of consumers (\<^verbatim>\<open>src/system/consumer/heartbeat.ts\<close>) and one tick of each worker process of
  \<^verbatim>\<open>src/system/workers\<close>: requeue, delay, schedule, heartbeat monitor and garbage collector. A tick that
  succeeds ends with \<open>ticker.nextTick()\<close>; an error is thrown and ends the process.
\<close>

section \<open>Heartbeat\<close>

definition validateOnlineTimestamp :: "int \<Rightarrow> int \<Rightarrow> bool" where
  "validateOnlineTimestamp now timestamp \<longleftrightarrow> now - timestamp \<le> 10000"

definition fetchHeartbeats :: "'s platform \<Rightarrow> ('s, (rstr \<times> rstr) list) io" where
  "fetchHeartbeats E = rc_hgetall E (keyIndexHeartbeats getGlobalKeys)"

definition getConsumerHeartbeat :: "'s platform \<Rightarrow> string \<Rightarrow> string \<Rightarrow> ('s, rstr option) io" where
  "getConsumerHeartbeat E consumerId queueName =
     (let keys = getInstanceKeys (p_ns E) queueName consumerId in
      rc_hget E (keyIndexHeartbeats keys) (Str (keyHeartbeat keys)))"

text \<open>The payload; \<open>usage\<close> is what the operating system reports.\<close>

definition heartbeat_payload :: "int \<Rightarrow> json \<Rightarrow> rstr" where
  "heartbeat_payload timestamp usage = Json (JObj [(''timestamp'', JNum timestamp), (''usage'', usage)])"

definition heartbeat_onTick :: "'s platform \<Rightarrow> string \<Rightarrow> string \<Rightarrow> json \<Rightarrow> ('s, unit) io" where
  "heartbeat_onTick E queueName consumerId usage =
     (let keys = getInstanceKeys (p_ns E) queueName consumerId in
      voidM (rc_hset E (keyIndexHeartbeats keys) (Str (keyHeartbeat keys))
        (heartbeat_payload (p_now E) usage)))"

text \<open>\<open>const { nm } = JSON.parse(value)\<close>: destructuring \<open>null\<close> throws, a value without that property gives
  \<open>undefined\<close>.\<close>

fun json_prop :: "string \<Rightarrow> rstr \<Rightarrow> json option result" where
  "json_prop nm (Str s) = Inl SyntaxError"
| "json_prop nm (Json JNull) = Inl TypeError"
| "json_prop nm (Json (JObj fs)) = Inr (map_of fs nm)"
| "json_prop nm (Json j) = Inr None"

text \<open>\<open>now - timestamp <= 10000\<close> on what the text held: \<open>undefined\<close> is NaN and compares as false. A heartbeat's
  timestamp is always written as a number; numerals in strings are not coerced here.\<close>

definition heartbeat_online :: "int \<Rightarrow> rstr \<Rightarrow> bool result" where
  "heartbeat_online now v =
     bindR (json_prop ''timestamp'' v) (\<lambda>ts.
       Inr (case ts of
              Some (JNum t) \<Rightarrow> validateOnlineTimestamp now t
            | Some JNull \<Rightarrow> validateOnlineTimestamp now 0
            | Some (JBool b) \<Rightarrow> validateOnlineTimestamp now (if b then 1 else 0)
            | _ \<Rightarrow> False))"

definition getHeartbeatsByStatus :: "'s platform \<Rightarrow> ('s, rstr list \<times> rstr list) io" where
  "getHeartbeatsByStatus E =
     bindM (fetchHeartbeats E) (\<lambda>data.
     bindM (liftT (mapR (\<lambda>(k, v). bindR (heartbeat_online (p_now E) v) (\<lambda>r. Inr (k, r))) data)) (\<lambda>rs.
       retM (map fst (filter snd rs), map fst (filter (\<lambda>p. \<not> snd p) rs))))"

definition isAlive :: "'s platform \<Rightarrow> string \<Rightarrow> string \<Rightarrow> ('s, bool) io" where
  "isAlive E queueName consumerId =
     bindM (getConsumerHeartbeat E consumerId queueName) (\<lambda>res.
       case res of
         None \<Rightarrow> retM False
       | Some v \<Rightarrow> liftT (heartbeat_online (p_now E) v))"

definition handleExpiredHeartbeats :: "'s platform \<Rightarrow> rstr list \<Rightarrow> ('s, unit) io" where
  "handleExpiredHeartbeats E heartbeats =
     (if heartbeats \<noteq> [] then voidM (rc_hdel E (keyIndexHeartbeats getGlobalKeys) heartbeats)
      else retM ())"

definition expireHeartbeat :: "'s platform \<Rightarrow> string \<Rightarrow> string \<Rightarrow> ('s, unit) io" where
  "expireHeartbeat E queueName consumerId =
     handleExpiredHeartbeats E [Str (keyHeartbeat (getInstanceKeys (p_ns E) queueName consumerId))]"

record heartbeat_info =
  hi_ns :: "string option"
  hi_queueName :: "string option"
  hi_consumerId :: string
  hi_resources :: "json option"

text \<open>\<open>getHeartbeats\<close>: a key that is not a consumer's is an error; a later entry of the same consumer replaces
  the earlier one. A text that cannot be parsed throws.\<close>

definition heartbeat_entry :: "rstr \<times> rstr \<Rightarrow> exn + heartbeat_info" where
  "heartbeat_entry kv =
     (case json_prop ''usage'' (snd kv) of
        Inl e \<Rightarrow> Inl (Throw e)
      | Inr resources \<Rightarrow>
          (case (case fst kv of Str k \<Rightarrow> extractData k | Json j \<Rightarrow> None) of
             None \<Rightarrow> Inl (Cb (PanicError ''Invalid extracted consumer data''))
           | Some d \<Rightarrow>
               (case kd_consumerId d of
                  None \<Rightarrow> Inl (Cb (PanicError ''Invalid extracted consumer data''))
                | Some c \<Rightarrow>
                    if c = [] then Inl (Cb (PanicError ''Invalid extracted consumer data''))
                    else Inr \<lparr>hi_ns = kd_ns d, hi_queueName = kd_queueName d, hi_consumerId = c,
                      hi_resources = resources\<rparr>)))"

fun collectHeartbeats :: "(string \<times> heartbeat_info) list \<Rightarrow> (rstr \<times> rstr) list
    \<Rightarrow> exn + (string \<times> heartbeat_info) list" where
  "collectHeartbeats acc [] = Inr acc"
| "collectHeartbeats acc (kv # kvs) =
     (case heartbeat_entry kv of
        Inl e \<Rightarrow> Inl e
      | Inr h \<Rightarrow> collectHeartbeats (AList.update (hi_consumerId h) h acc) kvs)"

definition getHeartbeats :: "'s platform \<Rightarrow> ('s, (string \<times> heartbeat_info) list) io" where
  "getHeartbeats E =
     bindM (fetchHeartbeats E) (\<lambda>data s. (collectHeartbeats [] data, s))"

section \<open>Ticks of the workers\<close>

text \<open>\<open>if (err) throw err\<close>.\<close>

definition orThrow :: "('s, 'a) io \<Rightarrow> ('s, 'a) io" where
  "orThrow m s = (case m s of (Inl (Cb e), s') \<Rightarrow> (Inl (Throw e), s') | r \<Rightarrow> r)"

definition delayWorker_onTick :: "'s platform \<Rightarrow> ('s, unit) io" where
  "delayWorker_onTick E = orThrow (scheduleDelayedMessages E)"

definition scheduleWorker_onTick :: "'s platform \<Rightarrow> bool \<Rightarrow> ('s, unit) io" where
  "scheduleWorker_onTick E withPriority = orThrow (mm_enqueueScheduledMessages E withPriority)"

definition heartbeatMonitor_onTick :: "'s platform \<Rightarrow> ('s, unit) io" where
  "heartbeatMonitor_onTick E =
     orThrow (bindM (getHeartbeatsByStatus E) (\<lambda>(valid, expired). handleExpiredHeartbeats E expired))"

definition requeueTask :: "'s platform \<Rightarrow> bool \<Rightarrow> rstr \<Rightarrow> cmd list result" where
  "requeueTask E withPriority i =
     bindR (createFromMessage (freshMessage E) (Some i) False) (\<lambda>message.
       case queue message of
         None \<Rightarrow> Inl (PanicError ''Got a message without a queue'')
       | Some q \<Rightarrow>
           let keys = getKeys (p_ns E) (q_name q) (Some (q_ns q));
               message1 = incrAttempts message in
           if withPriority then
             bindR (getSetPriority None message1) (\<lambda>(prio, message2).
               Inr [LREM (keyQueueRequeue getGlobalKeys) 1 i,
                    ZADD (keyQueuePriority keys) prio (toString message2)])
           else
             Inr [LREM (keyQueueRequeue getGlobalKeys) 1 i,
                  LPUSH (keyQueue keys) (toString message1)])"

definition requeueWorker_onTick :: "'s platform \<Rightarrow> bool \<Rightarrow> ('s, unit) io" where
  "requeueWorker_onTick E withPriority =
     orThrow (bindM (rc_lrange E (keyQueueRequeue getGlobalKeys) 0 99) (\<lambda>messages.
       if messages \<noteq> [] then
         bindM (liftT (mapR (requeueTask E withPriority) messages)) (\<lambda>cmds.
           voidM (execMulti E (concat cmds)))
       else retM ()))"

section \<open>Garbage collector\<close>

definition destroyProcessingQueue :: "'s platform \<Rightarrow> string \<Rightarrow> key \<Rightarrow> ('s, unit) io" where
  "destroyProcessingQueue E queueName processingQueueName =
     deleteProcessingQueue E queueName processingQueueName"

definition handleOfflineConsumer :: "'s platform \<Rightarrow> string \<Rightarrow> string \<Rightarrow> key \<Rightarrow> ('s, unit) io" where
  "handleOfflineConsumer E consumerId queueName processingQueue =
     bindM (rc_lrange E processingQueue 0 0) (\<lambda>range.
       case range of
         t # _ \<Rightarrow>
           bindM (liftT (createFromMessage (freshMessage E) (Some t) False)) (\<lambda>msg.
           bindM (retry E queueName processingQueue msg RECOVERY) (\<lambda>_.
             destroyProcessingQueue E queueName processingQueue))
       | [] \<Rightarrow> destroyProcessingQueue E queueName processingQueue)"

definition handleProcessingQueue :: "'s platform \<Rightarrow> string \<Rightarrow> rstr \<Rightarrow> ('s, unit) io" where
  "handleProcessingQueue E self processingQueue =
     (case processingQueue of
        Json j \<Rightarrow> cbErr (PanicError ''Expected a consumer ID'')
      | Str k \<Rightarrow>
          (case extractData k of
             None \<Rightarrow> cbErr (PanicError ''Expected a consumer ID'')
           | Some d \<Rightarrow>
               (case kd_consumerId d of
                  None \<Rightarrow> cbErr (PanicError ''Expected a consumer ID'')
                | Some consumerId \<Rightarrow>
                    if consumerId = [] then cbErr (PanicError ''Expected a consumer ID'')
                    else if self \<noteq> consumerId then
                      bindM (isAlive E (the (kd_queueName d)) consumerId) (\<lambda>online.
                        if online then retM ()
                        else handleOfflineConsumer E consumerId (the (kd_queueName d)) k)
                    else retM ())))"

text \<open>The queues are looked at one after the other here: each task touches its own processing queue and the
  heads of the delay and requeue queues.\<close>

definition handleProcessingQueues :: "'s platform \<Rightarrow> string \<Rightarrow> rstr list \<Rightarrow> ('s, unit) io" where
  "handleProcessingQueues E self processingQueues = eachM (handleProcessingQueue E self) processingQueues"

definition gc_onTick :: "'s platform \<Rightarrow> string \<Rightarrow> ('s, unit) io" where
  "gc_onTick E self =
     orThrow (bindM (getProcessingQueues E) (\<lambda>result.
       if result \<noteq> [] then handleProcessingQueues E self result else retM ()))"

section \<open>Requeue batch\<close>

definition retried :: "message \<Rightarrow> message" where
  "retried m = m\<lparr>attempts := attempts m + 1\<rparr>"

definition requeueCmds :: "message \<Rightarrow> cmd list" where
  "requeueCmds m = [LREM (gkey KEY_QUEUE_REQUEUE) 1 (toString m), LPUSH (pendingKey m) (toString (retried m))]"

lemma requeueTask_eq:
  "body m \<noteq> None \<Longrightarrow> queue m \<noteq> None \<Longrightarrow> requeueTask E False (toString m) = Inr (requeueCmds m)"
  by (auto simp: requeueTask_def requeueCmds_def retried_def pendingKey_def message_updates smq_keys Let_def)

lemma requeueCmds_doc:
  assumes "doc_seq (concat (map requeueCmds ms)) st rs st'"
    and "lists st (gkey KEY_QUEUE_REQUEUE) = map toString ms @ rest"
    and "list_all (\<lambda>m. pendingKey m \<noteq> gkey KEY_QUEUE_REQUEUE) ms"
  shows "st' = st\<lparr>lists := (\<lambda>k. if k = gkey KEY_QUEUE_REQUEUE then rest
    else rev (map (\<lambda>m. toString (retried m)) (filter (\<lambda>m. pendingKey m = k) ms)) @ lists st k)\<rparr>"
  using assms
proof (induction ms arbitrary: st rs)
  case Nil
  then show ?case by (cases st) (auto simp: fun_eq_iff)
next
  case (Cons m ms)
  from Cons.prems(1) obtain rs1 rs2 st1 where
    d1: "doc_seq (requeueCmds m) st rs1 st1" and d2: "doc_seq (concat (map requeueCmds ms)) st1 rs2 st'"
    using doc_seq_append [of "requeueCmds m"] by force
  have ne: "pendingKey m \<noteq> gkey KEY_QUEUE_REQUEUE" using Cons.prems(3) by simp
  have st1: "st1 = set_list (pendingKey m) (toString (retried m) # lists st (pendingKey m))
      (set_list (gkey KEY_QUEUE_REQUEUE) (map toString ms @ rest) st)"
    using d1 ne Cons.prems(2) by (auto simp: requeueCmds_def)
  have "lists st1 (gkey KEY_QUEUE_REQUEUE) = map toString ms @ rest" using st1 ne by simp
  from Cons.IH [OF d2 this] Cons.prems(3) st1 ne show ?case by (auto simp: fun_eq_iff)
qed

lemma orThrow_Inr [io_iff]: "orThrow m s = (Inr a, s') \<longleftrightarrow> m s = (Inr a, s')"
  by (auto simp: orThrow_def split: prod.splits sum.splits exn.splits)

lemma orThrow_run [io_run]: "m s = (Inr a, s') \<Longrightarrow> orThrow m s = (Inr a, s')"
  by (simp add: orThrow_def)

lemma smq_live_now: "smq_live E view \<Longrightarrow> smq_live (E\<lparr>p_now := t\<rparr>) view"
  by (simp add: smq_live_def smq_platform_def smq_live_axioms_def)

lemma heartbeat_online_payload [simp]:
  "heartbeat_online now (heartbeat_payload t usage) = Inr (now - t \<le> 10000)"
  by (simp add: heartbeat_online_def heartbeat_payload_def validateOnlineTimestamp_def)

context smq_live
begin

lemma requeueWorker_live:
  assumes ms: "msgs_at (view s) (gkey KEY_QUEUE_REQUEUE) ms" and q: "list_all (\<lambda>m. queue m \<noteq> None) ms"
  shows "\<exists>s' rs. requeueWorker_onTick E False s = (Inr (), s') \<and>
    doc_seq (concat (map requeueCmds (take 100 ms))) (view s) rs (view s')"
proof -
  obtain s1 where r: "rc_lrange E (gkey KEY_QUEUE_REQUEUE) 0 99 s = (Inr (map toString (take 100 ms)), s1)"
    and v1: "view s1 = view s"
    using lrange_live [of "gkey KEY_QUEUE_REQUEUE" 0 99 s] msgs_at_lists [OF ms]
    unfolding slice_100 take_map [symmetric] by metis
  have "mapR (requeueTask E False) (map toString (take 100 ms)) = Inr (map requeueCmds (take 100 ms))"
    unfolding mapR_map
    by (rule mapR_Inr_map, rule requeueTask_eq)
      (use ms q in \<open>auto simp: msgs_at_def list_all_iff dest: in_set_takeD\<close>)
  moreover obtain rs s' where "execMulti E (concat (map requeueCmds (take 100 ms))) s1 = (Inr rs, s')"
    "doc_seq (concat (map requeueCmds (take 100 ms))) (view s1) rs (view s')"
    using execMulti_live by blast
  ultimately show ?thesis
    using r v1 by (auto simp: requeueWorker_onTick_def orThrow_def smq_keys io_run)
qed

lemma requeueWorker_moves:
  assumes "msgs_at (view s) (gkey KEY_QUEUE_REQUEUE) ms"
    and "list_all (\<lambda>m. \<exists>q. queue m = Some q \<and> plain (q_ns q) \<and> plain (q_name q)) ms"
  shows "\<exists>s'. requeueWorker_onTick E False s = (Inr (), s') \<and>
    view s' = (view s)\<lparr>lists := (\<lambda>k. if k = gkey KEY_QUEUE_REQUEUE then map toString (drop 100 ms)
      else rev (map (\<lambda>m. toString (retried m)) (filter (\<lambda>m. pendingKey m = k) (take 100 ms))) @ lists (view s) k)\<rparr>"
proof -
  have q: "list_all (\<lambda>m. queue m \<noteq> None) ms" using assms(2) by (auto simp: list_all_iff)
  have ne: "list_all (\<lambda>m. pendingKey m \<noteq> gkey KEY_QUEUE_REQUEUE) (take 100 ms)"
    using assms(2) by (fastforce simp: list_all_iff pendingKey_def dest!: in_set_takeD)
  obtain s' rs where "requeueWorker_onTick E False s = (Inr (), s')"
    "doc_seq (concat (map requeueCmds (take 100 ms))) (view s) rs (view s')"
    using requeueWorker_live [OF assms(1) q] by blast
  moreover have "lists (view s) (gkey KEY_QUEUE_REQUEUE) = map toString (take 100 ms) @ map toString (drop 100 ms)"
    using msgs_at_lists [OF assms(1)] by (simp flip: map_append)
  ultimately show ?thesis
    using requeueCmds_doc [OF _ _ ne] by blast
qed

lemma hget_live: "\<exists>s'. rc_hget E k f s = (Inr (hashes (view s) k f), s') \<and> view s' = view s"
  using rc_live [of "HGET k f" reply_str s] rc_hget_ok [of k f s] unfolding rc_hget_def by blast

lemma isAlive_live:
  "\<exists>s'. isAlive E q c s = (case hashes (view s) (gkey KEY_INDEX_HEARTBEATS) (Str (ikey KEY_HEARTBEAT (p_ns E) q c)) of
      None \<Rightarrow> Inr False
    | Some v \<Rightarrow> (case heartbeat_online (p_now E) v of Inl e \<Rightarrow> Inl (Throw e) | Inr b \<Rightarrow> Inr b), s') \<and>
    view s' = view s"
  using hget_live [of "gkey KEY_INDEX_HEARTBEATS" "Str (ikey KEY_HEARTBEAT (p_ns E) q c)" s]
  by (auto simp: isAlive_def getConsumerHeartbeat_def smq_keys Let_def bindM_def retM_def liftT_def throwM_def
      split: option.splits sum.splits)

lemma rawExec_live: "\<exists>rs s'. rawExec E cs s = (Inr (), s') \<and> doc_seq cs (view s) rs (view s')"
proof -
  from exec_answers [of s cs] obtain rs s' where m: "p_mul E s cs = (Inr (Some rs), s')"
    by (cases "p_mul E s cs") auto
  from exec_runs [OF this] have r: "run_seq (p_srv E) s cs = (rs, s')" .
  with run_seq_live [of s cs] have ok: "list_all (\<lambda>r. \<not> is_err r) rs" by simp
  from run_seq_doc [OF r ok] m show ?thesis
    by (auto simp: rawExec_def)
qed

end

section \<open>Collecting the queue of an offline consumer\<close>

text \<open>The processing queue is no longer registered, globally and for its queue.\<close>

definition unregistered :: "string \<Rightarrow> string \<Rightarrow> key \<Rightarrow> store \<Rightarrow> store" where
  "unregistered n nm kp st =
     (let ik = gkey KEY_INDEX_PROCESSING_QUEUES; hk = qkey KEY_INDEX_QUEUE_MESSAGE_PROCESSING_QUEUES n nm in
      st\<lparr>sets := (sets st)(ik := sets st ik - {Str kp}),
         hashes := (hashes st)(hk := (hashes st hk)(Str kp := None))\<rparr>)"

definition offline :: "store \<Rightarrow> int \<Rightarrow> string \<Rightarrow> string \<Rightarrow> string \<Rightarrow> bool" where
  "offline st now n nm inst \<longleftrightarrow>
     (case hashes st (gkey KEY_INDEX_HEARTBEATS) (Str (ikey KEY_HEARTBEAT n nm inst)) of
        None \<Rightarrow> True
      | Some v \<Rightarrow> heartbeat_online now v = Inr False)"

lemma fate_view_frame:
  "kp \<noteq> qkey KEY_QUEUE_DL n nm \<Longrightarrow> (\<And>t. kp \<noteq> gkey t) \<Longrightarrow> lists (fate_view n nm kp x f st) kp = []"
  "hashes (fate_view n nm kp x f st) = hashes st" "zsets (fate_view n nm kp x f st) = zsets st"
  "sets (fate_view n nm kp x f st) = sets st"
  by (cases f; simp add: fate_view_def moved_def Let_def)+

context queue_client
begin

lemma deleteProcessingQueue_live:
  assumes "list_only (view s) kp" "lists (view s) kp = []"
    and "kp \<noteq> gkey KEY_INDEX_PROCESSING_QUEUES"
    and "kp \<noteq> qkey KEY_INDEX_QUEUE_MESSAGE_PROCESSING_QUEUES (p_ns E) nm"
  shows "\<exists>s'. deleteProcessingQueue E nm kp s = (Inr (), s') \<and> view s' = unregistered (p_ns E) nm kp (view s)"
proof -
  let ?ik = "gkey KEY_INDEX_PROCESSING_QUEUES"
  let ?hk = "qkey KEY_INDEX_QUEUE_MESSAGE_PROCESSING_QUEUES (p_ns E) nm"
  obtain rs s' where x: "rawExec E [SREM ?ik (Str kp), HDEL ?hk [Str kp], DEL kp] s = (Inr (), s')"
    and d: "doc_seq [SREM ?ik (Str kp), HDEL ?hk [Str kp], DEL kp] (view s) rs (view s')"
    using rawExec_live by blast
  let ?st = "view s"
  from d have v: "view s' = \<lparr>lists = (lists ?st)(kp := []),
      hashes = ((hashes ?st)(?hk := (hashes ?st ?hk)(Str kp := None)))(kp := Map.empty),
      zsets = (zsets ?st)(kp := []),
      sets = ((sets ?st)(?ik := sets ?st ?ik - {Str kp}))(kp := {})\<rparr>"
    by (simp add: if_None_upd)
  have "(lists ?st)(kp := []) = lists ?st" "(zsets ?st)(kp := []) = zsets ?st"
    "((hashes ?st)(?hk := (hashes ?st ?hk)(Str kp := None)))(kp := Map.empty) =
      (hashes ?st)(?hk := (hashes ?st ?hk)(Str kp := None))"
    "((sets ?st)(?ik := sets ?st ?ik - {Str kp}))(kp := {}) = (sets ?st)(?ik := sets ?st ?ik - {Str kp})"
    using assms by (simp_all add: list_only_def fun_upd_idem)
  with v have "view s' = unregistered (p_ns E) nm kp ?st"
    by (simp add: unregistered_def Let_def)
  with x show ?thesis by (auto simp: deleteProcessingQueue_def smq_keys Let_def)
qed

lemma handleOfflineConsumer_live:
  assumes l: "lists (view s) kp = [toString m]" and b: "body m \<noteq> None" and only: "list_only (view s) kp"
    and ne: "\<And>t. kp \<noteq> qkey t (p_ns E) nm" "\<And>t. kp \<noteq> gkey t"
  shows "\<exists>s'. handleOfflineConsumer E c nm kp s = (Inr (), s') \<and>
    view s' = unregistered (p_ns E) nm kp
      (fate_view (p_ns E) nm kp (toString m) (fate_of (p_now E) RECOVERY m) (view s))"
proof -
  obtain s1 where r1: "rc_lrange E kp 0 0 s = (Inr [toString m], s1)" and v1: "view s1 = view s"
    using lrange_live [of kp 0 0 s] l by (auto simp: slice_0_0)
  have "lists (view s1) kp = [toString m]" "list_only (view s1) kp" using v1 l only by auto
  from retry_any [OF this ne(1) ne(2)] v1 obtain s2 where
    r2: "retry E nm kp m RECOVERY s1 = (Inr (), s2)" and
    v2: "view s2 = fate_view (p_ns E) nm kp (toString m) (fate_of (p_now E) RECOVERY m) (view s)"
    by metis
  have "list_only (view s2) kp" "lists (view s2) kp = []"
    using only v2 fate_view_frame ne by (simp_all add: list_only_def)
  from deleteProcessingQueue_live [OF this ne(2) ne(1)] obtain s3 where
    "deleteProcessingQueue E nm kp s2 = (Inr (), s3)" "view s3 = unregistered (p_ns E) nm kp (view s2)"
    by blast
  with r1 r2 v2 b show ?thesis
    by (auto simp: handleOfflineConsumer_def destroyProcessingQueue_def io_run)
qed

lemma gc_offline:
  assumes "plain n2" and kp: "kp = ikey KEY_QUEUE_PROCESSING n2 nm inst" and "self \<noteq> inst" "inst \<noteq> []"
    and off: "offline (view s) (p_now E) (p_ns E) nm inst"
    and "lists (view s) kp = [toString m]" "body m \<noteq> None" "list_only (view s) kp"
  shows "\<exists>s'. handleProcessingQueue E self (Str kp) s = (Inr (), s') \<and>
    view s' = unregistered (p_ns E) nm kp
      (fate_view (p_ns E) nm kp (toString m) (fate_of (p_now E) RECOVERY m) (view s))"
proof -
  have ne: "kp \<noteq> qkey t (p_ns E) nm" "kp \<noteq> gkey t" for t
    using kp assms(1) plain_names by simp_all
  obtain s1 where a: "isAlive E nm inst s = (Inr False, s1)" and v1: "view s1 = view s"
    using isAlive_live [of nm inst s] off by (auto simp: offline_def split: option.splits)
  have "lists (view s1) kp = [toString m]" "list_only (view s1) kp" using assms v1 by auto
  from handleOfflineConsumer_live [OF this(1) assms(7) this(2) ne, of inst] v1 obtain s' where
    h: "handleOfflineConsumer E inst nm kp s1 = (Inr (), s')"
    "view s' = unregistered (p_ns E) nm kp
      (fate_view (p_ns E) nm kp (toString m) (fate_of (p_now E) RECOVERY m) (view s))" by auto
  have "extractData kp = Some \<lparr>kd_ns = Some n2, kd_type = key_code KEY_QUEUE_PROCESSING,
      kd_queueName = Some nm, kd_consumerId = Some inst, kd_producerId = None\<rparr>"
    unfolding kp by (rule extractData_consumer) (use assms(1) plain_names in auto)
  with a h assms(3,4) show ?thesis
    by (simp add: handleProcessingQueue_def io_run)
qed

lemma gc_online:
  assumes kp: "kp = ikey KEY_QUEUE_PROCESSING (p_ns E) nm inst" and "inst \<noteq> []"
    and on: "self = inst \<or> (\<exists>v. hashes (view s) (gkey KEY_INDEX_HEARTBEATS) (Str (ikey KEY_HEARTBEAT (p_ns E) nm inst)) = Some v
      \<and> heartbeat_online (p_now E) v = Inr True)"
  shows "\<exists>s'. handleProcessingQueue E self (Str kp) s = (Inr (), s') \<and> view s' = view s"
proof -
  have x: "extractData kp = Some \<lparr>kd_ns = Some (p_ns E), kd_type = key_code KEY_QUEUE_PROCESSING,
      kd_queueName = Some nm, kd_consumerId = Some inst, kd_producerId = None\<rparr>"
    unfolding kp by (rule extractData_consumer) (use plain_names in auto)
  show ?thesis
  proof (cases "self = inst")
    case True
    with x assms(2) show ?thesis by (simp add: handleProcessingQueue_def io_run)
  next
    case False
    with on isAlive_live [of nm inst s] obtain s1 where "isAlive E nm inst s = (Inr True, s1)" "view s1 = view s"
      by auto
    with x assms(2) False show ?thesis by (simp add: handleProcessingQueue_def io_run)
  qed
qed

end

section \<open>Properties\<close>

text \<open>One tick of the requeue worker of a queue without priorities: the first hundred messages leave
  the requeue queue, each with its attempts counted is put at the bottom of the pending list of its own
  queue (so it is delivered after everything pending), and nothing else changes.\<close>

theorem requeue_worker_moves:
  assumes "smq_live E view" and "msgs_at (view s) (gkey KEY_QUEUE_REQUEUE) ms"
    and "list_all (\<lambda>m. \<exists>q. queue m = Some q \<and> plain (q_ns q) \<and> plain (q_name q)) ms"
  shows "\<exists>s'. requeueWorker_onTick E False s = (Inr (), s') \<and>
    view s' = (view s)\<lparr>lists := (\<lambda>k. if k = gkey KEY_QUEUE_REQUEUE then map toString (drop 100 ms)
      else rev (map (\<lambda>m. toString (retried m)) (filter (\<lambda>m. pendingKey m = k) (take 100 ms))) @ lists (view s) k)\<rparr>"
  using assms by (rule smq_live.requeueWorker_moves)

theorem requeue_worker_moves_witness:
  "\<exists>s'. requeueWorker_onTick (mem_platform 0) False (demo_mem (gkey KEY_QUEUE_REQUEUE) [order_msg ''a'']) = (Inr (), s') \<and>
     lists (mem_view s') (qkey KEY_QUEUE ''default'' ''orders'') = [toString (retried (order_msg ''a''))]"
  using requeue_worker_moves [OF mem_platform_live [of 0] demo_mem_at [of "[order_msg ''a'']"]]
  by (auto simp: pendingKey_def demo_mem_def mem_view_def mem0_def)

text \<open>C18. In priority mode the requeue worker loses the message: it adds the whole text of the message, not
  its identifier, to the sorted set and writes no payload, so the next delivery from that queue takes the
  entry away, finds no payload and fails; afterwards the message is in no list and in no sorted set of
  the queue.\<close>

theorem requeue_worker_priority_loses:
  assumes "queue_client E view nm inst" and "msgs_at (view s) (gkey KEY_QUEUE_REQUEUE) [m]"
    and "queue m = Some \<lparr>q_name = nm, q_ns = p_ns E\<rparr>"
    and "zsets (view s) (qkey KEY_QUEUE_PRIORITY (p_ns E) nm) = []"
    and "hashes (view s) (qkey KEY_PENDING_MESSAGES_WITH_PRIORITY (p_ns E) nm) = Map.empty"
  shows "\<exists>s1 e s2. requeueWorker_onTick E True s = (Inr (), s1) \<and>
    dequeueWithPriority E (consumerHandler E nm inst) env 0 (Suc fuel) s1 = (Inl (Cb e), s2) \<and>
    view s2 = set_list (gkey KEY_QUEUE_REQUEUE) [] (view s)"
proof -
  have live: "smq_live E view" using queue_client.axioms(1) [OF assms(1)] .
  let ?zk = "qkey KEY_QUEUE_PRIORITY (p_ns E) nm" and ?rk = "gkey KEY_QUEUE_REQUEUE"
  let ?m2 = "(retried m)\<lparr>priority := Some (prio_of m)\<rparr>"
  let ?cs = "[LREM ?rk 1 (toString m), ZADD ?zk (prio_of m) (toString ?m2)]"
  have b: "body m \<noteq> None" and l: "lists (view s) ?rk = [toString m]"
    using assms(2) by (auto simp: msgs_at_def)
  have t: "requeueTask E True (toString m) = Inr ?cs"
    using b assms(3)
    by (auto simp: requeueTask_def smq_keys message_updates retried_def getSetPriority_prio_of prio_of_def Let_def)
  obtain s0 where r: "rc_lrange E ?rk 0 99 s = (Inr [toString m], s0)" and v0: "view s0 = view s"
    using smq_live.lrange_live [OF live, of ?rk 0 99 s] l unfolding slice_100 by auto
  obtain rs s1 where x: "execMulti E ?cs s0 = (Inr rs, s1)" and d: "doc_seq ?cs (view s0) rs (view s1)"
    using smq_live.execMulti_live [OF live] by blast
  have tick: "requeueWorker_onTick E True s = (Inr (), s1)"
    using r t x by (auto simp: requeueWorker_onTick_def orThrow_def smq_keys io_run)
  from d obtain z where z: "zset_ok z" "map_of z = (map_of (zsets (view s) ?zk))(toString ?m2 \<mapsto> prio_of m)"
    and v1: "view s1 = set_zset ?zk z (set_list ?rk [] (view s))"
    using v0 l by auto
  have "mset z = {#(toString ?m2, prio_of m)#}"
    using zset_insert_mset [OF z(1) _ z(2)] assms(4) by (simp add: zset_ok_def)
  then have z': "zsets (view s1) ?zk = (toString ?m2, prio_of m) # []"
    using v1 by simp
  have "hashes (view s1) (qkey KEY_PENDING_MESSAGES_WITH_PRIORITY (p_ns E) nm) (toString ?m2) = None"
    using v1 assms(5) by simp
  from smq_live.zpophgetrpush_missing [OF live z' this] obtain e s2 where
    "rc_zpophgetrpush E ?zk (qkey KEY_PENDING_MESSAGES_WITH_PRIORITY (p_ns E) nm)
       (ikey KEY_QUEUE_PROCESSING (p_ns E) nm inst) s1 = (Inl (Cb e), s2)"
    "view s2 = set_zset ?zk [] (view s1)" by blast
  moreover have "set_zset ?zk [] (view s1) = set_list ?rk [] (view s)"
    using v1 assms(4) by (simp add: fun_upd_idem)
  ultimately show ?thesis
    using tick by (auto simp: smq_keys)
qed

theorem requeue_worker_priority_loses_witness:
  "\<exists>s1 e s2. requeueWorker_onTick (mem_platform 0) True (demo_mem (gkey KEY_QUEUE_REQUEUE) [order_msg ''a'']) = (Inr (), s1) \<and>
     dequeueWithPriority (mem_platform 0) orders_handler (\<lambda>_ x. x) 0 (Suc 0) s1 = (Inl (Cb e), s2)"
  using requeue_worker_priority_loses [OF orders_client demo_mem_at [of "[order_msg ''a'']"], of "\<lambda>_ x. x" 0]
  by (force simp: demo_mem_def mem_view_def mem0_def)

text \<open>Recovery: when a consumer of the collector's namespace has no heartbeat of the last ten seconds,
  the collector treats the message in its processing queue like an unacknowledged one (it reaches the
  dead-letter, delay or requeue queue) and unregisters the processing queue; no message is lost.\<close>

theorem gc_recovers_message:
  assumes "queue_client E view nm inst" and "kp = ikey KEY_QUEUE_PROCESSING (p_ns E) nm inst"
    and "self \<noteq> inst" and "inst \<noteq> []" and "offline (view s) (p_now E) (p_ns E) nm inst"
    and "lists (view s) kp = [toString m]" and "body m \<noteq> None" and "list_only (view s) kp"
  shows "\<exists>s'. handleProcessingQueue E self (Str kp) s = (Inr (), s') \<and>
    view s' = unregistered (p_ns E) nm kp
      (fate_view (p_ns E) nm kp (toString m) (fate_of (p_now E) RECOVERY m) (view s))"
  using queue_client.gc_offline [OF assms(1) _ assms(2-8)] queue_client.plain_names(1) [OF assms(1)] by blast

theorem gc_recovers_message_witness:
  "\<exists>s'. handleProcessingQueue (mem_platform 5) ''c2'' (Str (ikey KEY_QUEUE_PROCESSING ''default'' ''orders'' ''c1''))
       (demo_mem (ikey KEY_QUEUE_PROCESSING ''default'' ''orders'' ''c1'') [order_msg ''a'']) = (Inr (), s') \<and>
     lists (mem_view s') (gkey KEY_QUEUE_DELAY) = [toString (order_msg ''a'')]"
proof -
  let ?kp = "ikey KEY_QUEUE_PROCESSING ''default'' ''orders'' ''c1''"
  let ?s = "demo_mem ?kp [order_msg ''a'']"
  have c: "queue_client (mem_platform 5) mem_view ''orders'' ''c1''" by (rule memq.queue_client_axioms)
  have f: "fate_of 5 RECOVERY (order_msg ''a'') = ToDelay"
    by (simp add: fate_of_def order_msg_def demo_msg_def newMessage_def defaultOpts_def)
  have "offline (mem_view ?s) 5 ''default'' ''orders'' ''c1''" "list_only (mem_view ?s) ?kp"
    "lists (mem_view ?s) (gkey KEY_QUEUE_DELAY) = []"
    by (simp_all add: offline_def list_only_def demo_mem_def mem_view_def mem0_def)
  with gc_recovers_message [OF c, of ?kp "''c2''" ?s "order_msg ''a''"] f show ?thesis
    by (auto simp: unregistered_def Let_def fate_view_def moved_def)
qed

text \<open>The collector leaves its own consumer, and every consumer of its namespace with a heartbeat of the
  last ten seconds, alone.\<close>

theorem gc_spares_online:
  assumes "queue_client E view nm inst" and "kp = ikey KEY_QUEUE_PROCESSING (p_ns E) nm inst"
    and "inst \<noteq> []"
    and "self = inst \<or> (\<exists>t usage. hashes (view s) (gkey KEY_INDEX_HEARTBEATS)
        (Str (ikey KEY_HEARTBEAT (p_ns E) nm inst)) = Some (heartbeat_payload t usage) \<and> p_now E - t \<le> 10000)"
  shows "\<exists>s'. handleProcessingQueue E self (Str kp) s = (Inr (), s') \<and> view s' = view s"
  by (rule queue_client.gc_online [OF assms(1-3)]) (use assms(4) in force)

theorem gc_spares_online_witness:
  "\<exists>s'. handleProcessingQueue (mem_platform 5) ''c1'' (Str (ikey KEY_QUEUE_PROCESSING ''default'' ''orders'' ''c1'')) mem0 =
     (Inr (), s') \<and> mem_view s' = mem_view mem0"
  using gc_spares_online [OF memq.queue_client_axioms [of 5], of _ "''c1''" mem0] by simp

text \<open>C20. The index of processing queues is shared by all namespaces but the liveness test looks for the
  heartbeat in the collector's own one: the collector takes the message away from a consumer of another
  namespace that sent its heartbeat this very moment, and unregisters its processing queue.\<close>

theorem gc_collects_foreign_consumer:
  assumes "queue_client E view nm inst" and "plain n2" and "n2 \<noteq> p_ns E"
    and "kp = ikey KEY_QUEUE_PROCESSING n2 nm inst" and "self \<noteq> inst" and "inst \<noteq> []"
    and "hashes (view s) (gkey KEY_INDEX_HEARTBEATS) =
      [Str (ikey KEY_HEARTBEAT n2 nm inst) \<mapsto> heartbeat_payload (p_now E) usage]"
    and "lists (view s) kp = [toString m]" and "body m \<noteq> None" and "list_only (view s) kp"
  shows "\<exists>s'. handleProcessingQueue E self (Str kp) s = (Inr (), s') \<and>
    lists (view s') kp = [] \<and> Str kp \<notin> sets (view s') (gkey KEY_INDEX_PROCESSING_QUEUES)"
proof -
  have p: "plain (p_ns E)" "plain nm" "plain inst" using queue_client.plain_names [OF assms(1)] by auto
  then have ne: "kp \<noteq> qkey KEY_QUEUE_DL (p_ns E) nm" "kp \<noteq> gkey t" for t using assms(2,4) by simp_all
  have "offline (view s) (p_now E) (p_ns E) nm inst"
    using assms(2,3,7) p by (simp add: offline_def)
  from queue_client.gc_offline [OF assms(1,2,4,5,6) this assms(8-10)] ne show ?thesis
    by (auto simp: unregistered_def Let_def fate_view_frame)
qed

definition foreign_mem :: mem where
  "foreign_mem = mem0\<lparr>
     mlists := (\<lambda>_. [])(ikey KEY_QUEUE_PROCESSING ''other'' ''orders'' ''c1'' := [toString (order_msg ''a'')]),
     mhashes := (\<lambda>_. [])(gkey KEY_INDEX_HEARTBEATS :=
       [(Str (ikey KEY_HEARTBEAT ''other'' ''orders'' ''c1''), heartbeat_payload 5 JNull)])\<rparr>"

theorem gc_collects_foreign_consumer_witness:
  "\<exists>s'. handleProcessingQueue (mem_platform 5) ''c2'' (Str (ikey KEY_QUEUE_PROCESSING ''other'' ''orders'' ''c1'')) foreign_mem =
     (Inr (), s') \<and> lists (mem_view s') (ikey KEY_QUEUE_PROCESSING ''other'' ''orders'' ''c1'') = []"
proof -
  let ?kp = "ikey KEY_QUEUE_PROCESSING ''other'' ''orders'' ''c1''"
  have p: "plain ''other''" by (simp add: plain_def)
  then have "list_only (mem_view foreign_mem) ?kp" "lists (mem_view foreign_mem) ?kp = [toString (order_msg ''a'')]"
    "hashes (mem_view foreign_mem) (gkey KEY_INDEX_HEARTBEATS) =
      [Str (ikey KEY_HEARTBEAT ''other'' ''orders'' ''c1'') \<mapsto> heartbeat_payload 5 JNull]"
    by (simp_all add: list_only_def foreign_mem_def mem_view_def mem0_def)
  with gc_collects_foreign_consumer [OF memq.queue_client_axioms [of 5] p, of ?kp "''c2''" foreign_mem JNull "order_msg ''a''"]
  show ?thesis by auto
qed

text \<open>C21. A heartbeat counts for ten seconds: after a consumer's heartbeat tick \<open>isAlive\<close>, asked at any later
  time, answers whether at most ten seconds have passed.\<close>

theorem heartbeat_lifetime:
  assumes "smq_live E view"
  shows "\<exists>s1 s2. heartbeat_onTick E nm inst usage s = (Inr (), s1) \<and>
    isAlive (E\<lparr>p_now := t\<rparr>) nm inst s1 = (Inr (t - p_now E \<le> 10000), s2)"
proof -
  let ?k = "gkey KEY_INDEX_HEARTBEATS" and ?f = "Str (ikey KEY_HEARTBEAT (p_ns E) nm inst)"
  obtain r s1 where s1: "redisCmd (p_srv E) (HSET ?k ?f (heartbeat_payload (p_now E) usage)) s = (Inr r, s1)"
    "hashes (view s1) ?k ?f = Some (heartbeat_payload (p_now E) usage)"
    using smq_live.cmd_doc [OF assms, of "HSET ?k ?f (heartbeat_payload (p_now E) usage)" s] by auto
  from smq_live.isAlive_live [OF smq_live_now [OF assms, of t], of nm inst s1] s1(2)
  obtain s2 where "isAlive (E\<lparr>p_now := t\<rparr>) nm inst s1 = (Inr (t - p_now E \<le> 10000), s2)" by auto
  with s1 show ?thesis
    by (auto simp: heartbeat_onTick_def rc_hset_def smq_keys Let_def voidM_run_Inr)
qed

theorem heartbeat_lifetime_witness:
  "\<exists>s1 s2. heartbeat_onTick (mem_platform 5) ''orders'' ''c1'' JNull mem0 = (Inr (), s1) \<and>
     isAlive (mem_platform 5\<lparr>p_now := 20000\<rparr>) ''orders'' ''c1'' s1 = (Inr False, s2)"
  using heartbeat_lifetime [OF mem_platform_live [of 5], of "''orders''" "''c1''" JNull mem0 20000] by simp

end
