(* ===== verification/Message_Rate.thy ===== *)
theory Message_Rate
  imports Broker
begin

text \<open>
  \<^verbatim>\<open>src/system/message-rate.ts\<close> and its two subclasses \<^verbatim>\<open>consumer/consumer-message-rate.ts\<close> and
  \<^verbatim>\<open>producer/producer-message-rate.ts\<close>: events are counted in a thousand slots, one per millisecond of a
  second; every second the slots are added up, cleared and published. The key of each rate is in the
  record; the ticker is that of \<open>Power_Ticker\<close>.
\<close>

section \<open>Slots\<close>

definition emptySlots :: "int list" where
  "emptySlots = replicate 1000 0"

text \<open>\<open>slots[new Date().getMilliseconds()] += 1\<close>.\<close>

definition incrementSlot :: "int \<Rightarrow> int list \<Rightarrow> int list" where
  "incrementSlot now slots = (let slot = nat (now mod 1000) in slots[slot := slots ! slot + 1])"

definition sumSlots :: "int list \<Rightarrow> int" where
  "sumSlots slots = foldl (\<lambda>acc cur. acc + cur) 0 slots"

text \<open>A rate sample is the text \<open>rate|timestamp\<close>; both numbers are natural.\<close>

definition rateSample :: "int \<Rightarrow> int \<Rightarrow> rstr" where
  "rateSample rate now = Str (show_nat (nat rate) @ ''|'' @ show_nat (nat now))"

text \<open>\<open>publish\<close>: the callback ignores the outcome.\<close>

definition publish :: "'s platform \<Rightarrow> (rstr \<times> rstr) list \<Rightarrow> 's \<Rightarrow> 's" where
  "publish E data s = snd (rc_hmset E (keyIndexRates getGlobalKeys) data s)"

section \<open>Producer\<close>

record producerMessageRate =
  inputSlots :: "int list"
  inputRate :: int
  keyProducerRateInput :: key

definition newProducerMessageRate :: "'s platform \<Rightarrow> string \<Rightarrow> string \<Rightarrow> producerMessageRate" where
  "newProducerMessageRate E queueName producerId =
     \<lparr>inputSlots = emptySlots, inputRate = 0,
      keyProducerRateInput = keyRateProducerInput (getInstanceKeys (p_ns E) queueName producerId)\<rparr>"

definition producer_getRateFields :: "producerMessageRate \<Rightarrow> int \<times> producerMessageRate" where
  "producer_getRateFields r =
     (let rate = sumSlots (inputSlots r) in
      (rate, r\<lparr>inputRate := rate, inputSlots := map (\<lambda>_. 0) (inputSlots r)\<rparr>))"

definition producer_formatRateFields :: "int \<Rightarrow> producerMessageRate \<Rightarrow> int \<Rightarrow> (rstr \<times> rstr) list" where
  "producer_formatRateFields now r rate = [(Str (keyProducerRateInput r), rateSample rate now)]"

definition incrementInputSlot :: "int \<Rightarrow> producerMessageRate \<Rightarrow> producerMessageRate" where
  "incrementInputSlot now r = r\<lparr>inputSlots := incrementSlot now (inputSlots r)\<rparr>"

definition producerRate_onTick :: "'s platform \<Rightarrow> producerMessageRate \<Rightarrow> 's \<Rightarrow> producerMessageRate \<times> 's" where
  "producerRate_onTick E r s =
     (case producer_getRateFields r of
        (rate, r') \<Rightarrow> (r', publish E (producer_formatRateFields (p_now E) r' rate) s))"

section \<open>Consumer\<close>

record consumerMessageRate =
  processingSlots :: "int list"
  acknowledgedSlots :: "int list"
  unacknowledgedSlots :: "int list"
  processingRate :: int
  acknowledgedRate :: int
  unacknowledgedRate :: int
  idleStack :: "int list"
  keyConsumerRateProcessing :: key
  keyConsumerRateAcknowledged :: key
  keyConsumerRateUnacknowledged :: key

definition newConsumerMessageRate :: "'s platform \<Rightarrow> string \<Rightarrow> string \<Rightarrow> consumerMessageRate" where
  "newConsumerMessageRate E queueName consumerId =
     (let keys = getInstanceKeys (p_ns E) queueName consumerId in
      \<lparr>processingSlots = emptySlots, acknowledgedSlots = emptySlots, unacknowledgedSlots = emptySlots,
       processingRate = 0, acknowledgedRate = 0, unacknowledgedRate = 0, idleStack = replicate 5 0,
       keyConsumerRateProcessing = keyRateConsumerProcessing keys,
       keyConsumerRateAcknowledged = keyRateConsumerAcknowledged keys,
       keyConsumerRateUnacknowledged = keyRateConsumerUnacknowledged keys\<rparr>)"

text \<open>\<open>isIdle\<close> pushes a mark for the last second and forgets the oldest one.\<close>

definition isIdle :: "consumerMessageRate \<Rightarrow> bool \<times> consumerMessageRate" where
  "isIdle r =
     (let mark = (if processingRate r = 0 \<and> acknowledgedRate r = 0 \<and> unacknowledgedRate r = 0 then 1 else 0);
          stack = tl (idleStack r @ [mark]) in
      (List.find (\<lambda>i. i = 0) stack = None, r\<lparr>idleStack := stack\<rparr>))"

text \<open>The first component tells whether \<open>IDLE\<close> is emitted, which only happens under test.\<close>

definition consumer_getRateFields ::
  "bool \<Rightarrow> consumerMessageRate \<Rightarrow> (bool \<times> int \<times> int \<times> int) \<times> consumerMessageRate" where
  "consumer_getRateFields isTest r0 =
     (let clear = map (\<lambda>_. 0::int);
          r = r0\<lparr>processingRate := sumSlots (processingSlots r0), processingSlots := clear (processingSlots r0),
                 acknowledgedRate := sumSlots (acknowledgedSlots r0), acknowledgedSlots := clear (acknowledgedSlots r0),
                 unacknowledgedRate := sumSlots (unacknowledgedSlots r0), unacknowledgedSlots := clear (unacknowledgedSlots r0)\<rparr>;
          (idle, r') = (if isTest then isIdle r else (False, r)) in
      ((idle, processingRate r', acknowledgedRate r', unacknowledgedRate r'), r'))"

definition consumer_formatRateFields :: "int \<Rightarrow> consumerMessageRate \<Rightarrow> int \<times> int \<times> int \<Rightarrow> (rstr \<times> rstr) list" where
  "consumer_formatRateFields now r rates =
     (case rates of (p, a, u) \<Rightarrow>
       [(Str (keyConsumerRateProcessing r), rateSample p now),
        (Str (keyConsumerRateAcknowledged r), rateSample a now),
        (Str (keyConsumerRateUnacknowledged r), rateSample u now)])"

definition incrementProcessingSlot :: "int \<Rightarrow> consumerMessageRate \<Rightarrow> consumerMessageRate" where
  "incrementProcessingSlot now r = r\<lparr>processingSlots := incrementSlot now (processingSlots r)\<rparr>"

definition incrementAcknowledgedSlot :: "int \<Rightarrow> consumerMessageRate \<Rightarrow> consumerMessageRate" where
  "incrementAcknowledgedSlot now r = r\<lparr>acknowledgedSlots := incrementSlot now (acknowledgedSlots r)\<rparr>"

definition incrementUnacknowledgedSlot :: "int \<Rightarrow> consumerMessageRate \<Rightarrow> consumerMessageRate" where
  "incrementUnacknowledgedSlot now r = r\<lparr>unacknowledgedSlots := incrementSlot now (unacknowledgedSlots r)\<rparr>"

definition consumerRate_onTick ::
  "'s platform \<Rightarrow> bool \<Rightarrow> consumerMessageRate \<Rightarrow> 's \<Rightarrow> bool \<times> consumerMessageRate \<times> 's" where
  "consumerRate_onTick E isTest r s =
     (case consumer_getRateFields isTest r of
        ((idle, rates), r') \<Rightarrow> (idle, r', publish E (consumer_formatRateFields (p_now E) r' rates) s))"

section \<open>A log of calls\<close>

text \<open>What happens to a consumer's rate object: an event is counted at some time, or a second has passed.\<close>

datatype rate_call = Processing int | Acknowledged int | Unacknowledged int | RateTick

fun rate_do :: "rate_call \<Rightarrow> consumerMessageRate \<Rightarrow> (bool \<times> int \<times> int \<times> int) list \<times> consumerMessageRate" where
  "rate_do (Processing now) r = ([], incrementProcessingSlot now r)"
| "rate_do (Acknowledged now) r = ([], incrementAcknowledgedSlot now r)"
| "rate_do (Unacknowledged now) r = ([], incrementUnacknowledgedSlot now r)"
| "rate_do RateTick r = (case consumer_getRateFields True r of (x, r') \<Rightarrow> ([x], r'))"

text \<open>The samples published by a sequence of calls, oldest first.\<close>

fun rate_run :: "rate_call list \<Rightarrow> consumerMessageRate \<Rightarrow> (bool \<times> int \<times> int \<times> int) list \<times> consumerMessageRate" where
  "rate_run [] r = ([], r)"
| "rate_run (c # cs) r =
     (case rate_do c r of (xs, r1) \<Rightarrow> (case rate_run cs r1 of (ys, r2) \<Rightarrow> (xs @ ys, r2)))"

definition count_calls :: "rate_call list \<Rightarrow> int \<times> int \<times> int" where
  "count_calls cs =
     (int (length (filter (\<lambda>c. case c of Processing _ \<Rightarrow> True | _ \<Rightarrow> False) cs)),
      int (length (filter (\<lambda>c. case c of Acknowledged _ \<Rightarrow> True | _ \<Rightarrow> False) cs)),
      int (length (filter (\<lambda>c. case c of Unacknowledged _ \<Rightarrow> True | _ \<Rightarrow> False) cs)))"

section \<open>Facts\<close>

lemma sumSlots_sum_list: "sumSlots xs = sum_list xs"
proof -
  have "foldl (\<lambda>acc cur. acc + cur) a xs = a + sum_list xs" for a
    by (induction xs arbitrary: a) auto
  then show ?thesis by (simp add: sumSlots_def)
qed

lemma sum_list_bump: "k < length xs \<Longrightarrow> sum_list (xs[k := xs ! k + 1]) = sum_list xs + (1::int)"
  by (induction xs arbitrary: k) (auto split: nat.split)

lemma sum_incrementSlot: "length xs = 1000 \<Longrightarrow> sum_list (incrementSlot now xs) = sum_list xs + 1"
proof -
  assume l: "length xs = 1000"
  have "nat (now mod 1000) < 1000" by (simp add: nat_less_iff)
  with l show ?thesis by (simp add: incrementSlot_def Let_def sum_list_bump)
qed

lemma sum_list_zeros [simp]: "sum_list (map (\<lambda>_. 0::int) xs) = 0"
  by (induction xs) auto

lemma length_incrementSlot [simp]: "length (incrementSlot now xs) = length xs"
  by (simp add: incrementSlot_def Let_def)

definition slots_ok :: "consumerMessageRate \<Rightarrow> bool" where
  "slots_ok r \<longleftrightarrow> length (processingSlots r) = 1000 \<and> length (acknowledgedSlots r) = 1000 \<and>
     length (unacknowledgedSlots r) = 1000"

lemmas rate_defs = incrementProcessingSlot_def incrementAcknowledgedSlot_def incrementUnacknowledgedSlot_def
  consumer_getRateFields_def isIdle_def Let_def

lemma rate_do_ok: "slots_ok r \<Longrightarrow> slots_ok (snd (rate_do c r))"
  by (cases c) (auto simp: slots_ok_def rate_defs)

definition held :: "consumerMessageRate \<Rightarrow> int \<times> int \<times> int" where
  "held r = (sum_list (processingSlots r), sum_list (acknowledgedSlots r), sum_list (unacknowledgedSlots r))"

definition published_rates :: "(bool \<times> int \<times> int \<times> int) list \<Rightarrow> int \<times> int \<times> int" where
  "published_rates out = (\<Sum>(i, p, a, u) \<leftarrow> out. p, \<Sum>(i, p, a, u) \<leftarrow> out. a, \<Sum>(i, p, a, u) \<leftarrow> out. u)"

text \<open>Componentwise addition of the three counters.\<close>

fun add3 :: "int \<times> int \<times> int \<Rightarrow> int \<times> int \<times> int \<Rightarrow> int \<times> int \<times> int" where
  "add3 (a, b, c) (a', b', c') = (a + a', b + b', c + c')"

lemma add3_assoc: "add3 (add3 x y) z = add3 x (add3 y z)"
  by (cases x; cases y; cases z) simp

lemma published_append: "published_rates (xs @ ys) = add3 (published_rates xs) (published_rates ys)"
  by (simp add: published_rates_def)

lemma count_Cons: "count_calls (c # cs) = add3 (count_calls [c]) (count_calls cs)"
  by (cases c) (simp_all add: count_calls_def)

lemma rate_do_counts:
  assumes "slots_ok r" and "rate_do c r = (xs, r')"
  shows "add3 (published_rates xs) (held r') = add3 (held r) (count_calls [c])"
  using assms
  by (cases c)
    (auto simp: slots_ok_def rate_defs held_def published_rates_def count_calls_def sum_incrementSlot
      sumSlots_sum_list split: if_splits)

lemma rate_run_counts:
  "slots_ok r \<Longrightarrow> rate_run cs r = (out, r') \<Longrightarrow>
     add3 (published_rates out) (held r') = add3 (held r) (count_calls cs)"
proof (induction cs arbitrary: r out)
  case Nil
  then show ?case by (cases "held r") (auto simp: published_rates_def count_calls_def)
next
  case (Cons c cs)
  obtain xs r1 ys where 1: "rate_do c r = (xs, r1)" and 2: "rate_run cs r1 = (ys, r')" "out = xs @ ys"
    using Cons.prems(2) by (auto split: prod.splits)
  have "slots_ok r1" using rate_do_ok [OF Cons.prems(1), of c] 1 by simp
  note IH = Cons.IH [OF this 2(1)]
  have "add3 (published_rates out) (held r') = add3 (published_rates xs) (add3 (held r1) (count_calls cs))"
    by (simp only: 2(2) published_append add3_assoc IH)
  also have "\<dots> = add3 (add3 (held r) (count_calls [c])) (count_calls cs)"
    by (simp only: add3_assoc [symmetric] rate_do_counts [OF Cons.prems(1) 1])
  finally show ?case by (simp only: add3_assoc count_Cons [of c cs])
qed

text \<open>The marks of the last five seconds.\<close>

definition quiet :: "bool \<times> int \<times> int \<times> int \<Rightarrow> bool" where
  "quiet x \<longleftrightarrow> snd x = (0, 0, 0)"

definition last5 :: "'a list \<Rightarrow> 'a list" where
  "last5 xs = drop (length xs - 5) xs"

text \<open>\<open>past\<close> lists the quietness of every earlier second, oldest first; the stack shows its last five, with
  zeros for the seconds before the first.\<close>

definition idle_inv :: "bool list \<Rightarrow> consumerMessageRate \<Rightarrow> bool" where
  "idle_inv past r \<longleftrightarrow> idleStack r = map of_bool (last5 (replicate 5 False @ past))"

lemma last5_snoc: "length xs \<ge> 5 \<Longrightarrow> last5 (xs @ [x]) = tl (last5 xs @ [x])"
proof -
  assume "length xs \<ge> 5"
  then obtain n where n: "length xs = n + 5" by (metis add.commute le_Suc_ex)
  then have "drop n xs \<noteq> []" by auto
  with n show ?thesis by (simp add: last5_def drop_Suc drop_tl)
qed

lemma find_zero: "List.find (\<lambda>i. i = 0) (map of_bool bs :: int list) = None \<longleftrightarrow> (\<forall>b \<in> set bs. b)"
  by (auto simp: find_None_iff image_iff)

lemma tick_idle:
  assumes "idle_inv past r" and "rate_do RateTick r = (out, r')"
  shows "\<exists>x. out = [x] \<and> idle_inv (past @ [quiet x]) r' \<and>
    (fst x \<longleftrightarrow> (\<forall>b \<in> set (last5 (replicate 5 False @ past @ [quiet x])). b))"
proof -
  obtain i p a u where x: "out = [(i, p, a, u)]"
    using assms(2) by (auto simp: rate_defs split: prod.splits)
  let ?b = "quiet (i, p, a, u)"
  have st: "idleStack r' = tl (idleStack r @ [of_bool ?b])"
    and i: "i \<longleftrightarrow> List.find (\<lambda>i. i = 0) (idleStack r') = None"
    using assms(2) x by (auto simp: rate_defs quiet_def)
  have "idleStack r' = map of_bool (last5 (replicate 5 False @ past @ [?b]))"
    using st assms(1) last5_snoc [of "replicate 5 False @ past" ?b]
    by (simp add: idle_inv_def map_tl)
  with i x find_zero show ?thesis by (auto simp: idle_inv_def)
qed

lemma rate_run_idle:
  "idle_inv past r \<Longrightarrow> rate_run cs r = (out, r') \<Longrightarrow> i < length out \<Longrightarrow>
     fst (out ! i) \<longleftrightarrow> (\<forall>b \<in> set (last5 (replicate 5 False @ past @ map quiet (take (Suc i) out))). b)"
proof (induction cs arbitrary: past r out i)
  case Nil
  then show ?case by simp
next
  case (Cons c cs)
  obtain xs r1 ys where 1: "rate_do c r = (xs, r1)" and 2: "rate_run cs r1 = (ys, r')" "out = xs @ ys"
    using Cons.prems(2) by (auto split: prod.splits)
  show ?case
  proof (cases "c = RateTick")
    case False
    then have "xs = []" "idle_inv past r1" using 1 Cons.prems(1)
      by (cases c; auto simp: idle_inv_def rate_defs)+
    with Cons.IH [of past r1 ys i] 2 Cons.prems(3) show ?thesis by simp
  next
    case True
    from tick_idle [OF Cons.prems(1) 1 [unfolded True]] obtain x where x: "xs = [x]"
      "idle_inv (past @ [quiet x]) r1"
      "fst x \<longleftrightarrow> (\<forall>b \<in> set (last5 (replicate 5 False @ past @ [quiet x])). b)" by blast
    show ?thesis
    proof (cases i)
      case 0
      with x 2 show ?thesis by simp
    next
      case (Suc j)
      with Cons.IH [OF x(2) 2(1), of j] x 2 Cons.prems(3) show ?thesis by simp
    qed
  qed
qed

lemma new_rate_ok: "slots_ok (newConsumerMessageRate E nm inst)" "held (newConsumerMessageRate E nm inst) = (0, 0, 0)"
  "idle_inv [] (newConsumerMessageRate E nm inst)"
  by (simp_all add: slots_ok_def newConsumerMessageRate_def held_def emptySlots_def idle_inv_def last5_def Let_def
      sum_list_replicate)

section \<open>Properties\<close>

text \<open>C32. The rates of a consumer are exact: for any sequence of counted events and seconds passed, every
  event is in exactly one published sample or still in the slots; and the consumer counts as idle at the
  end of a second iff that second and the four before it are all there and saw no event at all.\<close>

theorem consumer_rate_spec:
  "case rate_run cs (newConsumerMessageRate E nm inst) of (out, r') \<Rightarrow>
     add3 (published_rates out) (held r') = count_calls cs \<and>
     list_all (\<lambda>i. fst (out ! i) \<longleftrightarrow> i \<ge> 4 \<and> list_all quiet (take 5 (drop (i - 4) out))) [0..<length out]"
proof -
  let ?r = "newConsumerMessageRate E nm inst"
  obtain out r' where o: "rate_run cs ?r = (out, r')" by fastforce
  have "add3 (published_rates out) (held r') = count_calls cs"
    using rate_run_counts [OF new_rate_ok(1) o] by (cases "count_calls cs") (simp add: new_rate_ok(2))
  moreover have "fst (out ! i) \<longleftrightarrow> i \<ge> 4 \<and> list_all quiet (take 5 (drop (i - 4) out))" if "i < length out" for i
  proof -
    have f: "fst (out ! i) \<longleftrightarrow> (\<forall>b \<in> set (last5 (replicate 5 False @ map quiet (take (Suc i) out))). b)"
      using rate_run_idle [OF new_rate_ok(3) o that] by simp
    show ?thesis
    proof (cases "i \<ge> 4")
      case True
      then obtain j where j: "i = j + 4" by (metis add.commute le_Suc_ex)
      then have "last5 (replicate 5 False @ map quiet (take (Suc i) out)) = map quiet (drop j (take (j + 5) out))"
        using that by (simp add: last5_def drop_map add.commute)
      with f j show ?thesis by (simp add: list_all_iff drop_take)
    next
      case False
      let ?xs = "replicate 5 False @ map quiet (take (Suc i) out)"
      have "length ?xs - 5 = Suc i" using that by simp
      then have "last5 ?xs = replicate (5 - Suc i) False @ drop (Suc i - 5) (map quiet (take (Suc i) out))"
        unfolding last5_def by (simp only: drop_append drop_replicate length_replicate)
      moreover obtain k where "5 - Suc i = Suc k" using False by (cases "5 - Suc i") auto
      ultimately have "last5 ?xs = False # replicate k False @ drop (Suc i - 5) (map quiet (take (Suc i) out))"
        by (simp only: replicate_Suc append_Cons)
      then have mem: "False \<in> set (last5 ?xs)" by (simp only: list.set insert_iff simp_thms)
      have "\<not> fst (out ! i)"
      proof
        assume "fst (out ! i)"
        from bspec [OF iffD1 [OF f this] mem] show False .
      qed
      with False show ?thesis by (simp only: simp_thms)
    qed
  qed
  ultimately show ?thesis using o by (simp add: list_all_iff)
qed

section \<open>The ticker of a rate\<close>

text \<open>The constructor of \<open>MessageRate\<close> starts an interval; \<open>quit\<close> stops it.\<close>

definition newMessageRate :: "'f \<Rightarrow> 'f ticker result" where
  "newMessageRate onTickFn = bindR (newTicker onTickFn) runTimer"

definition messageRate_quit :: "'f ticker \<Rightarrow> 'f ticker result" where
  "messageRate_quit = tk_quit"

text \<open>The interval publishes the rates again and again and needs no rearming; \<open>quit\<close> succeeds at any time, and no rate
  is published afterwards.\<close>

lemma messageRate_life:
  assumes "newMessageRate fn = Inr tk"
  shows "tk_step tk r tk' \<and> tk_interval tk' = Armed \<and> r \<noteq> None \<longrightarrow> r = Some fn \<and> tk' = tk"
    and "\<exists>tk1. tk_step tk (Some fn) tk1 \<and> tk1 = tk"
    and "\<exists>tk1. messageRate_quit tk = Inr tk1 \<and> (\<forall>fs tk2. tk_steps tk1 fs tk2 \<longrightarrow> fs = [])"
proof -
  have tk: "tk = \<lparr>tk_powerManager = \<lparr>pm_state = UP, pm_pendingState = None\<rparr>, tk_onTickFn = fn, tk_onNextTickFn = None,
      tk_timeout = NoTimer, tk_interval = Armed\<rparr>"
    using assms by (auto simp: newMessageRate_def tk_defs pm_defs)
  show "tk_step tk r tk' \<and> tk_interval tk' = Armed \<and> r \<noteq> None \<longrightarrow> r = Some fn \<and> tk' = tk"
    by (auto simp: tk tk_defs pm_defs elim!: tk_step_cases)
  show "\<exists>tk1. tk_step tk (Some fn) tk1 \<and> tk1 = tk"
    by (auto simp: tk tk_defs pm_defs intro!: interval_fires)
  have ok: "tk_ok tk" by (simp add: tk tk_ok_def tk_running_def)
  obtain tk1 where q: "tk_quit tk = Inr tk1" by (auto simp: tk tk_defs pm_defs)
  with tk_steps_stopped [OF _ tk_quit_stops [OF ok q]]
  show "\<exists>tk1. messageRate_quit tk = Inr tk1 \<and> (\<forall>fs tk2. tk_steps tk1 fs tk2 \<longrightarrow> fs = [])"
    by (auto simp: messageRate_quit_def)
qed

end
