(* ===== verification/Base.thy ===== *)
theory Base
  imports Message_Rate
begin

text \<open>
  \<^verbatim>\<open>src/system/base.ts\<close>: what producers and consumers have in common, their state and the sequences of tasks
  that start them up and shut them down. A record scheme stands for the class, so that the consumer's
  record extends it. Creating a Redis client is I/O: its outcome is an argument (\<open>conn\<close>). The state of a
  task is the instance together with the state of Redis.
\<close>

section \<open>State\<close>

record config =
  cfg_namespace :: "string option"
  cfg_priorityQueue :: bool
  cfg_monitorEnabled :: bool
  cfg_message :: TPartialOptions

record 'r base =
  b_id :: string
  b_queueName :: string
  b_config :: config
  b_powerManager :: powerManager
  b_broker :: "messageManager option"
  b_sharedRedisClient :: bool
  b_messageRate :: "'r option"

text \<open>The constructor reads and sets two pieces of global state: the namespace and the default options of
  messages.\<close>

definition newBase ::
  "string \<Rightarrow> string \<Rightarrow> config \<Rightarrow> string \<Rightarrow> TMessageDefaultOptions \<Rightarrow>
     (string \<times> TMessageDefaultOptions \<times> 'r base) result" where
  "newBase uid queueName cfg namespace defaults =
     bindR (case cfg_namespace cfg of
              None \<Rightarrow> Inr namespace
            | Some n \<Rightarrow> if n = [] then Inr namespace else setNamespace n) (\<lambda>namespace'.
     bindR (validateRedisKey queueName) (\<lambda>q.
     bindR (setDefaultOptions (cfg_message cfg) defaults) (\<lambda>defaults'.
       Inr (namespace', defaults',
         \<lparr>b_id = uid, b_queueName = q, b_config = cfg, b_powerManager = newPowerManager, b_broker = None,
          b_sharedRedisClient = False, b_messageRate = None\<rparr>))))"

section \<open>Errors\<close>

text \<open>\<open>emit(events.ERROR, err)\<close>, handled by \<open>handleError\<close>: thrown while the instance is starting or running,
  ignored otherwise.\<close>

definition handleError :: "err \<Rightarrow> (('r, 'm) base_scheme \<times> 's, unit) io" where
  "handleError e x =
     (if isGoingUp (b_powerManager (fst x)) \<or> isRunning (b_powerManager (fst x))
      then (Inl (Throw e), x) else (Inr (), x))"

text \<open>The accessors call back with the object, or emit an error and never call back.\<close>

definition getSharedRedisClient :: "(('r, 'm) base_scheme \<times> 's, 'a) io \<Rightarrow> (('r, 'm) base_scheme \<times> 's, 'a) io" where
  "getSharedRedisClient f x =
     (if b_sharedRedisClient (fst x) then f x
      else (case handleError (PanicError ''Expected an instance of RedisClient'') x of
              (Inl e, x') \<Rightarrow> (Inl e, x') | (Inr _, x') \<Rightarrow> (Inl NoReply, x')))"

definition getBroker ::
  "(messageManager \<Rightarrow> (('r, 'm) base_scheme \<times> 's, 'a) io) \<Rightarrow> (('r, 'm) base_scheme \<times> 's, 'a) io" where
  "getBroker f x =
     (case b_broker (fst x) of
        Some mm \<Rightarrow> f mm x
      | None \<Rightarrow> (case handleError (PanicError ''Expected an instance of Broker'') x of
              (Inl e, x') \<Rightarrow> (Inl e, x') | (Inr _, x') \<Rightarrow> (Inl NoReply, x')))"

section \<open>Tasks\<close>

text \<open>An operation on Redis inside a task, and an update of the instance.\<close>

definition onRedis :: "('s, 'a) io \<Rightarrow> ('b \<times> 's, 'a) io" where
  "onRedis m x = (case m (snd x) of (r, s') \<Rightarrow> (r, (fst x, s')))"

definition modB :: "('b \<Rightarrow> 'b) \<Rightarrow> ('b \<times> 's, unit) io" where
  "modB f x = (Inr (), (f (fst x), snd x))"

definition setUpSharedRedisClient :: "unit result \<Rightarrow> (('r, 'm) base_scheme \<times> 's, unit) io" where
  "setUpSharedRedisClient conn =
     (case conn of Inl e \<Rightarrow> cbErr e | Inr _ \<Rightarrow> modB (\<lambda>b. b\<lparr>b_sharedRedisClient := True\<rparr>))"

definition base_setUpMessageQueue :: "'s platform \<Rightarrow> (('r, 'm) base_scheme \<times> 's, unit) io" where
  "base_setUpMessageQueue E x =
     (if \<not> b_sharedRedisClient (fst x) then cbErr (PanicError ''Expected an instance of RedisClient'') x
      else onRedis (setUpMessageQueue E (b_queueName (fst x))) x)"

definition setUpBroker :: "(('r, 'm) base_scheme \<times> 's, unit) io" where
  "setUpBroker x =
     (if \<not> b_sharedRedisClient (fst x) then cbErr (PanicError ''Expected an instance of RedisClient'') x
      else modB (\<lambda>b. b\<lparr>b_broker := Some newMessageManager\<rparr>) x)"

text \<open>\<open>getMessageRate\<close> of the subclass creates the rate object unless there is one.\<close>

definition setUpMessageRate :: "(('r, 'm) base_scheme \<Rightarrow> 'r) \<Rightarrow> (('r, 'm) base_scheme \<times> 's, unit) io" where
  "setUpMessageRate newRate x =
     (if cfg_monitorEnabled (b_config (fst x)) then
        (if \<not> b_sharedRedisClient (fst x) then cbErr (PanicError ''Expected an instance of RedisClient'') x
         else modB (\<lambda>b. b\<lparr>b_messageRate := Some (case b_messageRate b of None \<Rightarrow> newRate b | Some r \<Rightarrow> r)\<rparr>) x)
      else retM () x)"

definition base_goingUp ::
  "'s platform \<Rightarrow> unit result \<Rightarrow> (('r, 'm) base_scheme \<Rightarrow> 'r) \<Rightarrow> (('r, 'm) base_scheme \<times> 's, unit) io list" where
  "base_goingUp E conn newRate =
     [setUpSharedRedisClient conn, base_setUpMessageQueue E, setUpBroker, setUpMessageRate newRate]"

definition tearDownSharedRedisClient :: "(('r, 'm) base_scheme \<times> 's, unit) io" where
  "tearDownSharedRedisClient = modB (\<lambda>b. b\<lparr>b_sharedRedisClient := False\<rparr>)"

definition tearDownMessageRate :: "(('r, 'm) base_scheme \<times> 's, unit) io" where
  "tearDownMessageRate = modB (\<lambda>b. b\<lparr>b_messageRate := None\<rparr>)"

text \<open>\<open>broker.quit\<close> drops the dequeue handler (\<open>mm_quit\<close>), then the broker itself is dropped.\<close>

definition tearDownBroker :: "(('r, 'm) base_scheme \<times> 's, unit) io" where
  "tearDownBroker = modB (\<lambda>b. b\<lparr>b_broker := None\<rparr>)"

definition base_goingDown :: "(('r, 'm) base_scheme \<times> 's, unit) io list" where
  "base_goingDown = [tearDownBroker, tearDownMessageRate, tearDownSharedRedisClient]"

section \<open>Starting and stopping\<close>

text \<open>\<open>async.waterfall\<close>: the tasks one after the other, up to the first error.\<close>

fun waterfall :: "('x, unit) io list \<Rightarrow> ('x, unit) io" where
  "waterfall [] = retM ()"
| "waterfall (t # ts) = bindM t (\<lambda>_. waterfall ts)"

text \<open>A final callback that does not look at the error it is given.\<close>

definition whateverComes :: "('x, unit) io \<Rightarrow> ('x, unit) io \<Rightarrow> ('x, unit) io" where
  "whateverComes m f x =
     (case m x of
        (Inr _, x') \<Rightarrow> f x'
      | (Inl (Cb e), x') \<Rightarrow> f x'
      | (Inl e, x') \<Rightarrow> (Inl e, x'))"

definition switchPower ::
  "(powerManager \<Rightarrow> powerManager result) \<Rightarrow> (('r, 'm) base_scheme \<times> 's, unit) io" where
  "switchPower f x =
     (case f (b_powerManager (fst x)) of
        Inl e \<Rightarrow> throwM e x
      | Inr pm \<Rightarrow> modB (\<lambda>b. b\<lparr>b_powerManager := pm\<rparr>) x)"

definition base_run :: "(('r, 'm) base_scheme \<times> 's, unit) io list \<Rightarrow> (('r, 'm) base_scheme \<times> 's, unit) io" where
  "base_run tasks =
     bindM (switchPower goingUp) (\<lambda>_. whateverComes (waterfall tasks) (switchPower commit))"

definition base_shutdown :: "(('r, 'm) base_scheme \<times> 's, unit) io list \<Rightarrow> (('r, 'm) base_scheme \<times> 's, unit) io" where
  "base_shutdown tasks =
     bindM (switchPower goingDown) (\<lambda>_. whateverComes (waterfall tasks) (switchPower commit))"

section \<open>Producer\<close>

text \<open>\<open>producer.ts\<close>: the constructor starts the instance; \<open>produceMessage\<close> goes through \<open>getBroker\<close> and counts
  the message once it is stored.\<close>

type_synonym producer = "producerMessageRate base"

definition producer_newRate :: "'s platform \<Rightarrow> producer \<Rightarrow> producerMessageRate" where
  "producer_newRate E b = newProducerMessageRate E (b_queueName b) (b_id b)"

definition producer_run :: "'s platform \<Rightarrow> unit result \<Rightarrow> (producer \<times> 's, unit) io" where
  "producer_run E conn = base_run (base_goingUp E conn (producer_newRate E))"

definition producer_shutdown :: "(producer \<times> 's, unit) io" where
  "producer_shutdown = base_shutdown base_goingDown"

definition countInput :: "int \<Rightarrow> producer \<Rightarrow> producer" where
  "countInput now b = b\<lparr>b_messageRate := map_option (incrementInputSlot now) (b_messageRate b)\<rparr>"

definition producer_produceMessage :: "'s platform \<Rightarrow> message \<Rightarrow> (producer \<times> 's, bool) io" where
  "producer_produceMessage E msg x =
     (let pm = b_powerManager (fst x);
          message = setQueue (p_ns E) (b_queueName (fst x)) (reset msg) in
      if \<not> isUp pm then
        (if isGoingUp pm then (Inl NoReply, x)
         else cbErr (PanicError ''Producer is not running'') x)
      else
        getBroker (\<lambda>_.
          bindM (onRedis (proceed E (cfg_priorityQueue (b_config (fst x))) message)) (\<lambda>(reply, _).
          bindM (modB (countInput (p_now E))) (\<lambda>_. retM reply))) x)"

section \<open>Facts\<close>

lemma onRedis_run [io_run]: "m s = (r, s') \<Longrightarrow> onRedis m (b, s) = (r, (b, s'))"
  by (simp add: onRedis_def)

lemma modB_run [io_run, simp]: "modB f (b, s) = (Inr (), (f b, s))"
  by (simp add: modB_def)

lemma switchPower_run [io_run]:
  "f (b_powerManager b) = Inr pm \<Longrightarrow> switchPower f (b, s) = (Inr (), (b\<lparr>b_powerManager := pm\<rparr>, s))"
  by (simp add: switchPower_def)

lemma whateverComes_run [io_run]:
  "m x = (Inr u, x') \<Longrightarrow> whateverComes m f x = f x'" "m x = (Inl (Cb e), x') \<Longrightarrow> whateverComes m f x = f x'"
  by (simp_all add: whateverComes_def)

definition pm_down :: powerManager where "pm_down = \<lparr>pm_state = DOWN, pm_pendingState = None\<rparr>"
definition pm_up :: powerManager where "pm_up = \<lparr>pm_state = UP, pm_pendingState = None\<rparr>"
definition pm_starting :: powerManager where "pm_starting = \<lparr>pm_state = DOWN, pm_pendingState = Some UP\<rparr>"
definition pm_stopping :: powerManager where "pm_stopping = \<lparr>pm_state = UP, pm_pendingState = Some DOWN\<rparr>"

lemma pm_phases [simp]:
  "goingUp pm_down = Inr pm_starting" "commit pm_starting = Inr pm_up"
  "goingDown pm_up = Inr pm_stopping" "commit pm_stopping = Inr pm_down"
  "isUp pm_up" "isRunning pm_up" "\<not> isRunning pm_down" "isGoingUp pm_starting" "\<not> isRunning pm_starting"
  "\<not> isGoingUp pm_up" "\<not> isGoingUp pm_stopping" "\<not> isRunning pm_stopping" "newPowerManager = pm_down"
  "\<not> isUp pm_down" "\<not> isGoingUp pm_down" "isUp pm_stopping"
  by (simp_all add: pm_defs pm_down_def pm_up_def pm_starting_def pm_stopping_def)

text \<open>A run whose tasks end, with or without an error, always ends with the instance up.\<close>

lemma base_run_eq:
  assumes "b_powerManager b = pm_down"
    and "waterfall tasks (b\<lparr>b_powerManager := pm_starting\<rparr>, s) = (r, (b', s'))"
    and "b_powerManager b' = pm_starting" and "r = Inr () \<or> (\<exists>e. r = Inl (Cb e))"
  shows "base_run tasks (b, s) = (Inr (), (b'\<lparr>b_powerManager := pm_up\<rparr>, s'))"
  using assms by (auto simp: base_run_def io_run)

lemma base_shutdown_eq:
  assumes "b_powerManager b = pm_up"
    and "waterfall tasks (b\<lparr>b_powerManager := pm_stopping\<rparr>, s) = (r, (b', s'))"
    and "b_powerManager b' = pm_stopping" and "r = Inr () \<or> (\<exists>e. r = Inl (Cb e))"
  shows "base_shutdown tasks (b, s) = (Inr (), (b'\<lparr>b_powerManager := pm_down\<rparr>, s'))"
  using assms by (auto simp: base_shutdown_def io_run)

text \<open>An instance as the constructor leaves it, and the same one when everything is set up.\<close>

definition fresh_base :: "('r, 'm) base_scheme \<Rightarrow> bool" where
  "fresh_base b \<longleftrightarrow> b_powerManager b = pm_down \<and> b_broker b = None \<and> \<not> b_sharedRedisClient b \<and>
     b_messageRate b = None"

definition set_up :: "(('r, 'm) base_scheme \<Rightarrow> 'r) \<Rightarrow> ('r, 'm) base_scheme \<Rightarrow> ('r, 'm) base_scheme" where
  "set_up newRate b =
     (let b1 = b\<lparr>b_sharedRedisClient := True, b_broker := Some \<lparr>mm_dequeueHandler = None\<rparr>\<rparr> in
      if cfg_monitorEnabled (b_config b) then b1\<lparr>b_messageRate := Some (newRate b1)\<rparr> else b1)"

lemma waterfall_append:
  "waterfall (xs @ ys) = bindM (waterfall xs) (\<lambda>_. waterfall ys)"
  by (induction xs) (auto simp: bindM_def retM_def fun_eq_iff split: prod.splits sum.splits)

lemma newBase_fresh: "newBase uid q cfg n d = Inr (n', d', b) \<Longrightarrow> fresh_base b \<and> b_id b = uid \<and> validateRedisKey q = Inr (b_queueName b)"
  by (auto simp: newBase_def fresh_base_def io_iff)

context smq_live
begin

lemma setUpMessageQueue_live:
  "\<exists>s'. setUpMessageQueue E q s = (Inr (), s') \<and>
    view s' = (view s)\<lparr>sets := (sets (view s))(gkey KEY_INDEX_QUEUES :=
      insert (queue_text \<lparr>q_name = q, q_ns = p_ns E\<rparr>) (sets (view s) (gkey KEY_INDEX_QUEUES)))\<rparr>"
proof -
  let ?c = "SADD (gkey KEY_INDEX_QUEUES) (queue_text \<lparr>q_name = q, q_ns = p_ns E\<rparr>)"
  obtain r s' where "redisCmd (p_srv E) ?c s = (Inr r, s')" "doc ?c (view s) r (view s')"
    using cmd_doc by blast
  then show ?thesis
    by (auto simp: setUpMessageQueue_def rc_sadd_def smq_keys voidM_run_Inr)
qed

lemma base_goingUp_live:
  assumes "b_broker b = None" "b_messageRate b = None"
  shows "\<exists>s'. waterfall (base_goingUp E (Inr ()) newRate) (b, s) = (Inr (), (set_up newRate b, s')) \<and>
    setUpMessageQueue E (b_queueName b) s = (Inr (), s')"
proof -
  obtain s' where "setUpMessageQueue E (b_queueName b) s = (Inr (), s')"
    using setUpMessageQueue_live by blast
  then show ?thesis
    using assms
    by (cases "cfg_monitorEnabled (b_config b)")
      (simp_all add: base_goingUp_def setUpSharedRedisClient_def base_setUpMessageQueue_def setUpBroker_def
        setUpMessageRate_def set_up_def Let_def bindM_def retM_def onRedis_def)
qed

end

lemma base_goingDown_eq:
  "waterfall base_goingDown (b, s) = (Inr (), (b\<lparr>b_broker := None, b_messageRate := None, b_sharedRedisClient := False\<rparr>, s))"
  by (simp add: base_goingDown_def tearDownBroker_def tearDownMessageRate_def tearDownSharedRedisClient_def io_run)

text \<open>Producing through the broker of a running producer is the operation of the broker's theory on Redis, and
  counts the message.\<close>

lemma producer_produceMessage_up:
  assumes "b_powerManager b = pm_up" and "b_broker b = Some mm"
  shows "producer_produceMessage E m (b, s) =
    (case produceMessage E pm_up (cfg_priorityQueue (b_config b)) (b_queueName b) m s of
       (Inl e, s') \<Rightarrow> (Inl e, (b, s'))
     | (Inr (reply, m'), s') \<Rightarrow> (Inr reply, (countInput (p_now E) b, s')))"
  using assms
  by (auto simp: producer_produceMessage_def produceMessage_def getBroker_def bindM_def onRedis_def retM_def
      split: prod.splits sum.splits)

text \<open>The producer when everything is set up.\<close>

definition producer_up :: "'s platform \<Rightarrow> producer \<Rightarrow> producer" where
  "producer_up E b = (set_up (producer_newRate E) (b\<lparr>b_powerManager := pm_starting\<rparr>))\<lparr>b_powerManager := pm_up\<rparr>"

lemma producer_up_sel [simp]:
  "b_powerManager (producer_up E b) = pm_up" "b_queueName (producer_up E b) = b_queueName b"
  "b_config (producer_up E b) = b_config b" "b_broker (producer_up E b) = Some \<lparr>mm_dequeueHandler = None\<rparr>"
  by (simp_all add: producer_up_def set_up_def Let_def)

context smq_live
begin

lemma producer_run_live:
  assumes "fresh_base b"
  shows "\<exists>s'. producer_run E (Inr ()) (b, s) = (Inr (), (producer_up E b, s')) \<and>
    view s' = (view s)\<lparr>sets := (sets (view s))(gkey KEY_INDEX_QUEUES :=
      insert (queue_text \<lparr>q_name = b_queueName b, q_ns = p_ns E\<rparr>) (sets (view s) (gkey KEY_INDEX_QUEUES)))\<rparr>"
proof -
  let ?b0 = "b\<lparr>b_powerManager := pm_starting\<rparr>"
  have f: "b_powerManager b = pm_down" "b_broker b = None" "\<not> b_sharedRedisClient b" "b_messageRate b = None"
    using assms by (auto simp: fresh_base_def)
  obtain s1 where w: "waterfall (base_goingUp E (Inr ()) (producer_newRate E)) (?b0, s) = (Inr (), (set_up (producer_newRate E) ?b0, s1))"
    and q: "setUpMessageQueue E (b_queueName b) s = (Inr (), s1)"
    using base_goingUp_live [of ?b0 "producer_newRate E" s] f by auto
  have pm: "b_powerManager (set_up (producer_newRate E) ?b0) = pm_starting"
    by (simp add: set_up_def Let_def)
  have "producer_run E (Inr ()) (b, s) = (Inr (), (producer_up E b, s1))"
    unfolding producer_run_def producer_up_def by (rule base_run_eq [OF f(1) w pm]) simp
  with setUpMessageQueue_live [of "b_queueName b" s] q show ?thesis by auto
qed

end

lemma producer_up_produce:
  "producer_produceMessage E m (producer_up E b, s) =
    (case produceMessage E pm_up (cfg_priorityQueue (b_config b)) (b_queueName b) m s of
       (Inl e, s') \<Rightarrow> (Inl e, (producer_up E b, s'))
     | (Inr (reply, m'), s') \<Rightarrow> (Inr reply, (countInput (p_now E) (producer_up E b), s')))"
  using producer_produceMessage_up [of "producer_up E b" "\<lparr>mm_dequeueHandler = None\<rparr>" E m s] by simp

section \<open>Properties\<close>

text \<open>Life of a producer whose connection works: starting it registers its queue and leaves it running;
  every message is then handed to the broker (its effect on Redis and its answer are those of
  \<open>produceMessage\<close>) and, once stored, counted; shutting down gives the instance back exactly as the constructor
  left it, without touching Redis.\<close>

theorem producer_lifecycle:
  assumes "smq_live E view" and "fresh_base b"
  shows "\<exists>b1 s1. producer_run E (Inr ()) (b, s) = (Inr (), (b1, s1)) \<and> isRunning (b_powerManager b1) \<and>
    sets (view s1) (gkey KEY_INDEX_QUEUES) =
      insert (queue_text \<lparr>q_name = b_queueName b, q_ns = p_ns E\<rparr>) (sets (view s) (gkey KEY_INDEX_QUEUES)) \<and>
    producer_produceMessage E m (b1, s1) =
      (case produceMessage E pm_up (cfg_priorityQueue (b_config b)) (b_queueName b) m s1 of
         (Inl e, s2) \<Rightarrow> (Inl e, (b1, s2))
       | (Inr (reply, m'), s2) \<Rightarrow> (Inr reply, (countInput (p_now E) b1, s2))) \<and>
    producer_shutdown (b1, s1) = (Inr (), (b, s1))"
proof -
  let ?b1 = "producer_up E b"
  have f: "b_powerManager b = pm_down" "b_broker b = None" "\<not> b_sharedRedisClient b" "b_messageRate b = None"
    using assms(2) by (auto simp: fresh_base_def)
  obtain s1 where r: "producer_run E (Inr ()) (b, s) = (Inr (), (?b1, s1))"
    and v: "view s1 = (view s)\<lparr>sets := (sets (view s))(gkey KEY_INDEX_QUEUES :=
      insert (queue_text \<lparr>q_name = b_queueName b, q_ns = p_ns E\<rparr>) (sets (view s) (gkey KEY_INDEX_QUEUES)))\<rparr>"
    using smq_live.producer_run_live [OF assms] by blast
  have "producer_shutdown (?b1, s1) = (Inr (), (b, s1))"
    using base_shutdown_eq [OF _ base_goingDown_eq, of ?b1 s1] f
    by (auto simp: producer_shutdown_def producer_up_def set_up_def Let_def)
  moreover note producer_up_produce [of E m b s1]
  ultimately show ?thesis using r v by (intro exI [of _ ?b1] exI [of _ s1]) simp
qed

text \<open>C33. A start-up that fails is not reported: when the registration of the queue ends with an error, the
  callback of \<open>run\<close> does not look at it, so the producer counts as running although it has no broker, and the
  first message throws.\<close>

theorem run_hides_failure:
  assumes "fresh_base b" and "setUpMessageQueue E (b_queueName b) s = (Inl (Cb e), s')"
  shows "producer_run E (Inr ()) (b, s) = (Inr (), (b\<lparr>b_powerManager := pm_up, b_sharedRedisClient := True\<rparr>, s')) \<and>
    isRunning (b_powerManager (b\<lparr>b_powerManager := pm_up, b_sharedRedisClient := True\<rparr>)) \<and>
    producer_produceMessage E m (b\<lparr>b_powerManager := pm_up, b_sharedRedisClient := True\<rparr>, s') =
      (Inl (Throw (PanicError ''Expected an instance of Broker'')),
       (b\<lparr>b_powerManager := pm_up, b_sharedRedisClient := True\<rparr>, s'))"
proof -
  have "waterfall (base_goingUp E (Inr ()) (producer_newRate E)) (b\<lparr>b_powerManager := pm_starting\<rparr>, s) =
      (Inl (Cb e), (b\<lparr>b_powerManager := pm_starting, b_sharedRedisClient := True\<rparr>, s'))"
    using assms(2)
    by (simp add: base_goingUp_def setUpSharedRedisClient_def base_setUpMessageQueue_def bindM_def onRedis_def)
  from base_run_eq [OF _ this] assms(1) show ?thesis
    by (simp add: fresh_base_def producer_run_def producer_produceMessage_def getBroker_def handleError_def)
qed

section \<open>Examples\<close>

definition demo_producer :: producer where
  "demo_producer = \<lparr>b_id = ''p1'', b_queueName = ''orders'',
     b_config = \<lparr>cfg_namespace = None, cfg_priorityQueue = False, cfg_monitorEnabled = True,
       cfg_message = \<lparr>popt_consumeTimeout = None, popt_ttl = None, popt_retryThreshold = None, popt_retryDelay = None\<rparr>\<rparr>,
     b_powerManager = pm_down, b_broker = None, b_sharedRedisClient = False, b_messageRate = None\<rparr>"

lemma demo_producer_fresh: "fresh_base demo_producer"
  by (simp add: fresh_base_def demo_producer_def)

theorem producer_lifecycle_witness:
  "\<exists>b1 s1. producer_run (mem_platform 0) (Inr ()) (demo_producer, mem0) = (Inr (), (b1, s1)) \<and>
     isRunning (b_powerManager b1) \<and> producer_shutdown (b1, s1) = (Inr (), (demo_producer, s1))"
  using producer_lifecycle [OF mem_platform_live [of 0] demo_producer_fresh, of mem0] by blast

text \<open>A server that refuses to write.\<close>

definition readonly_platform :: "mem platform" where
  "readonly_platform = (mem_platform 0)\<lparr>p_srv := (\<lambda>s c. (RErr (DriverError ''READONLY''), s))\<rparr>"

theorem run_hides_failure_witness:
  "producer_run readonly_platform (Inr ()) (demo_producer, mem0) =
     (Inr (), (demo_producer\<lparr>b_powerManager := pm_up, b_sharedRedisClient := True\<rparr>, mem0))"
proof -
  have "setUpMessageQueue readonly_platform (b_queueName demo_producer) mem0 = (Inl (Cb (DriverError ''READONLY'')), mem0)"
    by (simp add: setUpMessageQueue_def rc_sadd_def readonly_platform_def redisCmd_def voidM_def bindM_def)
  from run_hides_failure [OF demo_producer_fresh this] show ?thesis by blast
qed

end
