(* ===== verification/Consumer_Workers.thy ===== *)
theory Consumer_Workers
  imports Base
begin

text \<open>
  \<^verbatim>\<open>src/system/consumer/consumer-workers.ts\<close>: every consumer tries once a second to get the lock of the worker
  processes; the one that has it forks them. The directory listing handed to the worker runner is an
  argument (\<open>files\<close>); redlock is the platform's.
\<close>

section \<open>State and operations\<close>

record consumerWorkers =
  cw_ticker :: "unit ticker"
  cw_lockerManager :: lock_manager
  cw_workerRunner :: workerRunner

definition newConsumerWorkers :: "consumerWorkers result" where
  "newConsumerWorkers =
     bindR (newTicker ()) (\<lambda>tk.
     bindR (nextTick tk) (\<lambda>tk'.
       Inr \<lparr>cw_ticker = tk', cw_lockerManager = newLockManager (keyLockConsumerWorkersRunner getGlobalKeys) 10000 False,
            cw_workerRunner = newWorkerRunner\<rparr>))"

text \<open>\<open>this.ticker.nextTick()\<close> at the end of a callback: an exception is thrown from there.\<close>

definition cw_nextTick :: "consumerWorkers \<Rightarrow> (exn + unit) \<times> consumerWorkers" where
  "cw_nextTick cw =
     (case nextTick (cw_ticker cw) of
        Inl e \<Rightarrow> (Inl (Throw e), cw)
      | Inr tk \<Rightarrow> (Inr (), cw\<lparr>cw_ticker := tk\<rparr>))"

text \<open>\<open>Cb e\<close> is the error event the instance emits. The ticker is armed again unless there was an error.\<close>

definition cw_onTick ::
  "'s platform \<Rightarrow> err + string list \<Rightarrow> consumerWorkers \<Rightarrow> 's \<Rightarrow> ((exn + unit) \<times> consumerWorkers) \<times> 's" where
  "cw_onTick E files cw s =
     (case acquireLock E (cw_lockerManager cw) s of
        ((Inl e, lm), s') \<Rightarrow> ((Inl e, cw\<lparr>cw_lockerManager := lm\<rparr>), s')
      | ((Inr locked, lm), s') \<Rightarrow>
          (let cw1 = cw\<lparr>cw_lockerManager := lm\<rparr> in
           if locked \<and> \<not> isRunning (wr_powerManager (cw_workerRunner cw)) then
             (case wr_run files (cw_workerRunner cw) of
                Inl e \<Rightarrow> ((Inl (Throw e), cw1), s')
              | Inr (Some e, wr) \<Rightarrow> ((Inl (Cb e), cw1\<lparr>cw_workerRunner := wr\<rparr>), s')
              | Inr (None, wr) \<Rightarrow> (cw_nextTick (cw1\<lparr>cw_workerRunner := wr\<rparr>), s'))
           else (cw_nextTick cw1, s')))"

text \<open>The timer of the ticker fires.\<close>

definition cw_fire ::
  "'s platform \<Rightarrow> err + string list \<Rightarrow> consumerWorkers \<Rightarrow> 's \<Rightarrow> ((exn + unit) \<times> consumerWorkers) \<times> 's" where
  "cw_fire E files cw s =
     (case onTick ((cw_ticker cw)\<lparr>tk_timeout := NoTimer\<rparr>) of
        (None, tk) \<Rightarrow> ((Inr (), cw\<lparr>cw_ticker := tk\<rparr>), s)
      | (Some _, tk) \<Rightarrow> cw_onTick E files (cw\<lparr>cw_ticker := tk\<rparr>) s)"

text \<open>\<open>quit\<close>: stop the ticker, shut the workers down, release the lock. The first component lists the workers
  that were killed.\<close>

definition cw_quit ::
  "'s platform \<Rightarrow> consumerWorkers \<Rightarrow> 's \<Rightarrow> ((exn + string list) \<times> consumerWorkers) \<times> 's" where
  "cw_quit E cw s =
     (case tk_quit (cw_ticker cw) of
        Inl e \<Rightarrow> ((Inl (Throw e), cw), s)
      | Inr tk \<Rightarrow>
          (case wr_shutdown (cw_workerRunner cw) of
             Inl e \<Rightarrow> ((Inl (Throw e), cw\<lparr>cw_ticker := tk\<rparr>), s)
           | Inr (killed, wr) \<Rightarrow>
               (case lm_quit E (cw_lockerManager cw) s of
                  ((Inl e, lm), s') \<Rightarrow> ((Inl e, cw\<lparr>cw_ticker := tk, cw_workerRunner := wr, cw_lockerManager := lm\<rparr>), s')
                | ((Inr _, lm), s') \<Rightarrow>
                    ((Inr killed, cw\<lparr>cw_ticker := tk, cw_workerRunner := wr, cw_lockerManager := lm\<rparr>), s'))))"

text \<open>The states of an instance before it is told to quit: its timer fires, in whatever state Redis is then.\<close>

inductive cw_reach :: "'s platform \<Rightarrow> consumerWorkers \<Rightarrow> consumerWorkers \<Rightarrow> bool" for E cw0 where
  cw_start: "cw_reach E cw0 cw0"
| cw_tick: "cw_reach E cw0 cw \<Longrightarrow> tk_timeout (cw_ticker cw) = Armed \<Longrightarrow> cw_fire E files cw s = ((r, cw'), s') \<Longrightarrow>
    cw_reach E cw0 cw'"

section \<open>Facts\<close>

lemma acquireLock_cases:
  assumes "acquireLock E lm s = ((r, lm'), s')" and "\<not> lm_retryOnFail lm"
  shows "\<not> lm_retryOnFail lm' \<and> (r = Inr True \<longrightarrow> isLocked lm') \<and> (isLocked lm \<longrightarrow> isLocked lm')"
  using assms
  by (auto simp: acquireLock_def acquireLockRetryOnFail_def isLocked_def
      elim!: handleRedlockReply.elims split: option.splits prod.splits if_splits)

text \<open>The workers run under the lock: this is what every tick keeps.\<close>

definition runner_ok :: "bool \<Rightarrow> workerRunner \<Rightarrow> bool" where
  "runner_ok locked wr \<longleftrightarrow>
     wr_powerManager wr \<in> {pm_down, pm_starting} \<and> wr_workers wr = [] \<or> wr_powerManager wr = pm_up \<and> locked"

definition cw_ok :: "consumerWorkers \<Rightarrow> bool" where
  "cw_ok cw \<longleftrightarrow> \<not> lm_retryOnFail (cw_lockerManager cw) \<and> lm_redlock (cw_lockerManager cw) \<and>
     runner_ok (isLocked (cw_lockerManager cw)) (cw_workerRunner cw) \<and> tk_running (cw_ticker cw)"

lemma cw_new: "newConsumerWorkers = Inr cw \<Longrightarrow> cw_ok cw"
  by (auto simp: newConsumerWorkers_def cw_ok_def runner_ok_def newLockManager_def newWorkerRunner_def tk_defs pm_defs
      tk_running_def pm_down_def)

lemma wr_run_ok: "runner_ok b wr \<Longrightarrow> wr_run files wr = Inr (e, wr') \<Longrightarrow> runner_ok True wr'"
  by (auto simp: runner_ok_def wr_run_def pm_defs pm_down_def pm_starting_def pm_up_def
      split: sum.splits if_splits)

lemma cw_nextTick_ok:
  "cw_nextTick cw = (r, cw') \<Longrightarrow> cw_ok cw \<Longrightarrow> cw_ok cw'"
  by (auto simp: cw_nextTick_def cw_ok_def tk_defs pm_defs tk_running_def split: sum.splits if_splits)

lemma cw_onTick_ok:
  assumes "cw_onTick E files cw s = ((r, cw'), s')" and "cw_ok cw"
  shows "cw_ok cw'"
proof -
  obtain r1 lm s1 where a: "acquireLock E (cw_lockerManager cw) s = ((r1, lm), s1)" by (metis surj_pair)
  have lm: "\<not> lm_retryOnFail lm" "r1 = Inr True \<Longrightarrow> isLocked lm" "isLocked (cw_lockerManager cw) \<Longrightarrow> isLocked lm"
    using acquireLock_cases [OF a] assms(2) by (auto simp: cw_ok_def)
  have red: "lm_redlock lm" using a assms(2)
    by (auto simp: acquireLock_def acquireLockRetryOnFail_def cw_ok_def
        elim!: handleRedlockReply.elims split: option.splits prod.splits if_splits)
  then have ok1: "cw_ok (cw\<lparr>cw_lockerManager := lm\<rparr>)"
    using assms(2) lm by (auto simp: cw_ok_def runner_ok_def)
  have ok2: "cw_ok (cw\<lparr>cw_lockerManager := lm, cw_workerRunner := wr\<rparr>)"
    if "r1 = Inr True" "wr_run files (cw_workerRunner cw) = Inr (e, wr)" for wr e
    using assms(2) lm red that wr_run_ok [OF _ that(2)] by (auto simp: cw_ok_def)
  from assms(1) a ok1 ok2 show ?thesis
    by (auto simp: cw_onTick_def Let_def dest: cw_nextTick_ok
        split: sum.splits if_splits option.splits prod.splits)
qed

lemma cw_fire_ok:
  assumes "cw_fire E files cw s = ((r, cw'), s')" and "cw_ok cw" "tk_timeout (cw_ticker cw) = Armed"
  shows "cw_ok cw'"
proof -
  let ?tk = "(cw_ticker cw)\<lparr>tk_timeout := NoTimer\<rparr>"
  obtain fn tk where t: "onTick ?tk = (fn, tk)" by (metis surj_pair)
  then have "tk_running tk" using assms(2,3)
    by (auto simp: cw_ok_def onTick_def tk_running_def split: if_splits)
  then have "cw_ok (cw\<lparr>cw_ticker := tk\<rparr>)" using assms(2) by (simp add: cw_ok_def)
  with assms(1) t show ?thesis
    by (auto simp: cw_fire_def dest: cw_onTick_ok split: option.splits)
qed

lemma cw_reach_ok: "cw_reach E cw0 cw \<Longrightarrow> cw_ok cw0 \<Longrightarrow> cw_ok cw"
  by (induction rule: cw_reach.induct) (auto dest: cw_fire_ok)

lemma cw_quit_spec:
  assumes "cw_ok cw" and "cw_quit E cw s = ((r, cw'), s')"
  shows "tk_stopped (cw_ticker cw') \<and> wr_workers (cw_workerRunner cw') = [] \<and>
    \<not> isRunning (wr_powerManager (cw_workerRunner cw')) \<and>
    (case r of Inl e \<Rightarrow> \<exists>x. e = Cb x | Inr killed \<Rightarrow>
       mset killed = mset (wr_workers (cw_workerRunner cw)) \<and> \<not> isLocked (cw_lockerManager cw'))"
proof -
  obtain tk where tk: "tk_quit (cw_ticker cw) = Inr tk" "tk_stopped tk"
    using assms(1) by (auto simp: cw_ok_def tk_defs pm_defs tk_phases)
  obtain killed wr where wr: "wr_shutdown (cw_workerRunner cw) = Inr (killed, wr)" "wr_workers wr = []"
    "\<not> isRunning (wr_powerManager wr)" "mset killed = mset (wr_workers (cw_workerRunner cw))"
    using assms(1)
    by (auto simp: cw_ok_def runner_ok_def wr_shutdown_def shutdownFn_rev bindR_def)
  obtain r2 lm s2 where lm: "lm_quit E (cw_lockerManager cw) s = ((r2, lm), s2)" by (metis surj_pair)
  then have "case r2 of Inl e \<Rightarrow> \<exists>x. e = Cb x | Inr _ \<Rightarrow> \<not> isLocked lm"
    using assms(1)
    by (auto simp: cw_ok_def lm_quit_def releaseLock_def isLocked_def Let_def
        split: option.splits sum.splits prod.splits if_splits)
  with assms(2) tk wr lm show ?thesis
    by (auto simp: cw_quit_def split: sum.splits)
qed

section \<open>Properties\<close>


text \<open>C34. A lock that expired is not noticed: when redlock refuses to extend it (as it does for a lock that has
  expired or was taken over), the instance keeps asking to extend that same lock at every tick, never
  tries to get the lock again, and its workers keep running beside those of whoever has the lock now.\<close>

theorem lost_lock_unnoticed:
  assumes "newConsumerWorkers = Inr cw0" and "cw_reach E cw0 cw"
    and "lm_acquiredLock (cw_lockerManager cw) = Some tok"
    and "isRunning (wr_powerManager (cw_workerRunner cw))"
    and "\<And>s. \<exists>s'. p_rextend E tok (lm_ttl (cw_lockerManager cw)) s = (Inl LockError, s')"
    and "cw_reach E cw cw'"
  shows "cw_lockerManager cw' = cw_lockerManager cw \<and> cw_workerRunner cw' = cw_workerRunner cw"
  using assms(6)
proof (induction rule: cw_reach.induct)
  case cw_start
  show ?case by simp
next
  case (cw_tick cw1 files s r cw2 s')
  have nr: "\<not> lm_retryOnFail (cw_lockerManager cw)"
    using cw_reach_ok [OF assms(2) cw_new [OF assms(1)]] by (simp add: cw_ok_def)
  have "acquireLock E (cw_lockerManager cw) s0 = ((Inr False, cw_lockerManager cw), snd (p_rextend E tok (lm_ttl (cw_lockerManager cw)) s0))" for s0
    using assms(3) assms(5) [of s0] nr by (auto simp: acquireLock_def acquireLockRetryOnFail_def)
  with cw_tick assms(4) show ?case
    by (auto simp: cw_fire_def cw_onTick_def cw_nextTick_def Let_def split: option.splits sum.splits prod.splits)
qed

section \<open>Examples\<close>

definition demo_workers :: consumerWorkers where
  "demo_workers = \<lparr>cw_ticker = \<lparr>tk_powerManager = pm_up, tk_onTickFn = (), tk_onNextTickFn = None, tk_timeout = Armed, tk_interval = NoTimer\<rparr>,
     cw_lockerManager = newLockManager (gkey KEY_LOCK_CONSUMER_WORKERS_RUNNER) 10000 False, cw_workerRunner = newWorkerRunner\<rparr>"

text \<open>Redlock grants the lock and later refuses to extend it.\<close>

definition expiring :: "mem platform" where
  "expiring = (mem_platform 0)\<lparr>p_rlock := (\<lambda>k t s. (Inr (Some k), s)), p_rextend := (\<lambda>l t s. (Inl LockError, s))\<rparr>"

definition forked_workers :: consumerWorkers where
  "forked_workers = demo_workers\<lparr>
     cw_lockerManager := (cw_lockerManager demo_workers)\<lparr>lm_acquiredLock := Some (gkey KEY_LOCK_CONSUMER_WORKERS_RUNNER)\<rparr>,
     cw_workerRunner := \<lparr>wr_powerManager = pm_up, wr_workers = [''gc.worker.js'']\<rparr>\<rparr>"

lemma demo_workers_new: "newConsumerWorkers = Inr demo_workers"
  by (simp add: newConsumerWorkers_def demo_workers_def tk_defs pm_defs pm_up_def pm_down_def getGlobalKeys_def)

lemma demo_workers_tick:
  "cw_fire expiring (Inr [''gc.worker.js'', ''README'']) demo_workers mem0 = ((Inr (), forked_workers), mem0)"
  by (simp add: cw_fire_def cw_onTick_def cw_nextTick_def demo_workers_def forked_workers_def expiring_def acquireLock_def newLockManager_def newWorkerRunner_def
      wr_run_def isWorkerFile_def suffix_def onTick_def nextTick_def commitIfGoingUp_def)

lemma demo_workers_reach: "cw_reach expiring demo_workers forked_workers"
  by (rule cw_tick [OF cw_start _ demo_workers_tick]) (simp add: demo_workers_def)


theorem lost_lock_unnoticed_witness:
  "\<exists>cw'. cw_fire expiring (Inr []) forked_workers mem0 = ((Inr (), cw'), mem0) \<and>
     wr_workers (cw_workerRunner cw') = [''gc.worker.js'']"
proof -
  obtain cw' where f: "cw_fire expiring (Inr []) forked_workers mem0 = ((Inr (), cw'), mem0)"
    by (simp add: cw_fire_def cw_onTick_def cw_nextTick_def demo_workers_def forked_workers_def expiring_def
        acquireLock_def acquireLockRetryOnFail_def newLockManager_def onTick_def nextTick_def commitIfGoingUp_def)
  have "cw_reach expiring forked_workers cw'"
    by (rule cw_tick [OF cw_start _ f]) (simp add: forked_workers_def demo_workers_def)
  from lost_lock_unnoticed [OF demo_workers_new demo_workers_reach _ _ _ this] f show ?thesis
    by (simp add: forked_workers_def expiring_def)
qed

end
