(* ===== verification/Consumer.thy ===== *)
theory Consumer
  imports Workers Consumer_Workers
begin

text \<open>
  \<^verbatim>\<open>src/system/consumer/consumer.ts\<close> as a state machine. The record extends that of \<open>Base\<close> by the consumer's
  own fields and by what its closures and outstanding calls hold: the number of dequeue calls that were not
  answered yet, the local variables of every \<open>handleConsume\<close>, and the acknowledgements on their way to Redis.
  Every callback of the code is an operation; the events of a run say which callback comes next. What the
  application does in \<open>consume\<close> is an argument.
\<close>

section \<open>State\<close>

text \<open>The variables \<open>isTimeout\<close> and \<open>timer\<close> of one \<open>handleConsume\<close>; \<open>d_timer\<close> holds while the timer can fire.\<close>

record delivery =
  d_msg :: message
  d_isTimeout :: bool
  d_timer :: bool

datatype brokerCall = Acknowledge message | Unacknowledge message EMessageUnacknowledgedCause

primrec call_msg :: "brokerCall \<Rightarrow> message" where
  "call_msg (Acknowledge m) = m"
| "call_msg (Unacknowledge m cause) = m"

record consumer = "consumerMessageRate base" +
  c_consumerRedisClient :: bool
  c_heartbeat :: "unit ticker option"
  c_consumerWorkers :: "consumerWorkers option"
  c_consumerFrontend :: bool
  c_dequeues :: nat
  c_deliveries :: "delivery list"
  c_calls :: "brokerCall list"

type_synonym 's consumer_io = "(consumer \<times> 's, unit) io"

text \<open>What one call of the application's \<open>consume\<close> does before it returns: the calls of its callback, with the
  error if any, and whether it throws in the end.\<close>

record consume_run =
  cr_calls :: "err option list"
  cr_throws :: bool

section \<open>Handlers\<close>

text \<open>A statement whose callback may never be called: the statement itself returns.\<close>

definition returns :: "'s consumer_io \<Rightarrow> 's consumer_io" where
  "returns m x = (case m x of (Inl NoReply, x') \<Rightarrow> (Inr (), x') | r \<Rightarrow> r)"

definition getConsumerRedisClient :: "'s consumer_io \<Rightarrow> 's consumer_io" where
  "getConsumerRedisClient f x =
     (if \<not> c_consumerRedisClient (fst x) then handleError (PanicError ''Expected an instance of RedisClient'') x
      else f x)"

definition callBroker :: "brokerCall \<Rightarrow> 's consumer_io" where
  "callBroker call = returns (getBroker (\<lambda>_. modB (\<lambda>c. c\<lparr>c_calls := c_calls c @ [call]\<rparr>)))"

definition consumer_unacknowledgeMessage :: "message \<Rightarrow> EMessageUnacknowledgedCause \<Rightarrow> 's consumer_io" where
  "consumer_unacknowledgeMessage msg cause = callBroker (Unacknowledge msg cause)"

text \<open>The handler of \<open>MESSAGE_NEXT\<close>: a dequeue is issued while the consumer is running.\<close>

definition messageNext :: "'s consumer_io" where
  "messageNext x =
     (if isRunning (b_powerManager (fst x)) then
        getConsumerRedisClient (returns (getBroker (\<lambda>_. modB (\<lambda>c. c\<lparr>c_dequeues := c_dequeues c + 1\<rparr>)))) x
      else retM () x)"

definition upd_delivery :: "nat \<Rightarrow> (delivery \<Rightarrow> delivery) \<Rightarrow> consumer \<Rightarrow> consumer" where
  "upd_delivery i f c = c\<lparr>c_deliveries := (c_deliveries c)[i := f (c_deliveries c ! i)]\<rparr>"

text \<open>The callback of the timer of the \<open>i\<close>-th delivery.\<close>

definition onTimeout :: "nat \<Rightarrow> 's consumer_io" where
  "onTimeout i x =
     bindM (modB (upd_delivery i (\<lambda>d. d\<lparr>d_isTimeout := True, d_timer := False\<rparr>))) (\<lambda>_.
       consumer_unacknowledgeMessage (d_msg (c_deliveries (fst x) ! i)) TIMEOUT) x"

text \<open>The callback handed to the application.\<close>

definition onConsumed :: "nat \<Rightarrow> err option \<Rightarrow> 's consumer_io" where
  "onConsumed i err x =
     (let d = c_deliveries (fst x) ! i in
      if isRunning (b_powerManager (fst x)) \<and> \<not> d_isTimeout d then
        bindM (modB (upd_delivery i (\<lambda>d. d\<lparr>d_timer := False\<rparr>))) (\<lambda>_.
          case err of
            Some e \<Rightarrow> consumer_unacknowledgeMessage (d_msg d) UNACKNOWLEDGED
          | None \<Rightarrow> callBroker (Acknowledge (d_msg d))) x
      else retM () x)"

text \<open>An exception that reaches the \<open>catch\<close> clause, from the application or from its callback, unacknowledges
  the message. The timer is not cleared there.\<close>

definition handleConsume :: "consume_run \<Rightarrow> message \<Rightarrow> 's consumer_io" where
  "handleConsume run msg x =
     (if \<not> c_consumerFrontend (fst x) then throwM (PanicError ''Expected an instance of ConsumeHandler'') x
      else
        (let i = length (c_deliveries (fst x));
             d = \<lparr>d_msg = msg, d_isTimeout = False, d_timer = consumeTimeout msg \<noteq> 0\<rparr>;
             x1 = ((fst x)\<lparr>c_deliveries := c_deliveries (fst x) @ [d]\<rparr>, snd x) in
         case waterfall (map (onConsumed i) (cr_calls run)) x1 of
           (Inl (Throw e), x2) \<Rightarrow> consumer_unacknowledgeMessage msg CAUGHT_ERROR x2
         | (r, x2) \<Rightarrow> if cr_throws run then consumer_unacknowledgeMessage msg CAUGHT_ERROR x2 else (r, x2)))"

definition countRate :: "(consumerMessageRate \<Rightarrow> consumerMessageRate) \<Rightarrow> 's consumer_io" where
  "countRate f = modB (\<lambda>c. c\<lparr>b_messageRate := map_option f (b_messageRate c)\<rparr>)"

definition handleReceivedMessage :: "'s platform \<Rightarrow> consume_run \<Rightarrow> rstr \<Rightarrow> 's consumer_io" where
  "handleReceivedMessage E run json =
     bindM (liftT (createFromMessage (freshMessage E) (Some json) False)) (\<lambda>message0.
       case hasExpired (p_now E) message0 of (ex, message) \<Rightarrow>
         if ex then consumer_unacknowledgeMessage message CAUSE_TTL_EXPIRED
         else bindM (countRate (incrementProcessingSlot (p_now E))) (\<lambda>_. handleConsume run message))"

text \<open>The callback of \<open>dequeueMessage\<close>. A poll of a priority queue that finds nothing leaves the call
  unanswered.\<close>

definition dequeueReply :: "'s platform \<Rightarrow> consume_run \<Rightarrow> 's consumer_io" where
  "dequeueReply E run x =
     (case b_broker (fst x) of
        None \<Rightarrow> (Inr (), x)
      | Some mm \<Rightarrow>
          (case br_dequeueMessage E (cfg_priorityQueue (b_config (fst x))) (b_queueName (fst x)) (b_id (fst x))
                  (\<lambda>_ s. s) 1 mm (snd x) of
             ((r, mm'), s') \<Rightarrow>
               (let c = (fst x)\<lparr>b_broker := Some mm'\<rparr>; x' = (c\<lparr>c_dequeues := c_dequeues c - 1\<rparr>, s') in
                case r of
                  Inl NoReply \<Rightarrow> (Inr (), (c, s'))
                | Inl (Cb e) \<Rightarrow> handleError e x'
                | Inl (Throw e) \<Rightarrow> throwM e x'
                | Inr None \<Rightarrow> handleError EmptyCallbackReplyError x'
                | Inr (Some msgStr) \<Rightarrow> handleReceivedMessage E run msgStr x')))"

text \<open>The oldest call of the broker reaches Redis and its callback is run: an error is emitted, a success
  counted and followed by \<open>MESSAGE_NEXT\<close>.\<close>

definition brokerOp :: "'s platform \<Rightarrow> consumer \<Rightarrow> brokerCall \<Rightarrow> ('s, unit) io" where
  "brokerOp E c call =
     (let kp = keyQueueProcessing (getInstanceKeys (p_ns E) (b_queueName c) (b_id c)) in
      case call of
        Acknowledge m \<Rightarrow> br_acknowledgeMessage E (b_queueName c) kp m
      | Unacknowledge m cause \<Rightarrow> unacknowledgeMessage E (b_queueName c) kp m cause)"

definition settleCall :: "'s platform \<Rightarrow> 's consumer_io" where
  "settleCall E x =
     (case c_calls (fst x) of
        [] \<Rightarrow> (Inr (), x)
      | call # calls \<Rightarrow>
          (case onRedis (brokerOp E (fst x) call) ((fst x)\<lparr>c_calls := calls\<rparr>, snd x) of
             (Inl (Cb e), x') \<Rightarrow> handleError e x'
           | (Inl e, x') \<Rightarrow> (Inl e, x')
           | (Inr _, x') \<Rightarrow>
               bindM (countRate (case call of Acknowledge _ \<Rightarrow> incrementAcknowledgedSlot (p_now E)
                                 | Unacknowledge _ _ \<Rightarrow> incrementUnacknowledgedSlot (p_now E))) (\<lambda>_. messageNext) x'))"

section \<open>Starting and stopping\<close>

definition newHeartbeat :: "unit ticker result" where
  "newHeartbeat = bindR (newTicker ()) nextTick"

text \<open>\<open>quit\<close> of the heartbeat: stop the ticker, delete the heartbeat; halting the client is I/O.\<close>

definition heartbeat_quit :: "'s platform \<Rightarrow> string \<Rightarrow> string \<Rightarrow> unit ticker \<Rightarrow> ('s, unit) io" where
  "heartbeat_quit E queueName consumerId tk =
     bindM (liftT (tk_quit tk)) (\<lambda>_. expireHeartbeat E queueName consumerId)"

definition setUpConsumerRedisClient :: "unit result \<Rightarrow> 's consumer_io" where
  "setUpConsumerRedisClient conn =
     (case conn of Inl e \<Rightarrow> cbErr e | Inr _ \<Rightarrow> modB (\<lambda>c. c\<lparr>c_consumerRedisClient := True\<rparr>))"

definition setUpHeartbeat :: "unit result \<Rightarrow> 's consumer_io" where
  "setUpHeartbeat conn =
     (case conn of
        Inl e \<Rightarrow> cbErr e
      | Inr _ \<Rightarrow> bindM (liftT newHeartbeat) (\<lambda>tk. modB (\<lambda>c. c\<lparr>c_heartbeat := Some tk\<rparr>)))"

definition setUpConsumerWorkers :: "'s consumer_io" where
  "setUpConsumerWorkers =
     getSharedRedisClient (bindM (liftT newConsumerWorkers) (\<lambda>cw. modB (\<lambda>c. c\<lparr>c_consumerWorkers := Some cw\<rparr>)))"

definition setUpConsumerProcessingQueue :: "'s platform \<Rightarrow> 's consumer_io" where
  "setUpConsumerProcessingQueue E =
     getSharedRedisClient (\<lambda>x. onRedis (setUpProcessingQueue E (b_queueName (fst x)) (b_id (fst x))) x)"

definition consumer_newRate :: "'s platform \<Rightarrow> consumer \<Rightarrow> consumerMessageRate" where
  "consumer_newRate E c = newConsumerMessageRate E (b_queueName c) (b_id c)"

text \<open>The connections are made in this order: shared, consumer, heartbeat.\<close>

definition consumer_goingUp :: "'s platform \<Rightarrow> unit result \<times> unit result \<times> unit result \<Rightarrow> 's consumer_io list" where
  "consumer_goingUp E conns =
     (case conns of (shared, own, hb) \<Rightarrow>
        base_goingUp E shared (consumer_newRate E) @
        [setUpConsumerRedisClient own, setUpHeartbeat hb, setUpConsumerWorkers, setUpConsumerProcessingQueue E])"

text \<open>The callbacks handed to \<open>quit\<close> ignore errors.\<close>

definition tearDownConsumerWorkers :: "'s platform \<Rightarrow> 's consumer_io" where
  "tearDownConsumerWorkers E x =
     (case c_consumerWorkers (fst x) of
        None \<Rightarrow> retM () x
      | Some cw \<Rightarrow>
          (case cw_quit E cw (snd x) of
             ((Inl (Throw e), cw'), s') \<Rightarrow> (Inl (Throw e), (fst x, s'))
           | (_, s') \<Rightarrow> (Inr (), ((fst x)\<lparr>c_consumerWorkers := None\<rparr>, s'))))"

definition tearDownHeartbeat :: "'s platform \<Rightarrow> 's consumer_io" where
  "tearDownHeartbeat E x =
     (case c_heartbeat (fst x) of
        None \<Rightarrow> retM () x
      | Some tk \<Rightarrow>
          whateverComes (onRedis (heartbeat_quit E (b_queueName (fst x)) (b_id (fst x)) tk))
            (modB (\<lambda>c. c\<lparr>c_heartbeat := None\<rparr>)) x)"

definition tearDownConsumerRedisClient :: "'s consumer_io" where
  "tearDownConsumerRedisClient = modB (\<lambda>c. c\<lparr>c_consumerRedisClient := False\<rparr>)"

definition consumer_goingDown :: "'s platform \<Rightarrow> 's consumer_io list" where
  "consumer_goingDown E =
     [tearDownConsumerWorkers E, tearDownHeartbeat E, tearDownConsumerRedisClient] @ base_goingDown"

text \<open>\<open>run\<close> of the frontend: the frontend is registered, the consumer is started and, on \<open>UP\<close>, asks for its
  first message.\<close>

definition consumer_run :: "'s platform \<Rightarrow> unit result \<times> unit result \<times> unit result \<Rightarrow> 's consumer_io" where
  "consumer_run E conns =
     bindM (modB (\<lambda>c. c\<lparr>c_consumerFrontend := True\<rparr>)) (\<lambda>_.
     bindM (base_run (consumer_goingUp E conns)) (\<lambda>_. messageNext))"

definition consumer_shutdown :: "'s platform \<Rightarrow> 's consumer_io" where
  "consumer_shutdown E = base_shutdown (consumer_goingDown E)"

section \<open>Events\<close>

text \<open>\<open>StartDown\<close> and \<open>EndDown\<close> are the two halves of \<open>shutdown\<close>: other callbacks may come in between.\<close>

datatype consumer_event =
    Reply consume_run | TimerFires nat | Consumed nat "err option" | Settled | StartDown | EndDown

fun consumer_step :: "'s platform \<Rightarrow> consumer_event \<Rightarrow> 's consumer_io" where
  "consumer_step E (Reply run) = dequeueReply E run"
| "consumer_step E (TimerFires i) = onTimeout i"
| "consumer_step E (Consumed i err) = onConsumed i err"
| "consumer_step E Settled = settleCall E"
| "consumer_step E StartDown = switchPower goingDown"
| "consumer_step E EndDown = whateverComes (waterfall (consumer_goingDown E)) (switchPower commit)"

text \<open>Which callbacks can come: an unanswered dequeue on an open connection, an armed timer, a callback the
  application was given, a call on its way.\<close>

fun consumer_enabled :: "consumer_event \<Rightarrow> consumer \<Rightarrow> bool" where
  "consumer_enabled (Reply run) c \<longleftrightarrow> c_dequeues c > 0 \<and> c_consumerRedisClient c"
| "consumer_enabled (TimerFires i) c \<longleftrightarrow> i < length (c_deliveries c) \<and> d_timer (c_deliveries c ! i)"
| "consumer_enabled (Consumed i err) c \<longleftrightarrow> i < length (c_deliveries c)"
| "consumer_enabled Settled c \<longleftrightarrow> c_calls c \<noteq> [] \<and> b_sharedRedisClient c"
| "consumer_enabled StartDown c \<longleftrightarrow> isRunning (b_powerManager c)"
| "consumer_enabled EndDown c \<longleftrightarrow> isGoingDown (b_powerManager c)"

definition guarded_step :: "'s platform \<Rightarrow> consumer_event \<Rightarrow> 's consumer_io" where
  "guarded_step E ev x = (if consumer_enabled ev (fst x) then consumer_step E ev x else (Inl NoReply, x))"

section \<open>Orderly runs\<close>

text \<open>A message is ready: the pending queue is not empty and holds texts of messages.\<close>

definition queue_ready :: "'s platform \<Rightarrow> string \<Rightarrow> string \<Rightarrow> bool \<Rightarrow> store \<Rightarrow> bool" where
  "queue_ready E nm inst wp st \<longleftrightarrow>
     (if wp then \<exists>zs. zs \<noteq> [] \<and> prio_msgs st (consumerHandler E nm inst) zs
      else \<exists>ms. ms \<noteq> [] \<and> msgs_at st (qkey KEY_QUEUE (p_ns E) nm) ms)"

text \<open>An application that uses its callback at most once, throws only instead of using it, and throws only for
  messages without a consume timeout (\<open>c\<close> is the consumer afterwards).\<close>

definition polite :: "consume_run \<Rightarrow> consumer \<Rightarrow> bool" where
  "polite run c \<longleftrightarrow> length (cr_calls run) + of_bool (cr_throws run) \<le> 1 \<and>
     (cr_throws run \<longrightarrow> list_all (\<lambda>d. \<not> d_timer d) (c_deliveries c))"

text \<open>The delivery, if any, whose callback the application still has.\<close>

definition opened :: "consume_run \<Rightarrow> consumer \<Rightarrow> consumer \<Rightarrow> nat set" where
  "opened run c c' =
     (if length (c_deliveries c) < length (c_deliveries c') \<and> cr_calls run = [] \<and> \<not> cr_throws run
      then {length (c_deliveries c)} else {})"

text \<open>The states a consumer reaches with a polite application. The set holds the deliveries whose callback was
  not used yet. Other processes may change Redis at any time, but not the consumer's processing queue.\<close>

inductive orderly :: "'s platform \<Rightarrow> ('s \<Rightarrow> store) \<Rightarrow> consumer \<Rightarrow> 's \<Rightarrow> nat set \<Rightarrow> consumer \<Rightarrow> 's \<Rightarrow> bool"
  for E view c0 s0 where
  ord_start: "orderly E view c0 s0 {} c0 s0"
| ord_reply: "orderly E view c0 s0 Q c s \<Longrightarrow> consumer_enabled (Reply run) c \<Longrightarrow>
    queue_ready E (b_queueName c) (b_id c) (cfg_priorityQueue (b_config c)) (view s) \<Longrightarrow>
    consumer_step E (Reply run) (c, s) = (Inr (), (c', s')) \<Longrightarrow> polite run c' \<Longrightarrow>
    orderly E view c0 s0 (Q \<union> opened run c c') c' s'"
| ord_consumed: "orderly E view c0 s0 Q c s \<Longrightarrow> i \<in> Q \<Longrightarrow>
    consumer_step E (Consumed i err) (c, s) = (Inr (), (c', s')) \<Longrightarrow> orderly E view c0 s0 (Q - {i}) c' s'"
| ord_event: "orderly E view c0 s0 Q c s \<Longrightarrow> consumer_enabled ev c \<Longrightarrow>
    ev \<in> {Settled, StartDown, EndDown} \<union> range TimerFires \<Longrightarrow>
    consumer_step E ev (c, s) = (Inr (), (c', s')) \<Longrightarrow> orderly E view c0 s0 Q c' s'"
| ord_others: "orderly E view c0 s0 Q c s \<Longrightarrow>
    (let kp = ikey KEY_QUEUE_PROCESSING (p_ns E) (b_queueName c) (b_id c) in
      lists (view s') kp = lists (view s) kp \<and> list_only (view s') kp) \<Longrightarrow>
    orderly E view c0 s0 Q c s'"

section \<open>Facts about single operations\<close>

lemma handleError_Inr: "handleError e x = (Inr (), x') \<longleftrightarrow>
    x' = x \<and> \<not> isGoingUp (b_powerManager (fst x)) \<and> \<not> isRunning (b_powerManager (fst x))"
  by (auto simp: handleError_def)

lemma callBroker_Some: "b_broker c \<noteq> None \<Longrightarrow> callBroker call (c, s) = (Inr (), (c\<lparr>c_calls := c_calls c @ [call]\<rparr>, s))"
  by (auto simp: callBroker_def returns_def getBroker_def)

lemma callBroker_cases:
  assumes "callBroker call (c, s) = (Inr (), (c', s'))"
  shows "s' = s \<and> (c' = c\<lparr>c_calls := c_calls c @ [call]\<rparr> \<or> c' = c \<and> \<not> isRunning (b_powerManager c))"
  using assms by (auto simp: callBroker_def returns_def getBroker_def handleError_def split: option.splits if_splits)

lemma messageNext_cases:
  assumes "messageNext (c, s) = (Inr (), (c', s'))"
  shows "s' = s \<and> (c' = c\<lparr>c_dequeues := c_dequeues c + 1\<rparr> \<or> c' = c \<and> \<not> isRunning (b_powerManager c))"
  using assms
  by (auto simp: messageNext_def getConsumerRedisClient_def returns_def getBroker_def handleError_def retM_def
      split: option.splits if_splits)

text \<open>Deliveries that can still do something: the callback was not used, or the timer can fire.\<close>

definition active :: "nat set \<Rightarrow> delivery list \<Rightarrow> nat set" where
  "active Q ds = {i. i < length ds \<and> \<not> d_isTimeout (ds ! i) \<and> (i \<in> Q \<or> d_timer (ds ! i))}"

definition holds_msg :: "rstr list \<Rightarrow> message \<Rightarrow> bool" where
  "holds_msg xs m \<longleftrightarrow> (\<exists>m'. xs = [toString m'] \<and> uuid m' = uuid m)"

text \<open>The consumer waits for a message, or the application has one, or one is being settled. A consumer that is
  not running may also do none of this.\<close>

definition phase_ok :: "nat set \<Rightarrow> consumer \<Rightarrow> rstr list \<Rightarrow> bool" where
  "phase_ok Q c xs \<longleftrightarrow>
     c_dequeues c = 1 \<and> active Q (c_deliveries c) = {} \<and> c_calls c = [] \<and> xs = [] \<or>
     c_dequeues c = 0 \<and> c_calls c = [] \<and>
       (\<exists>i. active Q (c_deliveries c) = {i} \<and> holds_msg xs (d_msg (c_deliveries c ! i))) \<or>
     c_dequeues c = 0 \<and> active Q (c_deliveries c) = {} \<and> (\<exists>call. c_calls c = [call] \<and> holds_msg xs (call_msg call)) \<or>
     c_dequeues c = 0 \<and> active Q (c_deliveries c) = {} \<and> c_calls c = [] \<and> \<not> isRunning (b_powerManager c) \<and>
       length xs \<le> 1"

definition handler_ok :: "'s platform \<Rightarrow> string \<Rightarrow> string \<Rightarrow> messageManager option \<Rightarrow> bool" where
  "handler_ok E nm inst broker \<longleftrightarrow>
     (case broker of None \<Rightarrow> True
      | Some mm \<Rightarrow> mm_dequeueHandler mm \<in> {None, Some (consumerHandler E nm inst)})"

definition consumer_inv :: "'s platform \<Rightarrow> ('s \<Rightarrow> store) \<Rightarrow> string \<Rightarrow> string \<Rightarrow> nat set \<Rightarrow> consumer \<Rightarrow> 's \<Rightarrow> bool" where
  "consumer_inv E view nm inst Q c s \<longleftrightarrow>
     b_queueName c = nm \<and> b_id c = inst \<and> handler_ok E nm inst (b_broker c) \<and>
     list_all (\<lambda>d. d_timer d \<longrightarrow> \<not> d_isTimeout d) (c_deliveries c) \<and>
     (\<forall>i \<in> Q. i < length (c_deliveries c)) \<and>
     list_only (view s) (ikey KEY_QUEUE_PROCESSING (p_ns E) nm inst) \<and>
     phase_ok Q c (lists (view s) (ikey KEY_QUEUE_PROCESSING (p_ns E) nm inst))"

lemma active_upd_timeout:
  "i < length ds \<Longrightarrow> active Q (ds[i := (ds ! i)\<lparr>d_isTimeout := True, d_timer := False\<rparr>]) = active Q ds - {i}"
  by (auto simp: active_def nth_list_update)

lemma active_upd_clear:
  "i < length ds \<Longrightarrow> active (Q - {i}) (ds[i := (ds ! i)\<lparr>d_timer := False\<rparr>]) = active Q ds - {i}"
  by (auto simp: active_def nth_list_update split: if_splits)

lemma active_snoc:
  assumes "\<forall>i \<in> Q. i < length ds" and "active Q ds = {}"
  shows "active Q (ds @ [d]) = (if \<not> d_isTimeout d \<and> d_timer d then {length ds} else {})"
    "active (insert (length ds) Q) (ds @ [d]) = (if \<not> d_isTimeout d then {length ds} else {})"
  using assms by (auto simp: active_def nth_append less_Suc_eq)

text \<open>The application is done with the \<open>i\<close>-th delivery: its callback was ignored, or it has been timed out.\<close>

lemma active_remove: "active (Q - {i}) ds = active Q ds \<or> active (Q - {i}) ds = active Q ds - {i}"
  by (auto simp: active_def)

section \<open>What the operations do to Redis\<close>

definition settled_view :: "string \<Rightarrow> string \<Rightarrow> key \<Rightarrow> rstr \<Rightarrow> int \<Rightarrow> brokerCall \<Rightarrow> store \<Rightarrow> store" where
  "settled_view n nm kp x now call st =
     (case call of
        Acknowledge m \<Rightarrow> (let k = qkey KEY_QUEUE_ACKNOWLEDGED_MESSAGES n nm in moved kp k (lists st k @ [x]) st)
      | Unacknowledge m cause \<Rightarrow> fate_view n nm kp x (fate_of now cause m) st)"

context queue_client
begin

lemma dequeue_priority_step:
  assumes zs: "prio_msgs (view s) (consumerHandler E nm inst) ((m, sc) # rest)"
  shows "\<exists>s'. dequeueWithPriority E (consumerHandler E nm inst) (\<lambda>_ x. x) 0 1 s = (Inr (toString m), s') \<and> body m \<noteq> None \<and>
    prio_msgs (view s') (consumerHandler E nm inst) rest \<and>
    view s' = set_list (ikey KEY_QUEUE_PROCESSING (p_ns E) nm inst)
      (lists (view s) (ikey KEY_QUEUE_PROCESSING (p_ns E) nm inst) @ [toString m])
      (set_hash (qkey KEY_PENDING_MESSAGES_WITH_PRIORITY (p_ns E) nm)
        ((hashes (view s) (qkey KEY_PENDING_MESSAGES_WITH_PRIORITY (p_ns E) nm))(Str (uuid m) := None))
        (set_zset (qkey KEY_QUEUE_PRIORITY (p_ns E) nm)
          (tl (zsets (view s) (qkey KEY_QUEUE_PRIORITY (p_ns E) nm))) (view s)))"
proof -
  let ?h = "consumerHandler E nm inst"
  have b: "body m \<noteq> None" using zs by (simp add: prio_msgs_def zmsgs_at_def)
  obtain s' where g: "prio_get E ?h s m s'" using prio_get_enabled [OF zs] by blast
  then obtain t where t: "dequeueWithPriority E ?h (\<lambda>_ x. x) 0 1 s = (Inr t, s')"
    by (auto simp: prio_get_def)
  then have r: "rc_zpophgetrpush E (dh_keyQueuePriority ?h) (dh_keyPendingMessagesWithPriority ?h)
      (dh_keyQueueProcessing ?h) s = (Inr (Some t), s')"
    by (auto split: prod.splits sum.splits option.splits)
  have "t = toString m" using rc_zpophgetrpush_ok [OF r] zs by (auto simp: prio_msgs_def zmsgs_at_def)
  with t b prio_get_inv [OF g zs] show ?thesis by auto
qed

lemma dequeue_ready:
  assumes "queue_ready E nm inst wp (view s)" and "mm_dequeueHandler mm \<in> {None, Some (consumerHandler E nm inst)}"
    and kp: "kp = ikey KEY_QUEUE_PROCESSING (p_ns E) nm inst" and "lists (view s) kp = []" "list_only (view s) kp"
  shows "\<exists>m s'. br_dequeueMessage E wp nm inst (\<lambda>_ s. s) 1 mm s =
      ((Inr (Some (toString m)), \<lparr>mm_dequeueHandler = Some (consumerHandler E nm inst)\<rparr>), s') \<and>
    body m \<noteq> None \<and> lists (view s') kp = [toString m] \<and> list_only (view s') kp"
proof -
  let ?h = "consumerHandler E nm inst"
  have h: "getDequeueHandler E nm (keyQueueProcessing (getInstanceKeys (p_ns E) nm inst)) mm =
      (?h, \<lparr>mm_dequeueHandler = Some ?h\<rparr>)"
    using assms(2) by (cases mm) (auto simp: getDequeueHandler_def consumerHandler_def Let_def)
  show ?thesis
  proof (cases wp)
    case False
    then obtain ms where ms: "ms \<noteq> []" "msgs_at (view s) (qkey KEY_QUEUE (p_ns E) nm) ms"
      using assms(1) by (auto simp: queue_ready_def)
    then have at: "msgs_at (view s) (qkey KEY_QUEUE (p_ns E) nm) (butlast ms @ [last ms])" by simp
    from msgs_at_body [OF at, of "last ms"] have "body (last ms) \<noteq> None" by simp
    with dequeue_step [OF at] False h assms(4,5) show ?thesis
      by (auto simp: br_dequeueMessage_def mm_dequeueMessage_def kp list_only_def Let_def)
  next
    case True
    then obtain m sc rest where zs: "prio_msgs (view s) ?h ((m, sc) # rest)"
      using assms(1) by (auto simp: queue_ready_def neq_Nil_conv)
    with dequeue_priority_step [OF zs] True h assms(4,5) processing_keys_ne show ?thesis
      by (auto simp: br_dequeueMessage_def mm_dequeueMessageWithPriority_def kp list_only_def Let_def)
  qed
qed

lemma brokerOp_live:
  assumes "b_queueName c = nm" "b_id c = inst" and kp: "kp = ikey KEY_QUEUE_PROCESSING (p_ns E) nm inst"
    and "lists (view s) kp = [x]" "list_only (view s) kp"
  shows "\<exists>s'. brokerOp E c call s = (Inr (), s') \<and> view s' = settled_view (p_ns E) nm kp x (p_now E) call (view s)"
proof (cases call)
  case (Acknowledge m)
  with processing_lpop [OF assms(4,5), of "qkey KEY_QUEUE_ACKNOWLEDGED_MESSAGES (p_ns E) nm"] processing_keys_ne assms
  show ?thesis
    by (simp add: brokerOp_def br_acknowledgeMessage_def mm_acknowledgeMessage_def acknowledge_def smq_keys
        settled_view_def moved_def Let_def)
next
  case (Unacknowledge m cause)
  with retry_live [OF kp assms(4,5), of m cause] assms(1-3) show ?thesis
    by (simp add: brokerOp_def unacknowledgeMessage_def settled_view_def smq_keys Let_def)
qed

lemma settled_view_frame:
  assumes "kp = ikey KEY_QUEUE_PROCESSING (p_ns E) nm inst" and "list_only st kp"
  shows "lists (settled_view (p_ns E) nm kp x now call st) kp = [] \<and> list_only (settled_view (p_ns E) nm kp x now call st) kp"
  using assms processing_keys_ne
  by (cases call) (auto simp: settled_view_def moved_def list_only_def fate_view_frame Let_def)

end

section \<open>The invariant is kept\<close>

lemma phase_active:
  assumes "phase_ok Q c xs" and "i \<in> active Q (c_deliveries c)"
  shows "c_dequeues c = 0" "c_calls c = []" "active Q (c_deliveries c) = {i}" "holds_msg xs (d_msg (c_deliveries c ! i))"
  using assms by (auto simp: phase_ok_def)

lemma phase_settling:
  "c_dequeues c = 0 \<Longrightarrow> active Q (c_deliveries c) = {} \<Longrightarrow> c_calls c = [call] \<Longrightarrow> holds_msg xs (call_msg call) \<Longrightarrow>
     phase_ok Q c xs"
  by (simp add: phase_ok_def)

lemma phase_processing:
  "c_dequeues c = 0 \<Longrightarrow> c_calls c = [] \<Longrightarrow> active Q (c_deliveries c) = {i} \<Longrightarrow>
     holds_msg xs (d_msg (c_deliveries c ! i)) \<Longrightarrow> phase_ok Q c xs"
  by (simp add: phase_ok_def)

lemma phase_quiet:
  "c_dequeues c = 0 \<Longrightarrow> active Q (c_deliveries c) = {} \<Longrightarrow> c_calls c = [] \<Longrightarrow> \<not> isRunning (b_powerManager c) \<Longrightarrow>
     length xs \<le> 1 \<Longrightarrow> phase_ok Q c xs"
  by (simp add: phase_ok_def)

lemma phase_length: "phase_ok Q c xs \<Longrightarrow> length xs \<le> 1"
  by (auto simp: phase_ok_def holds_msg_def)

text \<open>The last step of every outcome: the call is handed to the broker, or dropped by a consumer that is down.\<close>

lemma inv_callBroker:
  assumes "callBroker call (c, s) = (Inr (), (c', s'))" and "holds_msg xs (call_msg call)"
    and "c_dequeues c = 0" "active Q (c_deliveries c) = {}" "c_calls c = []"
  shows "s' = s \<and> phase_ok Q c' xs \<and> c_deliveries c' = c_deliveries c \<and>
    b_queueName c' = b_queueName c \<and> b_id c' = b_id c \<and> b_broker c' = b_broker c"
  using callBroker_cases [OF assms(1)] assms(2-5)
  by (auto simp: phase_ok_def holds_msg_def)

lemma upd_delivery_sel [simp]:
  "c_deliveries (upd_delivery i f c) = (c_deliveries c)[i := f (c_deliveries c ! i)]"
  "c_dequeues (upd_delivery i f c) = c_dequeues c" "c_calls (upd_delivery i f c) = c_calls c"
  "b_powerManager (upd_delivery i f c) = b_powerManager c" "b_queueName (upd_delivery i f c) = b_queueName c"
  "b_id (upd_delivery i f c) = b_id c" "b_broker (upd_delivery i f c) = b_broker c"
  by (simp_all add: upd_delivery_def)

lemma list_all_update: "list_all P xs \<Longrightarrow> P x \<Longrightarrow> list_all P (xs[i := x])"
  unfolding list_all_iff using set_update_subset_insert [of xs i x] by blast

lemma inv_timeout:
  assumes inv: "consumer_inv E view nm inst Q c s" and en: "consumer_enabled (TimerFires i) c"
    and st: "onTimeout i (c, s) = (Inr (), (c', s'))"
  shows "consumer_inv E view nm inst Q c' s'"
proof -
  let ?xs = "lists (view s) (ikey KEY_QUEUE_PROCESSING (p_ns E) nm inst)"
  let ?c1 = "upd_delivery i (\<lambda>d. d\<lparr>d_isTimeout := True, d_timer := False\<rparr>) c"
  from inv en have i: "i \<in> active Q (c_deliveries c)" "i < length (c_deliveries c)"
    by (auto simp: consumer_inv_def active_def list_all_length)
  have "phase_ok Q c ?xs" using inv by (simp add: consumer_inv_def)
  note ph = phase_active [OF this i(1)]
  from st have "callBroker (Unacknowledge (d_msg (c_deliveries c ! i)) TIMEOUT) (?c1, s) = (Inr (), (c', s'))"
    by (simp add: onTimeout_def bindM_def consumer_unacknowledgeMessage_def)
  from inv_callBroker [OF this, of ?xs Q] ph i inv show ?thesis
    by (simp add: consumer_inv_def active_upd_timeout list_all_update)
qed

lemma inv_consumed:
  assumes inv: "consumer_inv E view nm inst Q c s" and "i \<in> Q"
    and st: "onConsumed i err (c, s) = (Inr (), (c', s'))"
  shows "consumer_inv E view nm inst (Q - {i}) c' s'"
proof -
  let ?xs = "lists (view s) (ikey KEY_QUEUE_PROCESSING (p_ns E) nm inst)"
  have il: "i < length (c_deliveries c)" and ph: "phase_ok Q c ?xs"
    using inv assms(2) by (auto simp: consumer_inv_def)
  show ?thesis
  proof (cases "isRunning (b_powerManager c) \<and> \<not> d_isTimeout (c_deliveries c ! i)")
    case True
    then have ia: "i \<in> active Q (c_deliveries c)" using il assms(2) by (simp add: active_def)
    note ph = phase_active [OF ph ia]
    let ?c1 = "upd_delivery i (\<lambda>d. d\<lparr>d_timer := False\<rparr>) c"
    let ?call = "case err of Some e \<Rightarrow> Unacknowledge (d_msg (c_deliveries c ! i)) UNACKNOWLEDGED
      | None \<Rightarrow> Acknowledge (d_msg (c_deliveries c ! i))"
    from st True have "callBroker ?call (?c1, s) = (Inr (), (c', s'))"
      by (cases err) (simp_all add: onConsumed_def bindM_def consumer_unacknowledgeMessage_def Let_def)
    moreover have "holds_msg ?xs (call_msg ?call)" using ph by (simp split: option.split)
    ultimately show ?thesis
      using inv_callBroker [of ?call ?c1 s c' s' ?xs "Q - {i}"] ph ia il inv
      by (auto simp: consumer_inv_def active_upd_clear list_all_update)
  next
    case False
    with st have same: "c' = c" "s' = s" by (auto simp: onConsumed_def Let_def retM_def)
    have "phase_ok (Q - {i}) c ?xs"
    proof (cases "active (Q - {i}) (c_deliveries c) = active Q (c_deliveries c)")
      case True
      with ph show ?thesis by (simp add: phase_ok_def)
    next
      case changed: False
      then have ia: "i \<in> active Q (c_deliveries c)"
        using active_remove [of Q i "c_deliveries c"] by blast
      then have "\<not> isRunning (b_powerManager c)" using False by (simp add: active_def)
      moreover have "active (Q - {i}) (c_deliveries c) = {}"
        using active_remove [of Q i "c_deliveries c"] changed phase_active(3) [OF ph ia] by auto
      ultimately show ?thesis
        using phase_quiet phase_active [OF ph ia] phase_length [OF ph] by blast
    qed
    with inv same show ?thesis by (auto simp: consumer_inv_def)
  qed
qed

text \<open>What the tasks of a shutdown leave alone.\<close>

definition tame :: "('s \<Rightarrow> store) \<Rightarrow> key \<Rightarrow> consumer \<times> 's \<Rightarrow> consumer \<times> 's \<Rightarrow> bool" where
  "tame view kp x x' \<longleftrightarrow> (case (x, x') of ((c, s), (c', s')) \<Rightarrow>
     c_dequeues c' = c_dequeues c \<and> c_deliveries c' = c_deliveries c \<and> c_calls c' = c_calls c \<and>
     b_queueName c' = b_queueName c \<and> b_id c' = b_id c \<and> b_powerManager c' = b_powerManager c \<and>
     b_broker c' \<in> {None, b_broker c} \<and>
     lists (view s') = lists (view s) \<and> (list_only (view s) kp \<longrightarrow> list_only (view s') kp))"

lemma tame_refl [simp]: "tame view kp x x"
  by (cases x) (simp add: tame_def)

lemma tame_trans: "tame view kp x y \<Longrightarrow> tame view kp y z \<Longrightarrow> tame view kp x z"
  by (cases x; cases y; cases z) (auto simp: tame_def)

lemma waterfall_tame:
  assumes "\<forall>t \<in> set ts. \<forall>c s r x'. t (c, s) = (r, x') \<longrightarrow> b_queueName c = n \<longrightarrow> b_id c = i \<longrightarrow> tame view kp (c, s) x'"
  shows "waterfall ts (c, s) = (r, x') \<Longrightarrow> b_queueName c = n \<Longrightarrow> b_id c = i \<Longrightarrow> tame view kp (c, s) x'"
  using assms
proof (induction ts arbitrary: c s)
  case Nil
  then show ?case by (auto simp: retM_def)
next
  case (Cons t ts)
  obtain r1 c1 s1 where t: "t (c, s) = (r1, (c1, s1))" by (metis surj_pair)
  with Cons.prems have m: "tame view kp (c, s) (c1, s1)" by simp
  show ?case
  proof (cases r1)
    case (Inl e)
    with Cons.prems(1) t m show ?thesis by (auto simp: bindM_def)
  next
    case (Inr u)
    with Cons.prems(1) t have "waterfall ts (c1, s1) = (r, x')" by (simp add: bindM_def)
    moreover have "b_queueName c1 = n" "b_id c1 = i" using m Cons.prems(2,3) by (auto simp: tame_def)
    ultimately have "tame view kp (c1, s1) x'" using Cons.IH [of c1 s1] Cons.prems(4) by simp
    with m show ?thesis by (rule tame_trans)
  qed
qed

lemma phase_tame:
  assumes "phase_ok Q c xs" and "\<not> isRunning (b_powerManager c')"
    and "c_dequeues c' = c_dequeues c" "c_deliveries c' = c_deliveries c" "c_calls c' = c_calls c"
  shows "phase_ok Q c' xs"
  using assms by (auto simp: phase_ok_def)

context queue_client
begin

lemma expire_frame:
  assumes "heartbeat_quit E nm inst tk s = (r, s')"
  shows "lists (view s') = lists (view s) \<and>
    (list_only (view s) (ikey KEY_QUEUE_PROCESSING (p_ns E) nm inst) \<longrightarrow>
     list_only (view s') (ikey KEY_QUEUE_PROCESSING (p_ns E) nm inst))"
proof -
  let ?c = "HDEL (gkey KEY_INDEX_HEARTBEATS) [Str (ikey KEY_HEARTBEAT (p_ns E) nm inst)]"
  obtain rr s1 where d: "redisCmd (p_srv E) ?c s = (Inr rr, s1)" "doc ?c (view s) rr (view s1)"
    using cmd_doc by blast
  have "s' = s \<or> s' = s1"
    using assms d(1)
    by (cases "tk_quit tk")
      (auto simp: heartbeat_quit_def expireHeartbeat_def handleExpiredHeartbeats_def rc_hdel_def smq_keys
        voidM_run_Inr bindM_def liftT_def throwM_def retM_def)
  with d(2) processing_keys_ne(2) show ?thesis by (auto simp: list_only_def)
qed

lemma cw_quit_view: "cw_quit E cw s = (r, s') \<Longrightarrow> view s' = view s"
  using runlock_frame
  by (fastforce simp: cw_quit_def lm_quit_def releaseLock_def Let_def
      split: sum.splits prod.splits option.splits if_splits)

lemma goingDown_tame:
  assumes t: "t \<in> set (consumer_goingDown E)" and st: "t (c, s) = (r, (c', s'))"
    and "b_queueName c = nm" "b_id c = inst"
  shows "tame view (ikey KEY_QUEUE_PROCESSING (p_ns E) nm inst) (c, s) (c', s')"
proof -
  from t consider "t = tearDownConsumerWorkers E" | "t = tearDownHeartbeat E" | "t = tearDownConsumerRedisClient"
    | "t = tearDownBroker" | "t = tearDownMessageRate" | "t = tearDownSharedRedisClient"
    by (auto simp: consumer_goingDown_def base_goingDown_def)
  then show ?thesis
  proof cases
    case 1
    with st cw_quit_view show ?thesis
      by (fastforce simp: tearDownConsumerWorkers_def retM_def tame_def
          split: option.splits prod.splits sum.splits exn.splits)
  next
    case 2
    show ?thesis
    proof (cases "c_heartbeat c")
      case None
      with 2 st show ?thesis by (auto simp: tearDownHeartbeat_def retM_def)
    next
      case (Some tk)
      obtain r1 s1 where q: "heartbeat_quit E nm inst tk s = (r1, s1)" by (metis surj_pair)
      from 2 st Some q assms(3,4) have "s' = s1" "c' \<in> {c, c\<lparr>c_heartbeat := None\<rparr>}"
        by (auto simp: tearDownHeartbeat_def whateverComes_def onRedis_def modB_def
            split: sum.splits exn.splits)
      with expire_frame [OF q] show ?thesis by (auto simp: tame_def)
    qed
  qed (use st in \<open>auto simp: tearDownConsumerRedisClient_def tearDownBroker_def tearDownMessageRate_def
      tearDownSharedRedisClient_def modB_def tame_def\<close>)
qed

end

context queue_client
begin

lemma inv_settled:
  assumes inv: "consumer_inv E view nm inst Q c s" and "c_calls c \<noteq> []"
    and st: "settleCall E (c, s) = (Inr (), (c', s'))"
  shows "consumer_inv E view nm inst Q c' s'"
proof -
  let ?kp = "ikey KEY_QUEUE_PROCESSING (p_ns E) nm inst"
  from inv assms(2) obtain call m where call: "c_calls c = [call]" "c_dequeues c = 0" "active Q (c_deliveries c) = {}"
    and l: "lists (view s) ?kp = [toString m]"
    by (auto simp: consumer_inv_def phase_ok_def holds_msg_def)
  have n: "b_queueName c = nm" "b_id c = inst" and only: "list_only (view s) ?kp" using inv by (auto simp: consumer_inv_def)
  from brokerOp_live [OF n HOL.refl l only, of call] obtain s1 where op: "brokerOp E c call s = (Inr (), s1)"
    and v: "view s1 = settled_view (p_ns E) nm ?kp (toString m) (p_now E) call (view s)" by blast
  from settled_view_frame [OF HOL.refl only] v have fr: "lists (view s1) ?kp = []" "list_only (view s1) ?kp" by auto
  obtain f where "messageNext (c\<lparr>c_calls := [], b_messageRate := f\<rparr>, s1) = (Inr (), (c', s'))"
    using st op call by (auto simp: settleCall_def onRedis_def countRate_def modB_def bindM_def)
  from messageNext_cases [OF this] have res: "s' = s1" "c_deliveries c' = c_deliveries c" "c_calls c' = []"
    "b_queueName c' = nm" "b_id c' = inst" "b_broker c' = b_broker c"
    "c_dequeues c' = 1 \<or> c_dequeues c' = 0 \<and> \<not> isRunning (b_powerManager c')"
    using call n by auto
  with call fr have "phase_ok Q c' (lists (view s') ?kp)" by (auto simp: phase_ok_def)
  with inv res fr show ?thesis by (simp add: consumer_inv_def)
qed

lemma inv_startDown:
  assumes "consumer_inv E view nm inst Q c s" and "switchPower goingDown (c, s) = (Inr (), (c', s'))"
  shows "consumer_inv E view nm inst Q c' s'"
proof -
  from assms(2) obtain pm where pm: "goingDown (b_powerManager c) = Inr pm" "c' = c\<lparr>b_powerManager := pm\<rparr>" "s' = s"
    by (auto simp: switchPower_def throwM_def modB_def split: sum.splits)
  then have "\<not> isRunning pm" by (auto simp: pm_defs split: if_splits)
  with assms(1) pm phase_tame [of Q c _ c'] show ?thesis by (auto simp: consumer_inv_def)
qed

lemma inv_endDown:
  assumes inv: "consumer_inv E view nm inst Q c s" and gd: "isGoingDown (b_powerManager c)"
    and st: "whateverComes (waterfall (consumer_goingDown E)) (switchPower commit) (c, s) = (Inr (), (c', s'))"
  shows "consumer_inv E view nm inst Q c' s'"
proof -
  let ?kp = "ikey KEY_QUEUE_PROCESSING (p_ns E) nm inst"
  obtain r c1 s1 where w: "waterfall (consumer_goingDown E) (c, s) = (r, (c1, s1))" by (metis surj_pair)
  have n: "b_queueName c = nm" "b_id c = inst" using inv by (auto simp: consumer_inv_def)
  have m: "tame view ?kp (c, s) (c1, s1)"
    using waterfall_tame [OF _ w n] goingDown_tame by fastforce
  from st w have "switchPower commit (c1, s1) = (Inr (), (c', s'))"
    by (auto simp: whateverComes_def split: sum.splits exn.splits)
  then obtain pm where pm: "commit (b_powerManager c1) = Inr pm" "c' = c1\<lparr>b_powerManager := pm\<rparr>" "s' = s1"
    by (auto simp: switchPower_def throwM_def modB_def split: sum.splits)
  then have "\<not> isRunning pm" using gd m by (auto simp: pm_defs tame_def)
  with inv m pm phase_tame [of Q c _ c'] show ?thesis
    by (auto simp: consumer_inv_def tame_def handler_ok_def)
qed

end

section \<open>Receiving a message\<close>

lemma inv_handleConsume:
  assumes st: "handleConsume run m (c, s) = (Inr (), (c', s'))" and "b_broker c \<noteq> None" and pol: "polite run c'"
    and q: "c_dequeues c = 0" "active Q (c_deliveries c) = {}" "c_calls c = []"
    and "\<forall>i \<in> Q. i < length (c_deliveries c)" and h: "holds_msg xs m"
    and t: "list_all (\<lambda>d. d_timer d \<longrightarrow> \<not> d_isTimeout d) (c_deliveries c)"
  shows "s' = s \<and> phase_ok (Q \<union> opened run c c') c' xs \<and>
    list_all (\<lambda>d. d_timer d \<longrightarrow> \<not> d_isTimeout d) (c_deliveries c') \<and>
    (\<forall>i \<in> Q \<union> opened run c c'. i < length (c_deliveries c')) \<and>
    b_queueName c' = b_queueName c \<and> b_id c' = b_id c \<and> b_broker c' = b_broker c"
proof -
  let ?n = "length (c_deliveries c)" and ?d = "\<lparr>d_msg = m, d_isTimeout = False, d_timer = consumeTimeout m \<noteq> 0\<rparr>"
  let ?c1 = "c\<lparr>c_deliveries := c_deliveries c @ [?d]\<rparr>"
  have fr: "c_consumerFrontend c" using st by (auto simp: handleConsume_def throwM_def split: if_splits)
  have act: "active Q (c_deliveries c @ [d]) = (if \<not> d_isTimeout d \<and> d_timer d then {?n} else {})"
    "active (insert ?n Q) (c_deliveries c @ [d]) = (if \<not> d_isTimeout d then {?n} else {})" for d
    using active_snoc [OF assms(7) q(2)] by auto
  have old: "\<forall>i \<in> Q. i < Suc ?n" using assms(7) by auto
  have len: "length xs \<le> 1" using h by (auto simp: holds_msg_def)
  from pol consider (plain) "cr_calls run = []" "\<not> cr_throws run" | (throws) "cr_calls run = []" "cr_throws run"
    | (calls) e where "cr_calls run = [e]" "\<not> cr_throws run"
    by (cases "cr_calls run") (auto simp: polite_def)
  then show ?thesis
  proof cases
    case plain
    with st fr have "c' = ?c1" "s' = s" by (auto simp: handleConsume_def retM_def)
    with plain q h t old act(2) [of ?d] show ?thesis by (simp add: opened_def phase_processing)
  next
    case throws
    with st fr assms(2) have "c' = ?c1\<lparr>c_calls := [Unacknowledge m CAUGHT_ERROR]\<rparr>" "s' = s"
      by (auto simp: handleConsume_def retM_def consumer_unacknowledgeMessage_def callBroker_Some q)
    moreover from this throws pol have "consumeTimeout m = 0" by (simp add: polite_def)
    ultimately show ?thesis using throws q h t old act(1) [of ?d] by (simp add: opened_def phase_settling)
  next
    case (calls e)
    let ?d2 = "?d\<lparr>d_timer := False\<rparr>"
    let ?call = "case e of Some _ \<Rightarrow> Unacknowledge m UNACKNOWLEDGED | None \<Rightarrow> Acknowledge m"
    have m: "call_msg ?call = m" by (simp split: option.split)
    have o: "onConsumed ?n e (?c1, s) =
        (Inr (), if isRunning (b_powerManager c)
           then (c\<lparr>c_deliveries := c_deliveries c @ [?d2], c_calls := [?call]\<rparr>, s) else (?c1, s))"
      using assms(2)
      by (simp add: onConsumed_def bindM_def retM_def consumer_unacknowledgeMessage_def upd_delivery_def
          callBroker_Some q Let_def split: option.split)
    have op: "opened run c c' = {}" using calls by (simp add: opened_def)
    have res: "(c', s') = (if isRunning (b_powerManager c)
           then (c\<lparr>c_deliveries := c_deliveries c @ [?d2], c_calls := [?call]\<rparr>, s) else (?c1, s))"
      using st fr calls o by (simp add: handleConsume_def bindM_def retM_def)
    show ?thesis
    proof (cases "isRunning (b_powerManager c)")
      case True
      with res have "c' = c\<lparr>c_deliveries := c_deliveries c @ [?d2], c_calls := [?call]\<rparr>" "s' = s" by simp_all
      with op m q h t old act(1) [of ?d2] show ?thesis by (simp add: phase_settling)
    next
      case False
      with res have c': "c' = ?c1" "s' = s" by simp_all
      have "phase_ok Q ?c1 xs"
        using False q h len act(1) [of ?d] phase_quiet [of ?c1 Q xs] phase_processing [of ?c1 Q ?n xs]
        by (cases "consumeTimeout m = 0") simp_all
      with op c' t old show ?thesis by simp
    qed
  qed
qed

lemma hasExpired_uuid: "hasExpired now m = (ex, m') \<Longrightarrow> uuid m' = uuid m"
  by (auto simp: hasExpired_def Let_def split: if_splits)

lemma opened_cong: "c_deliveries d = c_deliveries c \<Longrightarrow> opened run d c' = opened run c c'"
  by (simp add: opened_def)

lemma opened_none: "c_deliveries c' = c_deliveries c \<Longrightarrow> opened run c c' = {}"
  by (simp add: opened_def)

context queue_client
begin

lemma inv_reply:
  assumes inv: "consumer_inv E view nm inst Q c s" and en: "c_dequeues c > 0"
    and rdy: "queue_ready E nm inst (cfg_priorityQueue (b_config c)) (view s)"
    and st: "dequeueReply E run (c, s) = (Inr (), (c', s'))" and pol: "polite run c'"
  shows "consumer_inv E view nm inst (Q \<union> opened run c c') c' s'"
proof (cases "b_broker c")
  case None
  with st have "c' = c" "s' = s" by (simp_all add: dequeueReply_def)
  with inv show ?thesis by (simp add: opened_none)
next
  case (Some mm)
  let ?kp = "ikey KEY_QUEUE_PROCESSING (p_ns E) nm inst"
  from inv en have ph: "c_dequeues c = 1" "active Q (c_deliveries c) = {}" "c_calls c = []" "lists (view s) ?kp = []"
    by (auto simp: consumer_inv_def phase_ok_def)
  from inv Some have n: "b_queueName c = nm" "b_id c = inst" and only: "list_only (view s) ?kp"
    and h: "mm_dequeueHandler mm \<in> {None, Some (consumerHandler E nm inst)}"
    and Q: "\<forall>i \<in> Q. i < length (c_deliveries c)" and t: "list_all (\<lambda>d. d_timer d \<longrightarrow> \<not> d_isTimeout d) (c_deliveries c)"
    by (auto simp: consumer_inv_def handler_ok_def)
  from dequeue_ready [OF rdy h HOL.refl ph(4) only] obtain m s1 where
    dq: "br_dequeueMessage E (cfg_priorityQueue (b_config c)) nm inst (\<lambda>_ s. s) 1 mm s =
      ((Inr (Some (toString m)), \<lparr>mm_dequeueHandler = Some (consumerHandler E nm inst)\<rparr>), s1)"
    and b: "body m \<noteq> None" and l: "lists (view s1) ?kp = [toString m]" "list_only (view s1) ?kp" by blast
  let ?c2 = "c\<lparr>b_broker := Some \<lparr>mm_dequeueHandler = Some (consumerHandler E nm inst)\<rparr>, c_dequeues := 0\<rparr>"
  from st Some dq n ph(1) have r: "handleReceivedMessage E run (toString m) (?c2, s1) = (Inr (), (c', s'))"
    by (simp add: dequeueReply_def Let_def)
  obtain ex m1 where x: "hasExpired (p_now E) m = (ex, m1)" by (metis surj_pair)
  then have hm: "holds_msg [toString m] m1" using hasExpired_uuid [OF x] by (simp add: holds_msg_def)
  have "handler_ok E nm inst (Some \<lparr>mm_dequeueHandler = Some (consumerHandler E nm inst)\<rparr>)"
    by (simp add: handler_ok_def)
  note stat = this n Q t l
  show ?thesis
  proof (cases ex)
    case True
    with r x b have "c' = ?c2\<lparr>c_calls := [Unacknowledge m1 CAUSE_TTL_EXPIRED]\<rparr>" "s' = s1"
      by (simp_all add: handleReceivedMessage_def bindM_def liftT_def retM_def consumer_unacknowledgeMessage_def
          callBroker_Some ph)
    with ph hm stat show ?thesis by (simp add: consumer_inv_def phase_settling opened_none)
  next
    case False
    let ?c3 = "?c2\<lparr>b_messageRate := map_option (incrementProcessingSlot (p_now E)) (b_messageRate c)\<rparr>"
    from r x b False have "handleConsume run m1 (?c3, s1) = (Inr (), (c', s'))"
      by (simp add: handleReceivedMessage_def bindM_def liftT_def retM_def countRate_def)
    from inv_handleConsume [OF this _ pol, of Q "[toString m]"] ph hm stat show ?thesis
      by (simp add: consumer_inv_def opened_cong [of ?c3 c])
  qed
qed

lemma orderly_inv:
  "orderly E view c0 s0 Q c s \<Longrightarrow> consumer_inv E view nm inst {} c0 s0 \<Longrightarrow> consumer_inv E view nm inst Q c s"
proof (induction rule: orderly.induct)
  case ord_start
  then show ?case .
next
  case (ord_reply Q c s run c' s')
  then have inv: "consumer_inv E view nm inst Q c s" by simp
  then have "b_queueName c = nm" "b_id c = inst" by (auto simp: consumer_inv_def)
  with ord_reply inv_reply [OF inv] show ?case by simp
next
  case (ord_consumed Q c s i err c' s')
  then show ?case using inv_consumed by simp
next
  case (ord_event Q c s ev c' s')
  then have inv: "consumer_inv E view nm inst Q c s" by simp
  from ord_event.hyps consider "ev = Settled" | "ev = StartDown" | "ev = EndDown" | i where "ev = TimerFires i"
    by auto
  then show ?case
  proof cases
    case 1
    with ord_event.hyps inv_settled [OF inv] show ?thesis by simp
  next
    case 2
    with ord_event.hyps inv_startDown [OF inv] show ?thesis by simp
  next
    case 3
    with ord_event.hyps inv_endDown [OF inv] show ?thesis by simp
  next
    case (4 i)
    with ord_event.hyps inv_timeout [OF inv, of i] show ?thesis by simp
  qed
next
  case (ord_others Q c s s')
  then show ?case by (auto simp: consumer_inv_def Let_def)
qed

end

section \<open>Start and end\<close>

definition fresh_consumer :: "consumer \<Rightarrow> bool" where
  "fresh_consumer c \<longleftrightarrow> fresh_base c \<and> \<not> c_consumerRedisClient c \<and> c_heartbeat c = None \<and> c_consumerWorkers c = None \<and>
     c_dequeues c = 0 \<and> c_deliveries c = [] \<and> c_calls c = []"

text \<open>The processing queue of the consumer is registered, and its queue.\<close>

definition registered :: "'s platform \<Rightarrow> string \<Rightarrow> string \<Rightarrow> store \<Rightarrow> bool" where
  "registered E nm inst st \<longleftrightarrow>
     (let kp = ikey KEY_QUEUE_PROCESSING (p_ns E) nm inst in
      queue_text \<lparr>q_name = nm, q_ns = p_ns E\<rparr> \<in> sets st (gkey KEY_INDEX_QUEUES) \<and>
      Str kp \<in> sets st (gkey KEY_INDEX_PROCESSING_QUEUES) \<and>
      hashes st (qkey KEY_INDEX_QUEUE_MESSAGE_PROCESSING_QUEUES (p_ns E) nm) (Str kp) = Some (Str inst))"

definition demo_ticker :: "unit ticker" where
  "demo_ticker = \<lparr>tk_powerManager = pm_up, tk_onTickFn = (), tk_onNextTickFn = None, tk_timeout = Armed, tk_interval = NoTimer\<rparr>"

lemma newHeartbeat_eq: "newHeartbeat = Inr demo_ticker"
  by (simp add: newHeartbeat_def demo_ticker_def tk_defs pm_defs pm_up_def pm_down_def)

text \<open>The consumer when everything is set up.\<close>

definition consumer_up :: "'s platform \<Rightarrow> consumer \<Rightarrow> consumer" where
  "consumer_up E c =
     (set_up (consumer_newRate E) c)\<lparr>c_consumerRedisClient := True, c_heartbeat := Some demo_ticker,
        c_consumerWorkers := Some demo_workers\<rparr>"

lemma consumer_up_sel [simp]:
  "b_powerManager (consumer_up E c) = b_powerManager c" "b_queueName (consumer_up E c) = b_queueName c"
  "b_id (consumer_up E c) = b_id c" "c_dequeues (consumer_up E c) = c_dequeues c"
  "c_deliveries (consumer_up E c) = c_deliveries c" "c_calls (consumer_up E c) = c_calls c"
  "b_broker (consumer_up E c) = Some \<lparr>mm_dequeueHandler = None\<rparr>" "c_consumerRedisClient (consumer_up E c)"
  by (simp_all add: consumer_up_def set_up_def Let_def)

context queue_client
begin

lemma setUpProcessingQueue_live:
  "\<exists>s'. setUpProcessingQueue E nm inst s = (Inr (), s') \<and>
    view s' = (let kp = ikey KEY_QUEUE_PROCESSING (p_ns E) nm inst; ik = gkey KEY_INDEX_PROCESSING_QUEUES;
        hk = qkey KEY_INDEX_QUEUE_MESSAGE_PROCESSING_QUEUES (p_ns E) nm in
      (view s)\<lparr>sets := (sets (view s))(ik := insert (Str kp) (sets (view s) ik)),
        hashes := (hashes (view s))(hk := (hashes (view s) hk)(Str kp \<mapsto> Str inst))\<rparr>)"
proof -
  let ?kp = "ikey KEY_QUEUE_PROCESSING (p_ns E) nm inst"
  let ?cs = "[HSET (qkey KEY_INDEX_QUEUE_MESSAGE_PROCESSING_QUEUES (p_ns E) nm) (Str ?kp) (Str inst),
      SADD (gkey KEY_INDEX_PROCESSING_QUEUES) (Str ?kp)]"
  obtain rs s' where x: "execMulti E ?cs s = (Inr rs, s')" and d: "doc_seq ?cs (view s) rs (view s')"
    using execMulti_live by blast
  from x have "setUpProcessingQueue E nm inst s = (Inr (), s')"
    by (simp add: setUpProcessingQueue_def smq_keys voidM_run_Inr Let_def)
  with d show ?thesis by (auto simp: Let_def)
qed

lemma consumer_goingUp_live:
  assumes "b_queueName c = nm" "b_id c = inst" "fresh_base (c\<lparr>b_powerManager := pm_down\<rparr>)"
  shows "\<exists>s'. waterfall (consumer_goingUp E (Inr (), Inr (), Inr ())) (c, s) = (Inr (), (consumer_up E c, s')) \<and>
    registered E nm inst (view s') \<and> lists (view s') = lists (view s) \<and> zsets (view s') = zsets (view s) \<and>
    (\<forall>t. list_only (view s) (ikey t (p_ns E) nm inst) \<longrightarrow> list_only (view s') (ikey t (p_ns E) nm inst))"
proof -
  obtain s1 where w: "waterfall (base_goingUp E (Inr ()) (consumer_newRate E)) (c, s) = (Inr (), (set_up (consumer_newRate E) c, s1))"
    and q: "setUpMessageQueue E nm s = (Inr (), s1)"
    using base_goingUp_live [of c "consumer_newRate E" s] assms by (auto simp: fresh_base_def)
  obtain s2 where p: "setUpProcessingQueue E nm inst s1 = (Inr (), s2)"
    and v2: "view s2 = (let kp = ikey KEY_QUEUE_PROCESSING (p_ns E) nm inst; ik = gkey KEY_INDEX_PROCESSING_QUEUES;
        hk = qkey KEY_INDEX_QUEUE_MESSAGE_PROCESSING_QUEUES (p_ns E) nm in
      (view s1)\<lparr>sets := (sets (view s1))(ik := insert (Str kp) (sets (view s1) ik)),
        hashes := (hashes (view s1))(hk := (hashes (view s1) hk)(Str kp \<mapsto> Str inst))\<rparr>)"
    using setUpProcessingQueue_live by blast
  have sh: "b_sharedRedisClient (set_up (consumer_newRate E) c)" "b_queueName (set_up (consumer_newRate E) c) = nm"
    "b_id (set_up (consumer_newRate E) c) = inst"
    using assms by (simp_all add: set_up_def Let_def)
  have "waterfall (consumer_goingUp E (Inr (), Inr (), Inr ())) (c, s) = (Inr (), (consumer_up E c, s2))"
    using w p sh
    by (simp add: consumer_goingUp_def waterfall_append bindM_def setUpConsumerRedisClient_def setUpHeartbeat_def
        setUpConsumerWorkers_def setUpConsumerProcessingQueue_def getSharedRedisClient_def newHeartbeat_eq
        demo_workers_new liftT_def retM_def onRedis_def consumer_up_def)
  moreover have "registered E nm inst (view s2) \<and> lists (view s2) = lists (view s) \<and> zsets (view s2) = zsets (view s) \<and>
    (\<forall>t. list_only (view s) (ikey t (p_ns E) nm inst) \<longrightarrow> list_only (view s2) (ikey t (p_ns E) nm inst))"
    using setUpMessageQueue_live [of nm s] q v2 plain_names
    by (auto simp: registered_def list_only_def Let_def)
  ultimately show ?thesis by blast
qed

lemma consumer_run_live:
  assumes "b_queueName c = nm" "b_id c = inst" "fresh_consumer c"
  shows "\<exists>s1. consumer_run E (Inr (), Inr (), Inr ()) (c, s) =
      (Inr (), ((consumer_up E c)\<lparr>c_consumerFrontend := True, b_powerManager := pm_up, c_dequeues := 1\<rparr>, s1)) \<and>
    registered E nm inst (view s1) \<and> lists (view s1) = lists (view s) \<and>
    (\<forall>t. list_only (view s) (ikey t (p_ns E) nm inst) \<longrightarrow> list_only (view s1) (ikey t (p_ns E) nm inst))"
proof -
  let ?c0 = "c\<lparr>c_consumerFrontend := True\<rparr>" let ?cs = "?c0\<lparr>b_powerManager := pm_starting\<rparr>"
  have f: "fresh_base (?cs\<lparr>b_powerManager := pm_down\<rparr>)" "b_powerManager ?c0 = pm_down" "c_dequeues c = 0"
    using assms(3) by (auto simp: fresh_consumer_def fresh_base_def)
  obtain s1 where w: "waterfall (consumer_goingUp E (Inr (), Inr (), Inr ())) (?cs, s) = (Inr (), (consumer_up E ?cs, s1))"
    and v: "registered E nm inst (view s1)" "lists (view s1) = lists (view s)"
    "\<forall>t. list_only (view s) (ikey t (p_ns E) nm inst) \<longrightarrow> list_only (view s1) (ikey t (p_ns E) nm inst)"
    using consumer_goingUp_live [of ?cs s] assms(1,2) f(1) by auto
  let ?c1 = "(consumer_up E ?cs)\<lparr>b_powerManager := pm_up\<rparr>"
  have r: "base_run (consumer_goingUp E (Inr (), Inr (), Inr ())) (?c0, s) = (Inr (), (?c1, s1))"
    by (rule base_run_eq [OF f(2) w]) simp_all
  have n: "messageNext (?c1, s1) = (Inr (), (?c1\<lparr>c_dequeues := 1\<rparr>, s1))"
    using f(3) by (simp add: messageNext_def getConsumerRedisClient_def returns_def getBroker_def)
  have e: "?c1\<lparr>c_dequeues := 1\<rparr> = (consumer_up E c)\<lparr>c_consumerFrontend := True, b_powerManager := pm_up, c_dequeues := 1\<rparr>"
    by (simp add: consumer_up_def set_up_def Let_def consumer_newRate_def)
  from r n v show ?thesis unfolding e by (auto simp: consumer_run_def bindM_def)
qed

end

context queue_client
begin

lemma consumer_shutdown_live:
  assumes "b_powerManager c = pm_up" and "c_consumerWorkers c = Some cw" "cw_ok cw"
    and "c_heartbeat c = Some tk" "tk_running tk" and "b_queueName c = nm" "b_id c = inst"
  shows "\<exists>s2. consumer_shutdown E (c, s) =
    (Inr (), (c\<lparr>c_consumerWorkers := None, c_heartbeat := None, c_consumerRedisClient := False, b_broker := None,
       b_messageRate := None, b_sharedRedisClient := False, b_powerManager := pm_down\<rparr>, s2)) \<and>
    hashes (view s2) (gkey KEY_INDEX_HEARTBEATS) (Str (ikey KEY_HEARTBEAT (p_ns E) nm inst)) = None \<and>
    lists (view s2) = lists (view s) \<and> (\<forall>k. list_only (view s) k \<longrightarrow> list_only (view s2) k)"
proof -
  let ?c0 = "c\<lparr>b_powerManager := pm_stopping\<rparr>"
  let ?c1 = "?c0\<lparr>c_consumerWorkers := None\<rparr>"
  obtain r cw' s1 where q: "cw_quit E cw s = ((r, cw'), s1)" by (metis surj_pair)
  have t1: "tearDownConsumerWorkers E (?c0, s) = (Inr (), (?c1, s1))"
    using cw_quit_spec [OF assms(3) q] q assms(2)
    by (auto simp: tearDownConsumerWorkers_def split: sum.splits)
  obtain tk' where tk: "tk_quit tk = Inr tk'" using assms(5) by (auto simp: tk_defs pm_defs tk_running_def)
  obtain r2 s2 where hd: "redisCmd (p_srv E) (HDEL (gkey KEY_INDEX_HEARTBEATS) [Str (ikey KEY_HEARTBEAT (p_ns E) nm inst)]) s1 = (Inr r2, s2)"
    and d: "doc (HDEL (gkey KEY_INDEX_HEARTBEATS) [Str (ikey KEY_HEARTBEAT (p_ns E) nm inst)]) (view s1) r2 (view s2)"
    using cmd_doc by blast
  have v: "hashes (view s2) (gkey KEY_INDEX_HEARTBEATS) (Str (ikey KEY_HEARTBEAT (p_ns E) nm inst)) = None"
    "lists (view s2) = lists (view s)" "\<forall>k. list_only (view s) k \<longrightarrow> list_only (view s2) k"
    using d cw_quit_view [OF q] by (auto simp: list_only_def fun_eq_iff)
  from hd have "heartbeat_quit E nm inst tk s1 = (Inr (), s2)"
    using tk by (simp add: heartbeat_quit_def expireHeartbeat_def handleExpiredHeartbeats_def rc_hdel_def smq_keys
        voidM_run_Inr io_run)
  then have t2: "tearDownHeartbeat E (?c1, s1) = (Inr (), (?c1\<lparr>c_heartbeat := None\<rparr>, s2))"
    using assms(4,6,7) by (simp add: tearDownHeartbeat_def whateverComes_def onRedis_def)
  have w: "waterfall (consumer_goingDown E) (?c0, s) = (Inr (), (?c0\<lparr>c_consumerWorkers := None, c_heartbeat := None, c_consumerRedisClient := False, b_broker := None,
       b_messageRate := None, b_sharedRedisClient := False\<rparr>, s2))"
    unfolding consumer_goingDown_def waterfall_append
    using t1 t2 base_goingDown_eq
    by (simp add: bindM_def tearDownConsumerRedisClient_def retM_def)
  from base_shutdown_eq [OF assms(1) w] v show ?thesis by (simp add: consumer_shutdown_def)
qed

end

section \<open>A consumer at work\<close>

text \<open>A running consumer, of a queue with priorities (\<open>wp\<close>) or without, with its outstanding dequeues, deliveries and calls.\<close>

definition serving_for ::
  "bool \<Rightarrow> 's platform \<Rightarrow> string \<Rightarrow> string \<Rightarrow> nat \<Rightarrow> delivery list \<Rightarrow> brokerCall list \<Rightarrow> consumer \<Rightarrow> bool" where
  "serving_for wp E nm inst dq ds cs c \<longleftrightarrow>
     b_powerManager c = pm_up \<and> b_broker c \<noteq> None \<and> handler_ok E nm inst (b_broker c) \<and> c_consumerRedisClient c \<and>
     c_consumerFrontend c \<and> b_sharedRedisClient c \<and> cfg_priorityQueue (b_config c) = wp \<and> b_queueName c = nm \<and> b_id c = inst \<and>
     c_dequeues c = dq \<and> c_deliveries c = ds \<and> c_calls c = cs"

abbreviation serving where
  "serving \<equiv> serving_for False"

lemmas serving_def = serving_for_def

text \<open>The call of the broker that the application's answer to a message leads to.\<close>

definition answer :: "message \<Rightarrow> err option \<Rightarrow> brokerCall" where
  "answer m res = (case res of None \<Rightarrow> Acknowledge m | Some _ \<Rightarrow> Unacknowledge m UNACKNOWLEDGED)"

definition fate_key :: "string \<Rightarrow> string \<Rightarrow> fate \<Rightarrow> key" where
  "fate_key n nm f =
     (case f of ToDeadLetter \<Rightarrow> qkey KEY_QUEUE_DL n nm | ToDelay \<Rightarrow> gkey KEY_QUEUE_DELAY | ToRequeue \<Rightarrow> gkey KEY_QUEUE_REQUEUE)"

lemma fate_view_lists:
  assumes "kp \<noteq> fate_key n nm f"
  shows "lists (fate_view n nm kp x f st) kp = []" "x \<in> set (lists (fate_view n nm kp x f st) (fate_key n nm f))"
    "k \<noteq> kp \<Longrightarrow> k \<noteq> fate_key n nm f \<Longrightarrow> lists (fate_view n nm kp x f st) k = lists st k"
    "list_only (fate_view n nm kp x f st) k = list_only st k"
  using assms by (auto simp: fate_view_def fate_key_def moved_def list_only_def Let_def split: fate.splits)

context queue_client
begin

lemma fate_key_ne:
  "ikey KEY_QUEUE_PROCESSING (p_ns E) nm inst \<noteq> fate_key (p_ns E) nm f" "qkey KEY_QUEUE (p_ns E) nm \<noteq> fate_key (p_ns E) nm f"
  using processing_keys_ne plain_names by (auto simp: fate_key_def split: fate.splits)

text \<open>A dequeue of a queue without priorities is answered.\<close>

lemma serve_dequeued:
  assumes sv: "serving E nm inst (Suc dq) ds [] c" and kp: "kp = ikey KEY_QUEUE_PROCESSING (p_ns E) nm inst"
    and ms: "msgs_at (view s) (qkey KEY_QUEUE (p_ns E) nm) (ms @ [m])" and "lists (view s) kp = []"
  shows "\<exists>c' s'. dequeueReply E run (c, s) = handleReceivedMessage E run (toString m) (c', s') \<and> serving E nm inst dq ds [] c' \<and>
    view s' = set_list kp [toString m] (set_list (qkey KEY_QUEUE (p_ns E) nm) (map toString ms) (view s))"
proof -
  let ?h = "consumerHandler E nm inst"
  obtain mm where mm: "b_broker c = Some mm" "mm_dequeueHandler mm \<in> {None, Some ?h}"
    using sv by (auto simp: serving_def handler_ok_def)
  have h: "getDequeueHandler E nm (keyQueueProcessing (getInstanceKeys (p_ns E) nm inst)) mm =
      (?h, \<lparr>mm_dequeueHandler = Some ?h\<rparr>)"
    using mm(2) by (cases mm) (auto simp: getDequeueHandler_def consumerHandler_def Let_def)
  obtain s' where dq: "dequeue E ?h s = (Inr (Some (toString m)), s')"
    and v: "view s' = set_list kp [toString m] (set_list (qkey KEY_QUEUE (p_ns E) nm) (map toString ms) (view s))"
    using dequeue_step [OF ms] assms(4) by (auto simp: kp)
  let ?c = "c\<lparr>b_broker := Some \<lparr>mm_dequeueHandler = Some ?h\<rparr>, c_dequeues := dq\<rparr>"
  have "dequeueReply E run (c, s) = handleReceivedMessage E run (toString m) (?c, s')"
    using sv mm h dq by (simp add: serving_def dequeueReply_def br_dequeueMessage_def mm_dequeueMessage_def Let_def)
  moreover have "serving E nm inst dq ds [] ?c" using sv by (simp add: serving_def handler_ok_def)
  ultimately show ?thesis using v by blast
qed

lemma serve_reply:
  assumes sv: "serving E nm inst (Suc dq) ds [] c" and kp: "kp = ikey KEY_QUEUE_PROCESSING (p_ns E) nm inst"
    and ms: "msgs_at (view s) (qkey KEY_QUEUE (p_ns E) nm) (ms @ [m])" and ex: "hasExpired (p_now E) m = (False, m)"
    and only: "lists (view s) kp = []" "list_only (view s) kp"
  shows "\<exists>c' s'. consumer_step E (Reply \<lparr>cr_calls = [], cr_throws = th\<rparr>) (c, s) = (Inr (), (c', s')) \<and>
    serving E nm inst dq (ds @ [\<lparr>d_msg = m, d_isTimeout = False, d_timer = consumeTimeout m \<noteq> 0\<rparr>])
      (if th then [Unacknowledge m CAUGHT_ERROR] else []) c' \<and>
    msgs_at (view s') (qkey KEY_QUEUE (p_ns E) nm) ms \<and> lists (view s') kp = [toString m] \<and> list_only (view s') kp \<and>
    view s' = set_list kp [toString m] (set_list (qkey KEY_QUEUE (p_ns E) nm) (map toString ms) (view s))"
proof -
  let ?run = "\<lparr>cr_calls = [], cr_throws = th\<rparr>"
  obtain c1 s' where 1: "dequeueReply E ?run (c, s) = handleReceivedMessage E ?run (toString m) (c1, s')"
    "serving E nm inst dq ds [] c1"
    and v: "view s' = set_list kp [toString m] (set_list (qkey KEY_QUEUE (p_ns E) nm) (map toString ms) (view s))"
    using serve_dequeued [OF sv kp ms only(1)] by blast
  have "body m \<noteq> None" using msgs_at_body [OF ms, of m] by simp
  with 1 ex have "\<exists>c'. consumer_step E (Reply ?run) (c, s) = (Inr (), (c', s')) \<and>
    serving E nm inst dq (ds @ [\<lparr>d_msg = m, d_isTimeout = False, d_timer = consumeTimeout m \<noteq> 0\<rparr>])
      (if th then [Unacknowledge m CAUGHT_ERROR] else []) c'"
    by (simp add: serving_def handleReceivedMessage_def bindM_def liftT_def retM_def countRate_def handleConsume_def
        consumer_unacknowledgeMessage_def callBroker_Some Let_def)
  moreover have "msgs_at (view s') (qkey KEY_QUEUE (p_ns E) nm) ms" "lists (view s') kp = [toString m]" "list_only (view s') kp"
    using v ms only processing_keys_ne by (auto simp: msgs_at_def kp list_only_def)
  ultimately show ?thesis using v by blast
qed

text \<open>A message that has expired does not reach the application.\<close>

lemma serve_reply_expired:
  assumes sv: "serving E nm inst (Suc dq) ds [] c" and kp: "kp = ikey KEY_QUEUE_PROCESSING (p_ns E) nm inst"
    and ms: "msgs_at (view s) (qkey KEY_QUEUE (p_ns E) nm) (ms @ [m])" and ex: "hasExpired (p_now E) m = (True, m')"
    and "lists (view s) kp = []"
  shows "\<exists>c' s'. consumer_step E (Reply run) (c, s) = (Inr (), (c', s')) \<and>
    serving E nm inst dq ds [Unacknowledge m' CAUSE_TTL_EXPIRED] c' \<and>
    view s' = set_list kp [toString m] (set_list (qkey KEY_QUEUE (p_ns E) nm) (map toString ms) (view s))"
proof -
  obtain c1 s' where 1: "dequeueReply E run (c, s) = handleReceivedMessage E run (toString m) (c1, s')" "serving E nm inst dq ds [] c1"
    and v: "view s' = set_list kp [toString m] (set_list (qkey KEY_QUEUE (p_ns E) nm) (map toString ms) (view s))"
    using serve_dequeued [OF sv kp ms assms(5)] by blast
  have "body m \<noteq> None" using msgs_at_body [OF ms, of m] by simp
  with 1 ex have "\<exists>c'. consumer_step E (Reply run) (c, s) = (Inr (), (c', s')) \<and>
    serving E nm inst dq ds [Unacknowledge m' CAUSE_TTL_EXPIRED] c'"
    by (auto simp: serving_def handleReceivedMessage_def bindM_def liftT_def consumer_unacknowledgeMessage_def callBroker_Some)
  with v show ?thesis by blast
qed

lemma serve_reply_priority:
  assumes sv: "serving_for True E nm inst (Suc dq) ds [] c" and kp: "kp = ikey KEY_QUEUE_PROCESSING (p_ns E) nm inst"
    and zs: "prio_msgs (view s) (consumerHandler E nm inst) ((m, sc) # rest)" and "hasExpired (p_now E) m = (False, m)"
    and "lists (view s) kp = []" "list_only (view s) kp"
  shows "\<exists>c' s'. consumer_step E (Reply \<lparr>cr_calls = [], cr_throws = False\<rparr>) (c, s) = (Inr (), (c', s')) \<and>
    serving_for True E nm inst dq (ds @ [\<lparr>d_msg = m, d_isTimeout = False, d_timer = consumeTimeout m \<noteq> 0\<rparr>]) [] c' \<and>
    prio_msgs (view s') (consumerHandler E nm inst) rest \<and> list_only (view s') kp \<and>
    lists (view s') = (lists (view s))(kp := [toString m])"
proof -
  let ?h = "consumerHandler E nm inst"
  obtain mm where mm: "b_broker c = Some mm" "mm_dequeueHandler mm \<in> {None, Some ?h}"
    using sv by (auto simp: serving_def handler_ok_def)
  have h: "getDequeueHandler E nm (keyQueueProcessing (getInstanceKeys (p_ns E) nm inst)) mm =
      (?h, \<lparr>mm_dequeueHandler = Some ?h\<rparr>)"
    using mm(2) by (cases mm) (auto simp: getDequeueHandler_def consumerHandler_def Let_def)
  obtain s' where dq: "dequeueWithPriority E ?h (\<lambda>_ x. x) 0 1 s = (Inr (toString m), s')" and b: "body m \<noteq> None"
    and pm: "prio_msgs (view s') ?h rest" and l: "lists (view s') = (lists (view s))(kp := [toString m])" "list_only (view s') kp"
    using dequeue_priority_step [OF zs] assms(5,6) processing_keys_ne by (auto simp: kp list_only_def)
  have "\<exists>c'. consumer_step E (Reply \<lparr>cr_calls = [], cr_throws = False\<rparr>) (c, s) = (Inr (), (c', s')) \<and>
    serving_for True E nm inst dq (ds @ [\<lparr>d_msg = m, d_isTimeout = False, d_timer = consumeTimeout m \<noteq> 0\<rparr>]) [] c'"
    using sv mm h dq b assms(4)
    by (simp add: serving_def handler_ok_def dequeueReply_def br_dequeueMessage_def mm_dequeueMessageWithPriority_def Let_def
        handleReceivedMessage_def bindM_def liftT_def retM_def countRate_def handleConsume_def
        consumer_unacknowledgeMessage_def callBroker_Some)
  with pm l show ?thesis by blast
qed

lemma serve_settle:
  assumes sv: "serving_for wp E nm inst dq ds [call] c" and kp: "kp = ikey KEY_QUEUE_PROCESSING (p_ns E) nm inst"
    and "lists (view s) kp = [x]" "list_only (view s) kp"
  shows "\<exists>c' s'. consumer_step E Settled (c, s) = (Inr (), (c', s')) \<and> serving_for wp E nm inst (Suc dq) ds [] c' \<and>
    view s' = settled_view (p_ns E) nm kp x (p_now E) call (view s)"
proof -
  have n: "b_queueName c = nm" "b_id c = inst" using sv by (auto simp: serving_def)
  obtain s' where op: "brokerOp E c call s = (Inr (), s')"
    and v: "view s' = settled_view (p_ns E) nm kp x (p_now E) call (view s)"
    using brokerOp_live [OF n kp assms(3,4), of call] by blast
  have "\<exists>c'. consumer_step E Settled (c, s) = (Inr (), (c', s')) \<and> serving_for wp E nm inst (Suc dq) ds [] c'"
    using sv op
    by (auto simp: serving_def settleCall_def onRedis_def bindM_def countRate_def messageNext_def getConsumerRedisClient_def
        returns_def getBroker_def)
  with v show ?thesis by blast
qed

lemma serve_consumed:
  assumes "serving_for wp E nm inst dq (ds @ [d]) [] c" and "\<not> d_isTimeout d"
  shows "\<exists>c'. consumer_step E (Consumed (length ds) res) (c, s) = (Inr (), (c', s)) \<and>
    serving_for wp E nm inst dq (ds @ [d\<lparr>d_timer := False\<rparr>]) [answer (d_msg d) res] c'"
  using assms
  by (auto simp: serving_def onConsumed_def bindM_def consumer_unacknowledgeMessage_def callBroker_Some upd_delivery_def
      answer_def split: option.split)

lemma serve_timer:
  assumes "serving_for wp E nm inst dq ds [] c" and "i < length ds"
  shows "\<exists>c'. consumer_step E (TimerFires i) (c, s) = (Inr (), (c', s)) \<and>
    serving_for wp E nm inst dq (ds[i := (ds ! i)\<lparr>d_isTimeout := True, d_timer := False\<rparr>])
      [Unacknowledge (d_msg (ds ! i)) TIMEOUT] c'"
  using assms
  by (auto simp: serving_def onTimeout_def bindM_def consumer_unacknowledgeMessage_def callBroker_Some upd_delivery_def)

end

section \<open>Properties\<close>

text \<open>Start of a consumer whose connections work: it is running and has asked for its first message, its
  queue and its processing queue are registered, and no list of Redis has changed. Shutting it down at once gives
  back every resource.\<close>

theorem consumer_starts:
  assumes "queue_client E view nm inst" and "fresh_consumer c" and "b_queueName c = nm" "b_id c = inst"
  shows "\<exists>c1 s1 c2 s2. consumer_run E (Inr (), Inr (), Inr ()) (c, s) = (Inr (), (c1, s1)) \<and>
    isRunning (b_powerManager c1) \<and> c_dequeues c1 = 1 \<and> registered E nm inst (view s1) \<and>
    lists (view s1) = lists (view s) \<and>
    consumer_shutdown E (c1, s1) = (Inr (), (c2, s2)) \<and> fresh_base c2 \<and>
    \<not> c_consumerRedisClient c2 \<and> c_heartbeat c2 = None \<and> c_consumerWorkers c2 = None"
proof -
  let ?c1 = "(consumer_up E c)\<lparr>c_consumerFrontend := True, b_powerManager := pm_up, c_dequeues := 1\<rparr>"
  obtain s1 where r: "consumer_run E (Inr (), Inr (), Inr ()) (c, s) = (Inr (), (?c1, s1))"
    "registered E nm inst (view s1)" "lists (view s1) = lists (view s)"
    using queue_client.consumer_run_live [OF assms(1,3,4,2)] by blast
  have up: "c_consumerWorkers ?c1 = Some demo_workers" "cw_ok demo_workers" "c_heartbeat ?c1 = Some demo_ticker"
    "tk_running demo_ticker" "b_queueName ?c1 = nm" "b_id ?c1 = inst" "b_powerManager ?c1 = pm_up"
    using cw_new [OF demo_workers_new] assms(3,4)
    by (simp_all add: consumer_up_def demo_ticker_def tk_running_def pm_up_def set_up_def Let_def)
  from queue_client.consumer_shutdown_live [OF assms(1) up(7,1-6), of s1] r show ?thesis
    by (fastforce simp: fresh_base_def)
qed




text \<open>C19. The timer of a message is not stopped when the application throws: it fires later, while the application
  works on the next message, and the second unacknowledgement takes that next message out of the processing
  queue (to wherever the first one's retry rules say), so it will be delivered again although its
  processing goes on undisturbed.\<close>

theorem timeout_takes_wrong_message:
  assumes "queue_client E view nm inst" and "serving E nm inst 1 [] [] c"
    and "kp = ikey KEY_QUEUE_PROCESSING (p_ns E) nm inst"
    and "msgs_at (view s) (qkey KEY_QUEUE (p_ns E) nm) (ms @ [b, a])"
    and "hasExpired (p_now E) a = (False, a)" "hasExpired (p_now E) b = (False, b)" and "consumeTimeout a \<noteq> 0"
    and "lists (view s) kp = []" "list_only (view s) kp"
  shows "\<exists>c' s'. waterfall (map (guarded_step E)
        [Reply \<lparr>cr_calls = [], cr_throws = True\<rparr>, Settled, Reply \<lparr>cr_calls = [], cr_throws = False\<rparr>, TimerFires 0, Settled])
      (c, s) = (Inr (), (c', s')) \<and>
    length (c_deliveries c') = 2 \<and> d_msg (c_deliveries c' ! 1) = b \<and> \<not> d_isTimeout (c_deliveries c' ! 1) \<and>
    lists (view s') kp = [] \<and>
    toString b \<in> set (lists (view s') (fate_key (p_ns E) nm (fate_of (p_now E) TIMEOUT a)))"
proof -
  let ?da = "\<lparr>d_msg = a, d_isTimeout = False, d_timer = True\<rparr>"
  let ?db = "\<lparr>d_msg = b, d_isTimeout = False, d_timer = consumeTimeout b \<noteq> 0\<rparr>"
  note ne = queue_client.fate_key_ne [OF assms(1)]
  obtain c1 s1 where 1: "consumer_step E (Reply \<lparr>cr_calls = [], cr_throws = True\<rparr>) (c, s) = (Inr (), (c1, s1))"
    "serving E nm inst 0 [?da] [Unacknowledge a CAUGHT_ERROR] c1"
    "msgs_at (view s1) (qkey KEY_QUEUE (p_ns E) nm) (ms @ [b])" "lists (view s1) kp = [toString a]" "list_only (view s1) kp"
    using queue_client.serve_reply [OF assms(1) _ assms(3), of 0 "[]" c s "ms @ [b]" a True] assms by auto
  obtain c2 s2 where 2: "consumer_step E Settled (c1, s1) = (Inr (), (c2, s2))" "serving E nm inst 1 [?da] [] c2"
    "view s2 = fate_view (p_ns E) nm kp (toString a) (fate_of (p_now E) CAUGHT_ERROR a) (view s1)"
    using queue_client.serve_settle [OF assms(1) 1(2) assms(3) 1(4,5)] by (auto simp: settled_view_def)
  have v2: "msgs_at (view s2) (qkey KEY_QUEUE (p_ns E) nm) (ms @ [b])" "lists (view s2) kp = []" "list_only (view s2) kp"
    using 2(3) 1(3,5) ne fate_view_lists [of kp "p_ns E" nm] not_sym [OF queue_client.processing_keys_ne(1) [OF assms(1)]]
    by (simp_all add: assms(3) msgs_at_def)
  obtain c3 s3 where 3: "consumer_step E (Reply \<lparr>cr_calls = [], cr_throws = False\<rparr>) (c2, s2) = (Inr (), (c3, s3))"
    "serving E nm inst 0 [?da, ?db] [] c3" "lists (view s3) kp = [toString b]" "list_only (view s3) kp"
    using queue_client.serve_reply [OF assms(1) _ assms(3) v2(1) assms(6) v2(2,3), of 0 "[?da]" c2 False] 2(2) by auto
  let ?ds = "[?da\<lparr>d_isTimeout := True, d_timer := False\<rparr>, ?db]"
  obtain c4 where 4: "consumer_step E (TimerFires 0) (c3, s3) = (Inr (), (c4, s3))"
    "serving E nm inst 0 ?ds [Unacknowledge a TIMEOUT] c4"
    using queue_client.serve_timer [OF assms(1) 3(2), of 0 s3] by auto
  obtain c5 s5 where 5: "consumer_step E Settled (c4, s3) = (Inr (), (c5, s5))" "serving E nm inst 1 ?ds [] c5"
    "view s5 = fate_view (p_ns E) nm kp (toString b) (fate_of (p_now E) TIMEOUT a) (view s3)"
    using queue_client.serve_settle [OF assms(1) 4(2) assms(3) 3(3,4)] by (auto simp: settled_view_def)
  have "waterfall (map (guarded_step E)
        [Reply \<lparr>cr_calls = [], cr_throws = True\<rparr>, Settled, Reply \<lparr>cr_calls = [], cr_throws = False\<rparr>, TimerFires 0, Settled])
      (c, s) = (Inr (), (c5, s5))"
    using 1(1,2) 2(1,2) 3(1,2) 4(1,2) 5(1) assms(2)
    by (simp add: guarded_step_def bindM_def retM_def serving_def)
  with 5(2,3) fate_view_lists(1,2) [of kp "p_ns E" nm] ne(1) assms(3) show ?thesis
    by (intro exI [of _ c5] exI [of _ s5]) (simp add: serving_def)
qed


section \<open>Examples\<close>

definition demo_consumer :: consumer where
  "demo_consumer = \<lparr>b_id = ''c1'', b_queueName = ''orders'',
     b_config = \<lparr>cfg_namespace = None, cfg_priorityQueue = False, cfg_monitorEnabled = False,
       cfg_message = \<lparr>popt_consumeTimeout = None, popt_ttl = None, popt_retryThreshold = None, popt_retryDelay = None\<rparr>\<rparr>,
     b_powerManager = pm_down, b_broker = None, b_sharedRedisClient = False, b_messageRate = None,
     c_consumerRedisClient = False, c_heartbeat = None, c_consumerWorkers = None, c_consumerFrontend = False,
     c_dequeues = 0, c_deliveries = [], c_calls = []\<rparr>"

lemma demo_consumer_fresh: "fresh_consumer demo_consumer" "b_queueName demo_consumer = ''orders''" "b_id demo_consumer = ''c1''"
  by (simp_all add: fresh_consumer_def fresh_base_def demo_consumer_def)

theorem consumer_starts_witness:
  "\<exists>c1 s1 c2 s2. consumer_run (mem_platform 0) (Inr (), Inr (), Inr ()) (demo_consumer, mem0) = (Inr (), (c1, s1)) \<and>
     c_dequeues c1 = 1 \<and> consumer_shutdown (mem_platform 0) (c1, s1) = (Inr (), (c2, s2)) \<and> fresh_base c2"
  using consumer_starts [OF orders_client demo_consumer_fresh, of mem0] by blast

lemma mem0_processing:
  "lists (mem_view mem0) k = []" "list_only (mem_view mem0) k"
  by (simp_all add: mem_view_def mem0_def list_only_def znorm_def)


definition busy_consumer :: consumer where
  "busy_consumer = (consumer_up (mem_platform 0) demo_consumer)\<lparr>c_consumerFrontend := True, b_powerManager := pm_up,
     c_calls := [Acknowledge (order_msg ''a'')]\<rparr>"


theorem timeout_takes_wrong_message_witness:
  "\<exists>c' s'. waterfall (map (guarded_step (mem_platform 0))
        [Reply \<lparr>cr_calls = [], cr_throws = True\<rparr>, Settled, Reply \<lparr>cr_calls = [], cr_throws = False\<rparr>, TimerFires 0, Settled])
      ((consumer_up (mem_platform 0) demo_consumer)\<lparr>c_consumerFrontend := True, b_powerManager := pm_up, c_dequeues := 1\<rparr>,
       demo_mem orders_key [order_msg ''b'', (order_msg ''a'')\<lparr>consumeTimeout := 5000\<rparr>]) = (Inr (), (c', s')) \<and>
     toString (order_msg ''b'') \<in> set (lists (mem_view s') (gkey KEY_QUEUE_DELAY))"
proof -
  let ?a = "(order_msg ''a'')\<lparr>consumeTimeout := 5000\<rparr>" and ?kp = "ikey KEY_QUEUE_PROCESSING ''default'' ''orders'' ''c1''"
  let ?c = "(consumer_up (mem_platform 0) demo_consumer)\<lparr>c_consumerFrontend := True, b_powerManager := pm_up, c_dequeues := 1\<rparr>"
  let ?s = "demo_mem orders_key [order_msg ''b'', ?a]"
  have sv: "serving (mem_platform 0) ''orders'' ''c1'' 1 [] [] ?c"
    by (simp add: serving_def handler_ok_def demo_consumer_def consumer_up_def set_up_def Let_def)
  have at: "msgs_at (mem_view ?s) (qkey KEY_QUEUE ''default'' ''orders'') ([] @ [order_msg ''b'', ?a])"
    using demo_mem_at [of "[order_msg ''b'', ?a]" orders_key] by (simp add: orders_key_def)
  have ex: "hasExpired 0 ?a = (False, ?a)" "hasExpired 0 (order_msg ''b'') = (False, order_msg ''b'')"
    and f: "fate_of 0 TIMEOUT ?a = ToDelay"
    by (simp_all add: hasExpired_def fate_of_def order_msg_def demo_msg_def newMessage_def defaultOpts_def)
  have "lists (mem_view ?s) ?kp = []" "list_only (mem_view ?s) ?kp"
    by (simp_all add: demo_mem_def mem_view_def mem0_def list_only_def znorm_def orders_key_def)
  with timeout_takes_wrong_message [OF orders_client sv, of ?kp ?s "[]" "order_msg ''b''" ?a] at ex f show ?thesis
    by (auto simp: fate_key_def)
qed

end
