(* ===== verification/Redis_Connection.thy ===== *)
theory Redis_Connection
  imports Redis_Client
begin

text \<open>
  How a Redis client becomes usable: \<open>getNewInstance\<close> of \<^verbatim>\<open>src/system/redis-client/redis-client.ts\<close> waits until the
  driver is ready, asks the server for its version and loads the Lua scripts (\<^verbatim>\<open>lua-scripts.ts\<close>). The version, the
  flag and the identifiers of the scripts are module variables that all clients of the process share. What the
  server answers to \<open>INFO\<close> and to \<open>SCRIPT LOAD\<close> are arguments (\<open>info\<close>, \<open>load\<close>).

  The theorems close the gap to the hypotheses of \<open>smq_live\<close>: a client that was handed out finds all scripts loaded
  and the version known.
\<close>

section \<open>Splitting\<close>

text \<open>\<open>split(sep)\<close> for a separator that is not empty; the word read so far is in the accumulator.\<close>

fun splitAt :: "string \<Rightarrow> string \<Rightarrow> string \<Rightarrow> string list" where
  "splitAt sep acc [] = [rev acc]"
| "splitAt sep acc (c # cs) =
     (if sep \<noteq> [] \<and> take (length sep) (c # cs) = sep then rev acc # splitAt sep [] (drop (length sep) (c # cs))
      else splitAt sep (c # acc) cs)"

definition splitOn :: "string \<Rightarrow> string \<Rightarrow> string list" where
  "splitOn sep s = splitAt sep [] s"

definition crlf :: string where
  "crlf = [CHR 0x0D, CHR 0x0A]"

section \<open>State and operations\<close>

record clientGlobals =
  redisServerVersion :: "int option list option"
  scriptsLoaded :: bool
  scriptIds :: "ELuaScriptName \<Rightarrow> string option"

definition initialGlobals :: clientGlobals where
  "initialGlobals = \<lparr>redisServerVersion = None, scriptsLoaded = False, scriptIds = (\<lambda>_. None)\<rparr>"

text \<open>\<open>config.redis.client\<close> may be any string.\<close>

definition getClient :: "string option \<Rightarrow> RedisClientName result" where
  "getClient name =
     (case name of
        None \<Rightarrow> Inr REDIS
      | Some n \<Rightarrow>
          if n = ''redis'' then Inr REDIS
          else if n = ''ioredis'' then Inr IOREDIS
          else Inl (RedisClientError ''Invalid Redis driver name''))"

text \<open>The second field of the second line; a property of \<open>undefined\<close> is a \<open>TypeError\<close>.\<close>

definition parseVersion :: "string \<Rightarrow> int option list result" where
  "parseVersion res =
     (case elem_at 1 (splitOn crlf res) of
        None \<Rightarrow> Inl TypeError
      | Some line \<Rightarrow>
          (case elem_at 1 (splitOn '':'' line) of
             None \<Rightarrow> Inl TypeError
           | Some v \<Rightarrow> Inr (map (\<lambda>i. map_option int (js_Number i)) (splitOn ''.'' v))))"

definition updateServerVersion :: "err + string \<Rightarrow> (clientGlobals, unit) io" where
  "updateServerVersion info g =
     (if redisServerVersion g = None then
        (case info of
           Inl e \<Rightarrow> throwM e g
         | Inr res \<Rightarrow>
             (case parseVersion res of
                Inl e \<Rightarrow> throwM e g
              | Inr v \<Rightarrow> (Inr (), g\<lparr>redisServerVersion := Some v\<rparr>)))
      else retM () g)"

definition loadScript :: "(ELuaScriptName \<Rightarrow> err + string option) \<Rightarrow> ELuaScriptName \<Rightarrow> (clientGlobals, unit) io" where
  "loadScript load nm g =
     (case load nm of
        Inl e \<Rightarrow> cbErr e g
      | Inr None \<Rightarrow> cbErr EmptyCallbackReplyError g
      | Inr (Some sha) \<Rightarrow>
          if sha = [] then cbErr EmptyCallbackReplyError g
          else (Inr (), g\<lparr>scriptIds := (scriptIds g)(nm \<mapsto> sha)\<rparr>))"

text \<open>The order in which the scripts were put into the map.\<close>

definition scriptsMap :: "ELuaScriptName list" where
  "scriptsMap = [ZPOPRPUSH, ZPOPHGETRPUSH, ZPUSHHSET, LPOPRPUSH]"

fun lua_loadScripts :: "(ELuaScriptName \<Rightarrow> err + string option) \<Rightarrow> ELuaScriptName list \<Rightarrow> (clientGlobals, unit) io" where
  "lua_loadScripts load [] = retM ()"
| "lua_loadScripts load (nm # nms) = bindM (loadScript load nm) (\<lambda>_. lua_loadScripts load nms)"

definition rc_loadScripts :: "(ELuaScriptName \<Rightarrow> err + string option) \<Rightarrow> (clientGlobals, unit) io" where
  "rc_loadScripts load g =
     (if \<not> scriptsLoaded g then
        bindM (lua_loadScripts load scriptsMap) (\<lambda>_ g'. (Inr (), g'\<lparr>scriptsLoaded := True\<rparr>)) g
      else retM () g)"

text \<open>Once the driver is ready; an error is thrown, not passed to the callback.\<close>

definition getNewInstance ::
  "string option \<Rightarrow> err + string \<Rightarrow> (ELuaScriptName \<Rightarrow> err + string option) \<Rightarrow> (clientGlobals, RedisClientName) io" where
  "getNewInstance config info load g =
     (case getClient config of
        Inl e \<Rightarrow> throwM e g
      | Inr drv \<Rightarrow>
          (case bindM (updateServerVersion info) (\<lambda>_. rc_loadScripts load) g of
             (Inl (Cb e), g') \<Rightarrow> (Inl (Throw e), g')
           | (Inl e, g') \<Rightarrow> (Inl e, g')
           | (Inr _, g') \<Rightarrow> (Inr drv, g')))"

text \<open>What an operation sees of a client: the platform with the driver and the module variables.\<close>

definition withClient :: "RedisClientName \<Rightarrow> clientGlobals \<Rightarrow> 's platform \<Rightarrow> 's platform" where
  "withClient drv g E = E\<lparr>p_driver := drv, p_version := redisServerVersion g, p_scripts := scriptIds g\<rparr>"

section \<open>Facts\<close>

lemma splitAt_word: "sep \<noteq> [] \<Longrightarrow> hd sep \<notin> set w \<Longrightarrow> splitAt sep acc w = [rev acc @ w]"
  by (induction w arbitrary: acc) (auto simp: neq_Nil_conv)

lemma splitAt_sep:
  "sep \<noteq> [] \<Longrightarrow> hd sep \<notin> set w \<Longrightarrow> splitAt sep acc (w @ sep @ rest) = (rev acc @ w) # splitAt sep [] rest"
proof (induction w arbitrary: acc)
  case Nil
  then show ?case by (cases sep) auto
next
  case (Cons c w)
  then have "take (length sep) (c # w @ sep @ rest) \<noteq> sep" by (cases sep) auto
  with Cons show ?case by simp
qed

lemma splitOn_word: "sep \<noteq> [] \<Longrightarrow> hd sep \<notin> set w \<Longrightarrow> splitOn sep w = [w]"
  by (simp add: splitOn_def splitAt_word)

lemma splitOn_sep: "sep \<noteq> [] \<Longrightarrow> hd sep \<notin> set w \<Longrightarrow> splitOn sep (w @ sep @ rest) = w # splitOn sep rest"
  by (simp add: splitOn_def splitAt_sep)

lemma set_show_nat: "set (show_nat n) \<subseteq> set digits"
proof (induction n rule: show_nat.induct)
  case (1 n)
  have "digit d \<in> set digits" for d unfolding digit_def by (rule nth_mem) (simp add: digits_def)
  with 1 show ?case by (subst show_nat.simps) (auto split: if_splits)
qed

lemma loadScript_ids:
  "loadScript load nm g = (r, g') \<Longrightarrow>
     (\<forall>m sha. sha \<noteq> [] \<and> scriptIds g m = Some sha \<longrightarrow> (\<exists>sha'. sha' \<noteq> [] \<and> scriptIds g' m = Some sha')) \<and>
     redisServerVersion g' = redisServerVersion g \<and> scriptsLoaded g' = scriptsLoaded g \<and>
     (r = Inr () \<longrightarrow> (\<exists>sha. sha \<noteq> [] \<and> scriptIds g' nm = Some sha)) \<and> r \<noteq> Inl NoReply \<and> (\<forall>e. r \<noteq> Inl (Throw e))"
  by (auto simp: loadScript_def cbErr_def split: sum.splits option.splits if_splits)

lemma lua_loadScripts_ids:
  "lua_loadScripts load nms g = (r, g') \<Longrightarrow>
     (\<forall>m sha. sha \<noteq> [] \<and> scriptIds g m = Some sha \<longrightarrow> (\<exists>sha'. sha' \<noteq> [] \<and> scriptIds g' m = Some sha')) \<and>
     redisServerVersion g' = redisServerVersion g \<and> scriptsLoaded g' = scriptsLoaded g \<and>
     (r = Inr () \<longrightarrow> (\<forall>nm \<in> set nms. \<exists>sha. sha \<noteq> [] \<and> scriptIds g' nm = Some sha))"
proof (induction nms arbitrary: g)
  case Nil
  then show ?case by (simp add: retM_def)
next
  case (Cons nm nms)
  obtain r1 g1 where 1: "loadScript load nm g = (r1, g1)" by fastforce
  note k = loadScript_ids [OF 1]
  show ?case
  proof (cases r1)
    case (Inl e)
    with Cons.prems 1 k show ?thesis by (auto simp: bindM_def)
  next
    case (Inr u)
    with Cons.prems 1 have "lua_loadScripts load nms g1 = (r, g')" by (simp add: bindM_def)
    note IH = Cons.IH [OF this]
    from k Inr obtain sha where "sha \<noteq> []" "scriptIds g1 nm = Some sha" by auto
    with IH have "\<exists>sha. sha \<noteq> [] \<and> scriptIds g' nm = Some sha" by blast
    with IH k show ?thesis by simp
  qed
qed

text \<open>The flag is only set when every script has an identifier.\<close>

definition globals_ok :: "clientGlobals \<Rightarrow> bool" where
  "globals_ok g \<longleftrightarrow> (scriptsLoaded g \<longrightarrow> (\<forall>nm. \<exists>sha. sha \<noteq> [] \<and> scriptIds g nm = Some sha))"

lemma scriptsMap_all: "nm \<in> set scriptsMap"
  by (cases nm) (simp_all add: scriptsMap_def)

lemma rc_loadScripts_ok:
  assumes "globals_ok g" "rc_loadScripts load g = (r, g')"
  shows "globals_ok g' \<and> redisServerVersion g' = redisServerVersion g \<and> (r = Inr () \<longrightarrow> scriptsLoaded g')"
proof (cases "scriptsLoaded g")
  case True
  with assms show ?thesis by (simp add: rc_loadScripts_def retM_def)
next
  case False
  obtain r1 g1 where 1: "lua_loadScripts load scriptsMap g = (r1, g1)" by fastforce
  from lua_loadScripts_ids [OF 1] 1 assms False show ?thesis
    by (cases r1) (auto simp: rc_loadScripts_def bindM_def globals_ok_def scriptsMap_all)
qed

lemma updateServerVersion_ok:
  "updateServerVersion info g = (r, g') \<Longrightarrow>
     scriptsLoaded g' = scriptsLoaded g \<and> scriptIds g' = scriptIds g \<and> (r = Inr () \<longrightarrow> redisServerVersion g' \<noteq> None)"
  by (auto simp: updateServerVersion_def throwM_def retM_def split: sum.splits if_splits)

lemma getNewInstance_ok:
  assumes "globals_ok g" "getNewInstance config info load g = (r, g')"
  shows "globals_ok g' \<and> (\<forall>drv. r = Inr drv \<longrightarrow> scriptsLoaded g' \<and> redisServerVersion g' \<noteq> None)"
proof (cases "getClient config")
  case (Inl e)
  with assms show ?thesis by (auto simp: getNewInstance_def throwM_def)
next
  case (Inr drv)
  obtain r1 g1 where 1: "updateServerVersion info g = (r1, g1)" by fastforce
  note u = updateServerVersion_ok [OF 1]
  then have ok1: "globals_ok g1" using assms(1) by (simp add: globals_ok_def)
  obtain r2 g2 where 2: "rc_loadScripts load g1 = (r2, g2)" by fastforce
  note l = rc_loadScripts_ok [OF ok1 2]
  from assms(2) Inr 1 2 u l ok1 show ?thesis
    by (cases r1; cases r2) (auto simp: getNewInstance_def bindM_def split: exn.splits)
qed

lemma client_live:
  assumes "globals_ok g" and "getNewInstance config info load g = (Inr drv, g')"
    and "smq_platform E view" and "live_server (p_srv E) (p_mul E) view"
  shows "globals_ok g' \<and> smq_live (withClient drv g' E) view"
proof -
  note ok = getNewInstance_ok [OF assms(1,2)]
  have ids: "\<exists>sha. scriptIds g' nm = Some sha \<and> sha \<noteq> []" for nm using ok by (auto simp: globals_ok_def)
  have "smq_live (withClient drv g' E) view"
    using assms(3,4) ids ok
    by (auto simp: withClient_def smq_live_def smq_platform_def smq_live_axioms_def)
  with ok show ?thesis by blast
qed

section \<open>Properties\<close>


definition demo_info :: string where
  "demo_info = ''# Server'' @ crlf @ ''redis_version:6.2.5'' @ crlf @ ''redis_mode:standalone''"


text \<open>The version is read back from the text Redis reports, and the comparison that chooses between \<open>LMOVE\<close> and
  the Lua script is the right one: it accepts exactly the versions from 6.2.0 on.\<close>

theorem server_version_gate:
  assumes "CHR 0x0D \<notin> set header"
  shows "updateServerVersion (Inr (header @ crlf @ ''redis_version:'' @ show_nat a @ ''.'' @ show_nat b @ ''.'' @ show_nat c @
      crlf @ rest)) initialGlobals =
      (Inr (), initialGlobals\<lparr>redisServerVersion := Some [Some (int a), Some (int b), Some (int c)]\<rparr>) \<and>
    validateRedisVersion (Some [Some (int a), Some (int b), Some (int c)]) 6 2 0 = Inr (a > 6 \<or> a = 6 \<and> b \<ge> 2)"
proof -
  have d: "x \<notin> set (show_nat n)" if "x \<notin> set digits" for x n using set_show_nat that by blast
  have sep: "CHR 0x0D \<notin> set digits" "CHR '':'' \<notin> set digits" "CHR ''.'' \<notin> set digits"
    by (simp_all add: digits_def)
  let ?v = "show_nat a @ ''.'' @ show_nat b @ ''.'' @ show_nat c"
  have v: "splitOn ''.'' ?v = [show_nat a, show_nat b, show_nat c]"
    using splitOn_sep [of "''.''" "show_nat a" "show_nat b @ ''.'' @ show_nat c"]
      splitOn_sep [of "''.''" "show_nat b" "show_nat c"] splitOn_word [of "''.''" "show_nat c"] d sep
    by simp
  have "CHR '':'' \<notin> set ?v" "CHR 0x0D \<notin> set ?v" using d sep by auto
  then have l: "splitOn '':'' (''redis_version:'' @ ?v) = [''redis_version'', ?v]"
    using splitOn_sep [of "'':''" "''redis_version''" ?v] splitOn_word [of "'':''" ?v] by simp
  have "CHR 0x0D \<notin> set (''redis_version:'' @ ?v)" using \<open>CHR 0x0D \<notin> set ?v\<close> by simp
  then have "elem_at 1 (splitOn crlf (header @ crlf @ (''redis_version:'' @ ?v) @ crlf @ rest)) = Some (''redis_version:'' @ ?v)"
    using splitOn_sep [of crlf header "(''redis_version:'' @ ?v) @ crlf @ rest"]
      splitOn_sep [of crlf "''redis_version:'' @ ?v" rest] assms
    by (simp add: crlf_def elem_at_def)
  then have "parseVersion (header @ crlf @ (''redis_version:'' @ ?v) @ crlf @ rest) =
      Inr [Some (int a), Some (int b), Some (int c)]"
    using l v by (simp add: parseVersion_def elem_at_def js_Number_show)
  then show ?thesis
    by (simp add: updateServerVersion_def initialGlobals_def validateRedisVersion_def ver_at_def elem_at_def)
qed

theorem server_version_gate_witness:
  "validateRedisVersion (Some [Some (int 7), Some (int 0), Some (int 4)]) 6 2 0 = Inr True"
  using server_version_gate [of "''# Server''" 7 0 4 "[]"] by simp

text \<open>With a third component other than 0 the comparison is not the order of versions: 6.3.0 does not pass for
  6.2.5. The program only asks for 6.2.0.\<close>

lemma validateRedisVersion_not_lexicographic:
  "validateRedisVersion (Some [Some 6, Some 3, Some 0]) 6 2 5 = Inr False"
  by (simp add: validateRedisVersion_def ver_at_def elem_at_def)

end
