(* ===== verification/Worker_Processes.thy ===== *)
theory Worker_Processes
  imports Workers Redis_Connection
begin

text \<open>
  The worker processes of \<^verbatim>\<open>src/system/workers\<close> around their ticks: the handler of the message the parent sends
  (namespace, Redis client, construction of the worker), the constructors, and the life of the process, which runs its
  tick whenever the timer of its ticker fires and arms it again when the tick is done. An exception ends the
  process. What the server answers when the client is made are arguments (\<open>info\<close>, \<open>load\<close>).
\<close>

section \<open>State\<close>

datatype workerKind = DelayWorker | ScheduleWorker | RequeueWorker | GCWorker | HeartbeatMonitorWorker

text \<open>What the handlers read of \<open>{config, consumerId}\<close>: the names of the namespace and of the driver, whether
  \<open>priorityQueue\<close> is \<open>true\<close>.\<close>

record TConsumerWorkerParameters =
  cp_namespace :: "string option"
  cp_redis :: "string option"
  cp_priorityQueue :: bool
  cp_consumerId :: string

record worker =
  wk_kind :: workerKind
  wk_ticker :: "unit ticker"
  wk_withPriority :: bool
  wk_consumerId :: string

record 'w workerProcess =
  wp_namespace :: string
  wp_globals :: clientGlobals
  wp_driver :: RedisClientName
  wp_worker :: "'w option"

definition newProcess :: "'w workerProcess" where
  "newProcess = \<lparr>wp_namespace = ''default'', wp_globals = initialGlobals, wp_driver = REDIS, wp_worker = None\<rparr>"

section \<open>Constructors\<close>

definition newDelayWorker :: "worker result" where
  "newDelayWorker =
     bindR (newTicker ()) (\<lambda>tk. bindR (nextTick tk) (\<lambda>tk'.
       Inr \<lparr>wk_kind = DelayWorker, wk_ticker = tk', wk_withPriority = False, wk_consumerId = []\<rparr>))"

definition newScheduleWorker :: "bool \<Rightarrow> worker result" where
  "newScheduleWorker withPriority =
     bindR (newTicker ()) (\<lambda>tk. bindR (nextTick tk) (\<lambda>tk'.
       Inr \<lparr>wk_kind = ScheduleWorker, wk_ticker = tk', wk_withPriority = withPriority, wk_consumerId = []\<rparr>))"

definition newRequeueWorker :: "bool \<Rightarrow> worker result" where
  "newRequeueWorker withPriority =
     bindR (newTicker ()) (\<lambda>tk. bindR (nextTick tk) (\<lambda>tk'.
       Inr \<lparr>wk_kind = RequeueWorker, wk_ticker = tk', wk_withPriority = withPriority, wk_consumerId = []\<rparr>))"

definition newGCWorker :: "string \<Rightarrow> worker result" where
  "newGCWorker consumerId =
     bindR (newTicker ()) (\<lambda>tk. bindR (nextTick tk) (\<lambda>tk'.
       Inr \<lparr>wk_kind = GCWorker, wk_ticker = tk', wk_withPriority = False, wk_consumerId = consumerId\<rparr>))"

text \<open>The constructor of the heartbeat monitor does not start its ticker.\<close>

definition newHeartbeatMonitorWorker :: "worker result" where
  "newHeartbeatMonitorWorker =
     bindR (newTicker ()) (\<lambda>tk.
       Inr \<lparr>wk_kind = HeartbeatMonitorWorker, wk_ticker = tk, wk_withPriority = False, wk_consumerId = []\<rparr>)"

section \<open>Start\<close>

text \<open>\<open>if (config.namespace) redisKeys.setNamespace(config.namespace)\<close>: the empty string counts as none.\<close>

definition useNamespace :: "string option \<Rightarrow> ('w workerProcess, unit) io" where
  "useNamespace ns p =
     (case ns of
        None \<Rightarrow> retM () p
      | Some n \<Rightarrow>
          if n = [] then retM () p
          else (case setNamespace n of Inl e \<Rightarrow> throwM e p | Inr n' \<Rightarrow> (Inr (), p\<lparr>wp_namespace := n'\<rparr>)))"

definition connect ::
  "string option \<Rightarrow> err + string \<Rightarrow> (ELuaScriptName \<Rightarrow> err + string option) \<Rightarrow> ('w workerProcess, unit) io" where
  "connect name info load p =
     (case getNewInstance name info load (wp_globals p) of
        (Inl (Cb e), g) \<Rightarrow> throwM e (p\<lparr>wp_globals := g\<rparr>)
      | (Inl e, g) \<Rightarrow> (Inl e, p\<lparr>wp_globals := g\<rparr>)
      | (Inr drv, g) \<Rightarrow> (Inr (), p\<lparr>wp_globals := g, wp_driver := drv\<rparr>))"

text \<open>The handlers of the worker files differ in the worker they construct.\<close>

definition startProcess ::
  "string option \<Rightarrow> string option \<Rightarrow> 'w result \<Rightarrow> err + string \<Rightarrow> (ELuaScriptName \<Rightarrow> err + string option) \<Rightarrow> ('w workerProcess, unit) io" where
  "startProcess namespace redis construct info load =
     bindM (useNamespace namespace) (\<lambda>_.
     bindM (connect redis info load) (\<lambda>_.
     bindM (liftT construct) (\<lambda>w p. (Inr (), p\<lparr>wp_worker := Some w\<rparr>))))"

type_synonym messageHandler =
  "TConsumerWorkerParameters \<Rightarrow> err + string \<Rightarrow> (ELuaScriptName \<Rightarrow> err + string option) \<Rightarrow> (worker workerProcess, unit) io"

definition delay_onMessage :: messageHandler where
  "delay_onMessage ps = startProcess (cp_namespace ps) (cp_redis ps) newDelayWorker"

definition schedule_onMessage :: messageHandler where
  "schedule_onMessage ps = startProcess (cp_namespace ps) (cp_redis ps) (newScheduleWorker (cp_priorityQueue ps))"

definition requeue_onMessage :: messageHandler where
  "requeue_onMessage ps = startProcess (cp_namespace ps) (cp_redis ps) (newRequeueWorker (cp_priorityQueue ps))"

definition gc_onMessage :: messageHandler where
  "gc_onMessage ps = startProcess (cp_namespace ps) (cp_redis ps) (newGCWorker (cp_consumerId ps))"

definition heartbeatMonitor_onMessage :: messageHandler where
  "heartbeatMonitor_onMessage ps = startProcess (cp_namespace ps) (cp_redis ps) newHeartbeatMonitorWorker"

primrec onMessage :: "workerKind \<Rightarrow> messageHandler" where
  "onMessage DelayWorker = delay_onMessage"
| "onMessage ScheduleWorker = schedule_onMessage"
| "onMessage RequeueWorker = requeue_onMessage"
| "onMessage GCWorker = gc_onMessage"
| "onMessage HeartbeatMonitorWorker = heartbeatMonitor_onMessage"

text \<open>Which worker each of them constructs.\<close>

primrec newWorker :: "workerKind \<Rightarrow> TConsumerWorkerParameters \<Rightarrow> worker result" where
  "newWorker DelayWorker ps = newDelayWorker"
| "newWorker ScheduleWorker ps = newScheduleWorker (cp_priorityQueue ps)"
| "newWorker RequeueWorker ps = newRequeueWorker (cp_priorityQueue ps)"
| "newWorker GCWorker ps = newGCWorker (cp_consumerId ps)"
| "newWorker HeartbeatMonitorWorker ps = newHeartbeatMonitorWorker"

section \<open>Life\<close>

text \<open>What the process sees of the platform.\<close>

definition seenBy :: "'w workerProcess \<Rightarrow> 's platform \<Rightarrow> 's platform" where
  "seenBy p E = (withClient (wp_driver p) (wp_globals p) E)\<lparr>p_ns := wp_namespace p\<rparr>"

definition worker_onTick :: "'s platform \<Rightarrow> worker \<Rightarrow> ('s, unit) io" where
  "worker_onTick E w =
     (case wk_kind w of
        DelayWorker \<Rightarrow> delayWorker_onTick E
      | ScheduleWorker \<Rightarrow> scheduleWorker_onTick E (wk_withPriority w)
      | RequeueWorker \<Rightarrow> requeueWorker_onTick E (wk_withPriority w)
      | GCWorker \<Rightarrow> gc_onTick E (wk_consumerId w)
      | HeartbeatMonitorWorker \<Rightarrow> heartbeatMonitor_onTick E)"

text \<open>The timer fires: the tick, then \<open>nextTick\<close>. \<open>NoReply\<close> when no timer is armed.\<close>

definition fire :: "'s platform \<Rightarrow> worker \<Rightarrow> 's \<Rightarrow> ((exn + unit) \<times> worker) \<times> 's" where
  "fire E w s =
     (if tk_timeout (wk_ticker w) \<noteq> Armed then ((Inl NoReply, w), s)
      else
        (case onTick ((wk_ticker w)\<lparr>tk_timeout := NoTimer\<rparr>) of
           (None, tk) \<Rightarrow> ((Inr (), w\<lparr>wk_ticker := tk\<rparr>), s)
         | (Some _, tk) \<Rightarrow>
             (case worker_onTick E w s of
                (Inl e, s') \<Rightarrow> ((Inl e, w\<lparr>wk_ticker := tk\<rparr>), s')
              | (Inr _, s') \<Rightarrow>
                  (case nextTick tk of
                     Inl e \<Rightarrow> ((Inl (Throw e), w\<lparr>wk_ticker := tk\<rparr>), s')
                   | Inr tk' \<Rightarrow> ((Inr (), w\<lparr>wk_ticker := tk'\<rparr>), s')))))"

text \<open>Successive ticks; before each of them the rest of the system may change Redis.\<close>

fun ticks :: "worker workerProcess \<Rightarrow> ('s platform \<times> ('s \<Rightarrow> 's)) list \<Rightarrow> worker \<Rightarrow> 's \<Rightarrow> ((exn + unit) \<times> worker) \<times> 's" where
  "ticks p [] w s = ((Inr (), w), s)"
| "ticks p ((E, others) # es) w s =
     (case fire (seenBy p E) w (others s) of
        ((Inr _, w'), s') \<Rightarrow> ticks p es w' s'
      | r \<Rightarrow> r)"

text \<open>\<open>quit\<close> of the garbage collector.\<close>

definition gc_quit :: "worker \<Rightarrow> worker result" where
  "gc_quit w = bindR (tk_quit (wk_ticker w)) (\<lambda>tk. Inr (w\<lparr>wk_ticker := tk\<rparr>))"

section \<open>Facts\<close>

text \<open>A worker that was started has exactly one timer, and it is armed.\<close>

definition ticking :: "worker \<Rightarrow> bool" where
  "ticking w \<longleftrightarrow> tk_powerManager (wk_ticker w) = \<lparr>pm_state = UP, pm_pendingState = None\<rparr> \<and> tk_onNextTickFn (wk_ticker w) = None \<and>
     tk_timeout (wk_ticker w) = Armed \<and> tk_interval (wk_ticker w) = NoTimer"

lemma fire_ticking:
  assumes "ticking w"
  shows "fire E w s =
    (case worker_onTick E w s of
       (Inr _, s') \<Rightarrow> ((Inr (), w), s')
     | (Inl e, s') \<Rightarrow> ((Inl e, w\<lparr>wk_ticker := (wk_ticker w)\<lparr>tk_timeout := NoTimer\<rparr>\<rparr>), s'))"
  using assms
  by (cases "wk_ticker w") (auto simp: fire_def ticking_def tk_defs pm_defs split: prod.splits sum.splits)

lemma newWorker_ticking:
  "newWorker kind ps = Inr w \<Longrightarrow> ticking w \<longleftrightarrow> kind \<noteq> HeartbeatMonitorWorker"
  "newWorker kind ps = Inr w \<Longrightarrow> wk_kind w = kind"
  by (cases kind; auto simp: ticking_def newDelayWorker_def newScheduleWorker_def newRequeueWorker_def newGCWorker_def
      newHeartbeatMonitorWorker_def tk_defs pm_defs)+

text \<open>The ticks alone, one after the other.\<close>

fun tickSeq :: "worker workerProcess \<Rightarrow> worker \<Rightarrow> ('s platform \<times> ('s \<Rightarrow> 's)) list \<Rightarrow> ('s, unit) io" where
  "tickSeq p w [] s = (Inr (), s)"
| "tickSeq p w ((E, others) # es) s = bindM (worker_onTick (seenBy p E) w) (\<lambda>_. tickSeq p w es) (others s)"

lemma ticks_ticking:
  "ticking w \<Longrightarrow> ticks p es w s =
    (case tickSeq p w es s of
       (Inr _, s') \<Rightarrow> ((Inr (), w), s')
     | (Inl e, s') \<Rightarrow> ((Inl e, w\<lparr>wk_ticker := (wk_ticker w)\<lparr>tk_timeout := NoTimer\<rparr>\<rparr>), s'))"
proof (induction es arbitrary: s)
  case (Cons e es)
  then show ?case
    by (cases e) (auto simp: fire_ticking bindM_def split: prod.splits sum.splits)
qed simp

lemma onMessage_eq: "onMessage kind ps = startProcess (cp_namespace ps) (cp_redis ps) (newWorker kind ps)"
  by (cases kind) (simp_all add: delay_onMessage_def schedule_onMessage_def requeue_onMessage_def
      gc_onMessage_def heartbeatMonitor_onMessage_def)

lemma startProcess_Inr:
  assumes "startProcess namespace redis construct info load newProcess = (Inr (), p)"
  shows "\<exists>w. wp_worker p = Some w \<and> construct = Inr w"
    "wp_namespace p = (case namespace of Some n \<Rightarrow> if n = [] then ''default'' else map lower n | None \<Rightarrow> ''default'')"
    "\<exists>g. globals_ok g \<and> getNewInstance redis info load g = (Inr (wp_driver p), wp_globals p)"
proof -
  obtain p1 where 1: "useNamespace namespace newProcess = (Inr (), p1)"
    and r1: "bindM (connect redis info load) (\<lambda>_. bindM (liftT construct) (\<lambda>w p. (Inr (), p\<lparr>wp_worker := Some w\<rparr>))) p1 = (Inr (), p)"
    using assms by (auto simp: startProcess_def io_iff)
  then obtain p2 w where 2: "connect redis info load p1 = (Inr (), p2)" and w: "construct = Inr w"
    and p: "p = p2\<lparr>wp_worker := Some w\<rparr>" by (auto simp: io_iff)
  have ns: "wp_namespace p1 = (case namespace of Some n \<Rightarrow> if n = [] then ''default'' else map lower n | None \<Rightarrow> ''default'')"
    and g1: "wp_globals p1 = initialGlobals"
    using 1 by (auto simp: useNamespace_def newProcess_def io_iff setNamespace_def dest!: validateRedisKey_Inr
        split: option.splits if_splits sum.splits)
  show "\<exists>w. wp_worker p = Some w \<and> construct = Inr w" using w p by simp
  show "wp_namespace p = (case namespace of Some n \<Rightarrow> if n = [] then ''default'' else map lower n | None \<Rightarrow> ''default'')"
    using 2 p ns by (auto simp: connect_def throwM_def split: prod.splits sum.splits exn.splits)
  show "\<exists>g. globals_ok g \<and> getNewInstance redis info load g = (Inr (wp_driver p), wp_globals p)"
    using 2 p g1 by (intro exI [of _ "wp_globals p1"])
      (auto simp: connect_def throwM_def globals_ok_def initialGlobals_def split: prod.splits sum.splits exn.splits)
qed

lemma seenBy_live:
  assumes "startProcess namespace redis construct info load newProcess = (Inr (), p)"
    and "smq_platform E view" "live_server (p_srv E) (p_mul E) view"
  shows "smq_live (seenBy p E) view"
proof -
  obtain g where "globals_ok g" "getNewInstance redis info load g = (Inr (wp_driver p), wp_globals p)"
    using startProcess_Inr(3) [OF assms(1)] by blast
  from client_live [OF this assms(2,3)] have "smq_live (withClient (wp_driver p) (wp_globals p) E) view" by blast
  then show ?thesis by (simp add: seenBy_def smq_live_def smq_platform_def smq_live_axioms_def)
qed


text \<open>Where the messages of the requeue queue go.\<close>

definition requeued :: "message list \<Rightarrow> rstr list \<Rightarrow> store \<Rightarrow> store" where
  "requeued ms rest st = st\<lparr>lists := (\<lambda>k. if k = gkey KEY_QUEUE_REQUEUE then rest
     else rev (map (\<lambda>m. toString (retried m)) (filter (\<lambda>m. pendingKey m = k) ms)) @ lists st k)\<rparr>"

definition addressed :: "message \<Rightarrow> bool" where
  "addressed m \<longleftrightarrow> (\<exists>q. queue m = Some q \<and> plain (q_ns q) \<and> plain (q_name q))"

lemma requeued_Nil: "lists st (gkey KEY_QUEUE_REQUEUE) = [] \<Longrightarrow> requeued [] [] st = st"
  by (cases st) (auto simp: requeued_def fun_eq_iff)

lemma requeued_twice: "requeued ms' rest' (requeued ms rest st) = requeued (ms @ ms') rest' st"
  by (auto simp: requeued_def fun_eq_iff)

lemma requeue_ticks:
  assumes "wk_kind w = RequeueWorker" "\<not> wk_withPriority w" and "list_all (\<lambda>E. smq_live (seenBy p E) view) Es"
    and "msgs_at (view s) (gkey KEY_QUEUE_REQUEUE) ms" "list_all addressed ms" and "length ms \<le> 100 * length Es"
  shows "\<exists>s'. tickSeq p w (map (\<lambda>E. (E, \<lambda>s. s)) Es) s = (Inr (), s') \<and> view s' = requeued ms [] (view s)"
  using assms(3-6)
proof (induction Es arbitrary: s ms)
  case Nil
  then show ?case by (auto simp: requeued_Nil msgs_at_def)
next
  case (Cons E Es)
  have "list_all (\<lambda>m. \<exists>q. queue m = Some q \<and> plain (q_ns q) \<and> plain (q_name q)) ms"
    using Cons.prems(3) by (simp add: addressed_def [abs_def])
  moreover have "smq_live (seenBy p E) view" using Cons.prems(1) by simp
  note smq_live.requeueWorker_moves [OF this Cons.prems(2)]
  ultimately obtain s1 where 1: "requeueWorker_onTick (seenBy p E) False s = (Inr (), s1)"
    "view s1 = requeued (take 100 ms) (map toString (drop 100 ms)) (view s)"
    by (auto simp: requeued_def)
  have "msgs_at (view s1) (gkey KEY_QUEUE_REQUEUE) (drop 100 ms)" "list_all addressed (drop 100 ms)"
    using 1(2) Cons.prems(2,3) by (auto simp: msgs_at_def requeued_def list_all_iff dest: in_set_dropD)
  moreover have "length (drop 100 ms) \<le> 100 * length Es" using Cons.prems(4) by simp
  ultimately obtain s2 where
    2: "tickSeq p w (map (\<lambda>E. (E, \<lambda>s. s)) Es) s1 = (Inr (), s2)" "view s2 = requeued (drop 100 ms) [] (view s1)"
    using Cons.IH [of s1 "drop 100 ms"] Cons.prems(1) by auto
  have t: "worker_onTick (seenBy p E) w s = (Inr (), s1)" using 1(1) assms(1,2) by (simp add: worker_onTick_def)
  show ?case using 2 unfolding 1(2) requeued_twice by (simp add: bindM_def t)
qed

section \<open>Properties\<close>

text \<open>C15. Life of a worker process that was started without an exception. It works in the namespace of the configuration
  (in lower case; without one, in the default namespace) on a client that is ready. The workers for delayed, scheduled and
  requeued messages and the garbage collector run their tick each time their timer fires, one tick after the other and
  whatever the rest of the system does in between, and go on until a tick throws. The heartbeat monitor never runs
  its tick: its timer is never armed.\<close>

theorem worker_process_life:
  assumes "onMessage kind ps info load newProcess = (Inr (), p)" and "wp_worker p = Some w"
    and "smq_platform E view" and "live_server (p_srv E) (p_mul E) view"
  shows "smq_live (seenBy p E) view \<and>
    p_ns (seenBy p E) = (case cp_namespace ps of Some n \<Rightarrow> if n = [] then ''default'' else map lower n | None \<Rightarrow> ''default'') \<and>
    (if kind = HeartbeatMonitorWorker then fire (seenBy p E) w s = ((Inl NoReply, w), s)
     else ticks p es w s =
       (case tickSeq p w es s of
          (Inr _, s') \<Rightarrow> ((Inr (), w), s')
        | (Inl e, s') \<Rightarrow> ((Inl e, w\<lparr>wk_ticker := (wk_ticker w)\<lparr>tk_timeout := NoTimer\<rparr>\<rparr>), s')))"
proof -
  have w: "newWorker kind ps = Inr w" using startProcess_Inr(1) [OF assms(1) [unfolded onMessage_eq]] assms(2) by simp
  have "fire (seenBy p E) w s = ((Inl NoReply, w), s)" if "kind = HeartbeatMonitorWorker"
    using w that by (auto simp: fire_def newHeartbeatMonitorWorker_def tk_defs pm_defs)
  moreover note ticks_ticking [of w p es s] newWorker_ticking(1) [OF w]
  ultimately show ?thesis
    using seenBy_live [OF assms(1) [unfolded onMessage_eq] assms(3,4)] startProcess_Inr(2) [OF assms(1) [unfolded onMessage_eq]]
    by (simp add: seenBy_def)
qed

text \<open>The requeue process empties its queue: a hundred messages per tick, so a backlog of any length is gone after
  a hundredth as many ticks, and every message is then, with its attempts counted, at the bottom of the pending list of its
  own queue, in the order in which it was requeued; nothing else has changed.\<close>

theorem requeue_process_drains:
  assumes "onMessage RequeueWorker ps info load newProcess = (Inr (), p)" and "\<not> cp_priorityQueue ps" and "wp_worker p = Some w"
    and "list_all (\<lambda>E. smq_platform E view \<and> live_server (p_srv E) (p_mul E) view) Es"
    and "msgs_at (view s) (gkey KEY_QUEUE_REQUEUE) ms" and "list_all addressed ms" and "length ms \<le> 100 * length Es"
  shows "\<exists>s'. ticks p (map (\<lambda>E. (E, \<lambda>s. s)) Es) w s = ((Inr (), w), s') \<and> view s' = requeued ms [] (view s)"
proof -
  have w: "newWorker RequeueWorker ps = Inr w" using startProcess_Inr(1) [OF assms(1) [unfolded onMessage_eq]] assms(3) by simp
  have "list_all (\<lambda>E. smq_live (seenBy p E) view) Es"
    using assms(4) seenBy_live [OF assms(1) [unfolded onMessage_eq]] by (auto simp: list_all_iff)
  moreover have "wk_kind w = RequeueWorker" "\<not> wk_withPriority w" "ticking w"
    using w newWorker_ticking [OF w] assms(2) by (auto simp: newRequeueWorker_def tk_defs pm_defs)
  ultimately show ?thesis
    using requeue_ticks [where w = w and p = p and view = view and Es = Es and s = s and ms = ms] assms(5-7)
    by (fastforce simp: ticks_ticking)
qed

section \<open>Examples\<close>

definition demo_params :: TConsumerWorkerParameters where
  "demo_params = \<lparr>cp_namespace = Some ''NS1'', cp_redis = None, cp_priorityQueue = False, cp_consumerId = ''c1''\<rparr>"

lemma demo_start:
  assumes "construct = Inr w"
  shows "\<exists>p. startProcess (Some ''NS1'') None construct (Inr demo_info) (\<lambda>_. Inr (Some ''sha'')) newProcess = (Inr (), p) \<and> wp_worker p = Some w"
proof -
  have v: "parseVersion demo_info = Inr [Some 6, Some 2, Some 5]" by code_simp
  have ns: "setNamespace ''NS1'' = Inr ''ns1''" by code_simp
  show ?thesis
    by (simp add: assms startProcess_def useNamespace_def connect_def ns bindM_def newProcess_def getNewInstance_def
        getClient_def updateServerVersion_def v rc_loadScripts_def loadScript_def scriptsMap_def initialGlobals_def retM_def liftT_def)
qed

lemma demo_process:
  "\<exists>p w. onMessage kind demo_params (Inr demo_info) (\<lambda>_. Inr (Some ''sha'')) newProcess = (Inr (), p) \<and> wp_worker p = Some w"
proof -
  have "\<exists>w. newWorker kind demo_params = Inr w"
    by (cases kind) (auto simp: newDelayWorker_def newScheduleWorker_def newRequeueWorker_def newGCWorker_def
      newHeartbeatMonitorWorker_def tk_defs pm_defs)
  then obtain w where "newWorker kind demo_params = Inr w" ..
  from demo_start [OF this] show ?thesis by (simp add: onMessage_eq demo_params_def) blast
qed

theorem worker_process_life_witness:
  "\<exists>p w. onMessage HeartbeatMonitorWorker demo_params (Inr demo_info) (\<lambda>_. Inr (Some ''sha'')) newProcess = (Inr (), p) \<and>
     fire (seenBy p (mem_platform 0)) w mem0 = ((Inl NoReply, w), mem0)"
proof -
  obtain p w where p: "onMessage HeartbeatMonitorWorker demo_params (Inr demo_info) (\<lambda>_. Inr (Some ''sha'')) newProcess = (Inr (), p)"
    "wp_worker p = Some w" using demo_process by blast
  from worker_process_life [OF p memp.smq_platform_axioms memp.live_server_axioms, of 0 mem0 "[]"] p(1) show ?thesis by auto
qed

theorem requeue_process_drains_witness:
  "\<exists>p w s'. onMessage RequeueWorker demo_params (Inr demo_info) (\<lambda>_. Inr (Some ''sha'')) newProcess = (Inr (), p) \<and>
     ticks p [(mem_platform 0, \<lambda>s. s)] w (demo_mem (gkey KEY_QUEUE_REQUEUE) [order_msg ''a'', order_msg ''b'']) = ((Inr (), w), s') \<and>
     lists (mem_view s') (qkey KEY_QUEUE ''default'' ''orders'') = [toString (retried (order_msg ''b'')), toString (retried (order_msg ''a''))]"
proof -
  let ?ms = "[order_msg ''a'', order_msg ''b'']"
  obtain p w where p: "onMessage RequeueWorker demo_params (Inr demo_info) (\<lambda>_. Inr (Some ''sha'')) newProcess = (Inr (), p)"
    "wp_worker p = Some w" using demo_process by blast
  have a: "list_all addressed ?ms" "\<not> cp_priorityQueue demo_params"
    by (auto simp: addressed_def demo_params_def)
  have at: "msgs_at (mem_view (demo_mem (gkey KEY_QUEUE_REQUEUE) ?ms)) (gkey KEY_QUEUE_REQUEUE) ?ms" by (rule demo_mem_at) simp
  have "list_all (\<lambda>E. smq_platform E mem_view \<and> live_server (p_srv E) (p_mul E) mem_view) [mem_platform 0]"
    using memp.smq_platform_axioms memp.live_server_axioms by simp
  from requeue_process_drains [OF p(1) a(2) p(2) this at a(1)] obtain s' where
    "ticks p [(mem_platform 0, \<lambda>s. s)] w (demo_mem (gkey KEY_QUEUE_REQUEUE) ?ms) = ((Inr (), w), s')"
    "mem_view s' = requeued ?ms [] (mem_view (demo_mem (gkey KEY_QUEUE_REQUEUE) ?ms))" by (auto simp del: ticks.simps)
  moreover have "lists (requeued ?ms [] (mem_view (demo_mem (gkey KEY_QUEUE_REQUEUE) ?ms))) (qkey KEY_QUEUE ''default'' ''orders'') =
      [toString (retried (order_msg ''b'')), toString (retried (order_msg ''a''))]"
    by (simp add: requeued_def pendingKey_def demo_mem_def mem_view_def mem0_def)
  ultimately show ?thesis using p(1) by metis
qed

end
