(* ===== verification/Delivery.thy ===== *)
theory Delivery
  imports Consumer Worker_Processes
begin

text \<open>
  A message on its way through consumer, broker and workers: one delivery from the dequeue to the call of the broker that settles
  it, and the rounds a message goes through that the application cannot consume, with the requeue worker or with the delay and
  schedule workers between two deliveries. The root theory states what comes of it.
\<close>

section \<open>One delivery\<close>

text \<open>One delivery: the dequeue is answered, the application takes the message and later answers \<open>res\<close>, and the broker
  settles it.\<close>

definition deliver :: "'s platform \<Rightarrow> nat \<Rightarrow> err option \<Rightarrow> 's consumer_io" where
  "deliver E i res = waterfall (map (guarded_step E) [Reply \<lparr>cr_calls = [], cr_throws = False\<rparr>, Consumed i res, Settled])"

text \<open>Where a settled message goes.\<close>

definition settled_key :: "string \<Rightarrow> string \<Rightarrow> int \<Rightarrow> brokerCall \<Rightarrow> key" where
  "settled_key n nm now call =
     (case call of
        Acknowledge _ \<Rightarrow> qkey KEY_QUEUE_ACKNOWLEDGED_MESSAGES n nm
      | Unacknowledge m cause \<Rightarrow> fate_key n nm (fate_of now cause m))"

lemma settled_view_lists:
  assumes "kp \<noteq> settled_key n nm now call"
  shows "lists (settled_view n nm kp x now call st) kp = []"
    "mset (lists (settled_view n nm kp x now call st) (settled_key n nm now call)) =
      add_mset x (mset (lists st (settled_key n nm now call)))"
    "k \<noteq> kp \<Longrightarrow> k \<noteq> settled_key n nm now call \<Longrightarrow> lists (settled_view n nm kp x now call st) k = lists st k"
  using assms
  by (auto simp: settled_view_def settled_key_def fate_view_def fate_key_def moved_def Let_def
      split: brokerCall.splits fate.splits)

context queue_client
begin

lemma settled_key_ne:
  "ikey KEY_QUEUE_PROCESSING (p_ns E) nm inst \<noteq> settled_key (p_ns E) nm now call"
  "qkey KEY_QUEUE (p_ns E) nm \<noteq> settled_key (p_ns E) nm now call"
  using fate_key_ne processing_keys_ne plain_names by (auto simp: settled_key_def split: brokerCall.splits)

lemma deliver_live:
  assumes sv: "serving E nm inst 1 ds [] c" and kp: "kp = ikey KEY_QUEUE_PROCESSING (p_ns E) nm inst"
    and "msgs_at (view s) (qkey KEY_QUEUE (p_ns E) nm) (ms @ [m])" and "hasExpired (p_now E) m = (False, m)"
    and "lists (view s) kp = []" "list_only (view s) kp"
  shows "\<exists>c' s'. deliver E (length ds) res (c, s) = (Inr (), (c', s')) \<and>
    serving E nm inst 1 (ds @ [\<lparr>d_msg = m, d_isTimeout = False, d_timer = False\<rparr>]) [] c' \<and>
    view s' = settled_view (p_ns E) nm kp (toString m) (p_now E) (answer m res)
      (set_list kp [toString m] (set_list (qkey KEY_QUEUE (p_ns E) nm) (map toString ms) (view s)))"
proof -
  let ?d = "\<lparr>d_msg = m, d_isTimeout = False, d_timer = consumeTimeout m \<noteq> 0\<rparr>"
  obtain c1 s1 where 1: "consumer_step E (Reply \<lparr>cr_calls = [], cr_throws = False\<rparr>) (c, s) = (Inr (), (c1, s1))"
    "serving E nm inst 0 (ds @ [?d]) [] c1" "lists (view s1) kp = [toString m]" "list_only (view s1) kp"
    "view s1 = set_list kp [toString m] (set_list (qkey KEY_QUEUE (p_ns E) nm) (map toString ms) (view s))"
    using serve_reply [OF _ kp assms(3-6), of 0 ds c False] sv by auto
  obtain c2 where 2: "consumer_step E (Consumed (length ds) res) (c1, s1) = (Inr (), (c2, s1))"
    "serving E nm inst 0 (ds @ [?d\<lparr>d_timer := False\<rparr>]) [answer m res] c2"
    using serve_consumed [OF 1(2), of res s1] by auto
  obtain c3 s3 where 3: "consumer_step E Settled (c2, s1) = (Inr (), (c3, s3))"
    "serving E nm inst 1 (ds @ [?d\<lparr>d_timer := False\<rparr>]) [] c3"
    "view s3 = settled_view (p_ns E) nm kp (toString m) (p_now E) (answer m res) (view s1)"
    using serve_settle [OF 2(2) kp 1(3,4)] by auto
  have "deliver E (length ds) res (c, s) = (Inr (), (c3, s3))"
    using 1(1,2) 2 3(1) sv by (simp add: deliver_def guarded_step_def bindM_def retM_def serving_def)
  with 3(2,3) show ?thesis unfolding 1(5) by auto
qed

end

text \<open>A delivery that fails, followed by a tick of the requeue worker.\<close>

definition failing_round :: "'s platform \<Rightarrow> err \<Rightarrow> nat \<Rightarrow> 's consumer_io" where
  "failing_round E e i = bindM (deliver E i (Some e)) (\<lambda>_. onRedis (requeueWorker_onTick E False))"

text \<open>What a message needs to be retried at once until its threshold is reached.\<close>

definition retried_at_once :: "'s platform \<Rightarrow> string \<Rightarrow> message \<Rightarrow> bool" where
  "retried_at_once E nm m \<longleftrightarrow>
     body m \<noteq> None \<and> hasExpired (p_now E) m = (False, m) \<and> retryThreshold m > 0 \<and> retryDelay m = 0 \<and>
     scheduledCron m = None \<and> scheduledRepeat m \<le> 0 \<and> queue m = Some \<lparr>q_name = nm, q_ns = p_ns E\<rparr>"

lemma retried_at_once_attempts [simp]: "retried_at_once E nm (m\<lparr>attempts := n\<rparr>) = retried_at_once E nm m"
  by (auto simp: retried_at_once_def hasExpired_def Let_def)

lemma retried_at_once_fate:
  assumes "retried_at_once E nm m"
  shows "fate_of (p_now E) UNACKNOWLEDGED m = (if attempts m + 1 \<ge> retryThreshold m then ToDeadLetter else ToRequeue)"
  using assms by (auto simp: retried_at_once_def fate_of_def hasExpired_def Let_def split: if_splits)

context queue_client
begin

lemma failing_round_live:
  assumes sv: "serving E nm inst 1 ds [] c" and kp: "kp = ikey KEY_QUEUE_PROCESSING (p_ns E) nm inst"
    and at: "lists (view s) (qkey KEY_QUEUE (p_ns E) nm) = [toString m]" "lists (view s) (gkey KEY_QUEUE_REQUEUE) = []"
    and m: "retried_at_once E nm m" and "lists (view s) kp = []" "list_only (view s) kp"
  shows "\<exists>c' s'. failing_round E e (length ds) (c, s) = (Inr (), (c', s')) \<and>
    serving E nm inst 1 (ds @ [\<lparr>d_msg = m, d_isTimeout = False, d_timer = False\<rparr>]) [] c' \<and> list_only (view s') kp \<and>
    lists (view s') = (if attempts m + 1 \<ge> retryThreshold m
      then (lists (view s))(qkey KEY_QUEUE (p_ns E) nm := [],
        qkey KEY_QUEUE_DL (p_ns E) nm := lists (view s) (qkey KEY_QUEUE_DL (p_ns E) nm) @ [toString m])
      else (lists (view s))(qkey KEY_QUEUE (p_ns E) nm := [toString (retried m)]))"
proof -
  let ?q = "qkey KEY_QUEUE (p_ns E) nm" and ?rk = "gkey KEY_QUEUE_REQUEUE"
  let ?dl = "attempts m + 1 \<ge> retryThreshold m"
  have ms: "msgs_at (view s) ?q ([] @ [m])" and ex: "hasExpired (p_now E) m = (False, m)"
    using at m by (auto simp: msgs_at_def retried_at_once_def)
  obtain c1 s1 where 1: "deliver E (length ds) (Some e) (c, s) = (Inr (), (c1, s1))"
    "serving E nm inst 1 (ds @ [\<lparr>d_msg = m, d_isTimeout = False, d_timer = False\<rparr>]) [] c1"
    "view s1 = fate_view (p_ns E) nm kp (toString m) (if ?dl then ToDeadLetter else ToRequeue)
      (set_list kp [toString m] (set_list ?q [] (view s)))"
    using deliver_live [OF sv kp ms ex assms(6,7), of "Some e"] retried_at_once_fate [OF m]
    by (auto simp: settled_view_def answer_def)
  note ne = processing_keys_ne fate_key_ne [unfolded fate_key_def]
  have r: "msgs_at (view s1) ?rk (if ?dl then [] else [m])"
    using at(2) m kp ne plain_names
    by (auto simp: 1(3) fate_view_def moved_def msgs_at_def retried_at_once_def Let_def)
  have q: "list_all (\<lambda>m. \<exists>q. queue m = Some q \<and> plain (q_ns q) \<and> plain (q_name q)) (if ?dl then [] else [m])"
    using m plain_names by (auto simp: retried_at_once_def)
  obtain s2 where 2: "requeueWorker_onTick E False s1 = (Inr (), s2)"
    "\<exists>f. view s2 = (view s1)\<lparr>lists := f\<rparr>"
    "\<And>k. lists (view s2) k = (if k = ?rk then [] else (if \<not> ?dl \<and> k = ?q then [toString (retried m)] else []) @ lists (view s1) k)"
    using requeueWorker_moves [OF r q] m by (fastforce simp: retried_at_once_def pendingKey_def)
  have l1: "lists (view s1) k = (if k = ?q then [] else if ?dl \<and> k = qkey KEY_QUEUE_DL (p_ns E) nm
      then lists (view s) k @ [toString m] else lists (view s) k)" if "k \<noteq> ?rk" for k
    using that assms(6) kp ne plain_names by (auto simp: 1(3) fate_view_def moved_def Let_def)
  have "failing_round E e (length ds) (c, s) = (Inr (), (c1, s2))"
    using 1(1) 2(1) by (simp add: failing_round_def bindM_def onRedis_def)
  moreover have "list_only (view s2) kp"
    using 2(2) assms(7) by (cases ?dl) (auto simp: 1(3) fate_view_def moved_def list_only_def Let_def)
  moreover have "lists (view s2) = (if ?dl
      then (lists (view s))(?q := [], qkey KEY_QUEUE_DL (p_ns E) nm := lists (view s) (qkey KEY_QUEUE_DL (p_ns E) nm) @ [toString m])
      else (lists (view s))(?q := [toString (retried m)]))"
    using at(2) plain_names by (auto simp: fun_eq_iff 2(3) l1)
  ultimately show ?thesis using 1(2) by blast
qed

end


text \<open>The deliveries of a message with its attempts counted.\<close>

definition attempts_of :: "message \<Rightarrow> nat \<Rightarrow> delivery list" where
  "attempts_of m n = map (\<lambda>i. \<lparr>d_msg = m\<lparr>attempts := int i\<rparr>, d_isTimeout = False, d_timer = False\<rparr>) [0..<n]"

lemma attempts_of_simps [simp]:
  "attempts_of m 0 = []"
  "attempts_of m (Suc n) = attempts_of m n @ [\<lparr>d_msg = m\<lparr>attempts := int n\<rparr>, d_isTimeout = False, d_timer = False\<rparr>]"
  "length (attempts_of m n) = n"
  by (simp_all add: attempts_of_def)

context queue_client
begin

lemma failing_rounds_live:
  assumes sv: "serving E nm inst 1 [] [] c" and kp: "kp = ikey KEY_QUEUE_PROCESSING (p_ns E) nm inst"
    and "lists (view s) (qkey KEY_QUEUE (p_ns E) nm) = [toString m]" "lists (view s) (gkey KEY_QUEUE_REQUEUE) = []"
    and m: "retried_at_once E nm m" "attempts m = 0" and "lists (view s) kp = []" "list_only (view s) kp"
    and "int n < retryThreshold m"
  shows "\<exists>c' s'. waterfall (map (failing_round E e) [0..<n]) (c, s) = (Inr (), (c', s')) \<and>
    serving E nm inst 1 (attempts_of m n) [] c' \<and> list_only (view s') kp \<and>
    lists (view s') = (lists (view s))(qkey KEY_QUEUE (p_ns E) nm := [toString (m\<lparr>attempts := int n\<rparr>)])"
  using assms(9)
proof (induction n)
  case 0
  have "m\<lparr>attempts := 0\<rparr> = m" using m(2) by simp
  with assms show ?case by (auto simp: retM_def)
next
  case (Suc n)
  let ?q = "qkey KEY_QUEUE (p_ns E) nm" and ?m = "m\<lparr>attempts := int n\<rparr>"
  have "int n < retryThreshold m" using Suc.prems by simp
  from Suc.IH [OF this] obtain c1 s1 where 1: "waterfall (map (failing_round E e) [0..<n]) (c, s) = (Inr (), (c1, s1))"
    "serving E nm inst 1 (attempts_of m n) [] c1" "list_only (view s1) kp"
    "lists (view s1) = (lists (view s))(?q := [toString ?m])" by blast
  have "lists (view s1) ?q = [toString ?m]" "lists (view s1) (gkey KEY_QUEUE_REQUEUE) = []"
    "retried_at_once E nm ?m" "lists (view s1) kp = []"
    using 1(4) assms(4,7) m(1) processing_keys_ne plain_names kp by auto
  from failing_round_live [OF 1(2) kp this 1(3), of e] Suc.prems obtain c2 s2 where
    2: "failing_round E e n (c1, s1) = (Inr (), (c2, s2))" "serving E nm inst 1 (attempts_of m (Suc n)) [] c2"
    "list_only (view s2) kp" "lists (view s2) = (lists (view s1))(?q := [toString (retried ?m)])"
    by auto
  have "retried ?m = m\<lparr>attempts := int (Suc n)\<rparr>" by (simp add: retried_def)
  with 1(1,4) 2 show ?case by (auto simp: waterfall_append bindM_def retM_def)
qed

end

section \<open>Retries after a delay\<close>

text \<open>A delivery that fails at time \<open>t\<close>, a tick of the delay worker at \<open>t1\<close>, a tick of the schedule worker at \<open>t2\<close>.\<close>

definition delayed_round :: "'s platform \<Rightarrow> err \<Rightarrow> nat \<Rightarrow> int \<times> int \<times> int \<Rightarrow> 's consumer_io" where
  "delayed_round E e i = (\<lambda>(t, t1, t2).
     bindM (deliver (E\<lparr>p_now := t\<rparr>) i (Some e)) (\<lambda>_.
     bindM (onRedis (delayWorker_onTick (E\<lparr>p_now := t1\<rparr>))) (\<lambda>_.
       onRedis (scheduleWorker_onTick (E\<lparr>p_now := t2\<rparr>) False))))"

text \<open>What a message needs to be retried after its delay until its threshold is reached.\<close>

definition retried_later :: "'s platform \<Rightarrow> string \<Rightarrow> message \<Rightarrow> bool" where
  "retried_later E nm m \<longleftrightarrow>
     body m \<noteq> None \<and> ttl m = 0 \<and> \<not> expired m \<and> retryThreshold m > 0 \<and> retryDelay m \<ge> 1000 \<and>
     scheduledCron m = None \<and> scheduledRepeat m = 0 \<and> queue m = Some \<lparr>q_name = nm, q_ns = p_ns E\<rparr>"

text \<open>The form in which it comes back.\<close>

definition redelivered :: "'s platform \<Rightarrow> int \<Rightarrow> int \<Rightarrow> message \<Rightarrow> message" where
  "redelivered E t1 t2 m = published (E\<lparr>p_now := t2\<rparr>) False (delayedForm (E\<lparr>p_now := t1\<rparr>) m)"

lemma redelivered_sel [simp]:
  "uuid (redelivered E t1 t2 m) = uuid m" "attempts (redelivered E t1 t2 m) = attempts m + 1"
  "retryThreshold (redelivered E t1 t2 m) = retryThreshold m" "retryDelay (redelivered E t1 t2 m) = retryDelay m"
  "body (redelivered E t1 t2 m) = body m" "retried_later E' nm (redelivered E t1 t2 m) = retried_later E' nm m"
  by (simp_all add: redelivered_def published_def delayedForm_def retried_later_def)

lemma retried_later_fate:
  assumes "retried_later E nm m"
  shows "fate_of now UNACKNOWLEDGED m = (if attempts m + 1 \<ge> retryThreshold m then ToDeadLetter else ToDelay)"
    "hasExpired now m = (False, m)"
  using assms by (auto simp: retried_later_def fate_of_def hasExpired_def)

lemma queue_client_now: "queue_client E view nm inst \<Longrightarrow> queue_client (E\<lparr>p_now := t\<rparr>) view nm inst"
  by (simp add: queue_client_def queue_client_axioms_def smq_live_now)

lemma consumerHandler_now [simp]: "consumerHandler (E\<lparr>p_now := t\<rparr>) = consumerHandler E"
  by (simp add: consumerHandler_def newDequeueHandler_def fun_eq_iff)

lemma serving_now [simp]: "serving_for wp (E\<lparr>p_now := t\<rparr>) = serving_for wp E"
  by (simp add: serving_def [abs_def] handler_ok_def cong: option.case_cong)

lemma map_of_single: "distinct (map fst z) \<Longrightarrow> map_of z = [k \<mapsto> v] \<Longrightarrow> z = [(k, v)]"
proof (cases z)
  case (Cons p ps)
  assume d: "distinct (map fst z)" and m: "map_of z = [k \<mapsto> v]"
  have "fst ` set z = {k}" using m dom_map_of_conv_image_fst [of z] by simp
  with d Cons have "map fst ps = []" by (cases ps) auto
  with m Cons show ?thesis by (cases p) (auto simp: fun_eq_iff split: if_splits)
qed (auto dest: fun_cong [of _ _ k])

definition unscheduled :: "store \<Rightarrow> bool" where
  "unscheduled st \<longleftrightarrow> zsets st (gkey KEY_QUEUE_SCHEDULED) = []"

context smq_live
begin

lemma zset_distinct: "distinct (map fst (zsets (view s) k))"
  using zset_inv by (simp add: zset_ok_def)

lemma delay_tick:
  assumes "lists (view s) (gkey KEY_QUEUE_DELAY) = [toString m]" "retried_later E' nm m" "unscheduled (view s)" "p_now E > 0"
  shows "\<exists>s'. delayWorker_onTick E s = (Inr (), s') \<and> lists (view s') = (lists (view s))(gkey KEY_QUEUE_DELAY := []) \<and>
    zmsgs_at (view s') (gkey KEY_QUEUE_SCHEDULED) (gkey KEY_SCHEDULED_MESSAGES) [(delayedForm E m, p_now E + retryDelay m)] \<and>
    beside_schedule (view s) (view s')"
proof -
  have ms: "msgs_at (view s) (gkey KEY_QUEUE_DELAY) [m]" and d: "list_all (\<lambda>m. retryDelay m \<ge> 1000) [m]"
    using assms(1,2) by (auto simp: msgs_at_def retried_later_def)
  obtain s' where s': "delay_schedule E s = (Inr (), s')"
    "lists (view s') = (lists (view s))(gkey KEY_QUEUE_DELAY := [])"
    "hashes (view s') = (hashes (view s))(gkey KEY_SCHEDULED_MESSAGES :=
      (hashes (view s) (gkey KEY_SCHEDULED_MESSAGES))(Str (uuid m) \<mapsto> toString (delayedForm E m)))"
    "map_of (zsets (view s') (gkey KEY_QUEUE_SCHEDULED)) = [Str (uuid m) \<mapsto> p_now E + retryDelay m]"
    "\<forall>k. k \<noteq> gkey KEY_QUEUE_SCHEDULED \<longrightarrow> zsets (view s') k = zsets (view s) k" "sets (view s') = sets (view s)"
    using delay_schedule_effect [OF ms assms(4) d] assms(3) by (auto simp: unscheduled_def)
  have "zsets (view s') (gkey KEY_QUEUE_SCHEDULED) = [(Str (uuid m), p_now E + retryDelay m)]"
    using map_of_single [OF zset_distinct s'(4)] .
  moreover have "body (delayedForm E m) \<noteq> None" "uuid (delayedForm E m) = uuid m"
    using assms(2) by (simp_all add: delayedForm_def retried_later_def)
  ultimately show ?thesis
    using s' by (auto simp: delayWorker_onTick_def orThrow_def scheduleDelayedMessages_def zmsgs_at_def beside_schedule_def)
qed

lemma schedule_tick_early:
  assumes "zmsgs_at (view s) (gkey KEY_QUEUE_SCHEDULED) (gkey KEY_SCHEDULED_MESSAGES) [(m, ts)]" and "p_now E < ts"
  shows "\<exists>s'. scheduleWorker_onTick E False s = (Inr (), s') \<and> view s' = view s"
  using enqueueScheduledMessages_live [OF assms(1) HOL.refl, of False] assms(2)
  by (auto simp: scheduleWorker_onTick_def mm_enqueueScheduledMessages_def orThrow_def retM_def)

lemma schedule_tick_next:
  assumes at: "zmsgs_at (view s) (gkey KEY_QUEUE_SCHEDULED) (gkey KEY_SCHEDULED_MESSAGES) [(m, ts)]" and "0 \<le> ts" "ts \<le> p_now E"
    and nx: "getNextScheduledTimestamp (p_now E) (p_cron E) (published E False m) = Inr (ts', m')"
    and "queue m \<noteq> None" "uuid m' = uuid m" "body m' \<noteq> None"
  shows "\<exists>s'. scheduleWorker_onTick E False s = (Inr (), s') \<and>
    lists (view s') = (lists (view s))(pendingKey m := lists (view s) (pendingKey m) @ [toString (published E False m)]) \<and>
    (if ts' = 0 then unscheduled (view s')
     else zmsgs_at (view s') (gkey KEY_QUEUE_SCHEDULED) (gkey KEY_SCHEDULED_MESSAGES) [(m', ts')]) \<and>
    beside_schedule (view s) (view s')"
proof -
  have ok: "list_all (schedulable_ok E) [m]" using nx assms(5) by (simp add: schedulable_ok_def)
  have due: "[m] = map fst (filter (\<lambda>p. 0 \<le> snd p \<and> snd p \<le> p_now E) [(m, ts)])" using assms(2,3) by simp
  obtain s' where s': "enqueueScheduledMessages E False s = (Inr (), s')"
    "\<forall>k. lists (view s') k = lists (view s) k @
       map (\<lambda>m. toString (published E False m)) (filter (\<lambda>m. pendingKey m = k) [m])"
    "sched (view s') (Str (uuid m)) = sched_next E m"
    "\<forall>i. i \<noteq> Str (uuid m) \<longrightarrow> sched (view s') i = sched (view s) i" "beside_schedule (view s) (view s')"
    using scheduled_due_effect [OF at due ok] by auto
  have z: "map_of (zsets (view s') (gkey KEY_QUEUE_SCHEDULED)) = (if ts' = 0 then Map.empty else [Str (uuid m) \<mapsto> ts'])"
  proof
    fix i
    show "map_of (zsets (view s') (gkey KEY_QUEUE_SCHEDULED)) i = (if ts' = 0 then Map.empty else [Str (uuid m) \<mapsto> ts']) i"
      using s'(3,4) at nx by (cases "i = Str (uuid m)") (auto simp: sched_def sched_next_def zmsgs_at_def)
  qed
  have "if ts' = 0 then unscheduled (view s')
    else zmsgs_at (view s') (gkey KEY_QUEUE_SCHEDULED) (gkey KEY_SCHEDULED_MESSAGES) [(m', ts')]"
  proof (cases "ts' = 0")
    case True
    with z show ?thesis by (simp add: unscheduled_def)
  next
    case False
    then have "zsets (view s') (gkey KEY_QUEUE_SCHEDULED) = [(Str (uuid m), ts')]" using z map_of_single [OF zset_distinct] by auto
    with False s'(3) nx assms(6,7) show ?thesis by (simp add: zmsgs_at_def sched_def sched_next_def)
  qed
  with s'(1,2,5) show ?thesis
    by (auto simp: scheduleWorker_onTick_def mm_enqueueScheduledMessages_def orThrow_def fun_eq_iff)
qed

lemma schedule_tick_due:
  assumes "zmsgs_at (view s) (gkey KEY_QUEUE_SCHEDULED) (gkey KEY_SCHEDULED_MESSAGES) [(m, ts)]" and "0 \<le> ts" "ts \<le> p_now E"
    and "scheduledCron m = None" "scheduledRepeat m = 0" "delayed m" "queue m \<noteq> None"
  shows "\<exists>s'. scheduleWorker_onTick E False s = (Inr (), s') \<and>
    lists (view s') = (lists (view s))(pendingKey m := lists (view s) (pendingKey m) @ [toString (published E False m)]) \<and>
    unscheduled (view s') \<and> beside_schedule (view s) (view s')"
proof -
  have "getNextScheduledTimestamp (p_now E) (p_cron E) (published E False m) = Inr (0, published E False m)"
    using assms(4-6) by (simp add: getNextScheduledTimestamp_def cronTimestamp_def repeatTimestamp_def published_def)
  moreover have "body (published E False m) \<noteq> None" using assms(1) by (simp add: zmsgs_at_def published_def)
  ultimately show ?thesis using schedule_tick_next [OF assms(1-3)] assms(7) by (force simp: published_def)
qed

end


context queue_client
begin

lemma fails_once:
  assumes sv: "serving E nm inst 1 ds [] c" and kp: "kp = ikey KEY_QUEUE_PROCESSING (p_ns E) nm inst"
    and at: "lists (view s) (qkey KEY_QUEUE (p_ns E) nm) = [toString m]" and m: "retried_later E nm m"
    and "lists (view s) kp = []" "list_only (view s) kp"
  shows "\<exists>c' s'. deliver (E\<lparr>p_now := t\<rparr>) (length ds) (Some e) (c, s) = (Inr (), (c', s')) \<and>
    serving E nm inst 1 (ds @ [\<lparr>d_msg = m, d_isTimeout = False, d_timer = False\<rparr>]) [] c' \<and>
    view s' = fate_view (p_ns E) nm kp (toString m) (if attempts m + 1 \<ge> retryThreshold m then ToDeadLetter else ToDelay)
      (set_list kp [toString m] (set_list (qkey KEY_QUEUE (p_ns E) nm) [] (view s)))"
proof -
  have "msgs_at (view s) (qkey KEY_QUEUE (p_ns (E\<lparr>p_now := t\<rparr>)) nm) ([] @ [m])"
    using at m by (auto simp: msgs_at_def retried_later_def)
  moreover note queue_client.deliver_live [OF queue_client_now [OF queue_client_axioms, of t], where ds = ds and c = c and
      kp = kp and s = s and ms = "[]" and m = m and res = "Some e"]
  ultimately show ?thesis
    using assms retried_later_fate [OF m] by (auto simp: settled_view_def answer_def)
qed

lemma delayed_round_live:
  assumes sv: "serving E nm inst 1 ds [] c" and kp: "kp = ikey KEY_QUEUE_PROCESSING (p_ns E) nm inst"
    and at: "lists (view s) (qkey KEY_QUEUE (p_ns E) nm) = [toString m]" "lists (view s) (gkey KEY_QUEUE_DELAY) = []"
    and m: "retried_later E nm m" "attempts m + 1 < retryThreshold m" and lk: "lists (view s) kp = []" "list_only (view s) kp"
    and un: "unscheduled (view s)" and t: "0 < t1" "t1 + retryDelay m \<le> t2"
  shows "\<exists>c' s'. delayed_round E e (length ds) (t, t1, t2) (c, s) = (Inr (), (c', s')) \<and>
    serving E nm inst 1 (ds @ [\<lparr>d_msg = m, d_isTimeout = False, d_timer = False\<rparr>]) [] c' \<and> list_only (view s') kp \<and>
    unscheduled (view s') \<and>
    lists (view s') = (lists (view s))(qkey KEY_QUEUE (p_ns E) nm := [toString (redelivered E t1 t2 m)])"
proof -
  let ?q = "qkey KEY_QUEUE (p_ns E) nm" and ?dk = "gkey KEY_QUEUE_DELAY"
  note ne = processing_keys_ne fate_key_ne [unfolded fate_key_def]
  obtain c1 s1 where 1: "deliver (E\<lparr>p_now := t\<rparr>) (length ds) (Some e) (c, s) = (Inr (), (c1, s1))"
    "serving E nm inst 1 (ds @ [\<lparr>d_msg = m, d_isTimeout = False, d_timer = False\<rparr>]) [] c1"
    "view s1 = fate_view (p_ns E) nm kp (toString m) ToDelay (set_list kp [toString m] (set_list ?q [] (view s)))"
    using fails_once [OF sv kp at(1) m(1) lk, of t e] m(2) by (simp add: linorder_not_le [symmetric]) blast
  have v1: "lists (view s1) = (lists (view s))(?q := [], ?dk := [toString m])" "unscheduled (view s1)" "list_only (view s1) kp"
    using at(2) un lk kp ne plain_names
    by (auto simp: 1(3) fate_view_def moved_def unscheduled_def list_only_def fun_eq_iff Let_def)
  let ?m1 = "delayedForm (E\<lparr>p_now := t1\<rparr>) m"
  have "lists (view s1) ?dk = [toString m]" "p_now (E\<lparr>p_now := t1\<rparr>) > 0" using v1(1) t(1) by auto
  then obtain s2 where 2: "delayWorker_onTick (E\<lparr>p_now := t1\<rparr>) s1 = (Inr (), s2)" "lists (view s2) = (lists (view s1))(?dk := [])"
    "zmsgs_at (view s2) (gkey KEY_QUEUE_SCHEDULED) (gkey KEY_SCHEDULED_MESSAGES) [(?m1, t1 + retryDelay m)]"
    "beside_schedule (view s1) (view s2)"
    using smq_live.delay_tick [OF smq_live_now [OF smq_live_axioms, of t1], of s1 m E nm] m(1) v1(2) by auto
  have pm: "pendingKey ?m1 = ?q" "scheduledCron ?m1 = None" "scheduledRepeat ?m1 = 0" "delayed ?m1" "queue ?m1 \<noteq> None"
    "0 \<le> t1 + retryDelay m"
    using m(1) t(1) by (auto simp: pendingKey_def delayedForm_def retried_later_def)
  obtain s3 where 3: "scheduleWorker_onTick (E\<lparr>p_now := t2\<rparr>) False s2 = (Inr (), s3)"
    "lists (view s3) = (lists (view s2))(?q := lists (view s2) ?q @ [toString (redelivered E t1 t2 m)])"
    "unscheduled (view s3)" "beside_schedule (view s2) (view s3)"
    using smq_live.schedule_tick_due [OF smq_live_now [OF smq_live_axioms, of t2] 2(3)] pm t(2)
    by (auto simp: redelivered_def)
  have "delayed_round E e (length ds) (t, t1, t2) (c, s) = (Inr (), (c1, s3))"
    using 1(1) 2(1) 3(1) by (simp add: delayed_round_def bindM_def onRedis_def)
  moreover have "lists (view s3) = (lists (view s))(?q := [toString (redelivered E t1 t2 m)])"
    using at(2) plain_names by (auto simp: 3(2) 2(2) v1(1) fun_eq_iff)
  moreover have "list_only (view s3) kp"
    using v1(3) 2(4) 3(4) kp plain_names by (auto simp: list_only_def beside_schedule_def)
  ultimately show ?thesis using 1(2) 3(3) by blast
qed

end


text \<open>The rounds a message goes through, one after the other; its form changes from delivery to delivery.\<close>

fun delayed_rounds :: "'s platform \<Rightarrow> err \<Rightarrow> nat \<Rightarrow> (int \<times> int \<times> int) list \<Rightarrow> 's consumer_io" where
  "delayed_rounds E e i [] = retM ()"
| "delayed_rounds E e i (t # ts) = bindM (delayed_round E e i t) (\<lambda>_. delayed_rounds E e (Suc i) ts)"

fun redeliveries :: "'s platform \<Rightarrow> (int \<times> int \<times> int) list \<Rightarrow> message \<Rightarrow> message list" where
  "redeliveries E [] m = [m]"
| "redeliveries E ((t, t1, t2) # ts) m = m # redeliveries E ts (redelivered E t1 t2 m)"

lemma redeliveries_attempts:
  "map (\<lambda>x. (uuid x, attempts x)) (redeliveries E ts m) = map (\<lambda>i. (uuid m, attempts m + int i)) [0..<Suc (length ts)]"
proof (induction ts arbitrary: m)
  case (Cons t ts)
  have "[0..<Suc (Suc (length ts))] = 0 # map Suc [0..<Suc (length ts)]" by (simp add: map_Suc_upt upt_conv_Cons del: upt_Suc)
  with Cons show ?case by (cases t) (simp add: comp_def algebra_simps del: upt_Suc)
qed simp

lemma redeliveries_last:
  "body (last (redeliveries E ts m)) = body m \<and> retryThreshold (last (redeliveries E ts m)) = retryThreshold m"
proof (induction ts arbitrary: m)
  case (Cons t ts)
  have "redeliveries E ts x \<noteq> []" for x by (cases ts) auto
  with Cons show ?case by (cases t) simp
qed simp

definition done_deliveries :: "message list \<Rightarrow> delivery list" where
  "done_deliveries ms = map (\<lambda>m. \<lparr>d_msg = m, d_isTimeout = False, d_timer = False\<rparr>) ms"

context queue_client
begin

lemma delayed_rounds_live:
  assumes kp: "kp = ikey KEY_QUEUE_PROCESSING (p_ns E) nm inst"
    and "serving E nm inst 1 ds [] c" "lists (view s) (qkey KEY_QUEUE (p_ns E) nm) = [toString m]"
    "lists (view s) (gkey KEY_QUEUE_DELAY) = []" "retried_later E nm m" "lists (view s) kp = []" "list_only (view s) kp"
    "unscheduled (view s)" "attempts m + int (length ts) < retryThreshold m"
    "list_all (\<lambda>(t, t1, t2). 0 < t1 \<and> t1 + retryDelay m \<le> t2) ts"
  shows "\<exists>c' s'. delayed_rounds E e (length ds) ts (c, s) = (Inr (), (c', s')) \<and>
    serving E nm inst 1 (ds @ done_deliveries (butlast (redeliveries E ts m))) [] c' \<and> list_only (view s') kp \<and> unscheduled (view s') \<and>
    lists (view s') = (lists (view s))(qkey KEY_QUEUE (p_ns E) nm := [toString (last (redeliveries E ts m))]) \<and>
    retried_later E nm (last (redeliveries E ts m))"
  using assms(2-)
proof (induction ts arbitrary: ds c s m)
  case Nil
  then show ?case by (auto simp: retM_def done_deliveries_def)
next
  case (Cons t ts)
  obtain t0 t1 t2 where t: "t = (t0, t1, t2)" by (cases t) auto
  let ?q = "qkey KEY_QUEUE (p_ns E) nm" and ?m = "redelivered E t1 t2 m"
  let ?ds = "ds @ [\<lparr>d_msg = m, d_isTimeout = False, d_timer = False\<rparr>]"
  have "attempts m + 1 < retryThreshold m" "0 < t1" "t1 + retryDelay m \<le> t2" using Cons.prems(8,9) t by auto
  from delayed_round_live [OF Cons.prems(1) kp Cons.prems(2,3,4) this(1) Cons.prems(5-7) this(2,3), of e t0]
  obtain c1 s1 where 1: "delayed_round E e (length ds) t (c, s) = (Inr (), (c1, s1))" "serving E nm inst 1 ?ds [] c1"
    "list_only (view s1) kp" "unscheduled (view s1)" "lists (view s1) = (lists (view s))(?q := [toString ?m])"
    unfolding t by blast
  have ne: "redeliveries E ts x \<noteq> []" for x by (cases ts) auto
  have l: "lists (view s1) ?q = [toString ?m]" "lists (view s1) (gkey KEY_QUEUE_DELAY) = []" "lists (view s1) kp = []"
    "retried_later E nm ?m" "attempts ?m + int (length ts) < retryThreshold ?m"
    "list_all (\<lambda>(t, t1, t2). 0 < t1 \<and> t1 + retryDelay ?m \<le> t2) ts"
    using Cons.prems processing_keys_ne plain_names kp by (auto simp: 1(5))
  from Cons.IH [OF 1(2) l(1,2,4,3) 1(3,4) l(5,6)] obtain c2 s2 where
    2: "delayed_rounds E e (length ?ds) ts (c1, s1) = (Inr (), (c2, s2))"
    "serving E nm inst 1 (?ds @ done_deliveries (butlast (redeliveries E ts ?m))) [] c2" "list_only (view s2) kp" "unscheduled (view s2)"
    "lists (view s2) = (lists (view s1))(?q := [toString (last (redeliveries E ts ?m))])"
    "retried_later E nm (last (redeliveries E ts ?m))"
    by blast
  have "delayed_rounds E e (length ds) (t # ts) (c, s) = (Inr (), (c2, s2))"
    using 1(1) 2(1) by (simp add: bindM_def)
  with 2 1(5) ne show ?case
    by (intro exI [of _ c2] exI [of _ s2]) (simp add: t done_deliveries_def)
qed

end

section \<open>Serving a queue\<close>

text \<open>Deliveries at the times \<open>us\<close> that the application acknowledges.\<close>

fun ack_rounds :: "'s platform \<Rightarrow> nat \<Rightarrow> int list \<Rightarrow> 's consumer_io" where
  "ack_rounds E i [] = retM ()"
| "ack_rounds E i (u # us) = bindM (deliver (E\<lparr>p_now := u\<rparr>) i None) (\<lambda>_. ack_rounds E (Suc i) us)"

definition lasting :: "message \<Rightarrow> bool" where
  "lasting m \<longleftrightarrow> ttl m = 0 \<and> \<not> expired m"

lemma lasting_not_expired: "lasting m \<Longrightarrow> hasExpired now m = (False, m)"
  by (simp add: lasting_def hasExpired_def)

context queue_client
begin

text \<open>The whole queue is served, the message pending longest first.\<close>

lemma ack_rounds_live:
  assumes kp: "kp = ikey KEY_QUEUE_PROCESSING (p_ns E) nm inst" and ak: "ak = qkey KEY_QUEUE_ACKNOWLEDGED_MESSAGES (p_ns E) nm"
    and "serving E nm inst 1 ds [] c" "msgs_at (view s) (qkey KEY_QUEUE (p_ns E) nm) (rev ms)" "list_all lasting ms"
    and "lists (view s) kp = []" "list_only (view s) kp" "length us = length ms"
  shows "\<exists>c' s'. ack_rounds E (length ds) us (c, s) = (Inr (), (c', s')) \<and>
    serving E nm inst 1 (ds @ done_deliveries ms) [] c' \<and>
    lists (view s') = (lists (view s))(qkey KEY_QUEUE (p_ns E) nm := [], ak := lists (view s) ak @ map toString ms)"
  using assms(3-)
proof (induction ms arbitrary: ds c s us)
  case Nil
  then have "(lists (view s))(qkey KEY_QUEUE (p_ns E) nm := []) = lists (view s)" by (simp add: msgs_at_def fun_upd_idem)
  with Nil show ?case by (auto simp: retM_def done_deliveries_def)
next
  case (Cons m ms)
  let ?q = "qkey KEY_QUEUE (p_ns E) nm"
  obtain u us' where us: "us = u # us'" "length us' = length ms" using Cons.prems(6) by (cases us) auto
  have ne: "kp \<noteq> ak" "?q \<noteq> kp" "?q \<noteq> ak" using kp ak processing_keys_ne plain_names by auto
  obtain c1 s1 where 1: "deliver (E\<lparr>p_now := u\<rparr>) (length ds) None (c, s) = (Inr (), (c1, s1))"
    "serving E nm inst 1 (ds @ done_deliveries [m]) [] c1"
    "view s1 = settled_view (p_ns E) nm kp (toString m) u (answer m None) (set_list kp [toString m] (set_list ?q (map toString (rev ms)) (view s)))"
    using queue_client.deliver_live [OF queue_client_now [OF queue_client_axioms, of u], where ds = ds and c = c and kp = kp and s = s
        and ms = "rev ms" and m = m and res = None] Cons.prems kp lasting_not_expired [of m u]
    by (auto simp: done_deliveries_def)
  have l1: "lists (view s1) = (lists (view s))(?q := map toString (rev ms), ak := lists (view s) ak @ [toString m])"
    using ne Cons.prems(4) by (auto simp: 1(3) settled_view_def answer_def moved_def ak Let_def fun_eq_iff)
  have "list_only (view s1) kp" "lists (view s1) kp = []" "msgs_at (view s1) ?q (rev ms)"
    using Cons.prems ne l1 by (auto simp: msgs_at_def list_only_def 1(3) settled_view_def answer_def moved_def Let_def)
  moreover have "list_all lasting ms" using Cons.prems(3) by simp
  ultimately obtain c2 s2 where 2: "ack_rounds E (length (ds @ done_deliveries [m])) us' (c1, s1) = (Inr (), (c2, s2))"
    "serving E nm inst 1 ((ds @ done_deliveries [m]) @ done_deliveries ms) [] c2"
    "lists (view s2) = (lists (view s1))(?q := [], ak := lists (view s1) ak @ map toString ms)"
    using Cons.IH [OF 1(2) _ _ _ _ us(2)] by blast
  have "lists (view s2) = (lists (view s))(?q := [], ak := lists (view s) ak @ map toString (m # ms))"
    using 2(3) ne unfolding l1 by (auto simp: fun_eq_iff)
  moreover have "ack_rounds E (length ds) us (c, s) = (Inr (), (c2, s2))"
    "serving E nm inst 1 (ds @ done_deliveries (m # ms)) [] c2"
    using 1(1) 2(1,2) by (simp_all add: us(1) bindM_def done_deliveries_def)
  ultimately show ?case by blast
qed

end

end
