(* ===== verification/Scheduled_Delivery.thy ===== *)
theory Scheduled_Delivery
  imports Delivery
begin

text \<open>
  A scheduled message on its way: the producer puts it into the schedule, the schedule worker brings it to its queue each time it
  is due, and the consumer has it consumed. The root theory states what comes of it.
\<close>

section \<open>The schedule of a message\<close>

text \<open>When the next delivery is due if the time now is \<open>t\<close>: the delay counts once, then the period.\<close>

definition periodOf :: "message \<Rightarrow> int" where
  "periodOf m = (case scheduledPeriod m of None \<Rightarrow> 0 | Some p \<Rightarrow> p)"

definition delayPending :: "message \<Rightarrow> bool" where
  "delayPending m \<longleftrightarrow> truthy_num (scheduledDelay m) \<and> \<not> delayed m"

definition waitOf :: "message \<Rightarrow> int" where
  "waitOf m = (if delayPending m then the (scheduledDelay m) else periodOf m)"

lemmas next_defs = getNextScheduledTimestamp_def setMessageDelayed_def incrMessageScheduledRepeatCount_def
  resetMessageScheduledRepeatCount_def setMessageScheduledCronFired_def

text \<open>What the computation of the next time leaves alone.\<close>

lemma next_keeps:
  assumes "getNextScheduledTimestamp now cron m = Inr (ts, m')"
  shows "uuid m' = uuid m \<and> body m' = body m \<and> queue m' = queue m \<and>
    ttl m' = ttl m \<and> expired m' = expired m \<and> scheduledPeriod m' = scheduledPeriod m \<and> scheduledRepeat m' = scheduledRepeat m"
proof (cases "cronTimestamp now cron m")
  case (Inl e)
  with assms show ?thesis by (auto simp: next_defs split: if_splits)
next
  case (Inr ct)
  with assms show ?thesis by (auto simp: next_defs Let_def split: if_splits)
qed

text \<open>A message whose schedule has no cron expression, as a producer makes it for the queue \<open>nm\<close>.\<close>

definition timed :: "'s platform \<Rightarrow> string \<Rightarrow> message \<Rightarrow> bool" where
  "timed E nm m \<longleftrightarrow> body m \<noteq> None \<and> ttl m = 0 \<and> \<not> expired m \<and> scheduledCron m = None \<and> msg_ok m \<and>
     queue m = Some \<lparr>q_name = nm, q_ns = p_ns E\<rparr>"

lemma next_time:
  assumes "timed E nm m" "t > 0" "getNextScheduledTimestamp t cron m = Inr (ts, m')"
  shows "timed E nm m'" "if deliveries_left m = 0 then ts = 0 else
    ts = t + waitOf m \<and> ts > 0 \<and> \<not> delayPending m' \<and> deliveries_left m = Suc (deliveries_left m')"
proof -
  obtain d: "if deliveries_left m = 0 then ts = 0 else ts \<ge> t \<and> deliveries_left m = Suc (deliveries_left m')"
    and m': "scheduledCron m' = None" "msg_ok m'"
    using next_no_cron [of m t cron] assms by (auto simp: timed_def)
  show "timed E nm m'" using next_keeps [OF assms(3)] m' assms(1) by (simp add: timed_def)
  have "ts = t + waitOf m \<and> \<not> delayPending m'" if "ts \<noteq> 0"
    using assms that
    by (auto simp: next_defs timed_def cronTimestamp_def repeatTimestamp_def waitOf_def delayPending_def periodOf_def truthy_num_def
        Let_def split: if_splits option.splits)
  with d assms(2) show "if deliveries_left m = 0 then ts = 0 else
    ts = t + waitOf m \<and> ts > 0 \<and> \<not> delayPending m' \<and> deliveries_left m = Suc (deliveries_left m')" by auto
qed

text \<open>Publishing it changes nothing of its schedule.\<close>

lemma published_timed [simp]:
  "timed E nm (published E' False m) = timed E nm m" "deliveries_left (published E' False m) = deliveries_left m"
  "waitOf (published E' False m) = waitOf m" "uuid (published E' False m) = uuid m" "body (published E' False m) = body m"
  "periodOf (published E' False m) = periodOf m" "delayPending (published E' False m) = delayPending m"
  "scheduledPeriod (published E' False m) = scheduledPeriod m"
  by (simp_all add: published_def timed_def msg_ok_def deliveries_left_def waitOf_def delayPending_def periodOf_def)

section \<open>Rounds\<close>

text \<open>A tick of the schedule worker at \<open>t\<close> and a delivery at \<open>u\<close> that the application acknowledges.\<close>

definition scheduled_round :: "'s platform \<Rightarrow> nat \<Rightarrow> int \<times> int \<Rightarrow> 's consumer_io" where
  "scheduled_round E i = (\<lambda>(t, u).
     bindM (onRedis (scheduleWorker_onTick (E\<lparr>p_now := t\<rparr>) False)) (\<lambda>_. deliver (E\<lparr>p_now := u\<rparr>) i None))"

fun scheduled_rounds :: "'s platform \<Rightarrow> nat \<Rightarrow> (int \<times> int) list \<Rightarrow> 's consumer_io" where
  "scheduled_rounds E i [] = retM ()"
| "scheduled_rounds E i (x # xs) = bindM (scheduled_round E i x) (\<lambda>_. scheduled_rounds E (Suc i) xs)"

text \<open>The ticks come when the message is due: the first one from \<open>a\<close> on, each other one a period later.\<close>

fun spaced :: "int \<Rightarrow> int \<Rightarrow> int list \<Rightarrow> bool" where
  "spaced p a [] = True"
| "spaced p a (t # ts) = (0 < t \<and> a \<le> t \<and> spaced p (t + p) ts)"

abbreviation scheduled_at :: "store \<Rightarrow> message \<Rightarrow> int \<Rightarrow> bool" where
  "scheduled_at st m a \<equiv> zmsgs_at st (gkey KEY_QUEUE_SCHEDULED) (gkey KEY_SCHEDULED_MESSAGES) [(m, a)]"

context queue_client
begin

lemma scheduled_round_live:
  assumes sv: "serving E nm inst 1 ds [] c" and kp: "kp = ikey KEY_QUEUE_PROCESSING (p_ns E) nm inst"
    and ak: "ak = qkey KEY_QUEUE_ACKNOWLEDGED_MESSAGES (p_ns E) nm"
    and at: "scheduled_at (view s) m a" "0 \<le> a" "a \<le> t" "0 < t" and m: "timed E nm m" "\<not> delayPending m"
    and em: "lists (view s) (qkey KEY_QUEUE (p_ns E) nm) = []" "lists (view s) kp = []" "list_only (view s) kp"
  shows "\<exists>c' s' m'. scheduled_round E (length ds) (t, u) (c, s) = (Inr (), (c', s')) \<and>
    serving E nm inst 1 (ds @ done_deliveries [published (E\<lparr>p_now := t\<rparr>) False m]) [] c' \<and> list_only (view s') kp \<and>
    (if deliveries_left m = 0 then unscheduled (view s')
     else scheduled_at (view s') m' (t + periodOf m) \<and> timed E nm m' \<and> \<not> delayPending m' \<and> uuid m' = uuid m \<and> body m' = body m \<and>
       periodOf m' = periodOf m \<and> deliveries_left m = Suc (deliveries_left m')) \<and>
    mset (lists (view s') ak) = add_mset (toString (published (E\<lparr>p_now := t\<rparr>) False m)) (mset (lists (view s) ak)) \<and>
    (\<forall>k. k \<noteq> ak \<longrightarrow> lists (view s') k = lists (view s) k)"
proof -
  let ?E = "E\<lparr>p_now := t\<rparr>" and ?q = "qkey KEY_QUEUE (p_ns E) nm"
  let ?m = "published ?E False m"
  have tm: "timed E nm ?m" using m(1) by simp
  obtain ts m' where n: "getNextScheduledTimestamp t (p_cron E) ?m = Inr (ts, m')"
    using next_no_cron [of ?m t "p_cron E"] tm at(4) by (auto simp: timed_def)
  note keep = next_keeps [OF n] and nt = next_time [OF tm at(4) n]
  have pk: "pendingKey m = ?q" "queue m \<noteq> None" "body m' \<noteq> None" "uuid m' = uuid m"
    using m(1) keep by (auto simp: timed_def pendingKey_def published_def)
  obtain s1 where 1: "scheduleWorker_onTick ?E False s = (Inr (), s1)"
    "lists (view s1) = (lists (view s))(?q := [toString ?m])"
    "if ts = 0 then unscheduled (view s1) else scheduled_at (view s1) m' ts" "beside_schedule (view s) (view s1)"
    using smq_live.schedule_tick_next [OF smq_live_now [OF smq_live_axioms, of t] at(1), where ts' = ts and m' = m'] at(2,3) n pk em(1)
    by auto
  have ms: "msgs_at (view s1) (qkey KEY_QUEUE (p_ns (E\<lparr>p_now := u\<rparr>)) nm) ([] @ [?m])" "lists (view s1) kp = []" "list_only (view s1) kp"
    using 1(2,4) m(1) em kp processing_keys_ne plain_names
    by (auto simp: msgs_at_def timed_def published_def list_only_def beside_schedule_def)
  have ex: "hasExpired (p_now (E\<lparr>p_now := u\<rparr>)) ?m = (False, ?m)" using tm by (simp add: hasExpired_def timed_def)
  obtain c2 s2 where 2: "deliver (E\<lparr>p_now := u\<rparr>) (length ds) None (c, s1) = (Inr (), (c2, s2))"
    "serving E nm inst 1 (ds @ done_deliveries [?m]) [] c2"
    "view s2 = settled_view (p_ns E) nm kp (toString ?m) u (answer ?m None) (set_list kp [toString ?m] (set_list ?q [] (view s1)))"
    using queue_client.deliver_live [OF queue_client_now [OF queue_client_axioms, of u], where ds = ds and c = c and kp = kp and s = s1
        and ms = "[]" and m = ?m and res = None] sv kp ms ex
    by (auto simp: done_deliveries_def)
  have ans: "ak = settled_key (p_ns E) nm u (answer ?m None)" by (simp add: ak settled_key_def answer_def)
  note ne = settled_key_ne [of u "answer ?m None", folded ans kp]
  note l = settled_view_lists [of kp "p_ns E" nm u "answer ?m None", folded ans, OF ne(1)]
  have "mset (lists (view s2) ak) = add_mset (toString ?m) (mset (lists (view s) ak))"
    using l(2) ne by (simp add: 2(3) 1(2))
  moreover have "lists (view s2) k = lists (view s) k" if "k \<noteq> ak" for k
    using l(1,3) that em by (cases "k = kp") (auto simp: 2(3) 1(2))
  moreover have v2: "zsets (view s2) = zsets (view s1)" "hashes (view s2) = hashes (view s1)"
    by (simp_all add: 2(3) settled_view_def answer_def moved_def Let_def)
  then have "list_only (view s2) kp" using ms(3) by (auto simp: list_only_def 2(3) settled_view_def answer_def moved_def Let_def)
  moreover have "if deliveries_left m = 0 then unscheduled (view s2)
     else scheduled_at (view s2) m' (t + periodOf m) \<and> timed E nm m' \<and> \<not> delayPending m' \<and> uuid m' = uuid m \<and> body m' = body m \<and>
       periodOf m' = periodOf m \<and> deliveries_left m = Suc (deliveries_left m')"
    using 1(3) nt keep v2 m(2) by (auto simp: unscheduled_def zmsgs_at_def waitOf_def periodOf_def split: if_splits)
  moreover have "scheduled_round E (length ds) (t, u) (c, s) = (Inr (), (c2, s2))"
    using 1(1) 2(1) by (simp add: scheduled_round_def bindM_def onRedis_def)
  ultimately show ?thesis using 2(2) by blast
qed

text \<open>All of them.\<close>

lemma scheduled_rounds_live:
  assumes kp: "kp = ikey KEY_QUEUE_PROCESSING (p_ns E) nm inst" and ak: "ak = qkey KEY_QUEUE_ACKNOWLEDGED_MESSAGES (p_ns E) nm"
    and "serving E nm inst 1 ds [] c" "scheduled_at (view s) m a" "0 \<le> a" "timed E nm m" "\<not> delayPending m"
    and "lists (view s) (qkey KEY_QUEUE (p_ns E) nm) = []" "lists (view s) kp = []" "list_only (view s) kp"
    and "spaced (periodOf m) a (map fst xs)" "length xs = Suc (deliveries_left m)"
  shows "\<exists>c' s' ms. scheduled_rounds E (length ds) xs (c, s) = (Inr (), (c', s')) \<and>
    serving E nm inst 1 (ds @ done_deliveries ms) [] c' \<and> length ms = length xs \<and>
    list_all (\<lambda>x. uuid x = uuid m \<and> body x = body m) ms \<and> unscheduled (view s') \<and>
    mset (lists (view s') ak) = mset (lists (view s) ak) + mset (map toString ms) \<and>
    (\<forall>k. k \<noteq> ak \<longrightarrow> lists (view s') k = lists (view s) k)"
  using assms(3-)
proof (induction xs arbitrary: ds c s m a)
  case (Cons x xs)
  obtain t u where x: "x = (t, u)" by force
  let ?m = "published (E\<lparr>p_now := t\<rparr>) False m" and ?q = "qkey KEY_QUEUE (p_ns E) nm"
  have t: "a \<le> t" "0 < t" "spaced (periodOf m) (t + periodOf m) (map fst xs)" using Cons.prems(9) by (auto simp: x)
  obtain c1 s1 m1 where 1: "scheduled_round E (length ds) x (c, s) = (Inr (), (c1, s1))"
    "serving E nm inst 1 (ds @ done_deliveries [?m]) [] c1" "list_only (view s1) kp"
    "if deliveries_left m = 0 then unscheduled (view s1)
     else scheduled_at (view s1) m1 (t + periodOf m) \<and> timed E nm m1 \<and> \<not> delayPending m1 \<and> uuid m1 = uuid m \<and> body m1 = body m \<and>
       periodOf m1 = periodOf m \<and> deliveries_left m = Suc (deliveries_left m1)"
    "mset (lists (view s1) ak) = add_mset (toString ?m) (mset (lists (view s) ak))"
    "\<forall>k. k \<noteq> ak \<longrightarrow> lists (view s1) k = lists (view s) k"
    using scheduled_round_live [OF Cons.prems(1) kp ak Cons.prems(2,3) t(1,2) Cons.prems(4-8), of u] unfolding x by blast
  have ne: "?q \<noteq> ak" "kp \<noteq> ak" using kp ak processing_keys_ne plain_names by auto
  show ?case
  proof (cases "deliveries_left m = 0")
    case True
    then have "xs = []" using Cons.prems(10) by simp
    with 1 True show ?thesis by (intro exI [of _ c1] exI [of _ s1] exI [of _ "[?m]"]) (simp add: bindM_def retM_def)
  next
    case False
    then have m1: "scheduled_at (view s1) m1 (t + periodOf m)" "timed E nm m1" "\<not> delayPending m1" "uuid m1 = uuid m" "body m1 = body m"
      "periodOf m1 = periodOf m" "length xs = Suc (deliveries_left m1)"
      using 1(4) Cons.prems(10) by auto
    have "0 \<le> periodOf m" using Cons.prems(4) by (auto simp: timed_def msg_ok_def periodOf_def split: option.splits)
    then have a: "0 \<le> t + periodOf m" using t(2) by simp
    have em: "lists (view s1) ?q = []" "lists (view s1) kp = []" using 1(6) ne Cons.prems(6,7) by auto
    have sp: "spaced (periodOf m1) (t + periodOf m) (map fst xs)" using t(3) m1(6) by simp
    obtain c2 s2 ms where 2: "scheduled_rounds E (length (ds @ done_deliveries [?m])) xs (c1, s1) = (Inr (), (c2, s2))"
      "serving E nm inst 1 ((ds @ done_deliveries [?m]) @ done_deliveries ms) [] c2" "length ms = length xs"
      "list_all (\<lambda>x. uuid x = uuid m1 \<and> body x = body m1) ms" "unscheduled (view s2)"
      "mset (lists (view s2) ak) = mset (lists (view s1) ak) + mset (map toString ms)"
      "\<forall>k. k \<noteq> ak \<longrightarrow> lists (view s2) k = lists (view s1) k"
      using Cons.IH [OF 1(2) m1(1) a m1(2,3) em 1(3) sp m1(7)] by blast
    show ?thesis
      using 1(1,5,6) 2 m1(4,5)
      by (intro exI [of _ c2] exI [of _ s2] exI [of _ "?m # ms"]) (simp add: bindM_def done_deliveries_def)
  qed
qed simp

end

section \<open>Producing\<close>

context smq_live
begin

text \<open>Producing a message with a schedule puts it there, due after its delay or its period.\<close>

lemma produce_schedules:
  assumes "isUp pm" and m: "isSchedulable m" "body m \<noteq> None" "ttl m = 0" "scheduledCron m = None" "msg_ok m" "p_now E > 0"
    and un: "unscheduled (view s)" and f: "f = produced_form E nm m" "deliveries_left f > 0"
  shows "\<exists>m' s'. produceMessage E pm False nm m s = (Inr (True, m'), s') \<and>
    scheduled_at (view s') m' (p_now E + waitOf f) \<and> 0 < p_now E + waitOf f \<and> timed E nm m' \<and> \<not> delayPending m' \<and>
    uuid m' = uuid m \<and> body m' = body m \<and> periodOf m' = periodOf m \<and> deliveries_left f = Suc (deliveries_left m') \<and>
    lists (view s') = lists (view s) \<and> beside_schedule (view s) (view s')"
proof -
  have tm: "timed E nm f" using m by (simp add: f timed_def produced_form_def reset_def msg_ok_def)
  obtain ts m1 where n: "getNextScheduledTimestamp (p_now E) (p_cron E) f = Inr (ts, m1)"
    using next_no_cron [of f "p_now E" "p_cron E"] tm m(6) by (auto simp: timed_def)
  note keep = next_keeps [OF n] and nt = next_time [OF tm m(6) n]
  have ts: "ts = p_now E + waitOf f" "ts > 0" "\<not> delayPending m1" "deliveries_left f = Suc (deliveries_left m1)"
    using nt(2) f(2) by (auto split: if_splits)
  let ?m = "m1\<lparr>scheduledAt := Some (p_now E)\<rparr>"
  obtain s' where s': "schedule E f s = (Inr (True, ?m), s')" "sched (view s') (Str (uuid f)) = (Some ts, Some (toString ?m))"
    "\<forall>i. i \<noteq> Str (uuid f) \<longrightarrow> sched (view s') i = sched (view s) i" "lists (view s') = lists (view s)" "beside_schedule (view s) (view s')"
    using schedule_effect [OF n ts(2) _ HOL.refl] keep by blast
  have "map_of (zsets (view s') (gkey KEY_QUEUE_SCHEDULED)) = [Str (uuid f) \<mapsto> ts]"
  proof
    fix i show "map_of (zsets (view s') (gkey KEY_QUEUE_SCHEDULED)) i = [Str (uuid f) \<mapsto> ts] i"
      using s'(2,3) un by (cases "i = Str (uuid f)") (auto simp: sched_def unscheduled_def)
  qed
  then have "zsets (view s') (gkey KEY_QUEUE_SCHEDULED) = [(Str (uuid f), ts)]" using map_of_single [OF zset_distinct] by blast
  then have "scheduled_at (view s') ?m ts" using s'(2) keep nt(1) by (auto simp: zmsgs_at_def sched_def timed_def)
  moreover have "timed E nm ?m" "\<not> delayPending ?m" "deliveries_left ?m = deliveries_left m1" "periodOf ?m = periodOf m"
    "uuid ?m = uuid m" "body ?m = body m"
    using nt(1) ts(3) keep
    by (simp_all add: timed_def msg_ok_def delayPending_def deliveries_left_def periodOf_def f(1) produced_form_def reset_def)
  moreover have "produceMessage E pm False nm m s = (Inr (True, ?m), s')"
    using s'(1) m(1)
    by (simp add: produceMessage_up [OF assms(1)] proceed_def br_scheduleMessage_def mm_scheduleMessage_def f(1) Let_def)
  ultimately show ?thesis using s'(4,5) ts by auto
qed

end

end
