(* ===== verification/Priority_Delivery.thy ===== *)
theory Priority_Delivery
  imports Delivery
begin

text \<open>
  Delivery in priority mode: a consumer takes the messages of a priority queue one after the other. The root theory states what
  comes of it together with a producer.
\<close>

context queue_client
begin

lemma deliver_priority_live:
  assumes sv: "serving_for True E nm inst 1 ds [] c" and kp: "kp = ikey KEY_QUEUE_PROCESSING (p_ns E) nm inst"
    and ak: "ak = qkey KEY_QUEUE_ACKNOWLEDGED_MESSAGES (p_ns E) nm"
    and zs: "prio_msgs (view s) (consumerHandler E nm inst) ((m, sc) # rest)" and "lasting m"
    and "lists (view s) kp = []" "list_only (view s) kp"
  shows "\<exists>c' s'. deliver E (length ds) None (c, s) = (Inr (), (c', s')) \<and>
    serving_for True E nm inst 1 (ds @ done_deliveries [m]) [] c' \<and> prio_msgs (view s') (consumerHandler E nm inst) rest \<and>
    list_only (view s') kp \<and> lists (view s') = (lists (view s))(ak := lists (view s) ak @ [toString m])"
proof -
  let ?d = "\<lparr>d_msg = m, d_isTimeout = False, d_timer = consumeTimeout m \<noteq> 0\<rparr>"
  have sv': "serving_for True E nm inst (Suc 0) ds [] c" using sv by simp
  obtain c1 s1 where 1: "consumer_step E (Reply \<lparr>cr_calls = [], cr_throws = False\<rparr>) (c, s) = (Inr (), (c1, s1))"
    "serving_for True E nm inst 0 (ds @ [?d]) [] c1" "prio_msgs (view s1) (consumerHandler E nm inst) rest" "list_only (view s1) kp"
    "lists (view s1) = (lists (view s))(kp := [toString m])"
    using serve_reply_priority [OF sv' kp zs lasting_not_expired [OF assms(5)] assms(6,7)] by blast
  obtain c2 where 2: "consumer_step E (Consumed (length ds) None) (c1, s1) = (Inr (), (c2, s1))"
    "serving_for True E nm inst 0 (ds @ done_deliveries [m]) [answer m None] c2"
    using serve_consumed [OF 1(2), of None s1] by (auto simp: done_deliveries_def)
  have kq: "lists (view s1) kp = [toString m]" using 1(5) by simp
  obtain c3 s3 where 3: "consumer_step E Settled (c2, s1) = (Inr (), (c3, s3))"
    "serving_for True E nm inst 1 (ds @ done_deliveries [m]) [] c3"
    "view s3 = settled_view (p_ns E) nm kp (toString m) (p_now E) (answer m None) (view s1)"
    using serve_settle [OF 2(2) kp kq 1(4)] by auto
  have "deliver E (length ds) None (c, s) = (Inr (), (c3, s3))"
    using 1(1,2) 2 3(1) sv by (simp add: deliver_def guarded_step_def bindM_def retM_def serving_def)
  moreover have "kp \<noteq> ak" using kp ak processing_keys_ne by auto
  then have "lists (view s3) = (lists (view s))(ak := lists (view s) ak @ [toString m])"
    using assms(6) by (auto simp: 3(3) settled_view_def answer_def moved_def ak 1(5) Let_def fun_eq_iff)
  moreover have "prio_msgs (view s3) (consumerHandler E nm inst) rest" "list_only (view s3) kp"
    using 1(3,4) by (simp_all add: 3(3) settled_view_def answer_def moved_def Let_def prio_msgs_def zmsgs_at_def list_only_def)
  ultimately show ?thesis using 3(2) by blast
qed

lemma priority_rounds_live:
  assumes kp: "kp = ikey KEY_QUEUE_PROCESSING (p_ns E) nm inst" and ak: "ak = qkey KEY_QUEUE_ACKNOWLEDGED_MESSAGES (p_ns E) nm"
    and "serving_for True E nm inst 1 ds [] c" "prio_msgs (view s) (consumerHandler E nm inst) zs" "list_all (\<lambda>p. lasting (fst p)) zs"
    and "lists (view s) kp = []" "list_only (view s) kp" "length us = length zs"
  shows "\<exists>c' s'. ack_rounds E (length ds) us (c, s) = (Inr (), (c', s')) \<and>
    serving_for True E nm inst 1 (ds @ done_deliveries (map fst zs)) [] c' \<and> prio_msgs (view s') (consumerHandler E nm inst) [] \<and>
    lists (view s') = (lists (view s))(ak := lists (view s) ak @ map toString (map fst zs))"
  using assms(3-)
proof (induction zs arbitrary: ds c s us)
  case Nil
  then show ?case by (auto simp: retM_def done_deliveries_def)
next
  case (Cons z zs)
  obtain m sc where z: "z = (m, sc)" by force
  obtain u us' where us: "us = u # us'" "length us' = length zs" using Cons.prems(6) by (cases us) auto
  have ne: "kp \<noteq> ak" using kp ak processing_keys_ne by auto
  obtain c1 s1 where 1: "deliver (E\<lparr>p_now := u\<rparr>) (length ds) None (c, s) = (Inr (), (c1, s1))"
    "serving_for True E nm inst 1 (ds @ done_deliveries [m]) [] c1" "prio_msgs (view s1) (consumerHandler E nm inst) zs"
    "list_only (view s1) kp" "lists (view s1) = (lists (view s))(ak := lists (view s) ak @ [toString m])"
    using queue_client.deliver_priority_live [OF queue_client_now [OF queue_client_axioms, of u], where ds = ds and c = c and kp = kp
        and ak = ak and s = s and m = m and sc = sc and rest = zs] Cons.prems kp ak by (auto simp: z)
  have "lists (view s1) kp = []" using 1(5) ne Cons.prems(4) by simp
  moreover have "list_all (\<lambda>p. lasting (fst p)) zs" using Cons.prems(3) by simp
  ultimately obtain c2 s2 where 2: "ack_rounds E (length (ds @ done_deliveries [m])) us' (c1, s1) = (Inr (), (c2, s2))"
    "serving_for True E nm inst 1 ((ds @ done_deliveries [m]) @ done_deliveries (map fst zs)) [] c2"
    "prio_msgs (view s2) (consumerHandler E nm inst) []"
    "lists (view s2) = (lists (view s1))(ak := lists (view s1) ak @ map toString (map fst zs))"
    using Cons.IH [OF 1(2,3) _ _ 1(4) us(2)] by blast
  show ?case
    using 1(1) 2 by (intro exI [of _ c2] exI [of _ s2]) (simp add: us(1) z bindM_def done_deliveries_def 1(5))
qed

text \<open>Redis keeps them in the order of the priorities.\<close>

lemma prio_msgs_sorted:
  assumes "prio_msgs (view s) (consumerHandler E nm inst) zs"
  shows "sorted (map prio_of (map fst zs))"
proof -
  have "sorted (map snd (zsets (view s) (dh_keyQueuePriority (consumerHandler E nm inst))))"
    using zset_inv by (simp add: zset_ok_def)
  moreover have "map snd (zsets (view s) (dh_keyQueuePriority (consumerHandler E nm inst))) = map prio_of (map fst zs)"
    using assms by (auto simp: prio_msgs_def zmsgs_at_def list_all_iff prio_of_def)
  ultimately show ?thesis by simp
qed

text \<open>Producing in priority mode.\<close>

lemma produce_priority:
  assumes "isUp pm" "\<not> isSchedulable m" "body m \<noteq> None"
    and new: "Str (uuid m) \<notin> zkeys (view s) (qkey KEY_QUEUE_PRIORITY (p_ns E) nm)"
    and zs: "prio_msgs (view s) (consumerHandler E nm inst) zs" and f: "f = produced_form E nm m"
  shows "\<exists>m' s' zs'. produceMessage E pm True nm m s = (Inr (True, m'), s') \<and> prio_msgs (view s') (consumerHandler E nm inst) zs' \<and>
    mset zs' = add_mset (published E True f, prio_of f) (mset zs) \<and> lists (view s') = lists (view s) \<and>
    (\<forall>k. k \<noteq> qkey KEY_QUEUE_PRIORITY (p_ns E) nm \<and> k \<noteq> qkey KEY_PENDING_MESSAGES_WITH_PRIORITY (p_ns E) nm \<and> list_only (view s) k \<longrightarrow>
      list_only (view s') k)"
proof -
  have q: "queue f = Some \<lparr>q_name = nm, q_ns = p_ns E\<rparr>" by (simp add: f produced_form_def)
  obtain m' s' where e: "enqueue E f True s = (Inr m', s')" and v: "enqueued E \<lparr>q_name = nm, q_ns = p_ns E\<rparr> f True (view s) (view s')"
    using enqueue_live [OF q, of True s] by blast
  have p: "prio_put E view nm f s s'" using q e assms(3) new by (auto simp: prio_put_def f produced_form_def reset_def)
  obtain zs' where zs': "prio_msgs (view s') (consumerHandler E nm inst) zs'"
    "mset zs' = add_mset (published E True f, prio_of f) (mset zs)"
    using prio_put_at [OF p zs] by blast
  have "produceMessage E pm True nm m s = (Inr (True, m'), s')"
    using e assms(2) by (simp add: produceMessage_up [OF assms(1)] proceed_def br_enqueueMessage_def mm_enqueueMessage_def f Let_def io_run)
  moreover have "lists (view s') = lists (view s)"
    "\<forall>k. k \<noteq> qkey KEY_QUEUE_PRIORITY (p_ns E) nm \<and> k \<noteq> qkey KEY_PENDING_MESSAGES_WITH_PRIORITY (p_ns E) nm \<and> list_only (view s) k \<longrightarrow>
      list_only (view s') k"
    using v q by (auto simp: enqueued_def Let_def list_only_def)
  ultimately show ?thesis using zs' by blast
qed

end

end
