(* ===== verification/Backlog.thy ===== *)
theory Backlog
  imports Delivery
begin

text \<open>
  A consumer that serves the backlog of its queue, whatever becomes of the single messages: the application answers, throws or lets
  the time run out, or the message has expired and never gets there. The root theory states where every message ends up.
\<close>

section \<open>What becomes of a message\<close>

datatype outcome = Answers "err option" | Throws | TimesOut

text \<open>The call of the broker it leads to if the message is taken at \<open>u\<close>.\<close>

definition outcome_call :: "int \<Rightarrow> outcome \<Rightarrow> message \<Rightarrow> brokerCall" where
  "outcome_call u oc m =
     (case hasExpired u m of (ex, m') \<Rightarrow>
        if ex then Unacknowledge m' CAUSE_TTL_EXPIRED
        else case oc of
          Answers res \<Rightarrow> answer m res
        | Throws \<Rightarrow> Unacknowledge m CAUGHT_ERROR
        | TimesOut \<Rightarrow> Unacknowledge m TIMEOUT)"

definition outcome_key :: "string \<Rightarrow> string \<Rightarrow> message \<times> int \<times> outcome \<Rightarrow> key" where
  "outcome_key n nm = (\<lambda>(m, u, oc). settled_key n nm u (outcome_call u oc m))"

lemma hasExpired_cases: "hasExpired u m = (True, m\<lparr>expired := True\<rparr>) \<or> hasExpired u m = (False, m)"
  by (cases m) (auto simp: hasExpired_def Let_def)

lemma outcome_key_expired: "fst (hasExpired u m) \<Longrightarrow> outcome_key n nm (m, u, oc) = qkey KEY_QUEUE_DL n nm"
  using hasExpired_cases [of u m] by (auto simp: outcome_key_def outcome_call_def settled_key_def fate_of_def fate_key_def)

text \<open>The events of one round, at the time \<open>u\<close>. The application comes in only if it got the message.\<close>

fun outcome_events :: "nat \<Rightarrow> outcome \<Rightarrow> consumer_event list" where
  "outcome_events i (Answers res) = [Consumed i res, Settled]"
| "outcome_events i Throws = [Settled]"
| "outcome_events i TimesOut = [TimerFires i, Settled]"

definition serve_round :: "'s platform \<Rightarrow> int \<times> outcome \<Rightarrow> 's consumer_io" where
  "serve_round E = (\<lambda>(u, oc) x.
     let i = length (c_deliveries (fst x)); E' = E\<lparr>p_now := u\<rparr> in
     bindM (guarded_step E' (Reply \<lparr>cr_calls = [], cr_throws = (oc = Throws)\<rparr>)) (\<lambda>_ y.
       waterfall (map (guarded_step E') (if length (c_deliveries (fst y)) = i then [Settled] else outcome_events i oc)) y) x)"

fun serve_rounds :: "'s platform \<Rightarrow> (int \<times> outcome) list \<Rightarrow> 's consumer_io" where
  "serve_rounds E [] = retM ()"
| "serve_rounds E (r # rs) = bindM (serve_round E r) (\<lambda>_. serve_rounds E rs)"

text \<open>A timer can run out only if it was set.\<close>

definition can_happen :: "message \<times> int \<times> outcome \<Rightarrow> bool" where
  "can_happen = (\<lambda>(m, u, oc). oc = TimesOut \<longrightarrow> consumeTimeout m \<noteq> 0)"

section \<open>One message\<close>

context queue_client
begin

text \<open>From the reply to the call of the broker.\<close>

lemma serve_outcome:
  assumes sv: "serving E nm inst 1 ds [] c" and kp: "kp = ikey KEY_QUEUE_PROCESSING (p_ns E) nm inst"
    and ms: "msgs_at (view s) (qkey KEY_QUEUE (p_ns E) nm) (ms @ [m])" and only: "lists (view s) kp = []" "list_only (view s) kp"
    and hap: "can_happen (m, u, oc)"
  shows "\<exists>c1 s1 c2 ds'. guarded_step (E\<lparr>p_now := u\<rparr>) (Reply \<lparr>cr_calls = [], cr_throws = (oc = Throws)\<rparr>) (c, s) = (Inr (), (c1, s1)) \<and>
    waterfall (map (guarded_step (E\<lparr>p_now := u\<rparr>)) (butlast (if length (c_deliveries c1) = length ds then [Settled] else outcome_events (length ds) oc)))
      (c1, s1) = (Inr (), (c2, s1)) \<and>
    serving E nm inst 0 (ds @ ds') [outcome_call u oc m] c2 \<and> map d_msg ds' = (if fst (hasExpired u m) then [] else [m]) \<and>
    view s1 = set_list kp [toString m] (set_list (qkey KEY_QUEUE (p_ns E) nm) (map toString ms) (view s))"
proof -
  let ?E = "E\<lparr>p_now := u\<rparr>" and ?run = "\<lparr>cr_calls = [], cr_throws = (oc = Throws)\<rparr>"
  let ?v = "set_list kp [toString m] (set_list (qkey KEY_QUEUE (p_ns E) nm) (map toString ms) (view s))"
  have at: "queue_client ?E view nm inst" by (rule queue_client_now [OF queue_client_axioms])
  have sv': "serving ?E nm inst (Suc 0) ds [] c" and kp': "kp = ikey KEY_QUEUE_PROCESSING (p_ns ?E) nm inst"
    and ms': "msgs_at (view s) (qkey KEY_QUEUE (p_ns ?E) nm) (ms @ [m])" using sv kp ms by simp_all
  have en: "consumer_enabled (Reply r) c" for r using sv by (simp add: serving_def)
  show ?thesis
  proof (cases "fst (hasExpired u m)")
    case True
    then have ex: "hasExpired (p_now ?E) m = (True, m\<lparr>expired := True\<rparr>)" using hasExpired_cases [of u m] by auto
    obtain c1 s1 where 1: "consumer_step ?E (Reply ?run) (c, s) = (Inr (), (c1, s1))"
      "serving E nm inst 0 ds [Unacknowledge (m\<lparr>expired := True\<rparr>) CAUSE_TTL_EXPIRED] c1" "view s1 = ?v"
      using queue_client.serve_reply_expired [OF at sv' kp' ms' ex only(1), of ?run] by auto
    then have "length (c_deliveries c1) = length ds" by (simp add: serving_def)
    with 1 ex en True show ?thesis
      by (intro exI [of _ c1] exI [of _ s1] exI [of _ c1] exI [of _ "[]"]) (simp add: guarded_step_def outcome_call_def retM_def)
  next
    case False
    then have ex: "hasExpired (p_now ?E) m = (False, m)" using hasExpired_cases [of u m] by auto
    let ?d = "\<lparr>d_msg = m, d_isTimeout = False, d_timer = consumeTimeout m \<noteq> 0\<rparr>"
    obtain c1 s1 where 1: "consumer_step ?E (Reply ?run) (c, s) = (Inr (), (c1, s1))"
      "serving E nm inst 0 (ds @ [?d]) (if oc = Throws then [Unacknowledge m CAUGHT_ERROR] else []) c1" "view s1 = ?v"
      using queue_client.serve_reply [OF at sv' kp' ms' ex only, of "oc = Throws"] by auto
    have l1: "c_deliveries c1 = ds @ [?d]" using 1(2) by (simp add: serving_def)
    have "\<exists>c2 d'. waterfall (map (guarded_step ?E) (butlast (outcome_events (length ds) oc))) (c1, s1) = (Inr (), (c2, s1)) \<and>
      serving E nm inst 0 (ds @ [d']) [outcome_call u oc m] c2 \<and> d_msg d' = m"
    proof (cases oc)
      case (Answers res)
      with 1(2) obtain c2 where "consumer_step ?E (Consumed (length ds) res) (c1, s1) = (Inr (), (c2, s1))"
        "serving E nm inst 0 (ds @ [?d\<lparr>d_timer := False\<rparr>]) [answer m res] c2"
        using queue_client.serve_consumed [OF at, of False 0 ds ?d c1 res s1] by auto
      with Answers l1 ex show ?thesis
        by (intro exI [of _ c2] exI [of _ "?d\<lparr>d_timer := False\<rparr>"]) (simp add: guarded_step_def outcome_call_def bindM_def retM_def)
    next
      case Throws
      with 1(2) ex show ?thesis by (intro exI [of _ c1] exI [of _ ?d]) (simp add: outcome_call_def retM_def)
    next
      case TimesOut
      with 1(2) obtain c2 where "consumer_step ?E (TimerFires (length ds)) (c1, s1) = (Inr (), (c2, s1))"
        "serving E nm inst 0 (ds @ [?d\<lparr>d_isTimeout := True, d_timer := False\<rparr>]) [Unacknowledge m TIMEOUT] c2"
        using queue_client.serve_timer [OF at, of False 0 "ds @ [?d]" c1 "length ds" s1] by auto
      with TimesOut l1 ex hap show ?thesis
        by (intro exI [of _ c2] exI [of _ "?d\<lparr>d_isTimeout := True, d_timer := False\<rparr>"])
          (simp add: guarded_step_def outcome_call_def bindM_def retM_def can_happen_def)
    qed
    then obtain c2 d' where "waterfall (map (guarded_step ?E) (butlast (outcome_events (length ds) oc))) (c1, s1) = (Inr (), (c2, s1))"
      "serving E nm inst 0 (ds @ [d']) [outcome_call u oc m] c2" "d_msg d' = m" by blast
    with 1(1,3) l1 en False show ?thesis
      by (intro exI [of _ c1] exI [of _ s1] exI [of _ c2] exI [of _ "[d']"]) (simp add: guarded_step_def)
  qed
qed

text \<open>And on to where the message ends up.\<close>

lemma serve_round_live:
  assumes sv: "serving E nm inst 1 ds [] c" and kp: "kp = ikey KEY_QUEUE_PROCESSING (p_ns E) nm inst"
    and ms: "msgs_at (view s) (qkey KEY_QUEUE (p_ns E) nm) (ms @ [m])" and only: "lists (view s) kp = []" "list_only (view s) kp"
    and hap: "can_happen (m, u, oc)"
  shows "\<exists>c' s' ds'. serve_round E (u, oc) (c, s) = (Inr (), (c', s')) \<and>
    serving E nm inst 1 (ds @ ds') [] c' \<and> map d_msg ds' = (if fst (hasExpired u m) then [] else [m]) \<and>
    view s' = settled_view (p_ns E) nm kp (toString m) u (outcome_call u oc m)
      (set_list kp [toString m] (set_list (qkey KEY_QUEUE (p_ns E) nm) (map toString ms) (view s)))"
proof -
  let ?E = "E\<lparr>p_now := u\<rparr>"
  obtain c1 s1 c2 ds' where
    1: "guarded_step ?E (Reply \<lparr>cr_calls = [], cr_throws = (oc = Throws)\<rparr>) (c, s) = (Inr (), (c1, s1))"
    and 2: "waterfall (map (guarded_step ?E) (butlast (if length (c_deliveries c1) = length ds then [Settled] else outcome_events (length ds) oc)))
      (c1, s1) = (Inr (), (c2, s1))"
    and 3: "serving E nm inst 0 (ds @ ds') [outcome_call u oc m] c2" "map d_msg ds' = (if fst (hasExpired u m) then [] else [m])"
      "view s1 = set_list kp [toString m] (set_list (qkey KEY_QUEUE (p_ns E) nm) (map toString ms) (view s))"
    using serve_outcome [OF assms] by blast
  have kq: "lists (view s1) kp = [toString m]" "list_only (view s1) kp" using 3(3) only(2) by (simp_all add: list_only_def)
  have at: "queue_client ?E view nm inst" by (rule queue_client_now [OF queue_client_axioms])
  obtain c3 s3 where 4: "consumer_step ?E Settled (c2, s1) = (Inr (), (c3, s3))" "serving E nm inst 1 (ds @ ds') [] c3"
    "view s3 = settled_view (p_ns E) nm kp (toString m) u (outcome_call u oc m) (view s1)"
    using queue_client.serve_settle [OF at, of False 0 "ds @ ds'" "outcome_call u oc m" c2 kp s1 "toString m"] 3(1) kp kq by auto
  let ?evs = "if length (c_deliveries c1) = length ds then [Settled] else outcome_events (length ds) oc"
  have evs: "?evs = butlast ?evs @ [Settled]" by (cases oc) auto
  have "guarded_step ?E Settled (c2, s1) = (Inr (), (c3, s3))" using 3(1) 4(1) by (simp add: guarded_step_def serving_def)
  then have "waterfall (map (guarded_step ?E) ?evs) (c1, s1) = (Inr (), (c3, s3))"
    using 2 by (subst evs) (simp add: waterfall_append bindM_def retM_def)
  moreover have "length (c_deliveries c) = length ds" using sv by (simp add: serving_def)
  ultimately have "serve_round E (u, oc) (c, s) = (Inr (), (c3, s3))"
    using 1 by (auto simp: serve_round_def bindM_def Let_def split: if_splits)
  with 3(2) 4(2,3) show ?thesis unfolding 3(3) by blast
qed

text \<open>The whole backlog, the message pending longest first.\<close>

lemma serve_rounds_live:
  assumes kp: "kp = ikey KEY_QUEUE_PROCESSING (p_ns E) nm inst" and q: "q = qkey KEY_QUEUE (p_ns E) nm"
    and "serving E nm inst 1 ds [] c" "msgs_at (view s) q (rev ms)" "lists (view s) kp = []" "list_only (view s) kp"
    and "length rs = length ms" "list_all can_happen (zip ms rs)"
  shows "\<exists>c' s' ds'. serve_rounds E rs (c, s) = (Inr (), (c', s')) \<and> serving E nm inst 1 (ds @ ds') [] c' \<and>
    map d_msg ds' = map fst (filter (\<lambda>(m, u, oc). \<not> fst (hasExpired u m)) (zip ms rs)) \<and>
    lists (view s') q = [] \<and>
    (\<forall>k. k \<noteq> q \<longrightarrow> mset (lists (view s') k) = mset (lists (view s) k) +
      mset (map (\<lambda>x. toString (fst x)) (filter (\<lambda>x. outcome_key (p_ns E) nm x = k) (zip ms rs)))) \<and>
    (\<forall>k. k \<noteq> q \<longrightarrow> k \<notin> outcome_key (p_ns E) nm ` set (zip ms rs) \<longrightarrow> lists (view s') k = lists (view s) k)"
  using assms(3-)
proof (induction ms arbitrary: ds c s rs)
  case Nil
  then show ?case by (intro exI [of _ c] exI [of _ s] exI [of _ "[]"]) (simp add: retM_def msgs_at_def)
next
  case (Cons m ms)
  obtain u oc rs' where rs: "rs = (u, oc) # rs'" "length rs' = length ms" using Cons.prems(5) by (cases rs) auto
  have hap: "can_happen (m, u, oc)" "list_all can_happen (zip ms rs')" using Cons.prems(6) by (simp_all add: rs)
  let ?o = "outcome_key (p_ns E) nm (m, u, oc)"
  have ms: "msgs_at (view s) (qkey KEY_QUEUE (p_ns E) nm) (rev ms @ [m])" using Cons.prems(2) q by simp
  obtain c1 s1 ds1 where 1: "serve_round E (u, oc) (c, s) = (Inr (), (c1, s1))" "serving E nm inst 1 (ds @ ds1) [] c1"
    "map d_msg ds1 = (if fst (hasExpired u m) then [] else [m])"
    "view s1 = settled_view (p_ns E) nm kp (toString m) u (outcome_call u oc m)
      (set_list kp [toString m] (set_list q (map toString (rev ms)) (view s)))"
    using serve_round_live [OF Cons.prems(1) kp ms Cons.prems(3,4) hap(1)] unfolding q by blast
  have o: "?o = settled_key (p_ns E) nm u (outcome_call u oc m)" by (simp add: outcome_key_def)
  note ne = settled_key_ne [of u "outcome_call u oc m", folded o kp q]
  have kq: "kp \<noteq> q" using kp q processing_keys_ne by auto
  note l = settled_view_lists [of kp "p_ns E" nm u "outcome_call u oc m", folded o, OF ne(1)]
  have l1: "lists (view s1) kp = []" "lists (view s1) q = map toString (rev ms)"
    "mset (lists (view s1) ?o) = add_mset (toString m) (mset (lists (view s) ?o))"
    using l ne kq by (simp_all add: 1(4))
  have l2: "lists (view s1) k = lists (view s) k" if "k \<noteq> q" "k \<noteq> ?o" for k
    using l(1,3) that Cons.prems(3) by (cases "k = kp") (simp_all add: 1(4))
  have lo: "list_only (view s1) kp"
    using Cons.prems(4)
    by (auto simp: 1(4) list_only_def settled_view_def fate_view_frame moved_def Let_def split: brokerCall.splits)
  have ms1: "msgs_at (view s1) q (rev ms)" using Cons.prems(2) l1(2) by (simp add: msgs_at_def)
  obtain c2 s2 ds2 where 2: "serve_rounds E rs' (c1, s1) = (Inr (), (c2, s2))" "serving E nm inst 1 ((ds @ ds1) @ ds2) [] c2"
    "map d_msg ds2 = map fst (filter (\<lambda>(m, u, oc). \<not> fst (hasExpired u m)) (zip ms rs'))" "lists (view s2) q = []"
    "\<forall>k. k \<noteq> q \<longrightarrow> mset (lists (view s2) k) = mset (lists (view s1) k) +
      mset (map (\<lambda>x. toString (fst x)) (filter (\<lambda>x. outcome_key (p_ns E) nm x = k) (zip ms rs')))"
    "\<forall>k. k \<noteq> q \<longrightarrow> k \<notin> outcome_key (p_ns E) nm ` set (zip ms rs') \<longrightarrow> lists (view s2) k = lists (view s1) k"
    using Cons.IH [OF 1(2) ms1 l1(1) lo rs(2) hap(2)] by blast
  have "mset (lists (view s2) k) = mset (lists (view s) k) +
      mset (map (\<lambda>x. toString (fst x)) (filter (\<lambda>x. outcome_key (p_ns E) nm x = k) (zip (m # ms) rs)))" if "k \<noteq> q" for k
    using 2(5) [rule_format, OF that] l1(3) l2 [OF that] by (cases "k = ?o") (simp_all add: rs(1))
  moreover have "lists (view s2) k = lists (view s) k"
    if "k \<noteq> q" "k \<notin> outcome_key (p_ns E) nm ` set (zip (m # ms) rs)" for k
    using 2(6) [rule_format, of k] that l2 [of k] by (simp add: rs(1))
  moreover have "serve_rounds E rs (c, s) = (Inr (), (c2, s2))" using 1(1) 2(1) by (simp add: rs(1) bindM_def)
  moreover have "map d_msg (ds1 @ ds2) = map fst (filter (\<lambda>(m, u, oc). \<not> fst (hasExpired u m)) (zip (m # ms) rs))"
    using 1(3) 2(3) by (simp add: rs(1))
  ultimately show ?case using 2(2,4) by (intro exI [of _ c2] exI [of _ s2] exI [of _ "ds1 @ ds2"]) simp
qed

end

end
