(* ===== verification/Recovery.thy ===== *)
theory Recovery
  imports Delivery
begin

text \<open>
  Recovery of what a crashed consumer leaves behind: a tick of the garbage collector over all registered processing queues. Only the
  queue of a consumer without a recent heartbeat is touched; the root theory follows its message to another consumer.
\<close>

section \<open>A tick of the garbage collector\<close>

text \<open>The collector of \<open>self\<close> leaves the processing queue alone: it is its own or belongs to a consumer with a heartbeat of the last
  ten seconds.\<close>

definition spared :: "store \<Rightarrow> int \<Rightarrow> string \<Rightarrow> string \<Rightarrow> rstr \<Rightarrow> bool" where
  "spared st now n self x \<longleftrightarrow>
     (\<exists>nm inst. plain nm \<and> plain inst \<and> inst \<noteq> [] \<and> x = Str (ikey KEY_QUEUE_PROCESSING n nm inst) \<and>
       (self = inst \<or> (\<exists>t usage. hashes st (gkey KEY_INDEX_HEARTBEATS) (Str (ikey KEY_HEARTBEAT n nm inst)) =
          Some (heartbeat_payload t usage) \<and> now - t \<le> 10000)))"

lemma spared_frame:
  "hashes st' (gkey KEY_INDEX_HEARTBEATS) = hashes st (gkey KEY_INDEX_HEARTBEATS) \<Longrightarrow> spared st' now n self x = spared st now n self x"
  by (simp add: spared_def)

lemma spared_earlier: "spared st now n self x \<Longrightarrow> now' \<le> now \<Longrightarrow> spared st now' n self x"
  unfolding spared_def by (smt (verit))

lemma collected_heartbeats:
  "plain n \<Longrightarrow> plain nm \<Longrightarrow> hashes (unregistered n nm kp (fate_view n nm kp x f st)) (gkey KEY_INDEX_HEARTBEATS) = hashes st (gkey KEY_INDEX_HEARTBEATS)"
  by (simp add: unregistered_def Let_def fate_view_frame)

lemma eachM_append: "eachM f xs s = (Inr (), s') \<Longrightarrow> eachM f (xs @ ys) s = eachM f ys s'"
  by (induction xs arbitrary: s) (auto split: prod.splits sum.splits exn.splits)

context smq_live
begin

lemma smembers_live:
  "\<exists>xs s'. rc_smembers E k s = (Inr xs, s') \<and> set xs = sets (view s) k \<and> distinct xs \<and> view s' = view s"
  using cmd_doc [of "SMEMBERS k" s] by (auto simp: rc_smembers_def io_iff)

lemma collects_spared:
  assumes "plain (p_ns E)" "spared (view s) (p_now E) (p_ns E) self x"
  shows "\<exists>s'. handleProcessingQueue E self x s = (Inr (), s') \<and> view s' = view s"
proof -
  obtain nm inst where x: "plain nm" "plain inst" "inst \<noteq> []" "x = Str (ikey KEY_QUEUE_PROCESSING (p_ns E) nm inst)"
    and a: "self = inst \<or> (\<exists>t usage. hashes (view s) (gkey KEY_INDEX_HEARTBEATS) (Str (ikey KEY_HEARTBEAT (p_ns E) nm inst)) =
          Some (heartbeat_payload t usage) \<and> p_now E - t \<le> 10000)"
    using assms(2) unfolding spared_def by blast
  have "queue_client E view nm inst"
    using smq_live_axioms assms(1) x(1,2) by (simp add: queue_client_def queue_client_axioms_def)
  from queue_client.gc_online [OF this HOL.refl x(3), of self s] a show ?thesis unfolding x(4) by force
qed

lemma collects_all_spared:
  assumes "plain (p_ns E)" "list_all (spared (view s) (p_now E) (p_ns E) self) xs"
  shows "\<exists>s'. handleProcessingQueues E self xs s = (Inr (), s') \<and> view s' = view s"
  using assms(2) unfolding handleProcessingQueues_def
proof (induction xs arbitrary: s)
  case (Cons x xs)
  obtain s1 where 1: "handleProcessingQueue E self x s = (Inr (), s1)" "view s1 = view s"
    using collects_spared [OF assms(1), of s self x] Cons.prems by auto
  with Cons.IH [of s1] Cons.prems show ?case by (auto simp: io_run)
qed simp

lemma gc_tick_quiet:
  assumes "plain (p_ns E)" "\<forall>x \<in> sets (view s) (gkey KEY_INDEX_PROCESSING_QUEUES). spared (view s) (p_now E) (p_ns E) self x"
  shows "\<exists>s'. gc_onTick E self s = (Inr (), s') \<and> view s' = view s"
proof -
  obtain xs s1 where 1: "rc_smembers E (gkey KEY_INDEX_PROCESSING_QUEUES) s = (Inr xs, s1)" "view s1 = view s"
    "set xs = sets (view s) (gkey KEY_INDEX_PROCESSING_QUEUES)" using smembers_live by blast
  then have "list_all (spared (view s1) (p_now E) (p_ns E) self) xs" using assms(2) by (simp add: list_all_iff)
  from collects_all_spared [OF assms(1) this] 1(1,2) show ?thesis
    by (auto simp: gc_onTick_def orThrow_def getProcessingQueues_def smq_keys io_run)
qed

end

context queue_client
begin

text \<open>One consumer of queue \<open>nm\<close> is offline, every other one is spared.\<close>

lemma gc_tick_recovers:
  assumes kp: "kp = ikey KEY_QUEUE_PROCESSING (p_ns E) nm inst" and ix: "ix = gkey KEY_INDEX_PROCESSING_QUEUES"
    and "self \<noteq> inst" "inst \<noteq> []" and off: "offline (view s) (p_now E) (p_ns E) nm inst"
    and at: "lists (view s) kp = [toString m]" "body m \<noteq> None" "list_only (view s) kp"
    and reg: "Str kp \<in> sets (view s) ix" "\<forall>x \<in> sets (view s) ix - {Str kp}. spared (view s) (p_now E) (p_ns E) self x"
  shows "\<exists>s'. gc_onTick E self s = (Inr (), s') \<and>
    view s' = unregistered (p_ns E) nm kp (fate_view (p_ns E) nm kp (toString m) (fate_of (p_now E) RECOVERY m) (view s))"
proof -
  obtain xs s1 where 1: "rc_smembers E ix s = (Inr xs, s1)" "view s1 = view s" "set xs = sets (view s) ix" "distinct xs"
    using smembers_live by blast
  obtain as bs where xs: "xs = as @ Str kp # bs" using reg(1) 1(3) by (metis split_list)
  have sp: "list_all (spared (view s1) (p_now E) (p_ns E) self) as" "list_all (spared (view s) (p_now E) (p_ns E) self) bs"
    using reg(2) 1(2-4) unfolding xs by (auto simp: list_all_iff)
  obtain s2 where 2: "handleProcessingQueues E self as s1 = (Inr (), s2)" "view s2 = view s1"
    using collects_all_spared [OF plain_names(1) sp(1)] by blast
  obtain s3 where 3: "handleProcessingQueue E self (Str kp) s2 = (Inr (), s3)"
    "view s3 = unregistered (p_ns E) nm kp (fate_view (p_ns E) nm kp (toString m) (fate_of (p_now E) RECOVERY m) (view s))"
    using gc_offline [OF plain_names(1) kp assms(3,4), of s2 m] off at 1(2) 2(2) by auto
  have "list_all (spared (view s3) (p_now E) (p_ns E) self) bs"
    using sp(2) spared_frame [OF collected_heartbeats [OF plain_names(1,2)]] unfolding 3(2) by (simp add: list_all_iff)
  from collects_all_spared [OF plain_names(1) this] obtain s4 where
    4: "handleProcessingQueues E self bs s3 = (Inr (), s4)" "view s4 = view s3" by blast
  have "handleProcessingQueues E self xs s1 = (Inr (), s4)"
    using 2(1) 3(1) 4(1) by (simp add: handleProcessingQueues_def xs eachM_append io_run)
  with 1(1) 3(2) 4(2) show ?thesis
    by (auto simp: gc_onTick_def orThrow_def getProcessingQueues_def smq_keys ix xs io_run)
qed

text \<open>A message that is retried at once is back in its queue, at the end that is served last, after the next tick of the requeue worker.\<close>

lemma recovered_pending:
  assumes kp: "kp = ikey KEY_QUEUE_PROCESSING (p_ns E) nm inst" and ix: "ix = gkey KEY_INDEX_PROCESSING_QUEUES"
    and i: "self \<noteq> inst" "inst \<noteq> []" and off: "offline (view s) t1 (p_ns E) nm inst"
    and at: "lists (view s) kp = [toString m]" "list_only (view s) kp" "lists (view s) (gkey KEY_QUEUE_REQUEUE) = []"
    and m: "lasting m" "retried_at_once E nm m" "attempts m + 1 < retryThreshold m"
    and reg: "Str kp \<in> sets (view s) ix" "\<forall>x \<in> sets (view s) ix - {Str kp}. spared (view s) t1 (p_ns E) self x"
    and q: "q = qkey KEY_QUEUE (p_ns E) nm"
  shows "\<exists>s1 s2. gc_onTick (E\<lparr>p_now := t1\<rparr>) self s = (Inr (), s1) \<and> Str kp \<notin> sets (view s1) ix \<and>
    requeueWorker_onTick (E\<lparr>p_now := t2\<rparr>) False s1 = (Inr (), s2) \<and>
    lists (view s2) = (lists (view s))(kp := [], q := toString (retried m) # lists (view s) q) \<and>
    (\<forall>k. list_only (view s) k \<longrightarrow> list_only (view s2) k)"
proof -
  let ?rk = "gkey KEY_QUEUE_REQUEUE"
  have ne: "kp \<noteq> q" "kp \<noteq> ?rk" "q \<noteq> ?rk" using kp q processing_keys_ne plain_names by auto
  have b: "body m \<noteq> None" using m(2) by (simp add: retried_at_once_def)
  have f: "fate_of t1 RECOVERY m = ToRequeue" using m by (simp add: fate_of_def retried_at_once_def lasting_def)
  obtain s1 where 1: "gc_onTick (E\<lparr>p_now := t1\<rparr>) self s = (Inr (), s1)"
    "view s1 = unregistered (p_ns E) nm kp (fate_view (p_ns E) nm kp (toString m) ToRequeue (view s))"
    using queue_client.gc_tick_recovers [OF queue_client_now [OF queue_client_axioms, of t1], of kp ix self s m] kp ix i off at b reg f by auto
  have l1: "lists (view s1) = (lists (view s))(kp := [], ?rk := [toString m])"
    using at(3) ne by (auto simp: 1(2) unregistered_def fate_view_def moved_def Let_def fun_eq_iff)
  have r: "msgs_at (view s1) ?rk [m]" "list_all (\<lambda>m. \<exists>q. queue m = Some q \<and> plain (q_ns q) \<and> plain (q_name q)) [m]"
    using l1 b m(2) plain_names by (auto simp: msgs_at_def retried_at_once_def)
  obtain s2 where 2: "requeueWorker_onTick (E\<lparr>p_now := t2\<rparr>) False s1 = (Inr (), s2)" "\<exists>f. view s2 = (view s1)\<lparr>lists := f\<rparr>"
    "\<And>k. lists (view s2) k = (if k = ?rk then [] else (if k = q then [toString (retried m)] else []) @ lists (view s1) k)"
    using smq_live.requeueWorker_moves [OF smq_live_now [OF smq_live_axioms] r] m(2) q by (fastforce simp: retried_at_once_def pendingKey_def)
  have "lists (view s2) = (lists (view s))(kp := [], q := toString (retried m) # lists (view s) q)"
    using at(3) ne by (auto simp: fun_eq_iff 2(3) l1)
  moreover have "list_only (view s2) k" if "list_only (view s) k" for k
    using 2(2) that by (auto simp: list_only_def 1(2) unregistered_def fate_view_frame Let_def split: if_splits)
  moreover have "Str kp \<notin> sets (view s1) ix" by (simp add: 1(2) unregistered_def ix Let_def)
  ultimately show ?thesis using 1(1) 2(1) by blast
qed

end

end
