(* ===== verification/Conservation.thy ===== *)
theory Conservation
  imports Recovery Scheduled_Delivery
begin

text \<open>
  The system as a whole: producers, any number of consumers of one queue and all workers, in any interleaving of their operations on
  Redis, each at its own time. A consumer may stop for good at any moment; then only the garbage collector touches its processing
  queue. The root theory states that no message is ever lost or doubled.
\<close>

section \<open>Where messages are\<close>

text \<open>The lists through which the messages of the queue go, \<open>I\<close> being its consumers.\<close>

definition place_keys :: "string \<Rightarrow> string \<Rightarrow> string set \<Rightarrow> key set" where
  "place_keys n nm I =
     {qkey KEY_QUEUE n nm, gkey KEY_QUEUE_REQUEUE, gkey KEY_QUEUE_DELAY, qkey KEY_QUEUE_ACKNOWLEDGED_MESSAGES n nm,
      qkey KEY_QUEUE_DL n nm} \<union> ikey KEY_QUEUE_PROCESSING n nm ` I"

fun text_uuid :: "rstr \<Rightarrow> string" where
  "text_uuid (Json (JObj fs)) = (case map_of fs ''uuid'' of Some (JStr u) \<Rightarrow> u | _ \<Rightarrow> [])"
| "text_uuid _ = []"

fun member_uuid :: "rstr \<Rightarrow> string" where
  "member_uuid (Str u) = u"
| "member_uuid (Json j) = []"

lemma text_uuid_toString [simp]: "text_uuid (toString m) = uuid m"
  by (simp add: toString_def message_fields_def split: option.split)

text \<open>The identifiers of all messages in these lists and in the schedule.\<close>

definition census :: "key set \<Rightarrow> store \<Rightarrow> string multiset" where
  "census K st = (\<Sum>k\<in>K. mset (map text_uuid (lists st k))) +
     mset (map (\<lambda>p. member_uuid (fst p)) (zsets st (gkey KEY_QUEUE_SCHEDULED)))"

text \<open>A message of the queue that is delivered once: it may have a delay, but no period, repetition or cron expression.\<close>

definition one_shot :: "message \<Rightarrow> bool" where
  "one_shot m \<longleftrightarrow> body m \<noteq> None \<and> msg_ok m \<and> scheduledCron m = None \<and> scheduledRepeat m = 0"

definition sound :: "string \<Rightarrow> string \<Rightarrow> message \<Rightarrow> bool" where
  "sound n nm m \<longleftrightarrow> one_shot m \<and> queue m = Some \<lparr>q_name = nm, q_ns = n\<rparr>"

definition holds_sound :: "string \<Rightarrow> string \<Rightarrow> store \<Rightarrow> key \<Rightarrow> bool" where
  "holds_sound n nm st k \<longleftrightarrow>
     (\<forall>x \<in> set (lists st k). \<exists>m. x = toString m \<and> sound n nm m \<and> (k = gkey KEY_QUEUE_DELAY \<longrightarrow> retryDelay m \<noteq> 0))"

definition schedule_sound :: "string \<Rightarrow> string \<Rightarrow> store \<Rightarrow> bool" where
  "schedule_sound n nm st \<longleftrightarrow>
     (\<forall>i ts. fst (sched st i) = Some ts \<longrightarrow> 0 \<le> ts \<and>
       (\<exists>m. i = Str (uuid m) \<and> snd (sched st i) = Some (toString m) \<and> sound n nm m \<and> \<not> delayPending m))"

definition system_inv :: "string \<Rightarrow> string \<Rightarrow> string set \<Rightarrow> string list \<Rightarrow> store \<Rightarrow> bool" where
  "system_inv n nm I ps st \<longleftrightarrow>
     (\<forall>k \<in> place_keys n nm I. holds_sound n nm st k) \<and> schedule_sound n nm st \<and>
     (\<forall>i \<in> I. list_only st (ikey KEY_QUEUE_PROCESSING n nm i) \<and> length (lists st (ikey KEY_QUEUE_PROCESSING n nm i)) \<le> 1) \<and>
     census (place_keys n nm I) st = mset ps \<and> distinct ps"

section \<open>The system\<close>

text \<open>A state of the system: the identifiers of the messages produced so far and the state of the server.\<close>

inductive sys_step ::
  "'s platform \<Rightarrow> ('s \<Rightarrow> store) \<Rightarrow> string \<Rightarrow> string set \<Rightarrow> string list \<times> 's \<Rightarrow> string list \<times> 's \<Rightarrow> bool" for E view nm I where
  sys_produce: "uuid m \<notin> set ps \<Longrightarrow> one_shot m \<Longrightarrow> isUp pm \<Longrightarrow> t > 0 \<Longrightarrow>
    produceMessage (E\<lparr>p_now := t\<rparr>) pm False nm m s = (r, s') \<Longrightarrow> sys_step E view nm I (ps, s) (uuid m # ps, s')"
| sys_take: "i \<in> I \<Longrightarrow> lists (view s) (ikey KEY_QUEUE_PROCESSING (p_ns E) nm i) = [] \<Longrightarrow>
    lists (view s) (qkey KEY_QUEUE (p_ns E) nm) \<noteq> [] \<Longrightarrow>
    dequeue (E\<lparr>p_now := t\<rparr>) (consumerHandler E nm i) s = (rt, s') \<Longrightarrow> sys_step E view nm I (ps, s) (ps, s')"
| sys_settle: "i \<in> I \<Longrightarrow> lists (view s) (ikey KEY_QUEUE_PROCESSING (p_ns E) nm i) = [toString m] \<Longrightarrow> body m \<noteq> None \<Longrightarrow>
    b_queueName c = nm \<Longrightarrow> b_id c = i \<Longrightarrow> call_msg call \<in> {m, m\<lparr>expired := True\<rparr>} \<Longrightarrow>
    brokerOp (E\<lparr>p_now := t\<rparr>) c call s = (ru, s') \<Longrightarrow> sys_step E view nm I (ps, s) (ps, s')"
| sys_requeue: "requeueWorker_onTick (E\<lparr>p_now := t\<rparr>) False s = (ru, s') \<Longrightarrow> sys_step E view nm I (ps, s) (ps, s')"
| sys_delay: "t > 0 \<Longrightarrow> delayWorker_onTick (E\<lparr>p_now := t\<rparr>) s = (ru, s') \<Longrightarrow> sys_step E view nm I (ps, s) (ps, s')"
| sys_schedule: "t > 0 \<Longrightarrow> scheduleWorker_onTick (E\<lparr>p_now := t\<rparr>) False s = (ru, s') \<Longrightarrow> sys_step E view nm I (ps, s) (ps, s')"
| sys_collect: "i \<in> I \<Longrightarrow> handleProcessingQueue (E\<lparr>p_now := t\<rparr>) self (Str (ikey KEY_QUEUE_PROCESSING (p_ns E) nm i)) s = (ru, s') \<Longrightarrow>
    sys_step E view nm I (ps, s) (ps, s')"
| sys_others: "(\<forall>k \<in> place_keys (p_ns E) nm I. lists (view s') k = lists (view s) k \<and> (list_only (view s) k \<longrightarrow> list_only (view s') k)) \<Longrightarrow>
    zsets (view s') (gkey KEY_QUEUE_SCHEDULED) = zsets (view s) (gkey KEY_QUEUE_SCHEDULED) \<Longrightarrow>
    hashes (view s') (gkey KEY_SCHEDULED_MESSAGES) = hashes (view s) (gkey KEY_SCHEDULED_MESSAGES) \<Longrightarrow> sys_step E view nm I (ps, s) (ps, s')"

abbreviation sys_steps ::
  "'s platform \<Rightarrow> ('s \<Rightarrow> store) \<Rightarrow> string \<Rightarrow> string set \<Rightarrow> string list \<times> 's \<Rightarrow> string list \<times> 's \<Rightarrow> bool" where
  "sys_steps E view nm I \<equiv> (sys_step E view nm I)\<^sup>*\<^sup>*"

section \<open>Counting\<close>

lemma sum_one_changed:
  fixes f g :: "'k \<Rightarrow> 'm::comm_monoid_add"
  assumes "finite K" "a \<in> K" "\<And>k. k \<in> K \<Longrightarrow> k \<noteq> a \<Longrightarrow> f k = g k" "f a + x = g a + y"
  shows "sum f K + x = sum g K + y"
proof -
  have "sum f (K - {a}) = sum g (K - {a})" using assms(3) by (intro sum.cong) auto
  then have "sum f K + x = (f a + x) + sum g (K - {a})" "sum g K + y = (g a + y) + sum g (K - {a})"
    using sum.remove [OF assms(1,2), of f] sum.remove [OF assms(1,2), of g] by (simp_all add: ac_simps)
  then show ?thesis by (simp add: assms(4))
qed

lemma sum_two_changed:
  fixes f g :: "'k \<Rightarrow> 'm multiset"
  assumes "finite K" "a \<in> K" "b \<in> K" "a \<noteq> b" "\<And>k. k \<in> K \<Longrightarrow> k \<noteq> a \<Longrightarrow> k \<noteq> b \<Longrightarrow> f k = g k" "f a + f b = g a + g b"
  shows "sum f K = sum g K"
proof -
  have *: "sum h K = h a + h b + sum h (K - {a} - {b})" for h :: "'k \<Rightarrow> 'm multiset"
    using sum.remove [OF assms(1,2), of h] sum.remove [of "K - {a}" b h] assms(1,3,4) by (simp add: ac_simps)
  have "sum f (K - {a} - {b}) = sum g (K - {a} - {b})" using assms(5) by (intro sum.cong) auto
  then show ?thesis using assms(6) by (simp add: *)
qed

lemma distinct_parts:
  assumes "distinct ps" "mset ps = mset us + B + C"
  shows "distinct us \<and> (\<forall>u \<in> set us. u \<notin># B) \<and> set_mset B \<subseteq> set ps"
proof -
  obtain bs cs where "mset bs = B" "mset cs = C" using ex_mset by metis
  then have e: "mset ps = mset (us @ bs @ cs)" using assms(2) by (simp add: add.assoc)
  then have "distinct (us @ bs @ cs)" "set ps = set (us @ bs @ cs)"
    using assms(1) mset_eq_imp_distinct_iff mset_eq_setD by blast+
  then show ?thesis using \<open>mset bs = B\<close> by auto
qed

lemma map_of_messages:
  assumes "distinct (map uuid ms)"
  shows "m \<in> set ms \<Longrightarrow> map_of (rev (map (\<lambda>m. (Str (uuid m), f m)) ms)) (Str (uuid m)) = Some (f m)"
    "i \<notin> Str ` set (map uuid ms) \<Longrightarrow> map_of (rev (map (\<lambda>m. (Str (uuid m), f m)) ms)) i = None"
proof -
  have "distinct (map fst (rev (map (\<lambda>m. (Str (uuid m), f m)) ms)))"
    using assms by (simp add: rev_map [symmetric] comp_def distinct_map inj_on_def)
  then show "m \<in> set ms \<Longrightarrow> map_of (rev (map (\<lambda>m. (Str (uuid m), f m)) ms)) (Str (uuid m)) = Some (f m)"
    by (rule map_of_is_SomeI) auto
  show "i \<notin> Str ` set (map uuid ms) \<Longrightarrow> map_of (rev (map (\<lambda>m. (Str (uuid m), f m)) ms)) i = None"
    by (force simp: map_of_eq_None_iff)
qed

text \<open>The schedule, counted by the identifiers that have a time.\<close>

lemma sched_dom: "dom (\<lambda>i. fst (sched st i)) = fst ` set (zsets st (gkey KEY_QUEUE_SCHEDULED))"
  by (simp add: sched_def dom_map_of_conv_image_fst)

lemma schedule_census:
  assumes "distinct (map fst (zsets st (gkey KEY_QUEUE_SCHEDULED)))"
  shows "mset (map (\<lambda>p. member_uuid (fst p)) (zsets st (gkey KEY_QUEUE_SCHEDULED))) =
    image_mset member_uuid (mset_set (dom (\<lambda>i. fst (sched st i))))"
proof -
  have "mset (map fst (zsets st (gkey KEY_QUEUE_SCHEDULED))) = mset_set (fst ` set (zsets st (gkey KEY_QUEUE_SCHEDULED)))"
    using mset_set_set [OF assms] by simp
  then have "image_mset member_uuid (mset (map fst (zsets st (gkey KEY_QUEUE_SCHEDULED)))) =
      image_mset member_uuid (mset_set (dom (\<lambda>i. fst (sched st i))))"
    by (simp only: sched_dom)
  then show ?thesis by (simp add: multiset.map_comp comp_def)
qed

section \<open>Keeping the count\<close>

abbreviation texts :: "store \<Rightarrow> key \<Rightarrow> string multiset" where
  "texts st k \<equiv> mset (map text_uuid (lists st k))"

abbreviation planned :: "store \<Rightarrow> string multiset" where
  "planned st \<equiv> image_mset member_uuid (mset_set (dom (\<lambda>i. fst (sched st i))))"

lemma holds_sound_cong: "lists st' k = lists st k \<Longrightarrow> holds_sound n nm st' k = holds_sound n nm st k"
  by (simp add: holds_sound_def)

lemma sched_eq:
  "zsets st' (gkey KEY_QUEUE_SCHEDULED) = zsets st (gkey KEY_QUEUE_SCHEDULED) \<Longrightarrow>
   hashes st' (gkey KEY_SCHEDULED_MESSAGES) = hashes st (gkey KEY_SCHEDULED_MESSAGES) \<Longrightarrow> sched st' = sched st"
  by (simp add: sched_def fun_eq_iff)

text \<open>What is new in a schedule are messages of the queue.\<close>

lemma schedule_sound_step:
  assumes "schedule_sound n nm st"
    and "\<And>i. sched st' i = sched st i \<or> fst (sched st' i) = None \<or>
      (\<exists>ts m. i = Str (uuid m) \<and> sched st' i = (Some ts, Some (toString m)) \<and> 0 \<le> ts \<and> sound n nm m \<and> \<not> delayPending m)"
  shows "schedule_sound n nm st'"
  unfolding schedule_sound_def
proof (intro allI impI)
  fix i t assume a: "fst (sched st' i) = Some t"
  show "0 \<le> t \<and> (\<exists>m. i = Str (uuid m) \<and> snd (sched st' i) = Some (toString m) \<and> sound n nm m \<and> \<not> delayPending m)"
    using assms(2) [of i] a assms(1) by (elim disjE) (auto simp add: schedule_sound_def)
qed

lemma census_planned:
  "distinct (map fst (zsets st (gkey KEY_QUEUE_SCHEDULED))) \<Longrightarrow> census K st = sum (texts st) K + planned st"
  unfolding census_def by (simp only: schedule_census)

text \<open>Messages go from one list to another.\<close>

lemma inv_move:
  assumes inv: "system_inv n nm I ps st" and fin: "finite I"
    and ab: "a \<in> place_keys n nm I" "b \<in> place_keys n nm I" "a \<noteq> b"
    and other: "\<And>k. k \<noteq> a \<Longrightarrow> k \<noteq> b \<Longrightarrow> lists st' k = lists st k"
    and cnt: "texts st' a + texts st' b = texts st a + texts st b"
    and ok: "holds_sound n nm st' a" "holds_sound n nm st' b"
    and sch: "zsets st' (gkey KEY_QUEUE_SCHEDULED) = zsets st (gkey KEY_QUEUE_SCHEDULED)"
      "hashes st' (gkey KEY_SCHEDULED_MESSAGES) = hashes st (gkey KEY_SCHEDULED_MESSAGES)"
    and kp: "\<And>i. i \<in> I \<Longrightarrow> list_only st' (ikey KEY_QUEUE_PROCESSING n nm i)"
      "\<And>i. i \<in> I \<Longrightarrow> length (lists st' (ikey KEY_QUEUE_PROCESSING n nm i)) \<le> 1"
  shows "system_inv n nm I ps st'"
proof -
  have "finite (place_keys n nm I)" using fin by (simp add: place_keys_def)
  from sum_two_changed [OF this ab, of "texts st'" "texts st"] other cnt
  have "census (place_keys n nm I) st' = census (place_keys n nm I) st" by (simp add: census_def sch(1))
  moreover have "holds_sound n nm st' k" if "k \<in> place_keys n nm I" for k
    using that ok holds_sound_cong [OF other, of k] inv by (cases "k = a"; cases "k = b") (auto simp: system_inv_def)
  moreover have "schedule_sound n nm st'" using inv sched_eq [OF sch] by (simp add: system_inv_def schedule_sound_def)
  ultimately show ?thesis using inv kp by (simp add: system_inv_def)
qed

lemma inv_frame:
  assumes "system_inv n nm I ps st" "\<And>k. k \<in> place_keys n nm I \<Longrightarrow> lists st' k = lists st k"
    and "zsets st' (gkey KEY_QUEUE_SCHEDULED) = zsets st (gkey KEY_QUEUE_SCHEDULED)"
      "hashes st' (gkey KEY_SCHEDULED_MESSAGES) = hashes st (gkey KEY_SCHEDULED_MESSAGES)"
    and "\<And>i. i \<in> I \<Longrightarrow> list_only st' (ikey KEY_QUEUE_PROCESSING n nm i)"
  shows "system_inv n nm I ps st'"
proof -
  have "census (place_keys n nm I) st' = census (place_keys n nm I) st" using assms(2,3) by (simp add: census_def)
  moreover have "ikey KEY_QUEUE_PROCESSING n nm i \<in> place_keys n nm I" if "i \<in> I" for i using that by (simp add: place_keys_def)
  ultimately show ?thesis using assms sched_eq [OF assms(3,4)] by (simp add: system_inv_def holds_sound_def schedule_sound_def)
qed

text \<open>One list and the schedule change, and possibly a new message comes in.\<close>

lemma inv_schedule:
  assumes inv: "system_inv n nm I ps st" and fin: "finite I" and a: "a \<in> place_keys n nm I"
    and other: "\<And>k. k \<noteq> a \<Longrightarrow> lists st' k = lists st k"
    and z: "distinct (map fst (zsets st (gkey KEY_QUEUE_SCHEDULED)))" "distinct (map fst (zsets st' (gkey KEY_QUEUE_SCHEDULED)))"
    and cnt: "texts st' a + planned st' + mset ps = texts st a + planned st + mset ps'" and ps: "distinct ps'"
    and ok: "holds_sound n nm st' a" "schedule_sound n nm st'"
    and kp: "\<And>i. i \<in> I \<Longrightarrow> list_only st' (ikey KEY_QUEUE_PROCESSING n nm i)"
      "\<And>i. i \<in> I \<Longrightarrow> length (lists st' (ikey KEY_QUEUE_PROCESSING n nm i)) \<le> 1"
  shows "system_inv n nm I ps' st'"
proof -
  let ?K = "place_keys n nm I"
  have "finite ?K" using fin by (simp add: place_keys_def)
  from sum_one_changed [OF this a, of "texts st'" "texts st" "planned st' + mset ps" "planned st + mset ps'"] other cnt
  have "sum (texts st') ?K + (planned st' + mset ps) = sum (texts st) ?K + (planned st + mset ps')" by (simp add: add.assoc)
  moreover have "sum (texts st) ?K + planned st = mset ps"
    using inv census_planned [OF z(1), of ?K] unfolding system_inv_def by simp
  ultimately have "sum (texts st') ?K + planned st' + mset ps = mset ps + mset ps'" by (metis add.assoc)
  then have "census ?K st' = mset ps'" using census_planned [OF z(2), of ?K] by (simp add: add.commute)
  moreover have "holds_sound n nm st' k" if "k \<in> ?K" for k
    using that ok(1) holds_sound_cong [OF other, of k] inv by (cases "k = a") (auto simp: system_inv_def)
  ultimately show ?thesis using inv ok(2) kp ps by (simp add: system_inv_def)
qed

section \<open>The steps\<close>

lemma sound_forms [simp]:
  "sound n nm (published E False m) = sound n nm m" "sound n nm m \<Longrightarrow> sound n nm (retried m)"
  "sound n nm m \<Longrightarrow> retryDelay m \<noteq> 0 \<Longrightarrow> sound n nm (delayedForm E m)"
  by (auto simp: sound_def one_shot_def published_def retried_def delayedForm_def msg_ok_def span_ok_def)

lemma form_uuids [simp]: "uuid (retried m) = uuid m" "uuid (delayedForm E m) = uuid m" "\<not> delayPending (delayedForm E m)"
  by (simp_all add: retried_def delayedForm_def delayPending_def)

lemma holds_sound_msgs:
  assumes "holds_sound n nm st k"
  shows "\<exists>ms. msgs_at st k ms \<and> list_all (sound n nm) ms \<and> (k = gkey KEY_QUEUE_DELAY \<longrightarrow> list_all (\<lambda>m. retryDelay m \<ge> 1000) ms)"
proof -
  obtain f where f: "\<forall>x \<in> set (lists st k). x = toString (f x) \<and> sound n nm (f x) \<and> (k = gkey KEY_QUEUE_DELAY \<longrightarrow> retryDelay (f x) \<noteq> 0)"
    using assms unfolding holds_sound_def by metis
  have "retryDelay m \<ge> 1000" if "sound n nm m" "retryDelay m \<noteq> 0" for m
    using that by (auto simp: sound_def one_shot_def msg_ok_def span_ok_def)
  with f show ?thesis
    by (intro exI [of _ "map f (lists st k)"]) (auto simp: msgs_at_def list_all_iff sound_def one_shot_def map_idI)
qed

lemma holds_soundI:
  "lists st k = map toString ms \<Longrightarrow> list_all (sound n nm) ms \<Longrightarrow> k \<noteq> gkey KEY_QUEUE_DELAY \<Longrightarrow> holds_sound n nm st k"
  by (auto simp: holds_sound_def list_all_iff)

lemma list_all_parts: "list_all P xs \<Longrightarrow> list_all P (take n xs) \<and> list_all P (drop n xs)"
  by (metis append_take_drop_id list_all_append)

locale smq_system = smq_live +
  fixes nm :: string and I :: "string set"
  assumes plain_system: "plain (p_ns E)" "plain nm" "i \<in> I \<Longrightarrow> plain i" and finite_consumers: "finite I"
begin

lemma client_of: "i \<in> I \<Longrightarrow> queue_client E view nm i"
  using smq_live_axioms plain_system by (simp add: queue_client_def queue_client_axioms_def)

lemma inv_kp:
  assumes "system_inv (p_ns E) nm I ps (view s)" "i \<in> I"
  shows "list_only (view s) (ikey KEY_QUEUE_PROCESSING (p_ns E) nm i)"
    "length (lists (view s) (ikey KEY_QUEUE_PROCESSING (p_ns E) nm i)) \<le> 1"
  using assms by (auto simp: system_inv_def)

lemma inv_msgs:
  "system_inv (p_ns E) nm I ps (view s) \<Longrightarrow> k \<in> place_keys (p_ns E) nm I \<Longrightarrow> \<exists>ms. msgs_at (view s) k ms \<and> list_all (sound (p_ns E) nm) ms \<and>
     (k = gkey KEY_QUEUE_DELAY \<longrightarrow> list_all (\<lambda>m. retryDelay m \<ge> 1000) ms)"
  by (rule holds_sound_msgs) (simp add: system_inv_def)

lemma kp_ne:
  assumes "i \<in> I" "j \<in> I"
  shows "ikey KEY_QUEUE_PROCESSING (p_ns E) nm i \<noteq> qkey t (p_ns E) nm" "ikey KEY_QUEUE_PROCESSING (p_ns E) nm i \<noteq> gkey t"
    "ikey KEY_QUEUE_PROCESSING (p_ns E) nm i = ikey KEY_QUEUE_PROCESSING (p_ns E) nm j \<longleftrightarrow> i = j"
  using assms plain_system by simp_all

lemma take_keeps:
  assumes inv: "system_inv (p_ns E) nm I ps (view s)" and i: "i \<in> I"
    and "lists (view s) (ikey KEY_QUEUE_PROCESSING (p_ns E) nm i) = []" "lists (view s) (qkey KEY_QUEUE (p_ns E) nm) \<noteq> []"
    and r: "dequeue E (consumerHandler E nm i) s = (r, s')"
  shows "system_inv (p_ns E) nm I ps (view s')"
proof -
  let ?q = "qkey KEY_QUEUE (p_ns E) nm" and ?kp = "ikey KEY_QUEUE_PROCESSING (p_ns E) nm i"
  have K: "?q \<in> place_keys (p_ns E) nm I" "?kp \<in> place_keys (p_ns E) nm I" using i by (auto simp: place_keys_def)
  obtain ms0 where ms0: "msgs_at (view s) ?q ms0" "list_all (sound (p_ns E) nm) ms0" using inv_msgs [OF inv K(1)] by blast
  then have "ms0 \<noteq> []" using assms(4) by (auto simp: msgs_at_def)
  then obtain ms m where ms: "ms0 = ms @ [m]" by (metis rev_exhaust)
  have v: "view s' = set_list ?kp [toString m] (set_list ?q (map toString ms) (view s))"
    using queue_client.dequeue_step [OF client_of [OF i], of s ms m] ms0(1) r assms(3) unfolding ms by auto
  have ne: "?q \<noteq> ?kp" "?kp \<noteq> gkey KEY_QUEUE_DELAY" "?q \<noteq> gkey KEY_QUEUE_DELAY" using kp_ne [OF i i] plain_system by (metis, simp_all)
  have cnt: "texts (view s') ?q + texts (view s') ?kp = texts (view s) ?q + texts (view s) ?kp"
    using ms0(1) ne assms(3) by (simp add: v ms msgs_at_def comp_def)
  have "holds_sound (p_ns E) nm (view s') ?q" "holds_sound (p_ns E) nm (view s') ?kp"
    using ms0(2) ne by (auto simp: v ms intro: holds_soundI [of _ _ ms] holds_soundI [of _ _ "[m]"])
  moreover have "list_only (view s') (ikey KEY_QUEUE_PROCESSING (p_ns E) nm j)"
    "length (lists (view s') (ikey KEY_QUEUE_PROCESSING (p_ns E) nm j)) \<le> 1" if "j \<in> I" for j
    using inv_kp [OF inv that] kp_ne [OF that i] by (simp_all add: v list_only_def)
  ultimately show ?thesis by (intro inv_move [OF inv finite_consumers K ne(1) _ cnt]) (simp_all add: v)
qed

text \<open>A message leaves the processing queue of \<open>i\<close> for where its outcome sends it.\<close>

lemma leaves_keeps:
  assumes inv: "system_inv (p_ns E) nm I ps (view s)" and i: "i \<in> I"
    and kp: "kp = ikey KEY_QUEUE_PROCESSING (p_ns E) nm i" "lists (view s) kp = [toString m]"
    and d: "d = settled_key (p_ns E) nm now call" and call: "call_msg call \<in> {m, m\<lparr>expired := True\<rparr>}"
    and l: "lists st' = lists (settled_view (p_ns E) nm kp (toString m) now call (view s))" "zsets st' = zsets (view s)"
      "hashes st' (gkey KEY_SCHEDULED_MESSAGES) = hashes (view s) (gkey KEY_SCHEDULED_MESSAGES)"
    and only: "\<And>j. j \<in> I \<Longrightarrow> list_only st' (ikey KEY_QUEUE_PROCESSING (p_ns E) nm j)"
  shows "system_inv (p_ns E) nm I ps st'"
proof -
  have K: "kp \<in> place_keys (p_ns E) nm I" "d \<in> place_keys (p_ns E) nm I"
    using i kp(1) d by (auto simp: place_keys_def settled_key_def fate_key_def split: brokerCall.splits fate.splits)
  have ne: "kp \<noteq> d" "\<And>j. j \<in> I \<Longrightarrow> ikey KEY_QUEUE_PROCESSING (p_ns E) nm j \<noteq> d"
    using queue_client.settled_key_ne(1) [OF client_of, of _ now call] i kp(1) d by auto
  note v = settled_view_lists [where kp = kp and n = "p_ns E" and nm = nm and now = now and call = call and x = "toString m"
      and st = "view s", folded d, OF ne(1), folded l(1)]
  have m: "sound (p_ns E) nm m" using inv K(1) kp(2) by (auto simp: system_inv_def holds_sound_def)
  have dl: "retryDelay m \<noteq> 0" if "d = gkey KEY_QUEUE_DELAY"
  proof -
    have "\<exists>m' cause. call = Unacknowledge m' cause \<and> fate_of now cause m' = ToDelay"
      using that d plain_system by (auto simp: settled_key_def fate_key_def split: brokerCall.splits fate.splits)
    then show ?thesis using call by (auto simp: fate_of_def split: if_splits)
  qed
  have "set (lists st' d) = insert (toString m) (set (lists (view s) d))" using arg_cong [OF v(2), of set_mset] by simp
  then have "holds_sound (p_ns E) nm st' d" using inv K(2) m dl by (auto simp: system_inv_def holds_sound_def)
  moreover have "holds_sound (p_ns E) nm st' kp" using v(1) by (simp add: holds_sound_def)
  moreover have "texts st' kp + texts st' d = texts (view s) kp + texts (view s) d"
    using v(1,2) kp(2) by simp
  moreover have "length (lists st' (ikey KEY_QUEUE_PROCESSING (p_ns E) nm j)) \<le> 1" if "j \<in> I" for j
    using v(1) v(3) [OF _ ne(2) [OF that]] inv_kp(2) [OF inv that] by (cases "ikey KEY_QUEUE_PROCESSING (p_ns E) nm j = kp") simp_all
  ultimately show ?thesis using l(2,3) v(3) only by (intro inv_move [OF inv finite_consumers K ne(1)]) simp_all
qed

lemma settle_keeps:
  assumes inv: "system_inv (p_ns E) nm I ps (view s)" and i: "i \<in> I"
    and kp: "kp = ikey KEY_QUEUE_PROCESSING (p_ns E) nm i" "lists (view s) kp = [toString m]"
    and c: "b_queueName c = nm" "b_id c = i" and call: "call_msg call \<in> {m, m\<lparr>expired := True\<rparr>}"
    and r: "brokerOp E c call s = (r, s')"
  shows "system_inv (p_ns E) nm I ps (view s')"
proof -
  have v: "view s' = settled_view (p_ns E) nm kp (toString m) (p_now E) call (view s)"
    using queue_client.brokerOp_live [OF client_of [OF i] c kp(1,2), of call] inv_kp(1) [OF inv i] kp(1) r by auto
  have f: "zsets (view s') = zsets (view s)" "hashes (view s') = hashes (view s)" "sets (view s') = sets (view s)"
    by (simp_all add: v settled_view_def fate_view_frame moved_def Let_def split: brokerCall.split)
  then have "list_only (view s') k = list_only (view s) k" for k by (simp add: list_only_def)
  then show ?thesis
    using inv_kp(1) [OF inv] f by (intro leaves_keeps [OF inv i kp HOL.refl call, of "view s'" "p_now E"]) (simp_all add: v)
qed

lemma requeue_keeps:
  assumes inv: "system_inv (p_ns E) nm I ps (view s)" and r: "requeueWorker_onTick E False s = (r, s')"
  shows "system_inv (p_ns E) nm I ps (view s')"
proof -
  let ?q = "qkey KEY_QUEUE (p_ns E) nm" and ?rk = "gkey KEY_QUEUE_REQUEUE"
  have K: "?rk \<in> place_keys (p_ns E) nm I" "?q \<in> place_keys (p_ns E) nm I" "?rk \<noteq> ?q" "?rk \<noteq> gkey KEY_QUEUE_DELAY" "?q \<noteq> gkey KEY_QUEUE_DELAY"
    using plain_system by (auto simp: place_keys_def)
  obtain ms where ms: "msgs_at (view s) ?rk ms" "list_all (sound (p_ns E) nm) ms" using inv_msgs [OF inv K(1)] by blast
  obtain qs where qs: "msgs_at (view s) ?q qs" "list_all (sound (p_ns E) nm) qs" using inv_msgs [OF inv K(2)] by blast
  have q: "list_all (\<lambda>m. \<exists>q. queue m = Some q \<and> plain (q_ns q) \<and> plain (q_name q)) ms"
    using ms(2) plain_system by (auto simp: list_all_iff sound_def)
  have pk: "pendingKey m = ?q" if "m \<in> set (take 100 ms)" for m
    using that ms(2) by (auto simp: list_all_iff sound_def pendingKey_def dest: in_set_takeD)
  have v: "view s' = (view s)\<lparr>lists := (\<lambda>k. if k = ?rk then map toString (drop 100 ms)
      else rev (map (\<lambda>m. toString (retried m)) (filter (\<lambda>m. pendingKey m = k) (take 100 ms))) @ lists (view s) k)\<rparr>"
    using requeueWorker_moves [OF ms(1) q] r by auto
  have f: "filter (\<lambda>m. pendingKey m = ?q) (take 100 ms) = take 100 ms" "k \<noteq> ?q \<Longrightarrow> filter (\<lambda>m. pendingKey m = k) (take 100 ms) = []" for k
    using pk by (auto simp: filter_id_conv filter_empty_conv)
  have l: "lists (view s') ?rk = map toString (drop 100 ms)" "lists (view s') ?q = map toString (rev (map retried (take 100 ms)) @ qs)"
    "k \<noteq> ?rk \<Longrightarrow> k \<noteq> ?q \<Longrightarrow> lists (view s') k = lists (view s) k" for k
    using K(3) f qs(1) by (simp_all add: v msgs_at_def rev_map comp_def)
  have "mset (map uuid ms) = mset (map uuid (take 100 ms)) + mset (map uuid (drop 100 ms))"
    by (metis append_take_drop_id map_append mset_append)
  then have cnt: "texts (view s') ?rk + texts (view s') ?q = texts (view s) ?rk + texts (view s) ?q"
    unfolding l using ms(1) qs(1) by (simp add: msgs_at_def comp_def multiset.map_comp)
  have "holds_sound (p_ns E) nm (view s') ?rk" "holds_sound (p_ns E) nm (view s') ?q"
    using list_all_parts [OF ms(2), of 100] qs(2) K(4,5)
    by (auto intro!: holds_soundI [OF l(1)] holds_soundI [OF l(2)] simp: list_all_iff)
  moreover have "list_only (view s') (ikey KEY_QUEUE_PROCESSING (p_ns E) nm j)"
    "length (lists (view s') (ikey KEY_QUEUE_PROCESSING (p_ns E) nm j)) \<le> 1" if "j \<in> I" for j
    using inv_kp [OF inv that] kp_ne [OF that that] l(3) by (simp_all add: v list_only_def)
  ultimately show ?thesis using l(3) by (intro inv_move [OF inv finite_consumers K(1-3) _ cnt]) (simp_all add: v)
qed

text \<open>The garbage collector looks at the processing queue of \<open>i\<close>, whatever it finds.\<close>

lemma collect_empty_or_online:
  assumes i: "i \<in> I" and kp: "kp = ikey KEY_QUEUE_PROCESSING (p_ns E) nm i"
    and r: "handleProcessingQueue E self (Str kp) s = (r, s')"
  shows "\<not> (i \<noteq> [] \<and> self \<noteq> i \<and> offline (view s) (p_now E) (p_ns E) nm i) \<Longrightarrow> view s' = view s"
    "i \<noteq> [] \<and> self \<noteq> i \<and> offline (view s) (p_now E) (p_ns E) nm i \<Longrightarrow> list_only (view s) kp \<Longrightarrow> lists (view s) kp = [] \<Longrightarrow>
      view s' = unregistered (p_ns E) nm kp (view s)"
proof -
  note cl = client_of [OF i]
  have x: "extractData kp = Some \<lparr>kd_ns = Some (p_ns E), kd_type = key_code KEY_QUEUE_PROCESSING,
      kd_queueName = Some nm, kd_consumerId = Some i, kd_producerId = None\<rparr>"
    unfolding kp by (rule extractData_consumer) (use queue_client.plain_names [OF cl] in auto)
  obtain s1 where a: "isAlive E nm i s = (case hashes (view s) (gkey KEY_INDEX_HEARTBEATS) (Str (ikey KEY_HEARTBEAT (p_ns E) nm i)) of
      None \<Rightarrow> Inr False
    | Some v \<Rightarrow> (case heartbeat_online (p_now E) v of Inl e \<Rightarrow> Inl (Throw e) | Inr b \<Rightarrow> Inr b), s1)" "view s1 = view s"
    using isAlive_live by blast
  show "view s' = view s" if "\<not> (i \<noteq> [] \<and> self \<noteq> i \<and> offline (view s) (p_now E) (p_ns E) nm i)"
    using that r x a by (auto simp: handleProcessingQueue_def offline_def io_run bindM_def split: option.splits sum.splits if_splits)
  assume off: "i \<noteq> [] \<and> self \<noteq> i \<and> offline (view s) (p_now E) (p_ns E) nm i" and e: "list_only (view s) kp" "lists (view s) kp = []"
  have ne: "kp \<noteq> gkey KEY_INDEX_PROCESSING_QUEUES" "kp \<noteq> qkey KEY_INDEX_QUEUE_MESSAGE_PROCESSING_QUEUES (p_ns E) nm"
    using kp_ne [OF i i] kp by auto
  obtain s2 where 2: "rc_lrange E kp 0 0 s1 = (Inr [], s2)" "view s2 = view s"
    using lrange_live [of kp 0 0 s1] e(2) a(2) by (auto simp: slice_def)
  have "list_only (view s2) kp" "lists (view s2) kp = []" using e 2(2) by simp_all
  from queue_client.deleteProcessingQueue_live [OF cl this ne] obtain s3 where
    3: "deleteProcessingQueue E nm kp s2 = (Inr (), s3)" "view s3 = unregistered (p_ns E) nm kp (view s)" by (auto simp: 2(2))
  have al: "isAlive E nm i s = (Inr False, s1)" using off a(1) by (auto simp: offline_def split: option.splits)
  have "handleOfflineConsumer E i nm kp s1 = (Inr (), s3)"
    using 2(1) 3(1) by (simp add: handleOfflineConsumer_def destroyProcessingQueue_def io_run)
  with al x off have "handleProcessingQueue E self (Str kp) s = (Inr (), s3)" by (simp add: handleProcessingQueue_def bindM_def)
  then show "view s' = unregistered (p_ns E) nm kp (view s)" using r 3(2) by simp
qed

lemma collect_keeps:
  assumes inv: "system_inv (p_ns E) nm I ps (view s)" and i: "i \<in> I" and kp: "kp = ikey KEY_QUEUE_PROCESSING (p_ns E) nm i"
    and r: "handleProcessingQueue E self (Str kp) s = (r, s')"
  shows "system_inv (p_ns E) nm I ps (view s')"
proof (cases "i \<noteq> [] \<and> self \<noteq> i \<and> offline (view s) (p_now E) (p_ns E) nm i")
  case False
  with collect_empty_or_online(1) [OF i kp r] inv show ?thesis by simp
next
  case True
  have only: "list_only (view s) (ikey KEY_QUEUE_PROCESSING (p_ns E) nm j)" if "j \<in> I" for j using inv_kp(1) [OF inv that] .
  have un: "list_only (unregistered (p_ns E) nm kp st) k" if "list_only st k" for st k
    using that by (auto simp: list_only_def unregistered_def Let_def)
  show ?thesis
  proof (cases "lists (view s) kp")
    case Nil
    have "view s' = unregistered (p_ns E) nm kp (view s)"
      using collect_empty_or_online(2) [OF i kp r True _ Nil] only [OF i] kp by simp
    then show ?thesis using un only plain_system by (intro inv_frame [OF inv]) (auto simp: unregistered_def Let_def)
  next
    case (Cons y ys)
    then have "ys = []" using inv_kp(2) [OF inv i] kp by simp
    moreover obtain m where m: "y = toString m" "body m \<noteq> None"
      using inv i kp Cons by (force simp: system_inv_def holds_sound_def place_keys_def sound_def one_shot_def)
    ultimately have l: "lists (view s) kp = [toString m]" using Cons by simp
    have v: "view s' = unregistered (p_ns E) nm kp (fate_view (p_ns E) nm kp (toString m) (fate_of (p_now E) RECOVERY m) (view s))"
      using queue_client.gc_offline [OF client_of [OF i] plain_system(1) kp, of self s m] True l m(2) only [OF i] kp r by auto
    show ?thesis
    proof (rule leaves_keeps [OF inv i kp l HOL.refl])
      show "call_msg (Unacknowledge m RECOVERY) \<in> {m, m\<lparr>expired := True\<rparr>}" by simp
    qed (use un only plain_system in \<open>auto simp: v settled_view_def unregistered_def fate_view_frame Let_def list_only_def\<close>)
  qed
qed

text \<open>No message is in two places.\<close>

lemma schedule_distinct: "distinct (map fst (zsets (view s) (gkey KEY_QUEUE_SCHEDULED)))"
  by (rule zset_distinct)

lemma planned_finite: "finite (dom (\<lambda>i. fst (sched (view s) i)))"
  by (simp add: sched_dom)

lemma place_distinct:
  assumes inv: "system_inv (p_ns E) nm I ps (view s)" and a: "a \<in> place_keys (p_ns E) nm I" and ms: "lists (view s) a = map toString ms"
  shows "distinct (map uuid ms)" "m \<in> set ms \<Longrightarrow> fst (sched (view s) (Str (uuid m))) = None"
    "fst (sched (view s) (Str u)) \<noteq> None \<Longrightarrow> u \<in> set ps"
proof -
  let ?K = "place_keys (p_ns E) nm I" and ?st = "view s"
  have "finite ?K" using finite_consumers by (simp add: place_keys_def)
  then have "sum (texts ?st) ?K = texts ?st a + sum (texts ?st) (?K - {a})" using a by (rule sum.remove)
  moreover have "sum (texts ?st) ?K + planned ?st = mset ps"
    using inv census_planned [OF schedule_distinct, of ?K] unfolding system_inv_def by simp
  ultimately have e: "mset ps = mset (map uuid ms) + planned ?st + sum (texts ?st) (?K - {a})"
    by (simp add: ms multiset.map_comp comp_def ac_simps)
  have d: "distinct ps" using inv by (simp add: system_inv_def)
  note parts = distinct_parts [OF d e]
  have p: "u \<in># planned ?st" if "fst (sched ?st (Str u)) \<noteq> None" for u
    using that planned_finite [of s] by (force simp: dom_def image_iff)
  show "distinct (map uuid ms)" using parts by simp
  show "fst (sched ?st (Str (uuid m))) = None" if "m \<in> set ms"
  proof (rule ccontr)
    assume "\<not> ?thesis"
    then have "uuid m \<in># planned ?st" by (rule p)
    moreover have "uuid m \<in> set (map uuid ms)" using that by simp
    ultimately show False using parts by blast
  qed
  show "u \<in> set ps" if "fst (sched ?st (Str u)) \<noteq> None" using p [OF that] parts by blast
qed

lemma planned_union:
  assumes "dom (\<lambda>i. fst (sched (view s') i)) = dom (\<lambda>i. fst (sched (view s) i)) \<union> Str ` set us"
    and "distinct us" "\<And>u. u \<in> set us \<Longrightarrow> fst (sched (view s) (Str u)) = None"
  shows "planned (view s') = planned (view s) + mset us"
proof -
  have "dom (\<lambda>i. fst (sched (view s) i)) \<inter> Str ` set us = {}" using assms(3) by (auto simp: dom_def)
  then have "mset_set (dom (\<lambda>i. fst (sched (view s') i))) = mset_set (dom (\<lambda>i. fst (sched (view s) i))) + mset_set (Str ` set us)"
    unfolding assms(1) using planned_finite [of s] by (intro mset_set_Union) simp_all
  moreover have "mset_set (Str ` set us) = image_mset Str (mset us)"
    using assms(2) by (simp add: image_mset_mset_set [symmetric] inj_on_def mset_set_set)
  ultimately show ?thesis by (simp add: multiset.map_comp comp_def)
qed

text \<open>A schedule that only gained the messages \<open>ms\<close>, or lost them.\<close>

lemma sched_dom_gained:
  assumes "\<And>i. fst (sched st' i) = (if i \<in> Str ` set us then f i else fst (sched st i))" "\<And>i. i \<in> Str ` set us \<Longrightarrow> f i \<noteq> None"
  shows "dom (\<lambda>i. fst (sched st' i)) = dom (\<lambda>i. fst (sched st i)) \<union> Str ` set us"
  using assms by (auto simp: dom_def)

lemma beside_schedule_only:
  "beside_schedule st st' \<Longrightarrow> k \<noteq> gkey KEY_QUEUE_SCHEDULED \<Longrightarrow> k \<noteq> gkey KEY_SCHEDULED_MESSAGES \<Longrightarrow> list_only st' k = list_only st k"
  by (simp add: beside_schedule_def list_only_def)

lemma produce_scheduled:
  assumes "one_shot m" "isSchedulable m" "isUp pm" "p_now E > 0"
  shows "\<exists>m' ts s'. produceMessage E pm False nm m s = (Inr (True, m'), s') \<and> sound (p_ns E) nm m' \<and> \<not> delayPending m' \<and> uuid m' = uuid m \<and>
    sched (view s') = (sched (view s))(Str (uuid m) := (Some ts, Some (toString m'))) \<and> 0 \<le> ts \<and>
    lists (view s') = lists (view s) \<and> beside_schedule (view s) (view s')"
proof -
  let ?f = "produced_form E nm m"
  have f: "sound (p_ns E) nm ?f" using assms(1) by (simp add: sound_def one_shot_def produced_form_def reset_def msg_ok_def)
  have d: "deliveries_left ?f = 1"
    using assms(1,2) by (auto simp: one_shot_def isSchedulable_def deliveries_left_def produced_form_def reset_def msg_ok_def truthy_num_def opt_ok_def)
  obtain ts m1 where n: "getNextScheduledTimestamp (p_now E) (p_cron E) ?f = Inr (ts, m1)" "scheduledCron m1 = None" "msg_ok m1"
    "ts \<ge> p_now E" "deliveries_left m1 = 0"
    using next_no_cron [of ?f "p_now E" "p_cron E"] f d assms(4) by (auto simp: sound_def one_shot_def)
  note keep = next_keeps [OF n(1)]
  let ?m = "m1\<lparr>scheduledAt := Some (p_now E)\<rparr>"
  have snd: "sound (p_ns E) nm ?m" "\<not> delayPending ?m" "uuid ?m = uuid m"
    using n keep f by (auto simp: sound_def one_shot_def msg_ok_def delayPending_def deliveries_left_def split: if_splits)
  obtain s2 where 2: "schedule E ?f s = (Inr (True, ?m), s2)" "sched (view s2) (Str (uuid m)) = (Some ts, Some (toString ?m))"
    "\<forall>i. i \<noteq> Str (uuid m) \<longrightarrow> sched (view s2) i = sched (view s) i" "lists (view s2) = lists (view s)" "beside_schedule (view s) (view s2)"
    using schedule_effect [OF n(1) _ _ HOL.refl, of s] n(4) assms(4) keep by auto
  have sc: "sched (view s2) = (sched (view s))(Str (uuid m) := (Some ts, Some (toString ?m)))" using 2(2,3) by (simp add: fun_eq_iff)
  have "produceMessage E pm False nm m s = (Inr (True, ?m), s2)"
    using 2(1) assms(2) by (simp add: produceMessage_up [OF assms(3)] proceed_def br_scheduleMessage_def mm_scheduleMessage_def Let_def)
  moreover have "0 \<le> ts" using n(4) assms(4) by simp
  ultimately show ?thesis using snd sc 2(4,5) by blast
qed

lemma produce_keeps:
  assumes inv: "system_inv (p_ns E) nm I ps (view s)" and new: "uuid m \<notin> set ps" and m: "one_shot m" and up: "isUp pm" "p_now E > 0"
    and r: "produceMessage E pm False nm m s = (r, s')"
  shows "system_inv (p_ns E) nm I (uuid m # ps) (view s')"
proof -
  let ?q = "qkey KEY_QUEUE (p_ns E) nm" and ?f = "produced_form E nm m"
  have K: "?q \<in> place_keys (p_ns E) nm I" "?q \<noteq> gkey KEY_QUEUE_DELAY" using plain_system by (auto simp: place_keys_def)
  have kp: "list_only (view s) (ikey KEY_QUEUE_PROCESSING (p_ns E) nm j)" "length (lists (view s) (ikey KEY_QUEUE_PROCESSING (p_ns E) nm j)) \<le> 1"
    "ikey KEY_QUEUE_PROCESSING (p_ns E) nm j \<noteq> ?q" if "j \<in> I" for j
    using inv_kp [OF inv that] kp_ne [OF that that] by auto
  have f: "sound (p_ns E) nm ?f" using m by (simp add: sound_def one_shot_def produced_form_def reset_def msg_ok_def)
  have dps: "distinct (uuid m # ps)" using inv new by (simp add: system_inv_def)
  have ss: "schedule_sound (p_ns E) nm (view s)" using inv by (simp add: system_inv_def)
  obtain qs where qs: "lists (view s) ?q = map toString qs" using inv_msgs [OF inv K(1)] by (auto simp: msgs_at_def)
  have un: "fst (sched (view s) (Str (uuid m))) = None" using place_distinct(3) [OF inv K(1) qs] new by blast
  show ?thesis
  proof (cases "isSchedulable m")
    case False
    have v: "view s' = set_list ?q (lists (view s) ?q @ [toString (published E False ?f)]) (view s)"
      using produce_enqueues [OF up(1) False, of nm s] r by auto
    have "holds_sound (p_ns E) nm (view s') ?q"
      using inv K f by (auto simp: v system_inv_def holds_sound_def)
    moreover have "schedule_sound (p_ns E) nm (view s')" using ss by (simp add: v schedule_sound_def)
    ultimately show ?thesis
      by (intro inv_schedule [OF inv finite_consumers K(1) _ schedule_distinct schedule_distinct _ dps])
        (use kp in \<open>simp_all add: v list_only_def\<close>)
  next
    case True
    obtain m' ts where 2: "sound (p_ns E) nm m'" "\<not> delayPending m'" "uuid m' = uuid m"
      "sched (view s') = (sched (view s))(Str (uuid m) := (Some ts, Some (toString m')))" "lists (view s') = lists (view s)"
      "beside_schedule (view s) (view s')" "0 \<le> ts"
      using produce_scheduled [OF m True up, of s] r by auto
    have "dom (\<lambda>i. fst (sched (view s') i)) = dom (\<lambda>i. fst (sched (view s) i)) \<union> Str ` set [uuid m]"
      by (rule sched_dom_gained [where f = "\<lambda>_. Some ts"]) (use 2(4) in auto)
    then have p: "planned (view s') = planned (view s) + mset [uuid m]" using un by (intro planned_union) auto
    have "schedule_sound (p_ns E) nm (view s')"
      by (rule schedule_sound_step [OF ss]) (use 2(1-4,7) in \<open>auto intro!: exI [of _ m']\<close>)
    moreover have "holds_sound (p_ns E) nm (view s') ?q" using inv K(1) 2(5) holds_sound_cong [of "view s'" ?q "view s"] by (simp add: system_inv_def)
    ultimately show ?thesis
      by (intro inv_schedule [OF inv finite_consumers K(1) _ schedule_distinct schedule_distinct _ dps])
        (use kp p 2(5) beside_schedule_only [OF 2(6)] plain_system in \<open>simp_all\<close>)
  qed
qed

lemma delay_tick_moves:
  assumes ms: "msgs_at (view s) (gkey KEY_QUEUE_DELAY) ms" "list_all (\<lambda>m. retryDelay m \<ge> 1000) ms"
    and "distinct (map uuid ms)" "\<forall>m \<in> set ms. fst (sched (view s) (Str (uuid m))) = None" "p_now E > 0"
  shows "\<exists>s'. delayWorker_onTick E s = (Inr (), s') \<and> planned (view s') = planned (view s) + mset (map uuid (take 100 ms)) \<and>
    lists (view s') = (lists (view s))(gkey KEY_QUEUE_DELAY := map toString (drop 100 ms)) \<and>
    (\<forall>m \<in> set (take 100 ms). sched (view s') (Str (uuid m)) = (Some (p_now E + retryDelay m), Some (toString (delayedForm E m)))) \<and>
    (\<forall>i. i \<notin> Str ` set (map uuid (take 100 ms)) \<longrightarrow> sched (view s') i = sched (view s) i) \<and> beside_schedule (view s) (view s')"
proof -
  let ?dk = "gkey KEY_QUEUE_DELAY" and ?zk = "gkey KEY_QUEUE_SCHEDULED" and ?hk = "gkey KEY_SCHEDULED_MESSAGES" and ?ms = "take 100 ms"
  obtain s2 where 2: "delay_schedule E s = (Inr (), s2)"
    "lists (view s2) = (lists (view s))(?dk := map toString (drop 100 ms))"
    "hashes (view s2) = (hashes (view s))(?hk := hashes (view s) ?hk ++ map_of (rev (map (\<lambda>m. (Str (uuid m), toString (delayedForm E m))) ?ms)))"
    "map_of (zsets (view s2) ?zk) = map_of (zsets (view s) ?zk) ++ map_of (rev (map (\<lambda>m. (Str (uuid m), p_now E + retryDelay m)) ?ms))"
    "\<forall>k. k \<noteq> ?zk \<longrightarrow> zsets (view s2) k = zsets (view s) k" "sets (view s2) = sets (view s)"
    using delay_schedule_effect [OF ms(1) assms(5) ms(2)] by blast
  have run: "delayWorker_onTick E s = (Inr (), s2)" using 2(1) by (simp add: delayWorker_onTick_def orThrow_def scheduleDelayedMessages_def)
  have dt: "distinct (map uuid ?ms)" using distinct_take [OF assms(3), of 100] by (simp add: take_map)
  have sc: "sched (view s2) (Str (uuid m)) = (Some (p_now E + retryDelay m), Some (toString (delayedForm E m)))" if "m \<in> set ?ms" for m
    by (simp add: sched_def 2(3,4) map_add_Some_iff map_of_messages(1) [OF dt that])
  have so: "sched (view s2) i = sched (view s) i" if "i \<notin> Str ` set (map uuid ?ms)" for i
    by (simp add: sched_def 2(3,4) map_add_def map_of_messages(2) [OF dt that])
  have "dom (\<lambda>i. fst (sched (view s2) i)) = dom (\<lambda>i. fst (sched (view s) i)) \<union> Str ` set (map uuid ?ms)"
    using sc so by (intro sched_dom_gained [where f = "\<lambda>i. fst (sched (view s2) i)"]) auto
  then have p: "planned (view s2) = planned (view s) + mset (map uuid ?ms)"
    using assms(4) by (intro planned_union [OF _ dt]) (auto dest: in_set_takeD)
  have "beside_schedule (view s) (view s2)" using 2(3,5,6) by (simp add: beside_schedule_def)
  with run p 2(2) sc so show ?thesis by blast
qed

lemma delay_keeps:
  assumes inv: "system_inv (p_ns E) nm I ps (view s)" and "p_now E > 0" and r: "delayWorker_onTick E s = (r, s')"
  shows "system_inv (p_ns E) nm I ps (view s')"
proof -
  let ?dk = "gkey KEY_QUEUE_DELAY"
  have K: "?dk \<in> place_keys (p_ns E) nm I" by (simp add: place_keys_def)
  have ss: "schedule_sound (p_ns E) nm (view s)" using inv by (simp add: system_inv_def)
  obtain ms where ms: "msgs_at (view s) ?dk ms" "list_all (sound (p_ns E) nm) ms" "list_all (\<lambda>m. retryDelay m \<ge> 1000) ms"
    using inv_msgs [OF inv K] by blast
  have l0: "lists (view s) ?dk = map toString ms" using ms(1) by (simp add: msgs_at_def)
  let ?ms = "take 100 ms"
  have d: "distinct (map uuid ms)" "\<forall>m \<in> set ms. fst (sched (view s) (Str (uuid m))) = None"
    using place_distinct(1,2) [OF inv K l0] by auto
  have l: "lists (view s') = (lists (view s))(?dk := map toString (drop 100 ms))"
    and sc: "\<And>m. m \<in> set ?ms \<Longrightarrow> sched (view s') (Str (uuid m)) = (Some (p_now E + retryDelay m), Some (toString (delayedForm E m)))"
    and so: "\<And>i. i \<notin> Str ` set (map uuid ?ms) \<Longrightarrow> sched (view s') i = sched (view s) i" and b: "beside_schedule (view s) (view s')"
    and p: "planned (view s') = planned (view s) + mset (map uuid ?ms)"
    using delay_tick_moves [OF ms(1,3) d assms(2)] r by auto
  have "mset (map uuid ms) = mset (map uuid ?ms) + mset (map uuid (drop 100 ms))"
    by (metis append_take_drop_id map_append mset_append)
  then have cnt: "texts (view s') ?dk + planned (view s') + mset ps = texts (view s) ?dk + planned (view s) + mset ps"
    unfolding p l0 l by (simp add: comp_def multiset.map_comp)
  have "schedule_sound (p_ns E) nm (view s')"
  proof (rule schedule_sound_step [OF ss])
    fix i
    have "sound (p_ns E) nm (delayedForm E m)" if "m \<in> set ?ms" for m
      using that ms(2,3) sound_forms(3) [of "p_ns E" nm m E] by (auto simp: list_all_iff dest!: in_set_takeD)
    moreover have "0 \<le> p_now E + retryDelay m" if "m \<in> set ?ms" for m
      using that ms(3) assms(2) by (auto simp: list_all_iff dest!: in_set_takeD)
    ultimately show "sched (view s') i = sched (view s) i \<or> fst (sched (view s') i) = None \<or>
      (\<exists>ts m. i = Str (uuid m) \<and> sched (view s') i = (Some ts, Some (toString m)) \<and> 0 \<le> ts \<and> sound (p_ns E) nm m \<and> \<not> delayPending m)"
      using sc so by (cases "i \<in> Str ` set (map uuid ?ms)") (auto intro!: exI [of _ "delayedForm E _"])
  qed
  moreover have "holds_sound (p_ns E) nm (view s') ?dk"
    using ms(2,3) by (auto simp: holds_sound_def l list_all_iff dest!: in_set_dropD)
  moreover have "list_only (view s') (ikey KEY_QUEUE_PROCESSING (p_ns E) nm j)"
    "length (lists (view s') (ikey KEY_QUEUE_PROCESSING (p_ns E) nm j)) \<le> 1" if "j \<in> I" for j
    using inv_kp [OF inv that] kp_ne [OF that that] beside_schedule_only [OF b] by (simp_all add: l)
  moreover have "distinct ps" using inv by (simp add: system_inv_def)
  ultimately show ?thesis
    by (intro inv_schedule [OF inv finite_consumers K _ schedule_distinct schedule_distinct cnt]) (simp_all add: l)
qed

text \<open>What the schedule holds as a list of messages.\<close>

lemma schedule_msgs:
  assumes "schedule_sound (p_ns E) nm (view s)"
  shows "\<exists>zs. zmsgs_at (view s) (gkey KEY_QUEUE_SCHEDULED) (gkey KEY_SCHEDULED_MESSAGES) zs \<and>
    list_all (\<lambda>(m, ts). sound (p_ns E) nm m \<and> \<not> delayPending m \<and> fst (sched (view s) (Str (uuid m))) \<noteq> None) zs"
proof -
  let ?z = "zsets (view s) (gkey KEY_QUEUE_SCHEDULED)"
  have "\<forall>x \<in> set ?z. \<exists>m. fst x = Str (uuid m) \<and> hashes (view s) (gkey KEY_SCHEDULED_MESSAGES) (fst x) = Some (toString m) \<and>
    sound (p_ns E) nm m \<and> \<not> delayPending m"
  proof
    fix x assume "x \<in> set ?z"
    then have "map_of ?z (fst x) = Some (snd x)" using schedule_distinct [of s] by simp
    then have "fst (sched (view s) (fst x)) = Some (snd x)" by (simp add: sched_def)
    with assms show "\<exists>m. fst x = Str (uuid m) \<and> hashes (view s) (gkey KEY_SCHEDULED_MESSAGES) (fst x) = Some (toString m) \<and>
      sound (p_ns E) nm m \<and> \<not> delayPending m"
      unfolding schedule_sound_def by (metis sched_def snd_conv)
  qed
  then obtain f where f: "\<forall>x \<in> set ?z. fst x = Str (uuid (f x)) \<and> hashes (view s) (gkey KEY_SCHEDULED_MESSAGES) (fst x) = Some (toString (f x)) \<and>
    sound (p_ns E) nm (f x) \<and> \<not> delayPending (f x)" by metis
  have k: "fst (sched (view s) (Str (uuid (f x)))) \<noteq> None" if "x \<in> set ?z" for x
  proof -
    have "fst (sched (view s) (fst x)) = Some (snd x)" using that schedule_distinct [of s] by (simp add: sched_def)
    with f that show ?thesis by simp
  qed
  show ?thesis
    using f k by (intro exI [of _ "map (\<lambda>x. (f x, snd x)) ?z"])
      (force simp: zmsgs_at_def list_all_iff sound_def one_shot_def comp_def intro!: map_idI [symmetric])
qed

lemma sched_dom_lost:
  assumes "\<And>i. fst (sched st' i) = (if i \<in> Str ` set us then None else fst (sched st i))" "\<And>u. u \<in> set us \<Longrightarrow> fst (sched st (Str u)) \<noteq> None"
  shows "dom (\<lambda>i. fst (sched st i)) = dom (\<lambda>i. fst (sched st' i)) \<union> Str ` set us"
  using assms by (auto simp: dom_def)

text \<open>The due messages: they are in the schedule, and this is their last delivery.\<close>

lemma due_last:
  assumes "sound (p_ns E) nm m" "\<not> delayPending m" "p_now E > 0"
  shows "\<exists>m'. getNextScheduledTimestamp (p_now E) (p_cron E) (published E False m) = Inr (0, m')"
proof -
  have "deliveries_left m = 0" using assms by (auto simp: deliveries_left_def delayPending_def sound_def one_shot_def msg_ok_def)
  then show ?thesis
    using next_no_cron [of "published E False m" "p_now E" "p_cron E"] sound_forms(1) [of "p_ns E" nm E m] assms(1,3)
    by (auto simp: sound_def one_shot_def)
qed

lemma schedule_due:
  assumes "schedule_sound (p_ns E) nm (view s)" "p_now E > 0"
  shows "\<exists>zs due. zmsgs_at (view s) (gkey KEY_QUEUE_SCHEDULED) (gkey KEY_SCHEDULED_MESSAGES) zs \<and>
    ((\<exists>z \<in> set (zsets (view s) (gkey KEY_QUEUE_SCHEDULED)). snd z \<le> p_now E) \<longrightarrow> due \<noteq> []) \<and> due = map fst (filter (\<lambda>p. 0 \<le> snd p \<and> snd p \<le> p_now E) zs) \<and> distinct (map uuid due) \<and>
    (\<forall>m \<in> set due. sound (p_ns E) nm m \<and> fst (sched (view s) (Str (uuid m))) \<noteq> None \<and> schedulable_ok E m \<and> fst (sched_next E m) = None)"
proof -
  obtain zs where zs: "zmsgs_at (view s) (gkey KEY_QUEUE_SCHEDULED) (gkey KEY_SCHEDULED_MESSAGES) zs"
    "list_all (\<lambda>(m, ts). sound (p_ns E) nm m \<and> \<not> delayPending m \<and> fst (sched (view s) (Str (uuid m))) \<noteq> None) zs"
    using schedule_msgs [OF assms(1)] by blast
  define due where "due = map fst (filter (\<lambda>p. 0 \<le> snd p \<and> snd p \<le> p_now E) zs)"
  have "distinct (map Str (map (\<lambda>z. uuid (fst z)) zs))"
    using schedule_distinct [of s] zs(1) by (simp add: zmsgs_at_def comp_def case_prod_beta)
  then have "distinct (map (\<lambda>z. uuid (fst z)) zs)" by (rule distinct_map [THEN iffD1, THEN conjunct1])
  then have "distinct (map uuid due)" unfolding due_def map_map comp_def by (rule distinct_map_filter)
  moreover have "sound (p_ns E) nm m \<and> fst (sched (view s) (Str (uuid m))) \<noteq> None \<and> schedulable_ok E m \<and> fst (sched_next E m) = None"
    if "m \<in> set due" for m
  proof -
    have m: "sound (p_ns E) nm m" "\<not> delayPending m" "fst (sched (view s) (Str (uuid m))) \<noteq> None"
      using that zs(2) by (auto simp: due_def list_all_iff)
    from due_last [OF m(1,2) assms(2)] m(1,3) show ?thesis by (auto simp: schedulable_ok_def sched_next_def sound_def)
  qed
  moreover have "due \<noteq> []" if z: "\<exists>z \<in> set (zsets (view s) (gkey KEY_QUEUE_SCHEDULED)). snd z \<le> p_now E"
  proof -
    obtain z where z: "z \<in> set (zsets (view s) (gkey KEY_QUEUE_SCHEDULED))" "snd z \<le> p_now E" using z by blast
    then have "fst (sched (view s) (fst z)) = Some (snd z)" using schedule_distinct [of s] by (simp add: sched_def)
    then have "0 \<le> snd z" using assms(1) by (auto simp: schedule_sound_def)
    with z zs(1) have "\<exists>x \<in> set zs. 0 \<le> snd x \<and> snd x \<le> p_now E" by (force simp: zmsgs_at_def)
    then show ?thesis by (auto simp: due_def filter_empty_conv)
  qed
  ultimately show ?thesis using zs(1) due_def by blast
qed

lemma schedule_tick_due:
  assumes "schedule_sound (p_ns E) nm (view s)" "p_now E > 0" and q: "q = qkey KEY_QUEUE (p_ns E) nm"
  shows "\<exists>due s'. scheduleWorker_onTick E False s = (Inr (), s') \<and> distinct (map uuid due) \<and> list_all (sound (p_ns E) nm) due \<and>
    ((\<exists>z \<in> set (zsets (view s) (gkey KEY_QUEUE_SCHEDULED)). snd z \<le> p_now E) \<longrightarrow> due \<noteq> []) \<and>
    planned (view s) = planned (view s') + mset (map uuid due) \<and>
    lists (view s') = (lists (view s))(q := lists (view s) q @ map (\<lambda>m. toString (published E False m)) due) \<and>
    (\<forall>i. if i \<in> Str ` set (map uuid due) then fst (sched (view s') i) = None else sched (view s') i = sched (view s) i) \<and>
    beside_schedule (view s) (view s')"
proof -
  obtain zs due where zs: "zmsgs_at (view s) (gkey KEY_QUEUE_SCHEDULED) (gkey KEY_SCHEDULED_MESSAGES) zs"
    "due = map fst (filter (\<lambda>p. 0 \<le> snd p \<and> snd p \<le> p_now E) zs)" and dd: "distinct (map uuid due)" and
    some: "(\<exists>z \<in> set (zsets (view s) (gkey KEY_QUEUE_SCHEDULED)). snd z \<le> p_now E) \<longrightarrow> due \<noteq> []" and
    du: "\<forall>m \<in> set due. sound (p_ns E) nm m \<and> fst (sched (view s) (Str (uuid m))) \<noteq> None \<and> schedulable_ok E m \<and> fst (sched_next E m) = None"
    using schedule_due [OF assms(1,2)] by blast
  then have ok: "list_all (schedulable_ok E) due" by (simp add: list_all_iff)
  obtain s2 where 2: "enqueueScheduledMessages E False s = (Inr (), s2)"
    "\<forall>k. lists (view s2) k = lists (view s) k @ map (\<lambda>m. toString (published E False m)) (filter (\<lambda>m. pendingKey m = k) due)"
    "\<forall>m \<in> set due. sched (view s2) (Str (uuid m)) = sched_next E m"
    "\<forall>i. i \<notin> (\<lambda>m. Str (uuid m)) ` set due \<longrightarrow> sched (view s2) i = sched (view s) i" "beside_schedule (view s) (view s2)"
    using scheduled_due_effect [OF zs ok] by blast
  have run: "scheduleWorker_onTick E False s = (Inr (), s2)"
    using 2(1) by (simp add: scheduleWorker_onTick_def orThrow_def mm_enqueueScheduledMessages_def)
  have "pendingKey m = q" if "m \<in> set due" for m using du that by (simp add: sound_def pendingKey_def q)
  then have "filter (\<lambda>m. pendingKey m = k) due = (if k = q then due else [])" for k by (auto simp: filter_id_conv filter_empty_conv)
  then have l: "lists (view s2) = (lists (view s))(q := lists (view s) q @ map (\<lambda>m. toString (published E False m)) due)"
    using 2(2) by (simp add: fun_eq_iff)
  have sc: "if i \<in> Str ` set (map uuid due) then fst (sched (view s2) i) = None else sched (view s2) i = sched (view s) i" for i
  proof (cases "i \<in> (\<lambda>m. Str (uuid m)) ` set due")
    case True
    then show ?thesis using 2(3) du by auto
  next
    case False
    with 2(4) have "sched (view s2) i = sched (view s) i" by blast
    moreover have "i \<notin> Str ` set (map uuid due)" using False by (simp add: image_image)
    ultimately show ?thesis by simp
  qed
  have gone: "fst (sched (view s2) i) = (if i \<in> Str ` set (map uuid due) then None else fst (sched (view s) i))" for i
    using sc [of i] by (auto split: if_splits)
  have "dom (\<lambda>i. fst (sched (view s) i)) = dom (\<lambda>i. fst (sched (view s2) i)) \<union> Str ` set (map uuid due)"
    using du by (intro sched_dom_lost [OF gone]) auto
  then have p: "planned (view s) = planned (view s2) + mset (map uuid due)"
    using gone by (intro planned_union [OF _ dd]) auto
  have "list_all (sound (p_ns E) nm) due" using du by (simp add: list_all_iff)
  then show ?thesis using run dd some p l sc 2(5) by blast
qed

lemma schedule_keeps:
  assumes inv: "system_inv (p_ns E) nm I ps (view s)" and "p_now E > 0" and r: "scheduleWorker_onTick E False s = (r, s')"
  shows "system_inv (p_ns E) nm I ps (view s')"
proof -
  let ?q = "qkey KEY_QUEUE (p_ns E) nm"
  have K: "?q \<in> place_keys (p_ns E) nm I" "?q \<noteq> gkey KEY_QUEUE_DELAY" using plain_system by (auto simp: place_keys_def)
  have ss: "schedule_sound (p_ns E) nm (view s)" using inv by (simp add: system_inv_def)
  obtain due where dd: "list_all (sound (p_ns E) nm) due" and p: "planned (view s) = planned (view s') + mset (map uuid due)"
    and l: "lists (view s') = (lists (view s))(?q := lists (view s) ?q @ map (\<lambda>m. toString (published E False m)) due)"
    and sc: "\<And>i. if i \<in> Str ` set (map uuid due) then fst (sched (view s') i) = None else sched (view s') i = sched (view s) i"
    and b: "beside_schedule (view s) (view s')"
    using schedule_tick_due [OF ss assms(2) HOL.refl] r by auto
  have cnt: "texts (view s') ?q + planned (view s') + mset ps = texts (view s) ?q + planned (view s) + mset ps"
    unfolding p l by (simp add: comp_def multiset.map_comp ac_simps)
  have "schedule_sound (p_ns E) nm (view s')"
  proof (rule schedule_sound_step [OF ss])
    fix i
    show "sched (view s') i = sched (view s) i \<or> fst (sched (view s') i) = None \<or>
      (\<exists>ts m. i = Str (uuid m) \<and> sched (view s') i = (Some ts, Some (toString m)) \<and> 0 \<le> ts \<and> sound (p_ns E) nm m \<and> \<not> delayPending m)"
      using sc [of i] by (metis (full_types))
  qed
  moreover have "holds_sound (p_ns E) nm (view s') ?q"
    using inv K dd by (auto simp: system_inv_def holds_sound_def l list_all_iff)
  moreover have "list_only (view s') (ikey KEY_QUEUE_PROCESSING (p_ns E) nm j)"
    "length (lists (view s') (ikey KEY_QUEUE_PROCESSING (p_ns E) nm j)) \<le> 1" if "j \<in> I" for j
    using inv_kp [OF inv that] kp_ne [OF that that] beside_schedule_only [OF b] by (simp_all add: l)
  moreover have "distinct ps" using inv by (simp add: system_inv_def)
  ultimately show ?thesis
    by (intro inv_schedule [OF inv finite_consumers K(1) _ schedule_distinct schedule_distinct cnt]) (simp_all add: l)
qed

end

text \<open>All of it together: whatever happens in whatever order, the invariant holds.\<close>

lemma system_now: "smq_system E view nm I \<Longrightarrow> smq_system (E\<lparr>p_now := t\<rparr>) view nm I"
  by (simp add: smq_system_def smq_system_axioms_def smq_live_now)

lemma step_keeps:
  assumes sys: "smq_system E view nm I" and step: "sys_step E view nm I (ps, s) (ps', s')" and inv: "system_inv (p_ns E) nm I ps (view s)"
  shows "system_inv (p_ns E) nm I ps' (view s')"
  using step
proof (cases rule: sys_step.cases)
  case (sys_produce m pm t r)
  then show ?thesis using smq_system.produce_keeps [OF system_now [OF sys, of t]] inv by simp
next
  case (sys_take i t rt)
  then show ?thesis using smq_system.take_keeps [OF system_now [OF sys, of t]] inv by (simp add: consumerHandler_now)
next
  case (sys_settle i m c call t ru)
  then show ?thesis using smq_system.settle_keeps [OF system_now [OF sys, of t] _ _ HOL.refl] inv by simp
next
  case (sys_requeue t ru)
  then show ?thesis using smq_system.requeue_keeps [OF system_now [OF sys, of t]] inv by simp
next
  case (sys_delay t ru)
  then show ?thesis using smq_system.delay_keeps [OF system_now [OF sys, of t]] inv by simp
next
  case (sys_schedule t ru)
  then show ?thesis using smq_system.schedule_keeps [OF system_now [OF sys, of t]] inv by simp
next
  case (sys_collect i t self ru)
  then show ?thesis using smq_system.collect_keeps [OF system_now [OF sys, of t] _ _ HOL.refl] inv by simp
next
  case sys_others
  have "ikey KEY_QUEUE_PROCESSING (p_ns E) nm i \<in> place_keys (p_ns E) nm I" if "i \<in> I" for i using that by (simp add: place_keys_def)
  with sys_others inv show ?thesis unfolding sys_others(1) by (intro inv_frame [OF inv]) (auto simp: system_inv_def)
qed

lemma system_keeps:
  assumes sys: "smq_system E view nm I" and run: "sys_steps E view nm I (ps0, s0) (ps, s)" and start: "system_inv (p_ns E) nm I ps0 (view s0)"
  shows "system_inv (p_ns E) nm I ps (view s)"
  using run by (induction rule: rtranclp_induct2) (use start step_keeps [OF sys] in blast)+

text \<open>An empty store starts the system.\<close>

lemma system_inv_empty:
  assumes "\<And>k. k \<in> place_keys n nm I \<Longrightarrow> list_only st k \<and> lists st k = []" "zsets st (gkey KEY_QUEUE_SCHEDULED) = []"
  shows "system_inv n nm I [] st"
  using assms by (auto simp: system_inv_def holds_sound_def schedule_sound_def census_def sched_def place_keys_def)

interpretation mems: smq_system "mem_platform t" mem_view "''orders''" "{''c1'', ''c2''}" for t
  by (intro smq_system.intro smq_system_axioms.intro mem_platform_live) (auto simp: plain_def)

end
