(* ===== verification/Progress.thy ===== *)
theory Progress
  imports Conservation
begin

text \<open>
  No message gets stuck: in every state of the system \<open>Conservation\<close> in which a message is neither acknowledged nor dead-lettered
  some operation brings one closer to the application, so that in the end all are settled. The root theory states this.
\<close>

section \<open>What is left to do\<close>

text \<open>A message that is not settled counts the more the farther it is from the application.\<close>

definition work :: "string \<Rightarrow> string \<Rightarrow> string set \<Rightarrow> store \<Rightarrow> nat" where
  "work n nm I st = 4 * length (lists st (gkey KEY_QUEUE_DELAY)) + 3 * length (zsets st (gkey KEY_QUEUE_SCHEDULED)) +
     3 * length (lists st (gkey KEY_QUEUE_REQUEUE)) + 2 * length (lists st (qkey KEY_QUEUE n nm)) +
     (\<Sum>i\<in>I. length (lists st (ikey KEY_QUEUE_PROCESSING n nm i)))"

lemma planned_size: "distinct (map fst (zsets st (gkey KEY_QUEUE_SCHEDULED))) \<Longrightarrow> size (planned st) = length (zsets st (gkey KEY_QUEUE_SCHEDULED))"
  using arg_cong [OF schedule_census, of st size] by simp

section \<open>The steps\<close>

context smq_system
begin

lemma planned_length: "size (planned (view s)) = length (zsets (view s) (gkey KEY_QUEUE_SCHEDULED))"
  by (rule planned_size) (rule schedule_distinct)

lemma processing_sum:
  "(\<And>i. i \<in> I \<Longrightarrow> lists st' (ikey KEY_QUEUE_PROCESSING (p_ns E) nm i) = lists st (ikey KEY_QUEUE_PROCESSING (p_ns E) nm i)) \<Longrightarrow>
   (\<Sum>i\<in>I. length (lists st' (ikey KEY_QUEUE_PROCESSING (p_ns E) nm i))) = (\<Sum>i\<in>I. length (lists st (ikey KEY_QUEUE_PROCESSING (p_ns E) nm i)))"
  by (rule sum.cong) simp_all

lemma processing_sum_one:
  assumes "i \<in> I"
    "\<And>j. j \<in> I \<Longrightarrow> j \<noteq> i \<Longrightarrow> lists st' (ikey KEY_QUEUE_PROCESSING (p_ns E) nm j) = lists st (ikey KEY_QUEUE_PROCESSING (p_ns E) nm j)"
  shows "(\<Sum>j\<in>I. length (lists st' (ikey KEY_QUEUE_PROCESSING (p_ns E) nm j))) + length (lists st (ikey KEY_QUEUE_PROCESSING (p_ns E) nm i)) =
    (\<Sum>j\<in>I. length (lists st (ikey KEY_QUEUE_PROCESSING (p_ns E) nm j))) + length (lists st' (ikey KEY_QUEUE_PROCESSING (p_ns E) nm i))"
  using assms by (intro sum_one_changed [OF finite_consumers assms(1)]) simp_all

lemma delay_works:
  assumes inv: "system_inv (p_ns E) nm I ps (view s)" and "p_now E > 0" and some: "lists (view s) (gkey KEY_QUEUE_DELAY) \<noteq> []"
  shows "\<exists>s'. delayWorker_onTick E s = (Inr (), s') \<and> work (p_ns E) nm I (view s') < work (p_ns E) nm I (view s) \<and>
    lists (view s') (qkey KEY_QUEUE_DL (p_ns E) nm) = lists (view s) (qkey KEY_QUEUE_DL (p_ns E) nm)"
proof -
  let ?dk = "gkey KEY_QUEUE_DELAY"
  have K: "?dk \<in> place_keys (p_ns E) nm I" by (simp add: place_keys_def)
  obtain ms where ms: "msgs_at (view s) ?dk ms" "list_all (\<lambda>m. retryDelay m \<ge> 1000) ms" using inv_msgs [OF inv K] by blast
  have l0: "lists (view s) ?dk = map toString ms" using ms(1) by (simp add: msgs_at_def)
  have d: "distinct (map uuid ms)" "\<forall>m \<in> set ms. fst (sched (view s) (Str (uuid m))) = None"
    using place_distinct(1,2) [OF inv K l0] by auto
  obtain s' where r: "delayWorker_onTick E s = (Inr (), s')" "planned (view s') = planned (view s) + mset (map uuid (take 100 ms))"
    and l: "lists (view s') = (lists (view s))(?dk := map toString (drop 100 ms))"
    using delay_tick_moves [OF ms d assms(2)] by blast
  have z: "length (zsets (view s') (gkey KEY_QUEUE_SCHEDULED)) = length (zsets (view s) (gkey KEY_QUEUE_SCHEDULED)) + length (take 100 ms)"
    using arg_cong [OF r(2), of size] by (simp add: planned_length [symmetric])
  have "ms \<noteq> []" using some l0 by auto
  then have c: "length (take 100 ms) > 0" "length (lists (view s) ?dk) = length (lists (view s') ?dk) + length (take 100 ms)"
    by (simp_all add: l l0 min_def)
  have o: "lists (view s') (gkey KEY_QUEUE_REQUEUE) = lists (view s) (gkey KEY_QUEUE_REQUEUE)"
    "lists (view s') (qkey t (p_ns E) nm) = lists (view s) (qkey t (p_ns E) nm)" for t using plain_system by (simp_all add: l)
  have p: "(\<Sum>i\<in>I. length (lists (view s') (ikey KEY_QUEUE_PROCESSING (p_ns E) nm i))) =
      (\<Sum>i\<in>I. length (lists (view s) (ikey KEY_QUEUE_PROCESSING (p_ns E) nm i)))"
    by (rule processing_sum) (simp add: l kp_ne)
  have "work (p_ns E) nm I (view s') < work (p_ns E) nm I (view s)" unfolding work_def o p z c(2) using c(1) by (cases "length (take 100 ms)") (simp_all only:, simp_all)
  with r(1) o(2) show ?thesis by blast
qed

lemma requeue_works:
  assumes inv: "system_inv (p_ns E) nm I ps (view s)" and some: "lists (view s) (gkey KEY_QUEUE_REQUEUE) \<noteq> []"
  shows "\<exists>s'. requeueWorker_onTick E False s = (Inr (), s') \<and> work (p_ns E) nm I (view s') < work (p_ns E) nm I (view s) \<and>
    lists (view s') (qkey KEY_QUEUE_DL (p_ns E) nm) = lists (view s) (qkey KEY_QUEUE_DL (p_ns E) nm)"
proof -
  let ?q = "qkey KEY_QUEUE (p_ns E) nm" and ?rk = "gkey KEY_QUEUE_REQUEUE"
  have K: "?rk \<in> place_keys (p_ns E) nm I" by (simp add: place_keys_def)
  obtain ms where ms: "msgs_at (view s) ?rk ms" "list_all (sound (p_ns E) nm) ms" using inv_msgs [OF inv K] by blast
  have q: "list_all (\<lambda>m. \<exists>q. queue m = Some q \<and> plain (q_ns q) \<and> plain (q_name q)) ms"
    using ms(2) plain_system by (auto simp: list_all_iff sound_def)
  obtain s' where r: "requeueWorker_onTick E False s = (Inr (), s')"
    and v: "view s' = (view s)\<lparr>lists := (\<lambda>k. if k = ?rk then map toString (drop 100 ms)
      else rev (map (\<lambda>m. toString (retried m)) (filter (\<lambda>m. pendingKey m = k) (take 100 ms))) @ lists (view s) k)\<rparr>"
    using requeueWorker_moves [OF ms(1) q] by blast
  have "pendingKey m = ?q" if "m \<in> set (take 100 ms)" for m
    using that ms(2) by (auto simp: list_all_iff sound_def pendingKey_def dest: in_set_takeD)
  then have "filter (\<lambda>m. pendingKey m = k) (take 100 ms) = (if k = ?q then take 100 ms else [])" for k
    by (auto simp: filter_id_conv filter_empty_conv)
  then have l: "lists (view s') = (lists (view s))(?rk := map toString (drop 100 ms),
      ?q := rev (map (\<lambda>m. toString (retried m)) (take 100 ms)) @ lists (view s) ?q)"
    using plain_system by (simp add: v fun_eq_iff)
  have l0: "lists (view s) ?rk = map toString ms" using ms(1) by (simp add: msgs_at_def)
  then have "ms \<noteq> []" using some by auto
  then have c: "length (take 100 ms) > 0" "length (lists (view s) ?rk) = length (lists (view s') ?rk) + length (take 100 ms)"
    "length (lists (view s') ?q) = length (lists (view s) ?q) + length (take 100 ms)"
    using plain_system by (simp_all add: l l0 min_def)
  have o: "lists (view s') (gkey KEY_QUEUE_DELAY) = lists (view s) (gkey KEY_QUEUE_DELAY)"
    "lists (view s') (qkey KEY_QUEUE_DL (p_ns E) nm) = lists (view s) (qkey KEY_QUEUE_DL (p_ns E) nm)" "zsets (view s') = zsets (view s)"
    using plain_system by (simp add: l, simp add: l, simp add: v)
  have p: "(\<Sum>i\<in>I. length (lists (view s') (ikey KEY_QUEUE_PROCESSING (p_ns E) nm i))) =
      (\<Sum>i\<in>I. length (lists (view s) (ikey KEY_QUEUE_PROCESSING (p_ns E) nm i)))"
    by (rule processing_sum) (simp add: l kp_ne)
  have "work (p_ns E) nm I (view s') < work (p_ns E) nm I (view s)" unfolding work_def o p c(2,3) using c(1) by (cases "length (take 100 ms)") (simp_all only:, simp_all)
  with r o(2) show ?thesis by blast
qed

lemma schedule_works:
  assumes inv: "system_inv (p_ns E) nm I ps (view s)" and "p_now E > 0"
    and some: "\<exists>z \<in> set (zsets (view s) (gkey KEY_QUEUE_SCHEDULED)). snd z \<le> p_now E"
  shows "\<exists>s'. scheduleWorker_onTick E False s = (Inr (), s') \<and> work (p_ns E) nm I (view s') < work (p_ns E) nm I (view s) \<and>
    lists (view s') (qkey KEY_QUEUE_DL (p_ns E) nm) = lists (view s) (qkey KEY_QUEUE_DL (p_ns E) nm)"
proof -
  let ?q = "qkey KEY_QUEUE (p_ns E) nm"
  have ss: "schedule_sound (p_ns E) nm (view s)" using inv by (simp add: system_inv_def)
  obtain due s' where r: "scheduleWorker_onTick E False s = (Inr (), s')" "due \<noteq> []" "planned (view s) = planned (view s') + mset (map uuid due)"
    and l: "lists (view s') = (lists (view s))(?q := lists (view s) ?q @ map (\<lambda>m. toString (published E False m)) due)"
    using schedule_tick_due [OF ss assms(2) HOL.refl] some by blast
  have z: "length (zsets (view s) (gkey KEY_QUEUE_SCHEDULED)) = length (zsets (view s') (gkey KEY_QUEUE_SCHEDULED)) + length due"
    using arg_cong [OF r(3), of size] by (simp add: planned_length [symmetric])
  have "(\<Sum>i\<in>I. length (lists (view s') (ikey KEY_QUEUE_PROCESSING (p_ns E) nm i))) =
      (\<Sum>i\<in>I. length (lists (view s) (ikey KEY_QUEUE_PROCESSING (p_ns E) nm i)))"
    by (rule processing_sum) (simp add: l kp_ne)
  then have "work (p_ns E) nm I (view s') < work (p_ns E) nm I (view s)"
    using plain_system r(2) by (simp add: work_def z, simp add: l)
  then show ?thesis using r(1) plain_system by (auto simp: l)
qed

lemma take_works:
  assumes inv: "system_inv (p_ns E) nm I ps (view s)" and i: "i \<in> I" and kp: "kp = ikey KEY_QUEUE_PROCESSING (p_ns E) nm i" "lists (view s) kp = []"
    and some: "lists (view s) (qkey KEY_QUEUE (p_ns E) nm) \<noteq> []"
  shows "\<exists>x s'. dequeue E (consumerHandler E nm i) s = (Inr (Some x), s') \<and> work (p_ns E) nm I (view s') < work (p_ns E) nm I (view s) \<and>
    lists (view s') (qkey KEY_QUEUE_DL (p_ns E) nm) = lists (view s) (qkey KEY_QUEUE_DL (p_ns E) nm)"
proof -
  let ?q = "qkey KEY_QUEUE (p_ns E) nm"
  have K: "?q \<in> place_keys (p_ns E) nm I" by (simp add: place_keys_def)
  obtain ms0 where ms0: "msgs_at (view s) ?q ms0" using inv_msgs [OF inv K] by blast
  then have "ms0 \<noteq> []" using some by (auto simp: msgs_at_def)
  then obtain ms m where ms: "ms0 = ms @ [m]" by (metis rev_exhaust)
  obtain s' where r: "dequeue E (consumerHandler E nm i) s = (Inr (Some (toString m)), s')"
    and v: "view s' = set_list kp [toString m] (set_list ?q (map toString ms) (view s))"
    using queue_client.dequeue_step [OF client_of [OF i], of s ms m] ms0 kp unfolding ms by auto
  have "(\<Sum>j\<in>I. length (lists (view s') (ikey KEY_QUEUE_PROCESSING (p_ns E) nm j))) =
      (\<Sum>j\<in>I. length (lists (view s) (ikey KEY_QUEUE_PROCESSING (p_ns E) nm j))) + 1"
  proof -
    have "lists (view s') (ikey KEY_QUEUE_PROCESSING (p_ns E) nm j) = lists (view s) (ikey KEY_QUEUE_PROCESSING (p_ns E) nm j)"
      if "j \<in> I" "j \<noteq> i" for j using kp(1) kp_ne [OF that(1) i] that(2) by (simp add: v)
    from processing_sum_one [OF i this] show ?thesis using kp kp_ne(1) [OF i i] by (simp add: v)
  qed
  moreover have "kp \<noteq> ?q" "kp \<noteq> gkey k" "kp \<noteq> qkey KEY_QUEUE_DL (p_ns E) nm" for k using kp(1) kp_ne [OF i i] by simp_all
  moreover have "length (lists (view s) ?q) = Suc (length ms)" using ms0 by (simp add: msgs_at_def ms)
  ultimately show ?thesis using r plain_system by (auto simp: work_def v)
qed

lemma settle_works:
  assumes inv: "system_inv (p_ns E) nm I ps (view s)" and i: "i \<in> I" and kp: "kp = ikey KEY_QUEUE_PROCESSING (p_ns E) nm i" "lists (view s) kp \<noteq> []"
    and c: "b_queueName c = nm" "b_id c = i"
  shows "\<exists>m s'. lists (view s) kp = [toString m] \<and> body m \<noteq> None \<and> brokerOp E c (Acknowledge m) s = (Inr (), s') \<and>
    work (p_ns E) nm I (view s') < work (p_ns E) nm I (view s) \<and>
    lists (view s') (qkey KEY_QUEUE_DL (p_ns E) nm) = lists (view s) (qkey KEY_QUEUE_DL (p_ns E) nm)"
proof -
  have K: "kp \<in> place_keys (p_ns E) nm I" using i kp(1) by (simp add: place_keys_def)
  obtain ms where ms: "msgs_at (view s) kp ms" using inv_msgs [OF inv K] by blast
  moreover have "length (lists (view s) kp) = 1" using inv_kp(2) [OF inv i] kp by (cases "lists (view s) kp") simp_all
  ultimately obtain m where m: "lists (view s) kp = [toString m]" "body m \<noteq> None" by (auto simp: msgs_at_def length_Suc_conv)
  let ?d = "qkey KEY_QUEUE_ACKNOWLEDGED_MESSAGES (p_ns E) nm"
  obtain s' where r: "brokerOp E c (Acknowledge m) s = (Inr (), s')"
    and v: "view s' = settled_view (p_ns E) nm kp (toString m) (p_now E) (Acknowledge m) (view s)"
    using queue_client.brokerOp_live [OF client_of [OF i] c kp(1) m(1)] inv_kp(1) [OF inv i] kp(1) by blast
  have ne: "kp \<noteq> ?d" "kp \<noteq> qkey t (p_ns E) nm" "kp \<noteq> gkey t" for t using kp(1) kp_ne [OF i i] by simp_all
  have o: "settled_key (p_ns E) nm (p_now E) (Acknowledge m) = ?d" by (simp add: settled_key_def)
  note l = settled_view_lists [where kp = kp and n = "p_ns E" and nm = nm and now = "p_now E" and call = "Acknowledge m"
      and x = "toString m" and st = "view s", unfolded o, OF ne(1), folded v]
  have "(\<Sum>j\<in>I. length (lists (view s') (ikey KEY_QUEUE_PROCESSING (p_ns E) nm j))) + 1 =
      (\<Sum>j\<in>I. length (lists (view s) (ikey KEY_QUEUE_PROCESSING (p_ns E) nm j)))"
  proof -
    have "lists (view s') (ikey KEY_QUEUE_PROCESSING (p_ns E) nm j) = lists (view s) (ikey KEY_QUEUE_PROCESSING (p_ns E) nm j)"
      if "j \<in> I" "j \<noteq> i" for j using kp(1) kp_ne [OF that(1) i] that(2) by (intro l(3)) simp_all
    from processing_sum_one [OF i this] show ?thesis using kp(1) m(1) l(1) by simp
  qed
  moreover have "lists (view s') (gkey k) = lists (view s) (gkey k)" "lists (view s') (qkey KEY_QUEUE (p_ns E) nm) = lists (view s) (qkey KEY_QUEUE (p_ns E) nm)"
    "lists (view s') (qkey KEY_QUEUE_DL (p_ns E) nm) = lists (view s) (qkey KEY_QUEUE_DL (p_ns E) nm)" for k
    using ne plain_system by (auto intro!: l(3))
  moreover have "zsets (view s') = zsets (view s)" by (simp add: v settled_view_def moved_def Let_def)
  ultimately have "work (p_ns E) nm I (view s') < work (p_ns E) nm I (view s)" by (simp add: work_def)
  with m r \<open>lists (view s') (qkey KEY_QUEUE_DL (p_ns E) nm) = _\<close> show ?thesis by blast
qed

end

section \<open>Runs\<close>

lemma work_progress:
  assumes sys: "smq_system E view nm I" and inv: "system_inv (p_ns E) nm I ps (view s)" and "I \<noteq> {}" and w: "work (p_ns E) nm I (view s) \<noteq> 0"
  shows "\<exists>s'. sys_step E view nm I (ps, s) (ps, s') \<and> work (p_ns E) nm I (view s') < work (p_ns E) nm I (view s) \<and>
    lists (view s') (qkey KEY_QUEUE_DL (p_ns E) nm) = lists (view s) (qkey KEY_QUEUE_DL (p_ns E) nm)"
proof -
  note at = system_now [OF sys]
  have inv': "system_inv (p_ns (E\<lparr>p_now := t\<rparr>)) nm I ps (view s)" for t using inv by simp
  have held: "\<exists>i \<in> I. lists (view s) (ikey KEY_QUEUE_PROCESSING (p_ns E) nm i) \<noteq> []"
    if "0 < (\<Sum>i\<in>I. length (lists (view s) (ikey KEY_QUEUE_PROCESSING (p_ns E) nm i)))"
    using that by (metis (mono_tags, lifting) length_0_conv less_irrefl sum.neutral)
  consider (delay) "lists (view s) (gkey KEY_QUEUE_DELAY) \<noteq> []" | (requeue) "lists (view s) (gkey KEY_QUEUE_REQUEUE) \<noteq> []"
    | (sched) "zsets (view s) (gkey KEY_QUEUE_SCHEDULED) \<noteq> []"
    | (holding) i where "i \<in> I" "lists (view s) (ikey KEY_QUEUE_PROCESSING (p_ns E) nm i) \<noteq> []"
    | (pending) i where "i \<in> I" "lists (view s) (ikey KEY_QUEUE_PROCESSING (p_ns E) nm i) = []" "lists (view s) (qkey KEY_QUEUE (p_ns E) nm) \<noteq> []"
    using w assms(3) held by (auto simp: work_def)
  then show ?thesis
  proof cases
    case delay
    with smq_system.delay_works [OF at inv', of 1] show ?thesis by (auto intro: sys_delay [of 1, simplified])
  next
    case requeue
    with smq_system.requeue_works [OF at inv', of 1] show ?thesis by (auto intro: sys_requeue [where t = 1])
  next
    case sched
    then obtain z zs where z: "zsets (view s) (gkey KEY_QUEUE_SCHEDULED) = z # zs" by (cases "zsets (view s) (gkey KEY_QUEUE_SCHEDULED)") auto
    obtain t where t: "0 < t" "\<exists>z \<in> set (zsets (view s) (gkey KEY_QUEUE_SCHEDULED)). snd z \<le> t"
      by (rule that [of "max 1 (snd z)"]) (auto simp: z)
    then obtain s' where s': "scheduleWorker_onTick (E\<lparr>p_now := t\<rparr>) False s = (Inr (), s')"
      "work (p_ns E) nm I (view s') < work (p_ns E) nm I (view s)"
      "lists (view s') (qkey KEY_QUEUE_DL (p_ns E) nm) = lists (view s) (qkey KEY_QUEUE_DL (p_ns E) nm)"
      using smq_system.schedule_works [OF at inv', of t] by auto
    from sys_schedule [OF t(1) s'(1)] s'(2,3) show ?thesis by blast
  next
    case (holding i)
    have c: "b_queueName (demo_consumer\<lparr>b_queueName := nm, b_id := i\<rparr>) = nm" "b_id (demo_consumer\<lparr>b_queueName := nm, b_id := i\<rparr>) = i" by simp_all
    from smq_system.settle_works [OF at inv' holding(1) HOL.refl _ c, of 1] holding obtain m s' where m:
      "lists (view s) (ikey KEY_QUEUE_PROCESSING (p_ns E) nm i) = [toString m]" "body m \<noteq> None"
      "brokerOp (E\<lparr>p_now := 1\<rparr>) (demo_consumer\<lparr>b_queueName := nm, b_id := i\<rparr>) (Acknowledge m) s = (Inr (), s')"
      "work (p_ns E) nm I (view s') < work (p_ns E) nm I (view s)"
      "lists (view s') (qkey KEY_QUEUE_DL (p_ns E) nm) = lists (view s) (qkey KEY_QUEUE_DL (p_ns E) nm)" by auto
    have "sys_step E view nm I (ps, s) (ps, s')"
      by (rule sys_settle [where view = view and i = i and m = m and t = 1, OF holding(1) m(1,2) c _ m(3)]) simp
    with m(4,5) show ?thesis by blast
  next
    case (pending i)
    with smq_system.take_works [OF at inv' pending(1) HOL.refl, of 1] show ?thesis
      by (auto simp: consumerHandler_now intro: sys_take [where t = 1])
  qed
qed

lemma work_done:
  assumes sys: "smq_system E view nm I" and "I \<noteq> {}" and inv: "system_inv (p_ns E) nm I ps (view s)"
  shows "\<exists>s'. sys_steps E view nm I (ps, s) (ps, s') \<and> work (p_ns E) nm I (view s') = 0 \<and> system_inv (p_ns E) nm I ps (view s') \<and>
    lists (view s') (qkey KEY_QUEUE_DL (p_ns E) nm) = lists (view s) (qkey KEY_QUEUE_DL (p_ns E) nm)"
  using inv
proof (induction "work (p_ns E) nm I (view s)" arbitrary: s rule: less_induct)
  case less
  show ?case
  proof (cases "work (p_ns E) nm I (view s) = 0")
    case True
    with less.prems show ?thesis by blast
  next
    case False
    obtain s1 where 1: "sys_step E view nm I (ps, s) (ps, s1)" "work (p_ns E) nm I (view s1) < work (p_ns E) nm I (view s)"
      "lists (view s1) (qkey KEY_QUEUE_DL (p_ns E) nm) = lists (view s) (qkey KEY_QUEUE_DL (p_ns E) nm)"
      using work_progress [OF sys less.prems assms(2) False] by blast
    from less.hyps [OF 1(2) step_keeps [OF sys 1(1) less.prems]] 1(1,3) show ?thesis
      by (metis converse_rtranclp_into_rtranclp)
  qed
qed

text \<open>Where the messages are when nothing is left to do.\<close>

lemma work_0_empty:
  assumes "finite I" "work n nm I st = 0"
    and "k \<in> place_keys n nm I - {qkey KEY_QUEUE_ACKNOWLEDGED_MESSAGES n nm, qkey KEY_QUEUE_DL n nm}"
  shows "lists st k = []"
  using assms by (auto simp: place_keys_def work_def)

lemma work_0_census:
  assumes "finite I" "plain n" "plain nm" and "work n nm I st = 0"
  shows "census (place_keys n nm I) st =
    mset (map text_uuid (lists st (qkey KEY_QUEUE_ACKNOWLEDGED_MESSAGES n nm))) + mset (map text_uuid (lists st (qkey KEY_QUEUE_DL n nm)))"
proof -
  let ?K = "place_keys n nm I" and ?ak = "qkey KEY_QUEUE_ACKNOWLEDGED_MESSAGES n nm" and ?dl = "qkey KEY_QUEUE_DL n nm"
  note e = work_0_empty [OF assms(1,4)]
  have "zsets st (gkey KEY_QUEUE_SCHEDULED) = []" using assms(4) by (simp add: work_def)
  moreover have "sum (texts st) ?K = sum (texts st) {?ak, ?dl}"
    using assms(1) e by (intro sum.mono_neutral_right) (auto simp: place_keys_def)
  moreover have "?ak \<noteq> ?dl" using assms(2,3) by simp
  ultimately show ?thesis by (simp add: census_def)
qed

end
