(* ===== verification/Stats.thy ===== *)
theory Stats
  imports Base Workers
begin

text \<open>
  \<^verbatim>\<open>src/monitor-server/workers/stats.worker.ts\<close>: once a second the worker that holds the lock collects the
  rates and heartbeats that producers and consumers publish and the sizes of all queues, and publishes the
  aggregate. An object with arbitrary property names is an association list in the order of insertion. A number
  computed from a text may be \<open>NaN\<close> (\<open>None\<close>); a size is the reply of the transaction as it came.
\<close>

section \<open>Data\<close>

type_synonym num = "int option"

definition num_add :: "num \<Rightarrow> num \<Rightarrow> num" where
  "num_add x y = (case x of None \<Rightarrow> None | Some a \<Rightarrow> map_option (\<lambda>b. a + b) y)"

record TAggregatedStatsQueueProducer =
  sp_id :: string
  sp_namespace :: string
  sp_queueName :: string
  sp_input :: num

record TConsumerRates =
  cr_processing :: num
  cr_acknowledged :: num
  cr_unacknowledged :: num

record TAggregatedStatsQueueConsumer =
  sc_id :: string
  sc_namespace :: string
  sc_queueName :: string
  sc_resources :: "json option"
  sc_rates :: "TConsumerRates option"

record TAggregatedStatsQueue =
  sq_queueName :: string
  sq_namespace :: string
  sq_deadLetteredMessages :: reply
  sq_acknowledgedMessages :: reply
  sq_pendingMessages :: reply
  sq_pendingMessagesWithPriority :: reply
  sq_consumers :: "(string \<times> TAggregatedStatsQueueConsumer) list option"
  sq_producers :: "(string \<times> TAggregatedStatsQueueProducer) list option"

record TStatsRates =
  sr_processing :: num
  sr_acknowledged :: num
  sr_unacknowledged :: num
  sr_input :: num

record TAggregatedStats =
  st_scheduledMessages :: int
  st_rates :: TStatsRates
  st_queues :: "(string \<times> (string \<times> TAggregatedStatsQueue) list) list"

definition emptyStats :: TAggregatedStats where
  "emptyStats = \<lparr>st_scheduledMessages = 0,
     st_rates = \<lparr>sr_processing = Some 0, sr_acknowledged = Some 0, sr_unacknowledged = Some 0, sr_input = Some 0\<rparr>,
     st_queues = []\<rparr>"

text \<open>\<open>data.queues[ns][queueName]\<close>, read and modified in place.\<close>

definition getQ :: "TAggregatedStats \<Rightarrow> string \<Rightarrow> string \<Rightarrow> TAggregatedStatsQueue option" where
  "getQ d ns q = (case map_of (st_queues d) ns of None \<Rightarrow> None | Some m \<Rightarrow> map_of m q)"

definition modQueue ::
  "string \<Rightarrow> string \<Rightarrow> (TAggregatedStatsQueue \<Rightarrow> TAggregatedStatsQueue) \<Rightarrow> TAggregatedStats \<Rightarrow> TAggregatedStats" where
  "modQueue ns q f d =
     (case map_of (st_queues d) ns of
        None \<Rightarrow> d
      | Some m \<Rightarrow>
          (case map_of m q of
             None \<Rightarrow> d
           | Some v \<Rightarrow> d\<lparr>st_queues := AList.update ns (AList.update q (f v) m) (st_queues d)\<rparr>))"

section \<open>Adding entries\<close>

definition newStatsQueue :: "string \<Rightarrow> string \<Rightarrow> TAggregatedStatsQueue" where
  "newStatsQueue ns queueName =
     \<lparr>sq_queueName = queueName, sq_namespace = ns, sq_deadLetteredMessages = RInt 0, sq_acknowledgedMessages = RInt 0,
      sq_pendingMessages = RInt 0, sq_pendingMessagesWithPriority = RInt 0, sq_consumers = Some [], sq_producers = Some []\<rparr>"

definition addQueueIfNotExists :: "string \<Rightarrow> string \<Rightarrow> TAggregatedStats \<Rightarrow> TAggregatedStats" where
  "addQueueIfNotExists ns queueName d =
     (let m = (case map_of (st_queues d) ns of None \<Rightarrow> [] | Some m \<Rightarrow> m);
          m' = (if map_of m queueName = None then AList.update queueName (newStatsQueue ns queueName) m else m) in
      d\<lparr>st_queues := AList.update ns m' (st_queues d)\<rparr>)"

text \<open>An object that is not there yet is created empty.\<close>

definition orEmpty :: "'a list option \<Rightarrow> 'a list" where
  "orEmpty x = (case x of None \<Rightarrow> [] | Some xs \<Rightarrow> xs)"

definition addConsumerIfNotExists :: "string \<Rightarrow> string \<Rightarrow> string \<Rightarrow> TAggregatedStats \<Rightarrow> TAggregatedStats" where
  "addConsumerIfNotExists ns queueName consumerId =
     modQueue ns queueName (\<lambda>v.
       let consumers = orEmpty (sq_consumers v) in
       v\<lparr>sq_consumers := Some (if map_of consumers consumerId = None
           then AList.update consumerId \<lparr>sc_id = consumerId, sc_namespace = ns, sc_queueName = queueName,
                  sc_resources = None, sc_rates = None\<rparr> consumers
           else consumers)\<rparr>)"

definition addProducerIfNotExists :: "string \<Rightarrow> string \<Rightarrow> string \<Rightarrow> TAggregatedStats \<Rightarrow> TAggregatedStats" where
  "addProducerIfNotExists ns queueName producerId =
     modQueue ns queueName (\<lambda>v.
       let producers = orEmpty (sq_producers v) in
       v\<lparr>sq_producers := Some (if map_of producers producerId = None
           then AList.update producerId \<lparr>sp_id = producerId, sp_namespace = ns, sp_queueName = queueName,
                  sp_input = Some 0\<rparr> producers
           else producers)\<rparr>)"

text \<open>An update of the object those two return.\<close>

definition modEntry :: "string \<Rightarrow> ('a \<Rightarrow> 'a) \<Rightarrow> (string \<times> 'a) list \<Rightarrow> (string \<times> 'a) list" where
  "modEntry i f xs = (case map_of xs i of None \<Rightarrow> xs | Some x \<Rightarrow> AList.update i (f x) xs)"

definition modConsumer where
  "modConsumer ns q c f = modQueue ns q (\<lambda>v. v\<lparr>sq_consumers := map_option (modEntry c f) (sq_consumers v)\<rparr>)"

definition modProducer where
  "modProducer ns q p f = modQueue ns q (\<lambda>v. v\<lparr>sq_producers := map_option (modEntry p f) (sq_producers v)\<rparr>)"

definition modRates :: "(TStatsRates \<Rightarrow> TStatsRates) \<Rightarrow> TAggregatedStats \<Rightarrow> TAggregatedStats" where
  "modRates f d = d\<lparr>st_rates := f (st_rates d)\<rparr>"

section \<open>Rates\<close>

definition handleProducerRate :: "string \<Rightarrow> string \<Rightarrow> string \<Rightarrow> num \<Rightarrow> TAggregatedStats \<Rightarrow> TAggregatedStats" where
  "handleProducerRate ns queueName producerId rate d =
     (let d1 = addQueueIfNotExists ns queueName d;
          d2 = addProducerIfNotExists ns queueName producerId d1;
          d3 = modRates (\<lambda>r. r\<lparr>sr_input := num_add (sr_input r) rate\<rparr>) d2 in
      modProducer ns queueName producerId (\<lambda>p. p\<lparr>sp_input := rate\<rparr>) d3)"

definition initRates :: "TAggregatedStatsQueueConsumer \<Rightarrow> TConsumerRates" where
  "initRates c = (case sc_rates c of
     None \<Rightarrow> \<lparr>cr_processing = Some 0, cr_acknowledged = Some 0, cr_unacknowledged = Some 0\<rparr> | Some r \<Rightarrow> r)"

definition handleConsumerRate ::
  "string \<Rightarrow> string \<Rightarrow> nat \<Rightarrow> string \<Rightarrow> num \<Rightarrow> TAggregatedStats \<Rightarrow> TAggregatedStats" where
  "handleConsumerRate ns queueName ty consumerId rate d =
     (let d1 = addQueueIfNotExists ns queueName d;
          d2 = addConsumerIfNotExists ns queueName consumerId d1;
          put = (\<lambda>f. modConsumer ns queueName consumerId (\<lambda>c. c\<lparr>sc_rates := Some (f (initRates c))\<rparr>)) in
      if ty = key_code KEY_RATE_CONSUMER_PROCESSING then
        put (\<lambda>r. r\<lparr>cr_processing := rate\<rparr>) (modRates (\<lambda>r. r\<lparr>sr_processing := num_add (sr_processing r) rate\<rparr>) d2)
      else if ty = key_code KEY_RATE_CONSUMER_ACKNOWLEDGED then
        put (\<lambda>r. r\<lparr>cr_acknowledged := rate\<rparr>) (modRates (\<lambda>r. r\<lparr>sr_acknowledged := num_add (sr_acknowledged r) rate\<rparr>) d2)
      else if ty = key_code KEY_RATE_CONSUMER_UNACKNOWLEDGED then
        put (\<lambda>r. r\<lparr>cr_unacknowledged := rate\<rparr>) (modRates (\<lambda>r. r\<lparr>sr_unacknowledged := num_add (sr_unacknowledged r) rate\<rparr>) d2)
      else put (\<lambda>r. r) d2)"

text \<open>\<open>now - timestamp > 1000\<close>; a comparison with \<open>NaN\<close> is false.\<close>

definition stats_hasExpired :: "int \<Rightarrow> num \<Rightarrow> bool" where
  "stats_hasExpired now timestamp = (case timestamp of None \<Rightarrow> False | Some t \<Rightarrow> now - t > 1000)"

text \<open>\<open>const [rate, timestamp] = item.split('|')\<close> and their conversion to numbers. The samples are written by the
  rate objects, never as JSON.\<close>

definition toNum :: "string option \<Rightarrow> num" where
  "toNum x = (case x of None \<Rightarrow> None | Some t \<Rightarrow> map_option int (js_Number t))"

definition splitSample :: "rstr \<Rightarrow> num \<times> num" where
  "splitSample item =
     (case item of
        Str t \<Rightarrow> (toNum (elem_at 0 (js_split t)), toNum (elem_at 1 (js_split t)))
      | Json j \<Rightarrow> (None, None))"

definition keyData :: "rstr \<Rightarrow> key_data option" where
  "keyData k = (case k of Str t \<Rightarrow> extractData t | Json j \<Rightarrow> None)"

text \<open>A property name that is \<open>undefined\<close>.\<close>

definition propName :: "string option \<Rightarrow> string" where
  "propName x = (case x of None \<Rightarrow> ''undefined'' | Some t \<Rightarrow> t)"

definition handleSample :: "key_data \<Rightarrow> num \<Rightarrow> TAggregatedStats \<Rightarrow> TAggregatedStats" where
  "handleSample x rate d =
     (let ns = propName (kd_ns x); q = propName (kd_queueName x);
          d1 = (case kd_producerId x of
                  None \<Rightarrow> d
                | Some p \<Rightarrow> if p = [] then d else handleProducerRate ns q p rate d) in
      case kd_consumerId x of
        None \<Rightarrow> d1
      | Some c \<Rightarrow> if c = [] then d1 else handleConsumerRate ns q (kd_type x) c rate d1)"

text \<open>The body of the loop: the data and the expired keys so far.\<close>

definition rateItem :: "int \<Rightarrow> rstr \<times> rstr \<Rightarrow> TAggregatedStats \<times> rstr list \<Rightarrow> TAggregatedStats \<times> rstr list" where
  "rateItem now kv acc =
     (case splitSample (snd kv) of
        (rate, timestamp) \<Rightarrow>
          if \<not> stats_hasExpired now timestamp then
            (case keyData (fst kv) of
               None \<Rightarrow> acc
             | Some x \<Rightarrow> (handleSample x rate (fst acc), snd acc))
          else (fst acc, snd acc @ [fst kv]))"

record statsWorker =
  sw_lockManager :: lock_manager
  sw_ticker :: "unit ticker"
  sw_data :: TAggregatedStats

definition setData :: "(TAggregatedStats \<Rightarrow> TAggregatedStats) \<Rightarrow> (statsWorker \<times> 's, unit) io" where
  "setData f = modB (\<lambda>sw. sw\<lparr>sw_data := f (sw_data sw)\<rparr>)"

text \<open>An error of the query is thrown; the outcome of the deletion is ignored.\<close>

definition getRates :: "'s platform \<Rightarrow> (statsWorker \<times> 's, unit) io" where
  "getRates E =
     bindM (orThrow (onRedis (rc_hgetall E (keyIndexRates getGlobalKeys)))) (\<lambda>result x.
       case fold (rateItem (p_now E)) result (sw_data (fst x), []) of
         (d, expiredKeys) \<Rightarrow>
           (Inr (), ((fst x)\<lparr>sw_data := d\<rparr>,
             if expiredKeys \<noteq> [] then snd (rc_hdel E (keyIndexRates getGlobalKeys) expiredKeys (snd x)) else snd x)))"

section \<open>Sizes\<close>

definition sizeKeys :: "'s platform \<Rightarrow> TMessageQueue \<Rightarrow> key list" where
  "sizeKeys E q =
     (let keys = getKeys (p_ns E) (q_name q) (Some (q_ns q)) in
      [keyQueue keys, keyQueuePriority keys, keyQueueDL keys, keyQueueAcknowledgedMessages keys])"

definition sizeCmds :: "'s platform \<Rightarrow> TMessageQueue \<Rightarrow> cmd list" where
  "sizeCmds E q =
     (let keys = getKeys (p_ns E) (q_name q) (Some (q_ns q)) in
      [LLEN (keyQueue keys), ZCARD (keyQueuePriority keys), LLEN (keyQueueDL keys),
       LLEN (keyQueueAcknowledgedMessages keys)])"

definition handleSize :: "key \<times> reply \<Rightarrow> TAggregatedStats \<Rightarrow> TAggregatedStats" where
  "handleSize ks d =
     (case ks of (k, sz) \<Rightarrow>
       (case extractData k of
          None \<Rightarrow> d
        | Some x \<Rightarrow>
            let ns = propName (kd_ns x); q = propName (kd_queueName x) in
            modQueue ns q (\<lambda>v.
              if kd_type x = key_code KEY_QUEUE_DL then v\<lparr>sq_deadLetteredMessages := sz\<rparr>
              else if kd_type x = key_code KEY_QUEUE then v\<lparr>sq_pendingMessages := sz\<rparr>
              else if kd_type x = key_code KEY_QUEUE_PRIORITY then v\<lparr>sq_pendingMessagesWithPriority := sz\<rparr>
              else v\<lparr>sq_acknowledgedMessages := sz\<rparr>) (addQueueIfNotExists ns q d)))"

definition getQueueSize :: "'s platform \<Rightarrow> TMessageQueue list \<Rightarrow> (statsWorker \<times> 's, unit) io" where
  "getQueueSize E queues =
     (if queues \<noteq> [] then
        bindM (onRedis (execMulti E (concat (map (sizeCmds E) queues)))) (\<lambda>res.
          setData (fold handleSize (zip (concat (map (sizeKeys E) queues)) res)))
      else retM ())"

definition getQueues :: "'s platform \<Rightarrow> (statsWorker \<times> 's, TMessageQueue list) io" where
  "getQueues E = onRedis (getMessageQueues E)"

definition stats_getScheduledMessages :: "'s platform \<Rightarrow> (statsWorker \<times> 's, unit) io" where
  "stats_getScheduledMessages E =
     bindM (onRedis (mm_getScheduledMessagesCount E)) (\<lambda>count. setData (\<lambda>d. d\<lparr>st_scheduledMessages := count\<rparr>))"

section \<open>Heartbeats\<close>

definition handleHeartbeat :: "string \<times> heartbeat_info \<Rightarrow> TAggregatedStats \<Rightarrow> TAggregatedStats" where
  "handleHeartbeat ch d =
     (case ch of (consumerId, h) \<Rightarrow>
       let ns = propName (hi_ns h); q = propName (hi_queueName h) in
       modConsumer ns q consumerId (\<lambda>c. c\<lparr>sc_resources := hi_resources h\<rparr>)
         (addConsumerIfNotExists ns q consumerId (addQueueIfNotExists ns q d)))"

definition getConsumersHeartbeats :: "'s platform \<Rightarrow> (statsWorker \<times> 's, unit) io" where
  "getConsumersHeartbeats E =
     bindM (onRedis (getHeartbeats E)) (\<lambda>reply. setData (fold handleHeartbeat reply))"

section \<open>Cleaning up and publishing\<close>

fun truthy :: "json \<Rightarrow> bool" where
  "truthy JNull = False"
| "truthy (JBool b) = b"
| "truthy (JNum n) = (n \<noteq> 0)"
| "truthy (JStr s) = (s \<noteq> [])"
| "truthy _ = True"

text \<open>\<open>consumer.rates && consumer.resources\<close>.\<close>

definition complete :: "TAggregatedStatsQueueConsumer \<Rightarrow> bool" where
  "complete c \<longleftrightarrow> sc_rates c \<noteq> None \<and> (case sc_resources c of None \<Rightarrow> False | Some j \<Rightarrow> truthy j)"

definition handleConsumer :: "TAggregatedStatsQueueConsumer \<Rightarrow> TAggregatedStats \<Rightarrow> TAggregatedStats" where
  "handleConsumer c =
     (if \<not> complete c then
        modQueue (sc_namespace c) (sc_queueName c) (\<lambda>v. v\<lparr>sq_consumers := map_option (AList.delete (sc_id c)) (sq_consumers v)\<rparr>)
      else (\<lambda>d. d))"

definition handleQueue :: "string \<Rightarrow> string \<Rightarrow> TAggregatedStats \<Rightarrow> TAggregatedStats" where
  "handleQueue ns q d =
     (let d1 = modQueue ns q (\<lambda>v. v\<lparr>sq_consumers := Some (orEmpty (sq_consumers v)),
                 sq_producers := Some (orEmpty (sq_producers v))\<rparr>) d in
      fold handleConsumer (case getQ d1 ns q of None \<Rightarrow> [] | Some v \<Rightarrow> map snd (orEmpty (sq_consumers v))) d1)"

definition handleQueues :: "string \<times> (string \<times> TAggregatedStatsQueue) list \<Rightarrow> TAggregatedStats \<Rightarrow> TAggregatedStats" where
  "handleQueues nm = fold (\<lambda>(q, _). handleQueue (fst nm) q) (snd nm)"

definition sanitizeData :: "TAggregatedStats \<Rightarrow> TAggregatedStats" where
  "sanitizeData d = fold handleQueues (st_queues d) d"

text \<open>\<open>JSON.stringify(this.data)\<close>; how an error object prints is the driver's (\<open>errJson\<close>).\<close>

definition num_json :: "num \<Rightarrow> json" where
  "num_json x = (case x of None \<Rightarrow> JNull | Some n \<Rightarrow> JNum n)"

definition size_json :: "(reply \<Rightarrow> json) \<Rightarrow> reply \<Rightarrow> json" where
  "size_json errJson r = (case r of RInt n \<Rightarrow> JNum n | _ \<Rightarrow> errJson r)"

definition consumer_json :: "TAggregatedStatsQueueConsumer \<Rightarrow> json" where
  "consumer_json c = JObj
     ([(''id'', JStr (sc_id c)), (''namespace'', JStr (sc_namespace c)), (''queueName'', JStr (sc_queueName c))] @
      (case sc_rates c of None \<Rightarrow> [] | Some r \<Rightarrow>
         [(''rates'', JObj [(''acknowledged'', num_json (cr_acknowledged r)),
            (''unacknowledged'', num_json (cr_unacknowledged r)), (''processing'', num_json (cr_processing r))])]) @
      (case sc_resources c of None \<Rightarrow> [] | Some j \<Rightarrow> [(''resources'', j)]))"

definition producer_json :: "TAggregatedStatsQueueProducer \<Rightarrow> json" where
  "producer_json p = JObj [(''id'', JStr (sp_id p)), (''namespace'', JStr (sp_namespace p)),
     (''queueName'', JStr (sp_queueName p)), (''rates'', JObj [(''input'', num_json (sp_input p))])]"

definition queue_stats_json :: "(reply \<Rightarrow> json) \<Rightarrow> TAggregatedStatsQueue \<Rightarrow> json" where
  "queue_stats_json errJson v = JObj
     ([(''queueName'', JStr (sq_queueName v)), (''namespace'', JStr (sq_namespace v)),
       (''deadLetteredMessages'', size_json errJson (sq_deadLetteredMessages v)),
       (''acknowledgedMessages'', size_json errJson (sq_acknowledgedMessages v)),
       (''pendingMessages'', size_json errJson (sq_pendingMessages v)),
       (''pendingMessagesWithPriority'', size_json errJson (sq_pendingMessagesWithPriority v))] @
      (case sq_consumers v of None \<Rightarrow> [] | Some cs \<Rightarrow> [(''consumers'', JObj (map (\<lambda>(i, c). (i, consumer_json c)) cs))]) @
      (case sq_producers v of None \<Rightarrow> [] | Some ps \<Rightarrow> [(''producers'', JObj (map (\<lambda>(i, p). (i, producer_json p)) ps))]))"

definition stats_json :: "(reply \<Rightarrow> json) \<Rightarrow> TAggregatedStats \<Rightarrow> json" where
  "stats_json errJson d = JObj
     [(''scheduledMessages'', JNum (st_scheduledMessages d)),
      (''rates'', JObj [(''processing'', num_json (sr_processing (st_rates d))),
         (''acknowledged'', num_json (sr_acknowledged (st_rates d))),
         (''unacknowledged'', num_json (sr_unacknowledged (st_rates d))),
         (''input'', num_json (sr_input (st_rates d)))]),
      (''queues'', JObj (map (\<lambda>(ns, m). (ns, JObj (map (\<lambda>(q, v). (q, queue_stats_json errJson v)) m))) (st_queues d)))]"

definition stats_publish :: "'s platform \<Rightarrow> (reply \<Rightarrow> json) \<Rightarrow> (statsWorker \<times> 's, unit) io" where
  "stats_publish E errJson x =
     onRedis (voidM (rc_publish E ''stats'' (Json (stats_json errJson (sw_data (fst x)))))) x"

definition stats_reset :: "(statsWorker \<times> 's, unit) io" where
  "stats_reset = setData (\<lambda>_. emptyStats)"

section \<open>The worker\<close>

definition newStatsWorker :: "statsWorker result" where
  "newStatsWorker =
     bindR (newTicker ()) (\<lambda>tk.
     bindR (nextTick tk) (\<lambda>tk'.
       Inr \<lparr>sw_lockManager = newLockManager (keyLockWorkerStats getGlobalKeys) 10000 True, sw_ticker = tk',
            sw_data = emptyStats\<rparr>))"

text \<open>\<open>run\<close>: the tasks of the waterfall; the final callback throws an error or arms the ticker.\<close>

definition stats_collect :: "'s platform \<Rightarrow> (reply \<Rightarrow> json) \<Rightarrow> (statsWorker \<times> 's, unit) io" where
  "stats_collect E errJson =
     bindM stats_reset (\<lambda>_.
     bindM (stats_getScheduledMessages E) (\<lambda>_.
     bindM (getRates E) (\<lambda>_.
     bindM (getConsumersHeartbeats E) (\<lambda>_.
     bindM (getQueues E) (\<lambda>queues.
     bindM (getQueueSize E queues) (\<lambda>_.
     bindM (setData sanitizeData) (\<lambda>_.
       stats_publish E errJson)))))))"

definition sw_nextTick :: "(statsWorker \<times> 's, unit) io" where
  "sw_nextTick x =
     (case nextTick (sw_ticker (fst x)) of
        Inl e \<Rightarrow> throwM e x
      | Inr tk \<Rightarrow> modB (\<lambda>sw. sw\<lparr>sw_ticker := tk\<rparr>) x)"

definition stats_run :: "'s platform \<Rightarrow> (reply \<Rightarrow> json) \<Rightarrow> (statsWorker \<times> 's, unit) io" where
  "stats_run E errJson x =
     (case acquireLock E (sw_lockManager (fst x)) (snd x) of
        ((Inl (Cb e), lm), s') \<Rightarrow> (Inl (Throw e), ((fst x)\<lparr>sw_lockManager := lm\<rparr>, s'))
      | ((Inl e, lm), s') \<Rightarrow> (Inl e, ((fst x)\<lparr>sw_lockManager := lm\<rparr>, s'))
      | ((Inr _, lm), s') \<Rightarrow>
          bindM (orThrow (stats_collect E errJson)) (\<lambda>_. sw_nextTick) ((fst x)\<lparr>sw_lockManager := lm\<rparr>, s'))"

definition stats_quit :: "statsWorker \<Rightarrow> statsWorker result" where
  "stats_quit sw = bindR (tk_quit (sw_ticker sw)) (\<lambda>tk. Inr (sw\<lparr>sw_ticker := tk\<rparr>))"

section \<open>Reading the data back\<close>

lemma getQ_modQueue:
  "getQ (modQueue ns q f d) ns' q' = (if ns' = ns \<and> q' = q then map_option f (getQ d ns q) else getQ d ns' q')"
  by (auto simp: getQ_def modQueue_def update_conv' split: option.splits)

lemma getQ_addQueue:
  "getQ (addQueueIfNotExists ns q d) ns' q' =
     (if ns' = ns \<and> q' = q then Some (case getQ d ns q of None \<Rightarrow> newStatsQueue ns q | Some v \<Rightarrow> v) else getQ d ns' q')"
  by (auto simp: getQ_def addQueueIfNotExists_def update_conv' Let_def split: option.splits)

lemma getQ_modRates [simp]: "getQ (modRates f d) = getQ d"
  by (simp add: getQ_def modRates_def fun_eq_iff)

lemma getQ_empty [simp]: "getQ emptyStats ns q = None"
  by (simp add: getQ_def emptyStats_def)

lemma getQ_scheduled [simp]: "getQ (d\<lparr>st_scheduledMessages := n\<rparr>) = getQ d"
  by (simp add: getQ_def fun_eq_iff)

lemma modQueue_fields [simp]:
  "st_rates (modQueue ns q f d) = st_rates d" "st_scheduledMessages (modQueue ns q f d) = st_scheduledMessages d"
  by (simp_all add: modQueue_def split: option.splits)

lemma addQueue_fields [simp]:
  "st_rates (addQueueIfNotExists ns q d) = st_rates d"
  "st_scheduledMessages (addQueueIfNotExists ns q d) = st_scheduledMessages d"
  by (simp_all add: addQueueIfNotExists_def Let_def)

lemma modRates_fields [simp]:
  "st_rates (modRates f d) = f (st_rates d)" "st_scheduledMessages (modRates f d) = st_scheduledMessages d"
  by (simp_all add: modRates_def)

section \<open>Well-formed data\<close>

text \<open>An entry is stored under the names it carries.\<close>

definition queue_ok :: "string \<Rightarrow> string \<Rightarrow> TAggregatedStatsQueue \<Rightarrow> bool" where
  "queue_ok ns q v \<longleftrightarrow> sq_namespace v = ns \<and> sq_queueName v = q \<and> sq_consumers v \<noteq> None \<and> sq_producers v \<noteq> None \<and>
     distinct (map fst (orEmpty (sq_consumers v))) \<and>
     list_all (\<lambda>(i, c). sc_id c = i \<and> sc_namespace c = ns \<and> sc_queueName c = q) (orEmpty (sq_consumers v))"

definition stats_ok :: "TAggregatedStats \<Rightarrow> bool" where
  "stats_ok d \<longleftrightarrow> (\<forall>ns q v. getQ d ns q = Some v \<longrightarrow> queue_ok ns q v)"

lemma stats_okI: "(\<And>ns q v. getQ d ns q = Some v \<Longrightarrow> queue_ok ns q v) \<Longrightarrow> stats_ok d"
  by (simp add: stats_ok_def)

lemma stats_okD: "stats_ok d \<Longrightarrow> getQ d ns q = Some v \<Longrightarrow> queue_ok ns q v"
  by (simp add: stats_ok_def)

lemma stats_ok_empty: "stats_ok emptyStats"
  by (simp add: stats_ok_def)

lemma stats_ok_cong: "getQ d = getQ d' \<Longrightarrow> stats_ok d = stats_ok d'"
  by (simp add: stats_ok_def)

lemma orEmpty_simps [simp]: "orEmpty None = []" "orEmpty (Some xs) = xs"
  by (simp_all add: orEmpty_def)

lemma stats_ok_addQueue: "stats_ok d \<Longrightarrow> stats_ok (addQueueIfNotExists ns q d)"
  by (auto intro!: stats_okI simp: getQ_addQueue queue_ok_def newStatsQueue_def dest!: stats_okD
      split: if_splits option.splits)

lemma stats_ok_modQueue:
  "stats_ok d \<Longrightarrow> (\<And>v. getQ d ns q = Some v \<Longrightarrow> queue_ok ns q v \<Longrightarrow> queue_ok ns q (f v)) \<Longrightarrow> stats_ok (modQueue ns q f d)"
  by (auto simp: stats_ok_def getQ_modQueue split: if_splits)

lemma list_all_alist_update:
  "list_all (\<lambda>(i, c). P i c) xs \<Longrightarrow> P k v \<Longrightarrow> list_all (\<lambda>(i, c). P i c) (AList.update k v xs)"
  by (induction xs) auto

lemma stats_ok_addConsumer: "stats_ok d \<Longrightarrow> stats_ok (addConsumerIfNotExists ns q c d)"
  unfolding addConsumerIfNotExists_def
  by (rule stats_ok_modQueue) (auto simp: queue_ok_def Let_def distinct_update intro!: list_all_alist_update)

lemma stats_ok_addProducer: "stats_ok d \<Longrightarrow> stats_ok (addProducerIfNotExists ns q p d)"
  unfolding addProducerIfNotExists_def by (rule stats_ok_modQueue) (auto simp: queue_ok_def Let_def)

lemma stats_ok_modConsumer:
  "stats_ok d \<Longrightarrow> (\<And>x. sc_id (f x) = sc_id x \<and> sc_namespace (f x) = sc_namespace x \<and> sc_queueName (f x) = sc_queueName x) \<Longrightarrow>
     stats_ok (modConsumer ns q c f d)"
  unfolding modConsumer_def
  by (rule stats_ok_modQueue)
    (auto simp: queue_ok_def modEntry_def distinct_update intro!: list_all_alist_update
      split: option.splits dest!: map_of_SomeD, auto simp: list_all_iff)

lemma stats_ok_modProducer: "stats_ok d \<Longrightarrow> stats_ok (modProducer ns q p f d)"
  unfolding modProducer_def by (rule stats_ok_modQueue) (auto simp: queue_ok_def)

lemma stats_ok_modRates [simp]: "stats_ok (modRates f d) = stats_ok d"
  by (simp add: stats_ok_def)

lemmas stats_ok_steps = stats_ok_addQueue stats_ok_addConsumer stats_ok_addProducer stats_ok_modConsumer
  stats_ok_modProducer

lemma stats_ok_handleSample: "stats_ok d \<Longrightarrow> stats_ok (handleSample x rate d)"
  by (auto simp: handleSample_def handleProducerRate_def handleConsumerRate_def Let_def intro!: stats_ok_steps
      split: option.splits)

lemma stats_ok_rateItem: "stats_ok (fst acc) \<Longrightarrow> stats_ok (fst (rateItem now kv acc))"
  by (auto simp: rateItem_def stats_ok_handleSample split: prod.splits option.splits)

lemma stats_ok_handleHeartbeat: "stats_ok d \<Longrightarrow> stats_ok (handleHeartbeat ch d)"
  by (auto simp: handleHeartbeat_def Let_def intro!: stats_ok_steps split: prod.splits)

lemma stats_ok_handleSize: "stats_ok d \<Longrightarrow> stats_ok (handleSize ks d)"
  by (auto simp: handleSize_def Let_def queue_ok_def intro!: stats_ok_modQueue stats_ok_addQueue
      split: prod.splits option.splits)

text \<open>A property kept by the body of a loop is kept by the loop.\<close>

lemma fold_keeps: "P a \<Longrightarrow> (\<And>x a. P a \<Longrightarrow> P (f x a)) \<Longrightarrow> P (fold f xs a)"
  by (induction xs arbitrary: a) auto

section \<open>Cleaning up\<close>

definition clean :: "TAggregatedStatsQueue \<Rightarrow> TAggregatedStatsQueue" where
  "clean v = v\<lparr>sq_consumers := Some (filter (\<lambda>p. complete (snd p)) (orEmpty (sq_consumers v)))\<rparr>"

lemma queue_ok_clean: "queue_ok ns q v \<Longrightarrow> queue_ok ns q (clean v)"
  by (auto simp: queue_ok_def clean_def list_all_iff distinct_map_fst_filter)

lemma clean_clean [simp]: "clean (clean v) = clean v"
  by (simp add: clean_def)

lemma fold_handleConsumer:
  assumes "\<And>c. c \<in> set cs \<Longrightarrow> sc_namespace c = ns \<and> sc_queueName c = q"
  shows "getQ (fold handleConsumer cs d) ns' q' =
    (if ns' = ns \<and> q' = q
     then map_option (\<lambda>v. v\<lparr>sq_consumers := map_option (filter (\<lambda>p. fst p \<notin> sc_id ` {c \<in> set cs. \<not> complete c}))
            (sq_consumers v)\<rparr>) (getQ d ns q)
     else getQ d ns' q')"
  using assms
proof (induction cs arbitrary: d)
  case Nil
  have "filter (\<lambda>p :: string \<times> TAggregatedStatsQueueConsumer. True) = (\<lambda>xs. xs)" by (rule ext) simp
  then show ?case by (cases "getQ d ns q") (auto simp: option.map_ident)
next
  case (Cons c cs)
  have *: "filter (\<lambda>p. fst p \<notin> A) (AList.delete i xs) = filter (\<lambda>p. fst p \<notin> insert i A) xs"
    for A i and xs :: "(string \<times> 'b) list"
    by (induction xs) auto
  let ?A = "\<lambda>cs. sc_id ` {c \<in> set cs. \<not> complete c}"
  have A: "?A (c # cs) = (if complete c then ?A cs else insert (sc_id c) (?A cs))" by auto
  have IH: "getQ (fold handleConsumer cs d') ns' q' =
    (if ns' = ns \<and> q' = q
     then map_option (\<lambda>v. v\<lparr>sq_consumers := map_option (filter (\<lambda>p. fst p \<notin> ?A cs)) (sq_consumers v)\<rparr>) (getQ d' ns q)
     else getQ d' ns' q')" for d'
    using Cons by simp
  have c: "sc_namespace c = ns" "sc_queueName c = q" using Cons.prems by auto
  show ?case
    unfolding A fold_Cons comp_def IH
    by (cases "getQ d ns q") (auto simp: handleConsumer_def getQ_modQueue c option.map_comp comp_def *)
qed

lemma filter_bad_ids:
  assumes "distinct (map fst xs)" "list_all (\<lambda>(i, c). sc_id c = i \<and> P i c) xs"
  shows "filter (\<lambda>p. fst p \<notin> sc_id ` {c \<in> set (map snd xs). \<not> complete c}) xs = filter (\<lambda>p. complete (snd p)) xs"
proof (rule filter_cong [OF HOL.refl])
  fix p assume p: "p \<in> set xs"
  have uniq: "c = snd p" if "c \<in> snd ` set xs" "sc_id c = fst p" for c
  proof -
    from that(1) obtain i where i: "(i, c) \<in> set xs" by auto
    with assms(2) that(2) have "i = fst p" by (auto simp: list_all_iff)
    with i p show ?thesis by (intro eq_key_imp_eq_value [OF assms(1), of "fst p"]) auto
  qed
  have own: "snd p \<in> snd ` set xs" "sc_id (snd p) = fst p" using p assms(2) by (auto simp: list_all_iff)
  show "fst p \<notin> sc_id ` {c \<in> set (map snd xs). \<not> complete c} \<longleftrightarrow> complete (snd p)" (is "fst p \<notin> sc_id ` ?B \<longleftrightarrow> _")
  proof
    assume "fst p \<notin> sc_id ` ?B"
    then have "snd p \<notin> ?B" using own(2) by (metis imageI)
    with own(1) show "complete (snd p)" by simp
  next
    assume cp: "complete (snd p)"
    show "fst p \<notin> sc_id ` ?B"
    proof
      assume "fst p \<in> sc_id ` ?B"
      then obtain c where c: "fst p = sc_id c" "c \<in> ?B" by (rule imageE)
      have "c = snd p" by (rule uniq) (use c in \<open>simp_all\<close>)
      with cp c(2) show False by simp
    qed
  qed
qed

lemma getQ_handleQueue:
  assumes "stats_ok d"
  shows "getQ (handleQueue ns q d) ns' q' = (if ns' = ns \<and> q' = q then map_option clean (getQ d ns q) else getQ d ns' q')"
proof (cases "getQ d ns q")
  case None
  then show ?thesis by (simp add: handleQueue_def getQ_modQueue)
next
  case (Some v)
  then have ok: "queue_ok ns q v" using assms by (rule stats_okD [rotated])
  then obtain cs ps where v: "sq_consumers v = Some cs" "sq_producers v = Some ps" by (auto simp: queue_ok_def)
  then have eq: "v\<lparr>sq_consumers := Some (orEmpty (sq_consumers v)), sq_producers := Some (orEmpty (sq_producers v))\<rparr> = v"
    by simp
  have "filter (\<lambda>p. fst p \<notin> sc_id ` {c \<in> set (map snd cs). \<not> complete c}) cs = filter (\<lambda>p. complete (snd p)) cs"
    using ok v by (intro filter_bad_ids [where P = "\<lambda>i c. sc_namespace c = ns \<and> sc_queueName c = q"]) (auto simp: queue_ok_def)
  with ok v Some eq show ?thesis
    unfolding handleQueue_def Let_def
    by (subst fold_handleConsumer [where ns = ns and q = q])
      (auto simp: getQ_modQueue queue_ok_def list_all_iff clean_def)
qed

lemma stats_ok_handleQueue: "stats_ok d \<Longrightarrow> stats_ok (handleQueue ns q d)"
  by (auto simp: stats_ok_def getQ_handleQueue [unfolded stats_ok_def] queue_ok_clean)

text \<open>Cleaning up some of the queues, in any order and any number of times.\<close>

lemma getQ_fold_handleQueue:
  assumes "stats_ok d"
  shows "stats_ok (fold (\<lambda>(ns, q). handleQueue ns q) ks d) \<and>
    getQ (fold (\<lambda>(ns, q). handleQueue ns q) ks d) ns q =
      (if (ns, q) \<in> set ks then map_option clean (getQ d ns q) else getQ d ns q)"
  using assms
proof (induction ks arbitrary: d)
  case Nil
  then show ?case by simp
next
  case (Cons k ks)
  obtain n p where k: "k = (n, p)" by fastforce
  from Cons.IH [OF stats_ok_handleQueue [OF Cons.prems, of n p]] show ?case
    by (auto simp: k getQ_handleQueue [OF Cons.prems] option.map_comp comp_def)
qed

definition queueKeysOf :: "TAggregatedStats \<Rightarrow> (string \<times> string) list" where
  "queueKeysOf d = concat (map (\<lambda>(ns, m). map (\<lambda>(q, _). (ns, q)) m) (st_queues d))"

lemma sanitizeData_eq: "sanitizeData d = fold (\<lambda>(ns, q). handleQueue ns q) (queueKeysOf d) d"
proof -
  have "fold handleQueues qs d' = fold (\<lambda>(ns, q). handleQueue ns q) (concat (map (\<lambda>(ns, m). map (\<lambda>(q, _). (ns, q)) m) qs)) d'"
    for qs d'
    by (induction qs arbitrary: d') (auto simp: handleQueues_def fold_map comp_def case_prod_unfold)
  then show ?thesis by (simp add: sanitizeData_def queueKeysOf_def)
qed

lemma getQ_key: "getQ d ns q = Some v \<Longrightarrow> (ns, q) \<in> set (queueKeysOf d)"
  by (force simp: getQ_def queueKeysOf_def dest: map_of_SomeD split: option.splits)

lemma getQ_sanitizeData: "stats_ok d \<Longrightarrow> getQ (sanitizeData d) ns q = map_option clean (getQ d ns q)"
  using getQ_key [of d ns q] by (cases "getQ d ns q") (auto simp: sanitizeData_eq getQ_fold_handleQueue)

lemma stats_ok_sanitizeData: "stats_ok d \<Longrightarrow> stats_ok (sanitizeData d)"
  by (simp add: sanitizeData_eq getQ_fold_handleQueue)

lemma handleConsumer_fields:
  "st_rates (handleConsumer c d) = st_rates d" "st_scheduledMessages (handleConsumer c d) = st_scheduledMessages d"
  by (simp_all add: handleConsumer_def)

lemma sanitizeData_fields [simp]:
  "st_rates (sanitizeData d) = st_rates d" "st_scheduledMessages (sanitizeData d) = st_scheduledMessages d"
proof -
  have c: "st_rates (fold handleConsumer cs d) = st_rates d \<and>
      st_scheduledMessages (fold handleConsumer cs d) = st_scheduledMessages d" for cs d
    by (induction cs arbitrary: d) (auto simp: handleConsumer_fields)
  have q: "st_rates (handleQueue ns q d) = st_rates d \<and> st_scheduledMessages (handleQueue ns q d) = st_scheduledMessages d"
    for ns q d by (simp add: handleQueue_def Let_def c)
  have "st_rates (fold (\<lambda>(ns, q). handleQueue ns q) ks d) = st_rates d \<and>
      st_scheduledMessages (fold (\<lambda>(ns, q). handleQueue ns q) ks d) = st_scheduledMessages d" for ks d
    by (induction ks arbitrary: d) (auto simp: q)
  then show "st_rates (sanitizeData d) = st_rates d" "st_scheduledMessages (sanitizeData d) = st_scheduledMessages d"
    by (simp_all add: sanitizeData_eq)
qed

section \<open>Sizes\<close>

text \<open>The four sizes of a queue, in the order the transaction asks for them.\<close>

definition sizesOf :: "store \<Rightarrow> TMessageQueue \<Rightarrow> reply list" where
  "sizesOf st q =
     [RInt (int (length (lists st (qkey KEY_QUEUE (q_ns q) (q_name q))))),
      RInt (int (length (zsets st (qkey KEY_QUEUE_PRIORITY (q_ns q) (q_name q))))),
      RInt (int (length (lists st (qkey KEY_QUEUE_DL (q_ns q) (q_name q))))),
      RInt (int (length (lists st (qkey KEY_QUEUE_ACKNOWLEDGED_MESSAGES (q_ns q) (q_name q)))))]"

definition withSizes :: "store \<Rightarrow> TMessageQueue \<Rightarrow> TAggregatedStatsQueue \<Rightarrow> TAggregatedStatsQueue" where
  "withSizes st q v = v\<lparr>sq_pendingMessages := sizesOf st q ! 0, sq_pendingMessagesWithPriority := sizesOf st q ! 1,
     sq_deadLetteredMessages := sizesOf st q ! 2, sq_acknowledgedMessages := sizesOf st q ! 3\<rparr>"

lemma doc_seq_sizes:
  "doc_seq (concat (map (sizeCmds E) qs)) st rs st' \<Longrightarrow> st' = st \<and> rs = concat (map (sizesOf st) qs)"
proof (induction qs arbitrary: rs)
  case (Cons q qs)
  then show ?case by (auto simp: sizeCmds_def Let_def smq_keys sizesOf_def)
qed simp

abbreviation plainQ :: "TMessageQueue \<Rightarrow> bool" where
  "plainQ q \<equiv> plain (q_ns q) \<and> plain (q_name q)"

lemma fold_handleSize_queue:
  assumes "plainQ q"
  shows "getQ (fold handleSize (zip (sizeKeys E q) (sizesOf st q)) d) ns nm =
    (if ns = q_ns q \<and> nm = q_name q
     then Some (withSizes st q (case getQ d ns nm of None \<Rightarrow> newStatsQueue ns nm | Some v \<Rightarrow> v)) else getQ d ns nm)"
proof -
  have x: "extractData (qkey t (q_ns q) (q_name q)) = Some \<lparr>kd_ns = Some (q_ns q), kd_type = key_code t,
      kd_queueName = Some (q_name q), kd_consumerId = None, kd_producerId = None\<rparr>"
    if "t \<in> {KEY_QUEUE, KEY_QUEUE_PRIORITY, KEY_QUEUE_ACKNOWLEDGED_MESSAGES, KEY_QUEUE_DL}" for t
    using assms that by (intro extractData_qkey) auto
  show ?thesis
    by (cases "getQ d (q_ns q) (q_name q)")
      (simp_all add: sizeKeys_def Let_def smq_keys sizesOf_def handleSize_def x getQ_modQueue getQ_addQueue propName_def
        withSizes_def)
qed

lemma handleSize_fields [simp]:
  "st_rates (handleSize ks d) = st_rates d" "st_scheduledMessages (handleSize ks d) = st_scheduledMessages d"
  by (auto simp: handleSize_def Let_def split: prod.splits option.splits)

lemma fold_handleSize_fields [simp]:
  "st_rates (fold handleSize xs d) = st_rates d" "st_scheduledMessages (fold handleSize xs d) = st_scheduledMessages d"
  by (induction xs arbitrary: d) auto

lemma withSizes_twice [simp]: "withSizes st q (withSizes st q v) = withSizes st q v"
  by (simp add: withSizes_def)

lemma TMessageQueue_eqI: "q_ns q = q_ns q' \<Longrightarrow> q_name q = q_name q' \<Longrightarrow> q = (q' :: TMessageQueue)"
  by simp

lemma fold_handleSize:
  assumes "list_all plainQ qs"
  shows "getQ (fold handleSize (zip (concat (map (sizeKeys E) qs)) (concat (map (sizesOf st) qs))) d) ns nm =
    (if \<lparr>q_name = nm, q_ns = ns\<rparr> \<in> set qs
     then Some (withSizes st \<lparr>q_name = nm, q_ns = ns\<rparr> (case getQ d ns nm of None \<Rightarrow> newStatsQueue ns nm | Some v \<Rightarrow> v))
     else getQ d ns nm)"
  using assms
proof (induction qs arbitrary: d)
  case Nil
  then show ?case by simp
next
  case (Cons q qs)
  have len: "length (sizeKeys E q) = length (sizesOf st q)" by (simp add: sizeKeys_def sizesOf_def Let_def)
  have q: "plainQ q" and qs: "list_all plainQ qs" using Cons.prems by auto
  have eq: "q = \<lparr>q_name = nm, q_ns = ns\<rparr> \<longleftrightarrow> ns = q_ns q \<and> nm = q_name q" by (cases q) auto
  show ?case
    unfolding list.map concat.simps zip_append [OF len] fold_append comp_def Cons.IH [OF qs] fold_handleSize_queue [OF q]
    by (auto simp: eq [symmetric])
qed

section \<open>One round\<close>

definition expiredSample :: "int \<Rightarrow> rstr \<Rightarrow> bool" where
  "expiredSample now v = stats_hasExpired now (snd (splitSample v))"

text \<open>What is left of the samples.\<close>

definition prune :: "int \<Rightarrow> (rstr \<Rightarrow> rstr option) \<Rightarrow> rstr \<Rightarrow> rstr option" where
  "prune now h k = (case h k of None \<Rightarrow> None | Some v \<Rightarrow> if expiredSample now v then None else Some v)"

lemma rateItem_expired:
  "snd (fold (rateItem now) al (d, ex)) = ex @ map fst (filter (\<lambda>kv. expiredSample now (snd kv)) al)"
proof (induction al arbitrary: d ex)
  case (Cons kv al)
  then show ?case
    by (cases "splitSample (snd kv)") (auto simp: rateItem_def expiredSample_def split: option.splits)
qed simp

lemma prune_eq:
  assumes "distinct (map fst al)" "map_of al = h"
  shows "(\<lambda>k. if k \<in> set (map fst (filter (\<lambda>kv. expiredSample now (snd kv)) al)) then None else h k) = prune now h"
proof
  fix k
  have "k \<in> set (map fst (filter (\<lambda>kv. expiredSample now (snd kv)) al)) \<longleftrightarrow> (\<exists>v. h k = Some v \<and> expiredSample now v)"
  proof -
    have "h k = Some v \<longleftrightarrow> (k, v) \<in> set al" for v
      using map_of_eq_Some_iff [OF assms(1)] assms(2) by simp
    then show ?thesis by force
  qed
  then show "(if k \<in> set (map fst (filter (\<lambda>kv. expiredSample now (snd kv)) al)) then None else h k) = prune now h k"
    by (auto simp: prune_def split: option.splits)
qed

lemma collectHeartbeats_ok:
  "list_all (\<lambda>kv. \<exists>h. heartbeat_entry kv = Inr h) al \<Longrightarrow> \<exists>r. collectHeartbeats acc al = Inr r"
  by (induction al arbitrary: acc) auto

abbreviation hb_key :: key where "hb_key \<equiv> gkey KEY_INDEX_HEARTBEATS"
abbreviation rates_key :: key where "rates_key \<equiv> gkey KEY_INDEX_RATES"

text \<open>Every heartbeat was written by a consumer.\<close>

definition heartbeats_ok :: "store \<Rightarrow> bool" where
  "heartbeats_ok st \<longleftrightarrow> (\<forall>k v. hashes st hb_key k = Some v \<longrightarrow> (\<exists>h. heartbeat_entry (k, v) = Inr h))"

context smq_live
begin

lemma hgetall_live:
  "\<exists>al s'. rc_hgetall E k s = (Inr al, s') \<and> distinct (map fst al) \<and> map_of al = hashes (view s) k \<and> view s' = view s"
proof -
  obtain al s' where "rc_hgetall E k s = (Inr al, s')"
    using rc_live [of "HGETALL k" reply_hash s] unfolding rc_hgetall_def by blast
  with rc_hgetall_ok [OF this] show ?thesis by blast
qed

lemma getRates_live:
  "\<exists>al s'. getRates E (sw, s) =
      (Inr (), (sw\<lparr>sw_data := fst (fold (rateItem (p_now E)) al (sw_data sw, []))\<rparr>, s')) \<and>
    distinct (map fst al) \<and> map_of al = hashes (view s) rates_key \<and>
    view s' = set_hash rates_key (prune (p_now E) (hashes (view s) rates_key)) (view s)"
proof -
  obtain al s1 where al: "rc_hgetall E rates_key s = (Inr al, s1)" "distinct (map fst al)"
      "map_of al = hashes (view s) rates_key" and v1: "view s1 = view s"
    using hgetall_live by blast
  let ?ex = "map fst (filter (\<lambda>kv. expiredSample (p_now E) (snd kv)) al)"
  let ?s' = "if ?ex \<noteq> [] then snd (rc_hdel E rates_key ?ex s1) else s1"
  obtain r s2 where h: "redisCmd (p_srv E) (HDEL rates_key ?ex) s1 = (Inr r, s2)"
      "doc (HDEL rates_key ?ex) (view s1) r (view s2)"
    using cmd_doc by blast
  have p: "(\<lambda>k. if k \<in> set ?ex then None else hashes (view s) rates_key k) = prune (p_now E) (hashes (view s) rates_key)"
    by (rule prune_eq [OF al(2,3)])
  have "view ?s' = set_hash rates_key (prune (p_now E) (hashes (view s) rates_key)) (view s)"
  proof (cases "?ex = []")
    case True
    have "prune (p_now E) (hashes (view s) rates_key) = hashes (view s) rates_key"
      unfolding p [unfolded True, symmetric] by simp
    with v1 show ?thesis unfolding True by simp
  next
    case False
    then have "?s' = s2" using h(1) by (simp only: rc_hdel_def) simp
    with h(2) v1 p show ?thesis by (simp only: doc.simps)
  qed
  moreover have "getRates E (sw, s) = (Inr (), (sw\<lparr>sw_data := fst (fold (rateItem (p_now E)) al (sw_data sw, []))\<rparr>, ?s'))"
    using al(1) rateItem_expired [of "p_now E" al "sw_data sw" "[]"]
    by (auto simp: getRates_def smq_keys orThrow_def onRedis_def bindM_def split: prod.splits)
  ultimately show ?thesis using al by blast
qed

lemma getConsumersHeartbeats_live:
  assumes "heartbeats_ok (view s)"
  shows "\<exists>reply s'. getConsumersHeartbeats E (sw, s) =
      (Inr (), (sw\<lparr>sw_data := fold handleHeartbeat reply (sw_data sw)\<rparr>, s')) \<and> view s' = view s"
proof -
  obtain al s1 where al: "rc_hgetall E hb_key s = (Inr al, s1)" "distinct (map fst al)"
      "map_of al = hashes (view s) hb_key" and v1: "view s1 = view s"
    using hgetall_live by blast
  have "list_all (\<lambda>kv. \<exists>h. heartbeat_entry kv = Inr h) al"
    using assms al(2,3) by (auto simp: list_all_iff heartbeats_ok_def map_of_eq_Some_iff [OF al(2), symmetric])
  from collectHeartbeats_ok [OF this, of "[]"] obtain r where "collectHeartbeats [] al = Inr r" by blast
  with al(1) v1 show ?thesis
    by (intro exI [of _ r] exI [of _ s1])
      (simp add: getConsumersHeartbeats_def getHeartbeats_def fetchHeartbeats_def smq_keys onRedis_def bindM_def setData_def)
qed

lemma getQueueSize_live:
  "\<exists>s'. getQueueSize E qs (sw, s) =
      (Inr (), (sw\<lparr>sw_data := fold handleSize (zip (concat (map (sizeKeys E) qs)) (concat (map (sizesOf (view s)) qs))) (sw_data sw)\<rparr>, s')) \<and>
    view s' = view s"
proof (cases "qs = []")
  case True
  then show ?thesis by (simp add: getQueueSize_def retM_def)
next
  case False
  obtain rs s' where r: "execMulti E (concat (map (sizeCmds E) qs)) s = (Inr rs, s')"
      "doc_seq (concat (map (sizeCmds E) qs)) (view s) rs (view s')"
    using execMulti_live by blast
  with doc_seq_sizes [OF r(2)] False show ?thesis
    by (simp add: getQueueSize_def onRedis_def bindM_def setData_def)
qed

lemma scheduled_live:
  "\<exists>s'. stats_getScheduledMessages E (sw, s) =
      (Inr (), (sw\<lparr>sw_data := (sw_data sw)\<lparr>st_scheduledMessages := int (length (zsets (view s) (gkey KEY_QUEUE_SCHEDULED)))\<rparr>\<rparr>, s')) \<and>
    view s' = view s"
proof -
  obtain n s' where "rc_zcard E (gkey KEY_QUEUE_SCHEDULED) s = (Inr n, s')"
    using rc_live [of "ZCARD (gkey KEY_QUEUE_SCHEDULED)" reply_int s] unfolding rc_zcard_def by blast
  with rc_zcard_ok [OF this] show ?thesis
    by (simp add: stats_getScheduledMessages_def mm_getScheduledMessagesCount_def getScheduledMessagesCount_def
        getSortedSetSize_def smq_keys onRedis_def bindM_def setData_def)
qed

lemma stats_publish_live: "\<exists>s'. stats_publish E errJson (sw, s) = (Inr (), (sw, s')) \<and> view s' = view s"
proof -
  let ?c = "PUBLISH ''stats'' (Json (stats_json errJson (sw_data sw)))"
  obtain r s' where "redisCmd (p_srv E) ?c s = (Inr r, s')" "doc ?c (view s) r (view s')"
    using cmd_doc by blast
  then show ?thesis by (simp add: stats_publish_def rc_publish_def onRedis_def voidM_def bindM_def retM_def)
qed

end

lemma heartbeats_ok_rates [simp]: "heartbeats_ok (set_hash rates_key h st) = heartbeats_ok st"
  by (simp add: heartbeats_ok_def)

lemma sizesOf_hash [simp]: "sizesOf (st\<lparr>hashes := h\<rparr>) = sizesOf st"
  by (simp add: sizesOf_def fun_eq_iff)

text \<open>The data a round ends with, from what it was told by the server.\<close>

definition roundData ::
  "'s platform \<Rightarrow> store \<Rightarrow> (rstr \<times> rstr) list \<Rightarrow> (string \<times> heartbeat_info) list \<Rightarrow> TMessageQueue list \<Rightarrow> TAggregatedStats" where
  "roundData E st al hb qs =
     fold handleSize (zip (concat (map (sizeKeys E) qs)) (concat (map (sizesOf st) qs)))
       (fold handleHeartbeat hb
         (fst (fold (rateItem (p_now E)) al
            (emptyStats\<lparr>st_scheduledMessages := int (length (zsets st (gkey KEY_QUEUE_SCHEDULED)))\<rparr>, []))))"

context smq_live
begin

lemma stats_collect_live:
  assumes "heartbeats_ok (view s)" and Q: "sets (view s) (gkey KEY_INDEX_QUEUES) = queue_text ` Q"
  shows "\<exists>al hb qs s'. stats_collect E errJson (sw, s) =
      (Inr (), (sw\<lparr>sw_data := sanitizeData (roundData E (view s) al hb qs)\<rparr>, s')) \<and>
    set qs = Q \<and> distinct (map fst al) \<and> map_of al = hashes (view s) rates_key \<and>
    view s' = set_hash rates_key (prune (p_now E) (hashes (view s) rates_key)) (view s)"
proof -
  let ?sw = "\<lambda>d. sw\<lparr>sw_data := d\<rparr>"
  have 0: "stats_reset (sw, s) = (Inr (), (?sw emptyStats, s))" by (simp add: stats_reset_def setData_def)
  obtain s1 where 1: "stats_getScheduledMessages E (?sw emptyStats, s) =
      (Inr (), (?sw (emptyStats\<lparr>st_scheduledMessages := int (length (zsets (view s) (gkey KEY_QUEUE_SCHEDULED)))\<rparr>), s1))"
    and v1: "view s1 = view s"
    using scheduled_live [of "?sw emptyStats" s] by auto
  let ?d1 = "emptyStats\<lparr>st_scheduledMessages := int (length (zsets (view s) (gkey KEY_QUEUE_SCHEDULED)))\<rparr>"
  obtain al s2 where 2: "getRates E (?sw ?d1, s1) = (Inr (), (?sw (fst (fold (rateItem (p_now E)) al (?d1, []))), s2))"
    and al: "distinct (map fst al)" "map_of al = hashes (view s) rates_key"
    and v2: "view s2 = set_hash rates_key (prune (p_now E) (hashes (view s) rates_key)) (view s)"
    using getRates_live [of "?sw ?d1" s1] v1 by auto
  let ?d2 = "fst (fold (rateItem (p_now E)) al (?d1, []))"
  obtain hb s3 where 3: "getConsumersHeartbeats E (?sw ?d2, s2) = (Inr (), (?sw (fold handleHeartbeat hb ?d2), s3))"
    and v3: "view s3 = view s2"
    using getConsumersHeartbeats_live [of s2 "?sw ?d2"] v2 assms(1) by auto
  have "sets (view s3) (gkey KEY_INDEX_QUEUES) = queue_text ` Q" using Q v3 v2 by simp
  from getMessageQueues_live [OF smq_live_axioms this] obtain qs s4 where
    4: "getQueues E (?sw (fold handleHeartbeat hb ?d2), s3) = (Inr qs, (?sw (fold handleHeartbeat hb ?d2), s4))"
    and qs: "set qs = Q" and v4: "view s4 = view s3"
    by (auto simp: getQueues_def onRedis_def)
  have sz: "sizesOf (view s4) = sizesOf (view s)" by (simp add: v4 v3 v2)
  obtain s5 where 5: "getQueueSize E qs (?sw (fold handleHeartbeat hb ?d2), s4) =
      (Inr (), (?sw (roundData E (view s) al hb qs), s5))" and v5: "view s5 = view s4"
    using getQueueSize_live [of qs "?sw (fold handleHeartbeat hb ?d2)" s4] by (auto simp: roundData_def sz)
  obtain s6 where 6: "stats_publish E errJson (?sw (sanitizeData (roundData E (view s) al hb qs)), s5) =
      (Inr (), (?sw (sanitizeData (roundData E (view s) al hb qs)), s6))" and v6: "view s6 = view s5"
    using stats_publish_live by blast
  have "stats_collect E errJson (sw, s) =
      (Inr (), (?sw (sanitizeData (roundData E (view s) al hb qs)), s6))"
    unfolding stats_collect_def by (simp add: bindM_def 0 1 2 3 4 5 6 setData_def)
  with al qs v2 v3 v4 v5 v6 show ?thesis by (auto intro!: exI [of _ al] exI [of _ hb] exI [of _ qs])
qed

lemma acquireLock_view: "acquireLock E lm s = (x, s') \<Longrightarrow> view s' = view s"
  by (auto simp: acquireLock_def split: option.splits prod.splits if_splits dest: rlock_frame rextend_frame)

text \<open>A round under the lock, with the ticker armed again at its end.\<close>

lemma stats_run_live:
  assumes "acquireLock E (sw_lockManager sw) s = ((Inr b, lm), s0)"
    and "nextTick (sw_ticker sw) = Inr tk"
    and "heartbeats_ok (view s)" and "sets (view s) (gkey KEY_INDEX_QUEUES) = queue_text ` Q"
  shows "\<exists>al hb qs s'. stats_run E errJson (sw, s) =
      (Inr (), (sw\<lparr>sw_lockManager := lm, sw_ticker := tk, sw_data := sanitizeData (roundData E (view s) al hb qs)\<rparr>, s')) \<and>
    set qs = Q \<and> distinct (map fst al) \<and> map_of al = hashes (view s) rates_key \<and>
    view s' = set_hash rates_key (prune (p_now E) (hashes (view s) rates_key)) (view s)"
proof -
  have v: "view s0 = view s" using acquireLock_view [OF assms(1)] .
  obtain al hb qs s' where "stats_collect E errJson (sw\<lparr>sw_lockManager := lm\<rparr>, s0) =
      (Inr (), (sw\<lparr>sw_lockManager := lm, sw_data := sanitizeData (roundData E (view s) al hb qs)\<rparr>, s'))"
    "set qs = Q" "distinct (map fst al)" "map_of al = hashes (view s) rates_key"
    "view s' = set_hash rates_key (prune (p_now E) (hashes (view s) rates_key)) (view s)"
    using stats_collect_live [of s0 Q errJson "sw\<lparr>sw_lockManager := lm\<rparr>"] assms(3,4) unfolding v by blast
  then show ?thesis
    using assms(1,2)
    by (intro exI [of _ al] exI [of _ hb] exI [of _ qs] exI [of _ s'])
      (simp add: stats_run_def orThrow_def bindM_def sw_nextTick_def)
qed

end

section \<open>The data of a round\<close>

lemma stats_ok_roundData: "stats_ok (roundData E st al hb qs)"
proof -
  have "stats_ok (fst (emptyStats\<lparr>st_scheduledMessages := n\<rparr>, []))" for n by (simp add: stats_ok_def)
  from fold_keeps [where P = "\<lambda>a. stats_ok (fst a)", OF this stats_ok_rateItem]
  have 1: "stats_ok (fst (fold (rateItem now) al (emptyStats\<lparr>st_scheduledMessages := n\<rparr>, [])))" for now n .
  show ?thesis
    unfolding roundData_def
    by (rule fold_keeps [where P = stats_ok, OF fold_keeps [where P = stats_ok, OF 1]])
      (auto intro: stats_ok_handleSize stats_ok_handleHeartbeat)
qed

lemma handleSample_scheduled: "st_scheduledMessages (handleSample x rate d) = st_scheduledMessages d"
  by (simp add: handleSample_def handleProducerRate_def handleConsumerRate_def addConsumerIfNotExists_def
      addProducerIfNotExists_def modConsumer_def modProducer_def Let_def split: option.splits)

lemma rateItem_scheduled: "st_scheduledMessages (fst (rateItem now kv acc)) = st_scheduledMessages (fst acc)"
  by (auto simp: rateItem_def handleSample_scheduled split: prod.splits option.splits)

lemma handleHeartbeat_fields:
  "st_scheduledMessages (handleHeartbeat ch d) = st_scheduledMessages d" "st_rates (handleHeartbeat ch d) = st_rates d"
  by (simp_all add: handleHeartbeat_def addConsumerIfNotExists_def modConsumer_def Let_def split: prod.splits)

lemma roundData_scheduled:
  "st_scheduledMessages (roundData E st al hb qs) = int (length (zsets st (gkey KEY_QUEUE_SCHEDULED)))"
proof -
  have "st_scheduledMessages (fst (fold (rateItem now) al acc)) = st_scheduledMessages (fst acc)" for now acc
    by (induction al arbitrary: acc) (auto simp: rateItem_scheduled)
  moreover have "st_scheduledMessages (fold handleHeartbeat hb d) = st_scheduledMessages d" for d
    by (induction hb arbitrary: d) (auto simp: handleHeartbeat_fields)
  ultimately show ?thesis by (simp add: roundData_def)
qed

lemma withSizes_fields [simp]:
  "sq_pendingMessages (withSizes st q v) = sizesOf st q ! 0"
  "sq_pendingMessagesWithPriority (withSizes st q v) = sizesOf st q ! 1"
  "sq_deadLetteredMessages (withSizes st q v) = sizesOf st q ! 2"
  "sq_acknowledgedMessages (withSizes st q v) = sizesOf st q ! 3"
  "sq_consumers (withSizes st q v) = sq_consumers v" "sq_producers (withSizes st q v) = sq_producers v"
  by (simp_all add: withSizes_def)

lemma clean_fields [simp]:
  "sq_pendingMessages (clean v) = sq_pendingMessages v"
  "sq_pendingMessagesWithPriority (clean v) = sq_pendingMessagesWithPriority v"
  "sq_deadLetteredMessages (clean v) = sq_deadLetteredMessages v"
  "sq_acknowledgedMessages (clean v) = sq_acknowledgedMessages v" "sq_producers (clean v) = sq_producers v"
  "sq_consumers (clean v) = Some (filter (\<lambda>p. complete (snd p)) (orEmpty (sq_consumers v)))"
  by (simp_all add: clean_def)

lemma roundData_sizes:
  assumes "\<forall>q \<in> set qs. plainQ q" and "q \<in> set qs"
  shows "\<exists>v. getQ (sanitizeData (roundData E st al hb qs)) (q_ns q) (q_name q) = Some v \<and>
    [sq_pendingMessages v, sq_pendingMessagesWithPriority v, sq_deadLetteredMessages v, sq_acknowledgedMessages v] = sizesOf st q"
proof -
  have l: "list_all plainQ qs" using assms(1) by (simp add: list_all_iff)
  have q: "\<lparr>q_name = q_name q, q_ns = q_ns q\<rparr> = q" by (cases q) simp
  obtain v where "getQ (roundData E st al hb qs) (q_ns q) (q_name q) = Some (withSizes st q v)"
    using assms(2) unfolding roundData_def fold_handleSize [OF l] q by auto
  then show ?thesis
    by (simp add: getQ_sanitizeData [OF stats_ok_roundData]) (simp add: sizesOf_def)
qed

lemma sanitized_consumers:
  assumes "stats_ok d" and "getQ (sanitizeData d) ns q = Some v" and "map_of (orEmpty (sq_consumers v)) i = Some c"
  shows "complete c \<and> sc_id c = i \<and> sc_namespace c = ns \<and> sc_queueName c = q"
proof -
  obtain v0 where v0: "getQ d ns q = Some v0" "v = clean v0"
    using assms(2) getQ_sanitizeData [OF assms(1)] by auto
  have "queue_ok ns q v" using stats_okD [OF assms(1) v0(1)] v0(2) queue_ok_clean by simp
  moreover have "(i, c) \<in> set (orEmpty (sq_consumers v))" using assms(3) by (rule map_of_SomeD)
  ultimately show ?thesis by (auto simp: queue_ok_def list_all_iff v0(2))
qed

section \<open>Rates\<close>

definition rateKinds :: "ERedisKey set" where
  "rateKinds = {KEY_RATE_PRODUCER_INPUT, KEY_RATE_CONSUMER_PROCESSING, KEY_RATE_CONSUMER_ACKNOWLEDGED,
     KEY_RATE_CONSUMER_UNACKNOWLEDGED}"

definition rateTotal :: "ERedisKey \<Rightarrow> TStatsRates \<Rightarrow> num" where
  "rateTotal t r =
     (if t = KEY_RATE_PRODUCER_INPUT then sr_input r
      else if t = KEY_RATE_CONSUMER_PROCESSING then sr_processing r
      else if t = KEY_RATE_CONSUMER_ACKNOWLEDGED then sr_acknowledged r
      else sr_unacknowledged r)"

text \<open>The rate recorded for an instance.\<close>

definition consumerRate :: "ERedisKey \<Rightarrow> TAggregatedStatsQueueConsumer \<Rightarrow> num option" where
  "consumerRate t c = map_option
     (if t = KEY_RATE_CONSUMER_PROCESSING then cr_processing
      else if t = KEY_RATE_CONSUMER_ACKNOWLEDGED then cr_acknowledged else cr_unacknowledged) (sc_rates c)"

definition rateOf :: "TAggregatedStats \<Rightarrow> ERedisKey \<Rightarrow> string \<Rightarrow> string \<Rightarrow> string \<Rightarrow> num option" where
  "rateOf d t ns q i =
     (case getQ d ns q of
        None \<Rightarrow> None
      | Some v \<Rightarrow>
          if t = KEY_RATE_PRODUCER_INPUT then map_option sp_input (map_of (orEmpty (sq_producers v)) i)
          else Option.bind (map_of (orEmpty (sq_consumers v)) i) (consumerRate t))"

definition sampleData :: "ERedisKey \<Rightarrow> string \<Rightarrow> string \<Rightarrow> string \<Rightarrow> key_data" where
  "sampleData t ns q i =
     \<lparr>kd_ns = Some ns, kd_type = key_code t, kd_queueName = Some q,
      kd_consumerId = (if t = KEY_RATE_PRODUCER_INPUT then None else Some i),
      kd_producerId = (if t = KEY_RATE_PRODUCER_INPUT then Some i else None)\<rparr>"

lemma keyData_sample:
  "t \<in> rateKinds \<Longrightarrow> plain n \<Longrightarrow> plain q \<Longrightarrow> plain i \<Longrightarrow> keyData (Str (ikey t n q i)) = Some (sampleData t n q i)"
  by (auto simp: keyData_def rateKinds_def sampleData_def extractData_consumer extractData_producer)

lemma splitSample_rateSample: "0 \<le> r \<Longrightarrow> 0 \<le> ts \<Longrightarrow> splitSample (rateSample r ts) = (Some r, Some ts)"
  by (simp add: splitSample_def rateSample_def js_split_plain_append js_split_plain plain_show_nat elem_at_def toNum_def
      js_Number_show)

lemma handleSample_total:
  assumes "t \<in> rateKinds" "t' \<in> rateKinds" "i \<noteq> []"
  shows "rateTotal t' (st_rates (handleSample (sampleData t n q i) rate d)) =
    (if t' = t then num_add (rateTotal t' (st_rates d)) rate else rateTotal t' (st_rates d))"
  using assms
  by (auto simp: handleSample_def handleProducerRate_def handleConsumerRate_def sampleData_def rateKinds_def rateTotal_def
      Let_def propName_def addConsumerIfNotExists_def addProducerIfNotExists_def modConsumer_def modProducer_def)

lemma map_of_modEntry: "map_of (modEntry i f xs) = (map_of xs)(i := map_option f (map_of xs i))"
  by (auto simp: modEntry_def update_conv' fun_eq_iff split: option.splits)

definition queueOr :: "TAggregatedStats \<Rightarrow> string \<Rightarrow> string \<Rightarrow> TAggregatedStatsQueue" where
  "queueOr d n q = (case getQ d n q of None \<Rightarrow> newStatsQueue n q | Some v \<Rightarrow> v)"

lemma getQ_handleProducerRate:
  "\<exists>v x. (\<forall>n' q'. getQ (handleProducerRate n q p rate d) n' q' = (if n' = n \<and> q' = q then Some v else getQ d n' q')) \<and>
    sq_consumers v = sq_consumers (queueOr d n q) \<and>
    map_of (orEmpty (sq_producers v)) = (map_of (orEmpty (sq_producers (queueOr d n q))))(p \<mapsto> x) \<and> sp_input x = rate"
proof -
  let ?v = "the (getQ (handleProducerRate n q p rate d) n q)"
  have "getQ (handleProducerRate n q p rate d) n' q' = (if n' = n \<and> q' = q then Some ?v else getQ d n' q')" for n' q'
    by (auto simp: handleProducerRate_def Let_def addProducerIfNotExists_def modProducer_def getQ_modQueue getQ_addQueue)
  moreover have "\<exists>x. sq_consumers ?v = sq_consumers (queueOr d n q) \<and>
    map_of (orEmpty (sq_producers ?v)) = (map_of (orEmpty (sq_producers (queueOr d n q))))(p \<mapsto> x) \<and> sp_input x = rate"
    by (auto simp: handleProducerRate_def Let_def addProducerIfNotExists_def modProducer_def getQ_modQueue getQ_addQueue
      map_of_modEntry update_conv' queueOr_def fun_eq_iff)
  ultimately show ?thesis by blast
qed

text \<open>The three rates of a consumer once a sample has been recorded.\<close>

definition ratesAfter :: "ERedisKey \<Rightarrow> num \<Rightarrow> TAggregatedStatsQueueConsumer option \<Rightarrow> TConsumerRates" where
  "ratesAfter t rate c =
     (let r = (case c of None \<Rightarrow> \<lparr>cr_processing = Some 0, cr_acknowledged = Some 0, cr_unacknowledged = Some 0\<rparr>
               | Some c \<Rightarrow> initRates c) in
      if t = KEY_RATE_CONSUMER_PROCESSING then r\<lparr>cr_processing := rate\<rparr>
      else if t = KEY_RATE_CONSUMER_ACKNOWLEDGED then r\<lparr>cr_acknowledged := rate\<rparr>
      else r\<lparr>cr_unacknowledged := rate\<rparr>)"

lemma getQ_putConsumer:
  "\<exists>v x. (\<forall>n' q'. getQ (modConsumer n q i (\<lambda>c. c\<lparr>sc_rates := Some (f (initRates c))\<rparr>)
        (addConsumerIfNotExists n q i (addQueueIfNotExists n q d))) n' q' =
      (if n' = n \<and> q' = q then Some v else getQ d n' q')) \<and>
    sq_producers v = sq_producers (queueOr d n q) \<and>
    map_of (orEmpty (sq_consumers v)) = (map_of (orEmpty (sq_consumers (queueOr d n q))))(i \<mapsto> x) \<and>
    sc_rates x = Some (f (case map_of (orEmpty (sq_consumers (queueOr d n q))) i of
      None \<Rightarrow> \<lparr>cr_processing = Some 0, cr_acknowledged = Some 0, cr_unacknowledged = Some 0\<rparr> | Some c \<Rightarrow> initRates c))"
proof -
  let ?d = "modConsumer n q i (\<lambda>c. c\<lparr>sc_rates := Some (f (initRates c))\<rparr>)
        (addConsumerIfNotExists n q i (addQueueIfNotExists n q d))"
  let ?v = "the (getQ ?d n q)"
  have "getQ ?d n' q' = (if n' = n \<and> q' = q then Some ?v else getQ d n' q')" for n' q'
    by (auto simp: addConsumerIfNotExists_def modConsumer_def getQ_modQueue getQ_addQueue)
  moreover have "\<exists>x. sq_producers ?v = sq_producers (queueOr d n q) \<and>
    map_of (orEmpty (sq_consumers ?v)) = (map_of (orEmpty (sq_consumers (queueOr d n q))))(i \<mapsto> x) \<and>
    sc_rates x = Some (f (case map_of (orEmpty (sq_consumers (queueOr d n q))) i of
      None \<Rightarrow> \<lparr>cr_processing = Some 0, cr_acknowledged = Some 0, cr_unacknowledged = Some 0\<rparr> | Some c \<Rightarrow> initRates c))"
    by (cases "map_of (orEmpty (sq_consumers (queueOr d n q))) i")
      (auto simp: Let_def addConsumerIfNotExists_def modConsumer_def getQ_modQueue getQ_addQueue
        map_of_modEntry update_conv' queueOr_def fun_eq_iff initRates_def)
  ultimately show ?thesis by blast
qed

lemma modConsumer_modRates: "modConsumer n q i f (modRates g d) = modRates g (modConsumer n q i f d)"
  by (simp add: modConsumer_def modQueue_def modRates_def split: option.splits)

lemma getQ_handleConsumerRate:
  assumes "t \<in> rateKinds" "t \<noteq> KEY_RATE_PRODUCER_INPUT"
  shows "\<exists>v x. (\<forall>n' q'. getQ (handleConsumerRate n q (key_code t) i rate d) n' q' = (if n' = n \<and> q' = q then Some v else getQ d n' q')) \<and>
    sq_producers v = sq_producers (queueOr d n q) \<and>
    map_of (orEmpty (sq_consumers v)) = (map_of (orEmpty (sq_consumers (queueOr d n q))))(i \<mapsto> x) \<and>
    sc_rates x = Some (ratesAfter t rate (map_of (orEmpty (sq_consumers (queueOr d n q))) i))"
proof -
  consider "t = KEY_RATE_CONSUMER_PROCESSING" | "t = KEY_RATE_CONSUMER_ACKNOWLEDGED" | "t = KEY_RATE_CONSUMER_UNACKNOWLEDGED"
    using assms by (auto simp: rateKinds_def)
  then show ?thesis
  proof cases
    case 1
    then show ?thesis
      using getQ_putConsumer [of n q i "\<lambda>r. r\<lparr>cr_processing := rate\<rparr>" d]
      by (simp add: handleConsumerRate_def Let_def modConsumer_modRates ratesAfter_def)
  next
    case 2
    then show ?thesis
      using getQ_putConsumer [of n q i "\<lambda>r. r\<lparr>cr_acknowledged := rate\<rparr>" d]
      by (simp add: handleConsumerRate_def Let_def modConsumer_modRates ratesAfter_def)
  next
    case 3
    then show ?thesis
      using getQ_putConsumer [of n q i "\<lambda>r. r\<lparr>cr_unacknowledged := rate\<rparr>" d]
      by (simp add: handleConsumerRate_def Let_def modConsumer_modRates ratesAfter_def)
  qed
qed

lemma consumerRate_after:
  assumes "t \<in> rateKinds - {KEY_RATE_PRODUCER_INPUT}" "t' \<in> rateKinds - {KEY_RATE_PRODUCER_INPUT}"
    and "sc_rates x = Some (ratesAfter t rate c)"
  shows "consumerRate t' x = (if t' = t then Some rate else
    (case Option.bind c (consumerRate t') of None \<Rightarrow> Some (Some 0) | Some r \<Rightarrow> Some r))"
  using assms
  by (cases c)
    (auto simp: rateKinds_def consumerRate_def ratesAfter_def initRates_def Let_def split: option.splits)

lemma rateOf_queueOr:
  "rateOf d t n q i =
     (if t = KEY_RATE_PRODUCER_INPUT then map_option sp_input (map_of (orEmpty (sq_producers (queueOr d n q))) i)
      else Option.bind (map_of (orEmpty (sq_consumers (queueOr d n q))) i) (consumerRate t))"
  by (auto simp: rateOf_def queueOr_def newStatsQueue_def split: option.splits)

lemma handleSample_rateOf:
  assumes "t \<in> rateKinds" "t' \<in> rateKinds" "i \<noteq> []"
  shows "rateOf (handleSample (sampleData t n q i) rate d) t' n' q' i' =
    (if n' = n \<and> q' = q \<and> i' = i then
       (if t' = t then Some rate
        else if t \<noteq> KEY_RATE_PRODUCER_INPUT \<and> t' \<noteq> KEY_RATE_PRODUCER_INPUT
        then (case rateOf d t' n' q' i' of None \<Rightarrow> Some (Some 0) | Some r \<Rightarrow> Some r)
        else rateOf d t' n' q' i')
     else rateOf d t' n' q' i')"
proof (cases "t = KEY_RATE_PRODUCER_INPUT")
  case True
  then have h: "handleSample (sampleData t n q i) rate d = handleProducerRate n q i rate d"
    using assms(3) by (simp add: handleSample_def sampleData_def propName_def Let_def)
  obtain v x where v: "getQ (handleProducerRate n q i rate d) n' q' = (if n' = n \<and> q' = q then Some v else getQ d n' q')"
    "sq_consumers v = sq_consumers (queueOr d n q)"
    "map_of (orEmpty (sq_producers v)) = (map_of (orEmpty (sq_producers (queueOr d n q))))(i \<mapsto> x)" "sp_input x = rate"
    using getQ_handleProducerRate by blast
  show ?thesis
  proof (cases "n' = n \<and> q' = q")
    case False
    with v(1) h show ?thesis by (auto simp: rateOf_def)
  next
    case nq: True
    with v(1) h have "rateOf (handleSample (sampleData t n q i) rate d) t' n q i' =
        (if t' = KEY_RATE_PRODUCER_INPUT then map_option sp_input (map_of (orEmpty (sq_producers v)) i')
         else Option.bind (map_of (orEmpty (sq_consumers v)) i') (consumerRate t'))"
      by (simp add: rateOf_def)
    with nq v(2-4) True show ?thesis by (simp add: rateOf_queueOr [of d])
  qed
next
  case False
  then have h: "handleSample (sampleData t n q i) rate d = handleConsumerRate n q (key_code t) i rate d"
    using assms(3) by (simp add: handleSample_def sampleData_def propName_def Let_def)
  obtain v x where v: "getQ (handleConsumerRate n q (key_code t) i rate d) n' q' = (if n' = n \<and> q' = q then Some v else getQ d n' q')"
    "sq_producers v = sq_producers (queueOr d n q)"
    "map_of (orEmpty (sq_consumers v)) = (map_of (orEmpty (sq_consumers (queueOr d n q))))(i \<mapsto> x)"
    "sc_rates x = Some (ratesAfter t rate (map_of (orEmpty (sq_consumers (queueOr d n q))) i))"
    using getQ_handleConsumerRate [OF assms(1) False] by blast
  show ?thesis
  proof (cases "n' = n \<and> q' = q")
    case nq: False
    with v(1) h show ?thesis by (auto simp: rateOf_def)
  next
    case nq: True
    with v(1) h have r: "rateOf (handleSample (sampleData t n q i) rate d) t' n q i' =
        (if t' = KEY_RATE_PRODUCER_INPUT then map_option sp_input (map_of (orEmpty (sq_producers v)) i')
         else Option.bind (map_of (orEmpty (sq_consumers v)) i') (consumerRate t'))"
      by (simp add: rateOf_def)
    show ?thesis
    proof (cases "t' = KEY_RATE_PRODUCER_INPUT")
      case True
      with nq v(2) r False show ?thesis by (simp add: rateOf_queueOr [of d])
    next
      case c: False
      then have "consumerRate t' x = (if t' = t then Some rate else
          (case rateOf d t' n q i of None \<Rightarrow> Some (Some 0) | Some r \<Rightarrow> Some r))"
        using consumerRate_after [OF _ _ v(4), of t'] assms False by (simp add: rateOf_queueOr [of d])
      with nq v(3) r c False show ?thesis by (simp add: rateOf_queueOr [of d])
    qed
  qed
qed

text \<open>A sample as the rate objects of producers and consumers publish it.\<close>

definition sample_ok :: "rstr \<Rightarrow> rstr \<Rightarrow> bool" where
  "sample_ok k v \<longleftrightarrow> (\<exists>t n q i r ts. t \<in> rateKinds \<and> plain n \<and> plain q \<and> plain i \<and> i \<noteq> [] \<and> 0 \<le> r \<and> 0 \<le> ts \<and>
     k = Str (ikey t n q i) \<and> v = rateSample r ts)"

definition sampleRate :: "rstr \<Rightarrow> int" where
  "sampleRate v = the (fst (splitSample v))"

definition kindOf :: "rstr \<Rightarrow> nat option" where
  "kindOf k = map_option kd_type (keyData k)"

lemma rateItem_sample:
  assumes "t \<in> rateKinds" "plain n" "plain q" "plain i" "0 \<le> r" "0 \<le> ts"
  shows "fst (rateItem now (Str (ikey t n q i), rateSample r ts) acc) =
    (if expiredSample now (rateSample r ts) then fst acc else handleSample (sampleData t n q i) (Some r) (fst acc))"
  using assms by (simp add: rateItem_def splitSample_rateSample keyData_sample expiredSample_def)

lemma key_code_rateKinds: "t \<in> rateKinds \<Longrightarrow> t' \<in> rateKinds \<Longrightarrow> key_code t = key_code t' \<longleftrightarrow> t = t'"
  by (auto simp: rateKinds_def)

lemma kindOf_sample:
  "t \<in> rateKinds \<Longrightarrow> plain n \<Longrightarrow> plain q \<Longrightarrow> plain i \<Longrightarrow> kindOf (Str (ikey t n q i)) = Some (key_code t)"
  by (simp add: kindOf_def keyData_sample sampleData_def)

lemma num_add_Some: "num_add (num_add x (Some a)) (Some b) = num_add x (Some (a + b))" "num_add x (Some 0) = x"
  by (cases x; simp add: num_add_def)+

lemma fold_rate_totals:
  assumes "t' \<in> rateKinds" "list_all (\<lambda>(k, v). sample_ok k v) al"
  shows "rateTotal t' (st_rates (fst (fold (rateItem now) al acc))) =
    num_add (rateTotal t' (st_rates (fst acc)))
      (Some (\<Sum>(k, v) \<leftarrow> al. if kindOf k = Some (key_code t') \<and> \<not> expiredSample now v then sampleRate v else 0))"
  using assms(2)
proof (induction al arbitrary: acc)
  case Nil
  then show ?case by (simp add: num_add_Some)
next
  case (Cons kv al)
  then obtain t n q i r ts where kv: "kv = (Str (ikey t n q i), rateSample r ts)"
    and ok: "t \<in> rateKinds" "plain n" "plain q" "plain i" "i \<noteq> []" "0 \<le> r" "0 \<le> ts"
    by (auto simp: sample_ok_def)
  have r: "sampleRate (rateSample r ts) = r" using ok by (simp add: sampleRate_def splitSample_rateSample)
  have "rateTotal t' (st_rates (fst (rateItem now kv acc))) =
      num_add (rateTotal t' (st_rates (fst acc)))
        (Some (if t' = t \<and> \<not> expiredSample now (rateSample r ts) then r else 0))"
    using ok assms(1) by (simp add: kv rateItem_sample handleSample_total num_add_Some)
  moreover have "list_all (\<lambda>(k, v). sample_ok k v) al" using Cons.prems by simp
  ultimately show ?case
    using Cons.IH [of "rateItem now kv acc"] ok assms(1)
    by (simp add: kv kindOf_sample r num_add_Some key_code_rateKinds eq_commute [of t t'])
qed

lemma rateItem_keeps:
  assumes "sample_ok k v" "t' \<in> rateKinds" "k \<noteq> Str (ikey t' n' q' i')" "rateOf (fst acc) t' n' q' i' = Some r"
  shows "rateOf (fst (rateItem now (k, v) acc)) t' n' q' i' = Some r"
  using assms
  by (cases "expiredSample now v") (auto simp: sample_ok_def rateItem_sample handleSample_rateOf split: if_splits)

lemma fold_rates_keep:
  assumes "list_all (\<lambda>(k, v). sample_ok k v) al" "t' \<in> rateKinds" "Str (ikey t' n' q' i') \<notin> fst ` set al"
    and "rateOf (fst acc) t' n' q' i' = Some r"
  shows "rateOf (fst (fold (rateItem now) al acc)) t' n' q' i' = Some r"
  using assms
proof (induction al arbitrary: acc)
  case (Cons kv al)
  obtain k v where kv: "kv = (k, v)" by fastforce
  have "k \<noteq> Str (ikey t' n' q' i')" using Cons.prems(3) kv by auto
  with Cons.prems rateItem_keeps [of k v t' n' q' i' acc r now] Cons.IH [of "rateItem now kv acc"] show ?case
    by (simp add: kv)
qed simp

lemma fold_rates_recorded:
  assumes "list_all (\<lambda>(k, v). sample_ok k v) al" "distinct (map fst al)"
    and "t \<in> rateKinds" "plain n" "plain q" "plain i" "(Str (ikey t n q i), v) \<in> set al" "\<not> expiredSample now v"
  shows "rateOf (fst (fold (rateItem now) al acc)) t n q i = Some (Some (sampleRate v))"
  using assms(1,2,7)
proof (induction al arbitrary: acc)
  case (Cons kv al)
  show ?case
  proof (cases "kv = (Str (ikey t n q i), v)")
    case False
    with Cons show ?thesis by auto
  next
    case True
    then obtain t1 n1 q1 i1 r ts where k: "Str (ikey t n q i) = Str (ikey t1 n1 q1 i1)" and
      ok: "t1 \<in> rateKinds" "plain n1" "plain q1" "plain i1" "i1 \<noteq> []" "0 \<le> r" "0 \<le> ts" "v = rateSample r ts"
      using Cons.prems(1) by (auto simp: sample_ok_def)
    from k ok assms have eq: "t1 = t" "n1 = n" "q1 = q" "i1 = i" by auto
    have "rateOf (fst (rateItem now kv acc)) t n q i = Some (Some (sampleRate v))"
      using ok assms(3-8) by (simp add: True eq rateItem_sample handleSample_rateOf sampleRate_def splitSample_rateSample)
    with Cons.prems True show ?thesis
      by (simp add: fold_rates_keep [OF _ assms(3)])
  qed
qed simp

lemma rateOf_handleHeartbeat: "rateOf (handleHeartbeat ch d) t n q i = rateOf d t n q i"
  by (cases "getQ d n q")
    (auto simp: handleHeartbeat_def Let_def rateOf_def addConsumerIfNotExists_def modConsumer_def getQ_modQueue getQ_addQueue
      map_of_modEntry update_conv' newStatsQueue_def consumerRate_def split: prod.splits option.splits)

lemma rateOf_fold_handleHeartbeat: "rateOf (fold handleHeartbeat hb d) t n q i = rateOf d t n q i"
  by (induction hb arbitrary: d) (simp_all add: rateOf_handleHeartbeat)

lemma rateOf_fold_handleSize:
  "list_all plainQ qs \<Longrightarrow> rateOf (fold handleSize (zip (concat (map (sizeKeys E) qs)) (concat (map (sizesOf st) qs))) d) t n q i =
     rateOf d t n q i"
  by (auto simp: rateOf_def fold_handleSize newStatsQueue_def split: option.splits)

lemma map_of_filter_snd:
  "distinct (map fst xs) \<Longrightarrow> map_of (filter (\<lambda>p. P (snd p)) xs) i = (case map_of xs i of None \<Rightarrow> None | Some c \<Rightarrow> if P c then Some c else None)"
  by (induction xs) (auto split: option.splits dest!: map_of_SomeD, force+)

lemma rateOf_sanitizeData:
  assumes "stats_ok d"
  shows "rateOf (sanitizeData d) t n q i = rateOf d t n q i \<or> t \<noteq> KEY_RATE_PRODUCER_INPUT \<and> rateOf (sanitizeData d) t n q i = None"
proof (cases "getQ d n q")
  case None
  then show ?thesis by (simp add: rateOf_def getQ_sanitizeData [OF assms])
next
  case (Some v)
  with stats_okD [OF assms Some] show ?thesis
    by (auto simp: rateOf_def getQ_sanitizeData [OF assms] queue_ok_def map_of_filter_snd split: option.splits)
qed

lemma sum_list_map_of:
  assumes "distinct (map fst al)" "map_of al = h"
  shows "(\<Sum>(k, v) \<leftarrow> al. if P k v then g v else (0::int)) = (\<Sum>k | \<exists>v. h k = Some v \<and> P k v. g (the (h k)))"
proof -
  have h: "h k = Some v \<longleftrightarrow> (k, v) \<in> set al" for k v
    using map_of_eq_Some_iff [OF assms(1)] assms(2) by simp
  have "(\<Sum>(k, v) \<leftarrow> al. if P k v then g v else 0) = (\<Sum>x \<in> set al. if P (fst x) (snd x) then g (snd x) else 0)"
    using assms(1) by (simp add: sum_list_distinct_conv_sum_set distinct_map case_prod_unfold)
  also have "\<dots> = (\<Sum>x \<in> {x \<in> set al. P (fst x) (snd x)}. g (snd x))"
    by (simp add: sum.inter_filter)
  also have "\<dots> = (\<Sum>k | \<exists>v. h k = Some v \<and> P k v. g (the (h k)))"
    by (rule sum.reindex_bij_witness [where i = "\<lambda>k. (k, the (h k))" and j = fst]) (auto simp: h [symmetric])
  finally show ?thesis .
qed

text \<open>The keys of the samples of one kind that are not older than a second.\<close>

definition freshKeys :: "int \<Rightarrow> (rstr \<Rightarrow> rstr option) \<Rightarrow> ERedisKey \<Rightarrow> rstr set" where
  "freshKeys now h t = {k. \<exists>v. h k = Some v \<and> kindOf k = Some (key_code t) \<and> \<not> expiredSample now v}"

definition samples_ok :: "store \<Rightarrow> bool" where
  "samples_ok st \<longleftrightarrow> (\<forall>k v. hashes st rates_key k = Some v \<longrightarrow> sample_ok k v)"

lemma samples_ok_list:
  assumes "samples_ok st" "distinct (map fst al)" "map_of al = hashes st rates_key"
  shows "list_all (\<lambda>(k, v). sample_ok k v) al"
  unfolding list_all_iff
proof (clarify)
  fix k v assume "(k, v) \<in> set al"
  then have "hashes st rates_key k = Some v" using map_of_eq_Some_iff [OF assms(2)] assms(3) by simp
  with assms(1) show "sample_ok k v" by (simp add: samples_ok_def)
qed

lemma roundData_totals:
  assumes "samples_ok st" "distinct (map fst al)" "map_of al = hashes st rates_key" "t \<in> rateKinds"
  shows "rateTotal t (st_rates (sanitizeData (roundData E st al hb qs))) =
    Some (\<Sum>k \<in> freshKeys (p_now E) (hashes st rates_key) t. sampleRate (the (hashes st rates_key k)))"
proof -
  have hb: "st_rates (fold handleHeartbeat hb d) = st_rates d" for d
    by (induction hb arbitrary: d) (auto simp: handleHeartbeat_fields)
  have "rateTotal t (st_rates emptyStats) = Some 0" by (simp add: rateTotal_def emptyStats_def)
  then show ?thesis
    using fold_rate_totals [OF assms(4) samples_ok_list [OF assms(1-3)]]
    by (simp add: roundData_def hb sum_list_map_of [OF assms(2,3)] freshKeys_def num_add_def)
qed

lemma roundData_rateOf:
  assumes "samples_ok st" "distinct (map fst al)" "map_of al = hashes st rates_key" "\<forall>q \<in> set qs. plainQ q"
    and "t \<in> rateKinds" "plain n" "plain q" "plain i"
    and "hashes st rates_key (Str (ikey t n q i)) = Some v" "\<not> expiredSample (p_now E) v"
  shows "rateOf (sanitizeData (roundData E st al hb qs)) t n q i = Some (Some (sampleRate v)) \<or>
    t \<noteq> KEY_RATE_PRODUCER_INPUT \<and> rateOf (sanitizeData (roundData E st al hb qs)) t n q i = None"
proof -
  have "(Str (ikey t n q i), v) \<in> set al" using map_of_eq_Some_iff [OF assms(2)] assms(3,9) by simp
  from fold_rates_recorded [OF samples_ok_list [OF assms(1-3)] assms(2) assms(5-8) this assms(10)] assms(4)
  have "rateOf (roundData E st al hb qs) t n q i = Some (Some (sampleRate v))"
    by (simp add: roundData_def rateOf_fold_handleSize list_all_iff rateOf_fold_handleHeartbeat)
  with rateOf_sanitizeData [OF stats_ok_roundData] show ?thesis by metis
qed

section \<open>Properties\<close>



section \<open>Examples\<close>

text \<open>A worker whose ticker has just fired, on a server with one queue of one message, a producer's sample of five
  messages in the last second and one of the minute before.\<close>

definition demo_worker :: statsWorker where
  "demo_worker = \<lparr>sw_lockManager = newLockManager (keyLockWorkerStats getGlobalKeys) 10000 True,
     sw_ticker = \<lparr>tk_powerManager = pm_up, tk_onTickFn = (), tk_onNextTickFn = None, tk_timeout = NoTimer, tk_interval = NoTimer\<rparr>,
     sw_data = emptyStats\<rparr>"

definition stats_ticker :: "unit ticker" where
  "stats_ticker = (sw_ticker demo_worker)\<lparr>tk_timeout := Armed\<rparr>"

definition fresh_sample :: rstr where "fresh_sample = Str (ikey KEY_RATE_PRODUCER_INPUT ''default'' ''orders'' ''p1'')"
definition old_sample :: rstr where "old_sample = Str (ikey KEY_RATE_PRODUCER_INPUT ''default'' ''orders'' ''p2'')"

definition demo_stats_mem :: mem where
  "demo_stats_mem = mem0\<lparr>
     mlists := (\<lambda>_. [])(qkey KEY_QUEUE ''default'' ''orders'' := [Str ''m'']),
     mhashes := (\<lambda>_. [])(rates_key := [(fresh_sample, rateSample 5 60000), (old_sample, rateSample 7 1000)]),
     msets := (\<lambda>_. [])(gkey KEY_INDEX_QUEUES := [queue_text \<lparr>q_name = ''orders'', q_ns = ''default''\<rparr>])\<rparr>"

lemma demo_stats_mem_view:
  "heartbeats_ok (mem_view demo_stats_mem)"
  "sets (mem_view demo_stats_mem) (gkey KEY_INDEX_QUEUES) = queue_text ` {\<lparr>q_name = ''orders'', q_ns = ''default''\<rparr>}"
  "lists (mem_view demo_stats_mem) (qkey KEY_QUEUE ''default'' ''orders'') = [Str ''m'']"
  "hashes (mem_view demo_stats_mem) rates_key = [fresh_sample \<mapsto> rateSample 5 60000, old_sample \<mapsto> rateSample 7 1000]"
  by (auto simp: demo_stats_mem_def mem_view_def mem0_def heartbeats_ok_def fresh_sample_def old_sample_def plain_def)

lemma demo_worker_ready:
  "acquireLock (mem_platform t) (sw_lockManager demo_worker) s =
     ((Inr True, (sw_lockManager demo_worker)\<lparr>lm_acquiredLock := Some (lm_lockKey (sw_lockManager demo_worker))\<rparr>), s)"
  "nextTick (sw_ticker demo_worker) = Inr stats_ticker"
  by (simp_all add: demo_worker_def stats_ticker_def acquireLock_def newLockManager_def nextTick_def commitIfGoingUp_def)

lemma demo_plain: "\<forall>q \<in> {\<lparr>q_name = ''orders'', q_ns = ''default''\<rparr>}. plainQ q"
  by (simp add: plain_def)


lemma demo_samples_ok: "samples_ok (mem_view demo_stats_mem)"
proof -
  have r: "0 \<le> (5::int)" "0 \<le> (7::int)" "0 \<le> (1000::int)" "0 \<le> (60000::int)" "KEY_RATE_PRODUCER_INPUT \<in> rateKinds"
    by (simp_all add: rateKinds_def)
  have p: "plain ''default''" "plain ''orders''" "plain ''p1''" "plain ''p2''" by (simp_all add: plain_def)
  have "sample_ok fresh_sample (rateSample 5 60000)" "sample_ok old_sample (rateSample 7 1000)"
    unfolding sample_ok_def fresh_sample_def old_sample_def using r p by blast+
  then show ?thesis by (auto simp: samples_ok_def demo_stats_mem_view(4) split: if_splits)
qed


end
