(* ===== verification/Stats_Process.thy ===== *)
theory Stats_Process
  imports Stats Worker_Processes
begin

text \<open>
  The process of the statistics worker (the handler of \<open>process.on('message')\<close> in
  \<^verbatim>\<open>src/monitor-server/workers/stats.worker.ts\<close>) and its life: a round each time the timer of its ticker fires. It is
  started like the workers of \<open>Worker_Processes\<close>; the message of its parent is the configuration alone.
\<close>

section \<open>Start and life\<close>

definition stats_onMessage ::
  "string option \<Rightarrow> string option \<Rightarrow> err + string \<Rightarrow> (ELuaScriptName \<Rightarrow> err + string option) \<Rightarrow> (statsWorker workerProcess, unit) io" where
  "stats_onMessage namespace redis = startProcess namespace redis newStatsWorker"

text \<open>The timer fires; \<open>NoReply\<close> when none is armed.\<close>

definition stats_fire :: "'s platform \<Rightarrow> (reply \<Rightarrow> json) \<Rightarrow> (statsWorker \<times> 's, unit) io" where
  "stats_fire E errJson x =
     (let tk = sw_ticker (fst x) in
      if tk_timeout tk \<noteq> Armed then (Inl NoReply, x)
      else
        (case onTick (tk\<lparr>tk_timeout := NoTimer\<rparr>) of
           (None, tk') \<Rightarrow> (Inr (), ((fst x)\<lparr>sw_ticker := tk'\<rparr>, snd x))
         | (Some _, tk') \<Rightarrow> stats_run E errJson ((fst x)\<lparr>sw_ticker := tk'\<rparr>, snd x)))"

text \<open>Successive rounds; before each of them the rest of the system may change Redis.\<close>

fun stats_rounds ::
  "statsWorker workerProcess \<Rightarrow> (reply \<Rightarrow> json) \<Rightarrow> ('s platform \<times> ('s \<Rightarrow> 's)) list \<Rightarrow> (statsWorker \<times> 's, unit) io" where
  "stats_rounds p errJson [] x = (Inr (), x)"
| "stats_rounds p errJson ((E, others) # es) x =
     bindM (stats_fire (seenBy p E) errJson) (\<lambda>_. stats_rounds p errJson es) (fst x, others (snd x))"

section \<open>Facts\<close>

text \<open>Between two rounds.\<close>

definition stats_armed :: "statsWorker \<Rightarrow> bool" where
  "stats_armed sw \<longleftrightarrow> sw_ticker sw = \<lparr>tk_powerManager = pm_up, tk_onTickFn = (), tk_onNextTickFn = None, tk_timeout = Armed, tk_interval = NoTimer\<rparr> \<and>
     lm_redlock (sw_lockManager sw)"

text \<open>What the worker reads in Redis: heartbeats it can parse and queues with proper names.\<close>

definition stats_input :: "store \<Rightarrow> bool" where
  "stats_input st \<longleftrightarrow> heartbeats_ok st \<and> (\<exists>Q. sets st (gkey KEY_INDEX_QUEUES) = queue_text ` Q \<and> (\<forall>q \<in> Q. plainQ q))"

text \<open>Redlock gives and extends the lock.\<close>

definition lock_granted :: "'s platform \<Rightarrow> bool" where
  "lock_granted E \<longleftrightarrow> (\<forall>k t s. \<exists>tok s'. p_rlock E k t s = (Inr (Some tok), s')) \<and>
     (\<forall>tok t s. \<exists>tok' s'. p_rextend E tok t s = (Inr (Some tok'), s'))"

lemma newStatsWorker_armed: "newStatsWorker = Inr sw \<Longrightarrow> stats_armed sw"
  by (auto simp: newStatsWorker_def stats_armed_def newLockManager_def tk_defs pm_defs pm_down_def pm_up_def)

lemma acquireLock_granted:
  assumes "lock_granted E" "lm_redlock lm"
  obtains lm' s' where "acquireLock E lm s = ((Inr True, lm'), s')" "lm_redlock lm'"
proof (cases "lm_acquiredLock lm")
  case None
  obtain tok s' where "p_rlock E (lm_lockKey lm) (lm_ttl lm) s = (Inr (Some tok), s')"
    using assms(1) unfolding lock_granted_def by blast
  then show thesis using that None assms(2) by (simp add: acquireLock_def)
next
  case (Some tok)
  obtain tok' s' where "p_rextend E tok (lm_ttl lm) s = (Inr (Some tok'), s')"
    using assms(1) unfolding lock_granted_def by blast
  then show thesis using that Some assms(2) by (simp add: acquireLock_def)
qed

lemma queue_text_inject: "queue_text q = queue_text q' \<Longrightarrow> q = q'"
  by (metis parse_queue_text sum.inject(2))

lemma stats_input_pruned: "stats_input (set_hash rates_key h st) \<longleftrightarrow> stats_input st"
  by (simp add: stats_input_def heartbeats_ok_def)

text \<open>The sizes in the data are those of the store.\<close>

definition sizes_exact :: "TAggregatedStats \<Rightarrow> store \<Rightarrow> bool" where
  "sizes_exact d st \<longleftrightarrow> (\<forall>q. plainQ q \<and> queue_text q \<in> sets st (gkey KEY_INDEX_QUEUES) \<longrightarrow>
     (\<exists>v. getQ d (q_ns q) (q_name q) = Some v \<and>
       [sq_pendingMessages v, sq_pendingMessagesWithPriority v, sq_deadLetteredMessages v, sq_acknowledgedMessages v] = sizesOf st q))"

lemma stats_fire_live:
  assumes "smq_live E view" "lock_granted E" "stats_armed sw" "stats_input (view s)"
  shows "\<exists>sw' s'. stats_fire E errJson (sw, s) = (Inr (), (sw', s')) \<and> stats_armed sw' \<and> sizes_exact (sw_data sw') (view s') \<and>
    view s' = set_hash rates_key (prune (p_now E) (hashes (view s) rates_key)) (view s)"
proof -
  let ?sw = "sw\<lparr>sw_ticker := (sw_ticker sw)\<lparr>tk_timeout := NoTimer\<rparr>\<rparr>"
  have f: "stats_fire E errJson (sw, s) = stats_run E errJson (?sw, s)"
    using assms(3) by (simp add: stats_fire_def stats_armed_def Let_def tk_defs pm_defs pm_up_def)
  have n: "nextTick (sw_ticker ?sw) = Inr (sw_ticker sw)"
    using assms(3) by (simp add: stats_armed_def tk_defs pm_defs pm_up_def)
  obtain Q where Q: "sets (view s) (gkey KEY_INDEX_QUEUES) = queue_text ` Q" "\<forall>q \<in> Q. plainQ q" and hb: "heartbeats_ok (view s)"
    using assms(4) by (auto simp: stats_input_def)
  obtain lm s0 where l: "acquireLock E (sw_lockManager ?sw) s = ((Inr True, lm), s0)" "lm_redlock lm"
    using acquireLock_granted [OF assms(2), of "sw_lockManager sw" s] assms(3) by (auto simp: stats_armed_def)
  obtain al hbs qs s' where r: "stats_run E errJson (?sw, s) =
      (Inr (), (?sw\<lparr>sw_lockManager := lm, sw_ticker := sw_ticker sw, sw_data := sanitizeData (roundData E (view s) al hbs qs)\<rparr>, s'))"
    "set qs = Q" "view s' = set_hash rates_key (prune (p_now E) (hashes (view s) rates_key)) (view s)"
    using smq_live.stats_run_live [OF assms(1) l(1) n hb Q(1), of errJson] by blast
  let ?sw' = "?sw\<lparr>sw_lockManager := lm, sw_ticker := sw_ticker sw, sw_data := sanitizeData (roundData E (view s) al hbs qs)\<rparr>"
  have "sizes_exact (sw_data ?sw') (view s')"
    unfolding sizes_exact_def
  proof (intro allI impI)
    fix q assume "plainQ q \<and> queue_text q \<in> sets (view s') (gkey KEY_INDEX_QUEUES)"
    then have "q \<in> set qs" using Q r(2,3) queue_text_inject by auto
    with roundData_sizes [of qs q E "view s" al hbs] Q(2) r(2)
    show "\<exists>v. getQ (sw_data ?sw') (q_ns q) (q_name q) = Some v \<and>
       [sq_pendingMessages v, sq_pendingMessagesWithPriority v, sq_deadLetteredMessages v, sq_acknowledgedMessages v] = sizesOf (view s') q"
      by (auto simp: r(3) sizesOf_def)
  qed
  moreover have "stats_armed ?sw'" using assms(3) l(2) by (simp add: stats_armed_def)
  ultimately show ?thesis using f r(1,3) by auto
qed

lemma stats_rounds_live:
  assumes "stats_armed sw" "stats_input (view s)"
    and "list_all (\<lambda>(E, others). smq_live (seenBy p E) view \<and> lock_granted E \<and> (\<forall>s. stats_input (view s) \<longrightarrow> stats_input (view (others s)))) es"
  shows "\<exists>sw' s'. stats_rounds p errJson es (sw, s) = (Inr (), (sw', s')) \<and> stats_armed sw' \<and> stats_input (view s') \<and>
    (es \<noteq> [] \<longrightarrow> sizes_exact (sw_data sw') (view s'))"
  using assms
proof (induction es arbitrary: sw s)
  case (Cons e es)
  obtain E others where e: "e = (E, others)" by force
  have E: "smq_live (seenBy p E) view" "lock_granted (seenBy p E)" "stats_input (view (others s))"
    using Cons.prems by (auto simp: e lock_granted_def seenBy_def withClient_def)
  obtain sw1 s1 where 1: "stats_fire (seenBy p E) errJson (sw, others s) = (Inr (), (sw1, s1))" "stats_armed sw1"
    "sizes_exact (sw_data sw1) (view s1)" "stats_input (view s1)"
    using stats_fire_live [OF E(1,2) Cons.prems(1) E(3), of errJson] E(3) by (auto simp: stats_input_pruned)
  with Cons.IH [OF 1(2,4)] Cons.prems(3) obtain sw' s' where
    "stats_rounds p errJson es (sw1, s1) = (Inr (), (sw', s'))" "stats_armed sw'" "stats_input (view s')"
    "es \<noteq> [] \<longrightarrow> sizes_exact (sw_data sw') (view s')" by auto
  then show ?case using 1(1,3) by (cases es) (auto simp: e bindM_def)
qed simp

section \<open>Properties\<close>


section \<open>Examples\<close>

text \<open>Two rounds; between them a message is added to the queue.\<close>

definition demo_push :: "mem \<Rightarrow> mem" where
  "demo_push m = m\<lparr>mlists := (mlists m)(qkey KEY_QUEUE ''default'' ''orders'' := [Str ''m'', Str ''n''])\<rparr>"

lemma demo_push_input: "stats_input (mem_view s) \<Longrightarrow> stats_input (mem_view (demo_push s))"
  by (simp add: stats_input_def heartbeats_ok_def demo_push_def mem_view_def)

lemma demo_stats_process:
  "\<exists>p sw. stats_onMessage (Some ''NS1'') None (Inr demo_info) (\<lambda>_. Inr (Some ''sha'')) newProcess = (Inr (), p) \<and> wp_worker p = Some sw"
proof -
  have "\<exists>sw. newStatsWorker = Inr sw" by (simp add: newStatsWorker_def tk_defs pm_defs pm_down_def)
  then obtain sw where "newStatsWorker = Inr sw" ..
  from demo_start [OF this] show ?thesis by (simp add: stats_onMessage_def) blast
qed


end
