(* ===== verification/Frontends.thy ===== *)
theory Frontends
  imports Consumer Redis_Connection
begin

text \<open>
  The classes the package exports: \<^verbatim>\<open>src/system/message-manager/message-manager-frontend.ts\<close>,
  \<^verbatim>\<open>src/system/queue-manager/queue-manager-frontend.ts\<close>, \<^verbatim>\<open>src/system/producer/producer-frontend.ts\<close> and
  \<^verbatim>\<open>src/system/consumer/consumer-frontend.ts\<close>. They hand
  every call on; the two managers keep one instance per process. Since a client takes time to become ready,
  asking for the instance is one step and the client becoming ready another.
\<close>

section \<open>Message manager\<close>

definition mf_deleteScheduledMessage :: "'s platform \<Rightarrow> string \<Rightarrow> ('s, unit) io" where
  "mf_deleteScheduledMessage E messageId = mm_deleteScheduledMessage E messageId"

definition mf_deleteDeadLetterMessage ::
  "'s platform \<Rightarrow> string \<Rightarrow> string option \<Rightarrow> int \<Rightarrow> string \<Rightarrow> ('s, unit) io" where
  "mf_deleteDeadLetterMessage E queueName ns sequenceId messageId =
     mm_deleteDeadLetterMessage E queueName ns sequenceId messageId"

definition mf_deleteAcknowledgedMessage ::
  "'s platform \<Rightarrow> string \<Rightarrow> string option \<Rightarrow> int \<Rightarrow> string \<Rightarrow> ('s, unit) io" where
  "mf_deleteAcknowledgedMessage E queueName ns sequenceId messageId =
     mm_deleteAcknowledgedMessage E queueName ns sequenceId messageId"

definition mf_deletePendingMessage ::
  "'s platform \<Rightarrow> string \<Rightarrow> string option \<Rightarrow> int \<Rightarrow> string \<Rightarrow> ('s, unit) io" where
  "mf_deletePendingMessage E queueName ns sequenceId messageId =
     mm_deletePendingMessage E queueName ns sequenceId messageId"

definition mf_deletePendingMessageWithPriority ::
  "'s platform \<Rightarrow> string \<Rightarrow> string option \<Rightarrow> string \<Rightarrow> ('s, unit) io" where
  "mf_deletePendingMessageWithPriority E queueName ns messageId =
     mm_deletePendingMessageWithPriority E queueName ns messageId"

definition mf_requeueMessageFromDLQueue ::
  "'s platform \<Rightarrow> string \<Rightarrow> string option \<Rightarrow> int \<Rightarrow> string \<Rightarrow> bool \<Rightarrow> int option \<Rightarrow> ('s, unit) io" where
  "mf_requeueMessageFromDLQueue E queueName ns sequenceId messageId withPriority prio =
     mm_requeueMessageFromDLQueue E queueName ns sequenceId messageId withPriority prio"

definition mf_requeueMessageFromAcknowledgedQueue ::
  "'s platform \<Rightarrow> string \<Rightarrow> string option \<Rightarrow> int \<Rightarrow> string \<Rightarrow> bool \<Rightarrow> int option \<Rightarrow> ('s, unit) io" where
  "mf_requeueMessageFromAcknowledgedQueue E queueName ns sequenceId messageId withPriority prio =
     mm_requeueMessageFromAcknowledgedQueue E queueName ns sequenceId messageId withPriority prio"

definition mf_getAcknowledgedMessages ::
  "'s platform \<Rightarrow> string \<Rightarrow> string option \<Rightarrow> int \<Rightarrow> int \<Rightarrow> ('s, TGetMessagesReply) io" where
  "mf_getAcknowledgedMessages E queueName ns skip tk = mm_getAcknowledgedMessages E queueName ns skip tk"

definition mf_getDeadLetterMessages ::
  "'s platform \<Rightarrow> string \<Rightarrow> string option \<Rightarrow> int \<Rightarrow> int \<Rightarrow> ('s, TGetMessagesReply) io" where
  "mf_getDeadLetterMessages E queueName ns skip tk = mm_getDeadLetteredMessages E queueName ns skip tk"

definition mf_getPendingMessages ::
  "'s platform \<Rightarrow> string \<Rightarrow> string option \<Rightarrow> int \<Rightarrow> int \<Rightarrow> ('s, TGetMessagesReply) io" where
  "mf_getPendingMessages E queueName ns skip tk = mm_getPendingMessages E queueName ns skip tk"

definition mf_getPendingMessagesWithPriority ::
  "'s platform \<Rightarrow> string \<Rightarrow> string option \<Rightarrow> int \<Rightarrow> int \<Rightarrow> ('s, TPaginatedMessages) io" where
  "mf_getPendingMessagesWithPriority E queueName ns skip tk = mm_getPendingMessagesWithPriority E queueName ns skip tk"

definition mf_getScheduledMessages :: "'s platform \<Rightarrow> int \<Rightarrow> int \<Rightarrow> ('s, TPaginatedMessages) io" where
  "mf_getScheduledMessages E skip tk = mm_getScheduledMessages E skip tk"

section \<open>Queue manager\<close>

definition qf_purgeDeadLetterQueue :: "'s platform \<Rightarrow> string \<Rightarrow> string option \<Rightarrow> ('s, unit) io" where
  "qf_purgeDeadLetterQueue E queueName ns = purgeDeadLetterQueue E queueName ns"

definition qf_purgeAcknowledgedMessagesQueue :: "'s platform \<Rightarrow> string \<Rightarrow> string option \<Rightarrow> ('s, unit) io" where
  "qf_purgeAcknowledgedMessagesQueue E queueName ns = purgeAcknowledgedMessagesQueue E queueName ns"

definition qf_purgeQueue :: "'s platform \<Rightarrow> string \<Rightarrow> string option \<Rightarrow> ('s, unit) io" where
  "qf_purgeQueue E queueName ns = purgeQueue E queueName ns"

definition qf_purgePriorityQueue :: "'s platform \<Rightarrow> string \<Rightarrow> string option \<Rightarrow> ('s, unit) io" where
  "qf_purgePriorityQueue E queueName ns = purgePriorityQueue E queueName ns"

definition qf_purgeScheduledMessagesQueue :: "'s platform \<Rightarrow> ('s, unit) io" where
  "qf_purgeScheduledMessagesQueue E = purgeScheduledMessagesQueue E"

definition qf_getQueueMetrics :: "'s platform \<Rightarrow> string \<Rightarrow> string option \<Rightarrow> ('s, IQueueMetrics) io" where
  "qf_getQueueMetrics E queueName ns = getQueueMetrics E queueName ns"

definition qf_getMessageQueues :: "'s platform \<Rightarrow> ('s, TMessageQueue list) io" where
  "qf_getMessageQueues E = getMessageQueues E"

section \<open>Singletons\<close>

text \<open>The static field, the callers still waiting for a client of their own, and the clients that are open. An
  instance is named by the number of its client.\<close>

record frontends =
  fr_instance :: "nat option"
  fr_waiting :: "nat list"
  fr_open :: "nat list"
  fr_next :: nat

definition noFrontend :: frontends where
  "noFrontend = \<lparr>fr_instance = None, fr_waiting = [], fr_open = [], fr_next = 0\<rparr>"

text \<open>\<open>getSingletonInstance\<close>: the instance, or \<open>None\<close> while a client of the caller's own is being connected.\<close>

definition getSingletonInstance :: "frontends \<Rightarrow> nat option \<times> frontends" where
  "getSingletonInstance f =
     (case fr_instance f of
        Some i \<Rightarrow> (Some i, f)
      | None \<Rightarrow> (None, f\<lparr>fr_waiting := fr_waiting f @ [fr_next f], fr_next := Suc (fr_next f)\<rparr>))"

text \<open>The client \<open>i\<close> is ready: its callback creates an instance, stores it and hands it out.\<close>

definition clientReady :: "nat \<Rightarrow> frontends \<Rightarrow> nat \<times> frontends" where
  "clientReady i f =
     (i, f\<lparr>fr_instance := Some i, fr_waiting := remove1 i (fr_waiting f), fr_open := fr_open f @ [i]\<rparr>)"

text \<open>\<open>quit\<close> of the instance \<open>i\<close>: its client is halted and the static field cleared.\<close>

definition frontend_quit :: "nat \<Rightarrow> frontends \<Rightarrow> frontends" where
  "frontend_quit i f = f\<lparr>fr_instance := None, fr_open := removeAll i (fr_open f)\<rparr>"

text \<open>The queue manager has a static field of its own and the same two methods.\<close>

definition qf_getSingletonInstance :: "frontends \<Rightarrow> nat option \<times> frontends" where
  "qf_getSingletonInstance f = getSingletonInstance f"

definition qf_quit :: "nat \<Rightarrow> frontends \<Rightarrow> frontends" where
  "qf_quit i f = frontend_quit i f"

text \<open>What can happen, one caller after the other: whoever asks waits until its client is ready.\<close>

inductive fr_seq :: "frontends \<Rightarrow> bool" where
  fr_init: "fr_seq noFrontend"
| fr_get: "fr_seq f \<Longrightarrow> fr_waiting f = [] \<Longrightarrow> getSingletonInstance f = (r, f') \<Longrightarrow> fr_seq f'"
| fr_ready: "fr_seq f \<Longrightarrow> i \<in> set (fr_waiting f) \<Longrightarrow> clientReady i f = (j, f') \<Longrightarrow> fr_seq f'"
| fr_quit: "fr_seq f \<Longrightarrow> fr_waiting f = [] \<Longrightarrow> fr_instance f = Some i \<Longrightarrow> frontend_quit i f = f' \<Longrightarrow> fr_seq f'"

section \<open>Producer\<close>

definition pf_run :: "'s platform \<Rightarrow> unit result \<Rightarrow> (producer \<times> 's, unit) io" where
  "pf_run E conn = producer_run E conn"

definition pf_shutdown :: "(producer \<times> 's, unit) io" where
  "pf_shutdown = producer_shutdown"

definition pf_isRunning :: "producer \<Rightarrow> bool" where
  "pf_isRunning b = isRunning (b_powerManager b)"

definition pf_getId :: "producer \<Rightarrow> string" where
  "pf_getId b = b_id b"

definition pf_getQueueName :: "producer \<Rightarrow> string" where
  "pf_getQueueName b = b_queueName b"

definition pf_produceMessage :: "'s platform \<Rightarrow> message \<Rightarrow> (producer \<times> 's, bool) io" where
  "pf_produceMessage E msg = producer_produceMessage E msg"

section \<open>Consumer\<close>

definition cf_run :: "'s platform \<Rightarrow> unit result \<times> unit result \<times> unit result \<Rightarrow> 's consumer_io" where
  "cf_run E conns = consumer_run E conns"

definition cf_shutdown :: "'s platform \<Rightarrow> 's consumer_io" where
  "cf_shutdown E = consumer_shutdown E"

definition cf_isRunning :: "consumer \<Rightarrow> bool" where
  "cf_isRunning c = isRunning (b_powerManager c)"

definition cf_getId :: "consumer \<Rightarrow> string" where
  "cf_getId c = b_id c"

definition cf_getQueueName :: "consumer \<Rightarrow> string" where
  "cf_getQueueName c = b_queueName c"

section \<open>Properties\<close>

lemma fr_seq_inv:
  "fr_seq f \<Longrightarrow> (fr_waiting f = [] \<and> (fr_open f = (case fr_instance f of None \<Rightarrow> [] | Some i \<Rightarrow> [i]))) \<or>
     (\<exists>i. fr_waiting f = [i] \<and> fr_open f = [] \<and> fr_instance f = None)"
  by (induction rule: fr_seq.induct)
    (auto simp: noFrontend_def getSingletonInstance_def clientReady_def frontend_quit_def split: option.splits)

text \<open>The singletons hold one client per process as long as nobody asks while a client is still being
  connected: then the open client, if any, is that of the stored instance, and asking again gives that instance.
  Two callers that both ask before the first client is ready get an instance each, and the client of the
  first stays open, out of reach of \<open>quit\<close> of the stored one.\<close>

theorem frontend_singleton:
  "(fr_seq f \<and> fr_instance f = Some i \<longrightarrow> fr_open f = [i] \<and> getSingletonInstance f = (Some i, f) \<and>
      fr_open (frontend_quit i f) = []) \<and>
   (case getSingletonInstance noFrontend of (r1, f1) \<Rightarrow>
    case getSingletonInstance f1 of (r2, f2) \<Rightarrow>
    case clientReady 0 f2 of (i1, f3) \<Rightarrow>
    case clientReady 1 f3 of (i2, f4) \<Rightarrow>
      i1 \<noteq> i2 \<and> fr_instance f4 = Some i2 \<and> fr_open (frontend_quit i2 f4) = [i1])"
proof (intro conjI impI)
  assume a: "fr_seq f \<and> fr_instance f = Some i"
  from fr_seq_inv [of f] a show "fr_open f = [i]" by auto
  then show "fr_open (frontend_quit i f) = []" by (simp add: frontend_quit_def)
  show "getSingletonInstance f = (Some i, f)" using a by (simp add: getSingletonInstance_def)
next
  show "case getSingletonInstance noFrontend of (r1, f1) \<Rightarrow> case getSingletonInstance f1 of (r2, f2) \<Rightarrow>
    case clientReady 0 f2 of (i1, f3) \<Rightarrow> case clientReady 1 f3 of (i2, f4) \<Rightarrow>
      i1 \<noteq> i2 \<and> fr_instance f4 = Some i2 \<and> fr_open (frontend_quit i2 f4) = [i1]"
    by (simp add: getSingletonInstance_def clientReady_def frontend_quit_def noFrontend_def)
qed

theorem frontend_singleton_witness:
  "fr_open (snd (clientReady 0 (snd (getSingletonInstance noFrontend)))) = [0]"
proof -
  let ?f = "snd (clientReady 0 (snd (getSingletonInstance noFrontend)))"
  have s: "fr_seq ?f"
    by (rule fr_ready [OF fr_get [OF fr_init]])
      (auto simp: getSingletonInstance_def clientReady_def noFrontend_def)
  have i: "fr_instance ?f = Some 0" by (simp add: clientReady_def)
  have "fr_seq ?f \<and> fr_instance ?f = Some 0 \<longrightarrow> fr_open ?f = [0]" using frontend_singleton [of ?f 0] by blast
  with s i show ?thesis by blast
qed

end
