(* ===== verification/Monitor_Server.thy ===== *)
theory Monitor_Server
  imports Base Redis_Connection
begin

text \<open>
  The monitor server of \<^verbatim>\<open>src/monitor-server\<close>: the two services, the table of routes, what a matched route does
  with a request (validation, handler, response, error handler) and the life of the server (\<^verbatim>\<open>index.ts\<close>). The
  router that matches a path is third-party code: a request arrives with its route and its parameters. The validation of a
  DTO is an argument here (\<open>validator\<close>); \<open>Monitor_DTO\<close> supplies it.

  The promises of the services settle in callbacks of the Redis driver. An error handed to the callback (\<open>Cb\<close>)
  rejects the promise and reaches the error handler; an exception thrown in such a callback (\<open>Throw\<close>) reaches no
  one and there is no response.
\<close>

section \<open>Requests\<close>

record GetMessagesRequestDTO =
  gr_ns :: string
  gr_queueName :: string
  gr_skip :: "int option"
  gr_take :: "int option"

record DeleteMessageRequestDTO =
  dr_ns :: string
  dr_queueName :: string
  dr_id :: string
  dr_sequenceId :: int

record DeletePendingMessageWithPriorityRequestDTO =
  dp_ns :: string
  dp_queueName :: string
  dp_id :: string

record PurgeQueueRequestDTO =
  pq_queueName :: string
  pq_ns :: string

record RequeueMessageRequestDTO =
  rq_ns :: string
  rq_queueName :: string
  rq_id :: string
  rq_sequenceId :: int
  rq_priority :: "int option"

record GetScheduledMessagesRequestDTO =
  gs_skip :: "int option"
  gs_take :: "int option"

record DeleteScheduledMessageRequestDTO =
  ds_id :: string

datatype requestDTO =
    DGetMessages GetMessagesRequestDTO
  | DDeleteMessage DeleteMessageRequestDTO
  | DDeleteWithPriority DeletePendingMessageWithPriorityRequestDTO
  | DPurge PurgeQueueRequestDTO
  | DRequeue RequeueMessageRequestDTO
  | DGetScheduled GetScheduledMessagesRequestDTO
  | DDeleteScheduled DeleteScheduledMessageRequestDTO
  | DNone

datatype dtoClass = CGetMessages | CDeleteMessage | CDeleteWithPriority | CPurge | CRequeue | CGetScheduled
  | CDeleteScheduled | CNone

fun dto_class :: "requestDTO \<Rightarrow> dtoClass" where
  "dto_class (DGetMessages d) = CGetMessages"
| "dto_class (DDeleteMessage d) = CDeleteMessage"
| "dto_class (DDeleteWithPriority d) = CDeleteWithPriority"
| "dto_class (DPurge d) = CPurge"
| "dto_class (DRequeue d) = CRequeue"
| "dto_class (DGetScheduled d) = CGetScheduled"
| "dto_class (DDeleteScheduled d) = CDeleteScheduled"
| "dto_class DNone = CNone"

section \<open>Services\<close>

text \<open>\<open>const { skip = 0, take = 1 } = args\<close>.\<close>

definition orDefault :: "int \<Rightarrow> int option \<Rightarrow> int" where
  "orDefault n x = (case x of None \<Rightarrow> n | Some v \<Rightarrow> v)"

definition svc_getScheduledMessages :: "'s platform \<Rightarrow> GetScheduledMessagesRequestDTO \<Rightarrow> ('s, TPaginatedMessages) io" where
  "svc_getScheduledMessages E args = mm_getScheduledMessages E (orDefault 0 (gs_skip args)) (orDefault 1 (gs_take args))"

definition svc_getPendingMessages :: "'s platform \<Rightarrow> GetMessagesRequestDTO \<Rightarrow> ('s, TGetMessagesReply) io" where
  "svc_getPendingMessages E args =
     mm_getPendingMessages E (gr_queueName args) (Some (gr_ns args)) (orDefault 0 (gr_skip args)) (orDefault 1 (gr_take args))"

definition svc_getAcknowledgedMessages :: "'s platform \<Rightarrow> GetMessagesRequestDTO \<Rightarrow> ('s, TGetMessagesReply) io" where
  "svc_getAcknowledgedMessages E args =
     mm_getAcknowledgedMessages E (gr_queueName args) (Some (gr_ns args)) (orDefault 0 (gr_skip args)) (orDefault 1 (gr_take args))"

definition svc_getPendingMessagesWithPriority :: "'s platform \<Rightarrow> GetMessagesRequestDTO \<Rightarrow> ('s, TPaginatedMessages) io" where
  "svc_getPendingMessagesWithPriority E args =
     mm_getPendingMessagesWithPriority E (gr_queueName args) (Some (gr_ns args)) (orDefault 0 (gr_skip args))
       (orDefault 1 (gr_take args))"

definition svc_getDeadLetteredMessages :: "'s platform \<Rightarrow> GetMessagesRequestDTO \<Rightarrow> ('s, TGetMessagesReply) io" where
  "svc_getDeadLetteredMessages E args =
     mm_getDeadLetteredMessages E (gr_queueName args) (Some (gr_ns args)) (orDefault 0 (gr_skip args)) (orDefault 1 (gr_take args))"

definition svc_deletePendingMessage :: "'s platform \<Rightarrow> DeleteMessageRequestDTO \<Rightarrow> ('s, unit) io" where
  "svc_deletePendingMessage E args =
     mm_deletePendingMessage E (dr_queueName args) (Some (dr_ns args)) (dr_sequenceId args) (dr_id args)"

definition svc_deletePendingMessageWithPriority ::
  "'s platform \<Rightarrow> DeletePendingMessageWithPriorityRequestDTO \<Rightarrow> ('s, unit) io" where
  "svc_deletePendingMessageWithPriority E args =
     mm_deletePendingMessageWithPriority E (dp_queueName args) (Some (dp_ns args)) (dp_id args)"

definition svc_deleteAcknowledgedMessage :: "'s platform \<Rightarrow> DeleteMessageRequestDTO \<Rightarrow> ('s, unit) io" where
  "svc_deleteAcknowledgedMessage E args =
     mm_deleteAcknowledgedMessage E (dr_queueName args) (Some (dr_ns args)) (dr_sequenceId args) (dr_id args)"

definition svc_deleteDeadLetteredMessage :: "'s platform \<Rightarrow> DeleteMessageRequestDTO \<Rightarrow> ('s, unit) io" where
  "svc_deleteDeadLetteredMessage E args =
     mm_deleteDeadLetterMessage E (dr_queueName args) (Some (dr_ns args)) (dr_sequenceId args) (dr_id args)"

definition svc_deleteScheduledMessage :: "'s platform \<Rightarrow> DeleteScheduledMessageRequestDTO \<Rightarrow> ('s, unit) io" where
  "svc_deleteScheduledMessage E args = mm_deleteScheduledMessage E (ds_id args)"

text \<open>A priority that was given also means that the message goes to the priority queue.\<close>

definition svc_requeueDeadLetteredMessage :: "'s platform \<Rightarrow> RequeueMessageRequestDTO \<Rightarrow> ('s, unit) io" where
  "svc_requeueDeadLetteredMessage E args =
     mm_requeueMessageFromDLQueue E (rq_queueName args) (Some (rq_ns args)) (rq_sequenceId args) (rq_id args)
       (rq_priority args \<noteq> None) (rq_priority args)"

definition svc_requeueAcknowledgedMessage :: "'s platform \<Rightarrow> RequeueMessageRequestDTO \<Rightarrow> ('s, unit) io" where
  "svc_requeueAcknowledgedMessage E args =
     mm_requeueMessageFromAcknowledgedQueue E (rq_queueName args) (Some (rq_ns args)) (rq_sequenceId args) (rq_id args)
       (rq_priority args \<noteq> None) (rq_priority args)"

definition svc_getQueues :: "'s platform \<Rightarrow> ('s, TMessageQueue list) io" where
  "svc_getQueues E = getMessageQueues E"

definition svc_purgeAcknowledgedQueue :: "'s platform \<Rightarrow> PurgeQueueRequestDTO \<Rightarrow> ('s, unit) io" where
  "svc_purgeAcknowledgedQueue E args = purgeAcknowledgedMessagesQueue E (pq_queueName args) (Some (pq_ns args))"

definition svc_purgeDeadLetterQueue :: "'s platform \<Rightarrow> PurgeQueueRequestDTO \<Rightarrow> ('s, unit) io" where
  "svc_purgeDeadLetterQueue E args = purgeDeadLetterQueue E (pq_queueName args) (Some (pq_ns args))"

definition svc_purgePendingQueue :: "'s platform \<Rightarrow> PurgeQueueRequestDTO \<Rightarrow> ('s, unit) io" where
  "svc_purgePendingQueue E args = purgeQueue E (pq_queueName args) (Some (pq_ns args))"

definition svc_purgePriorityQueue :: "'s platform \<Rightarrow> PurgeQueueRequestDTO \<Rightarrow> ('s, unit) io" where
  "svc_purgePriorityQueue E args = purgePriorityQueue E (pq_queueName args) (Some (pq_ns args))"

definition svc_purgeScheduledMessagesQueue :: "'s platform \<Rightarrow> ('s, unit) io" where
  "svc_purgeScheduledMessagesQueue E = purgeScheduledMessagesQueue E"

section \<open>Handlers\<close>

datatype routeHandler =
    GetQueuesHandler
  | GetPendingMessagesHandler
  | GetAcknowledgedMessagesHandler
  | GetPendingMessagesWithPriorityHandler
  | GetDeadLetteredMessagesHandler
  | DeletePendingMessageHandler
  | DeleteAcknowledgedMessageHandler
  | DeletePendingMessageWithPriorityHandler
  | DeleteDeadLetteredMessageHandler
  | PurgePendingMessagesHandler
  | PurgeAcknowledgedMessagesHandler
  | PurgePriorityMessagesHandler
  | PurgeDeadLetteredMessagesHandler
  | RequeueDeadLetteredMessageHandler
  | RequeueAcknowledgedMessageHandler
  | GetScheduledMessagesHandler
  | DeleteScheduledMessageHandler
  | PurgeScheduledMessagesHandler

datatype responseData =
    MessagesPage TGetMessagesReply
  | PlainPage TPaginatedMessages
  | QueueList "TMessageQueue list"

definition returnsData :: "('a \<Rightarrow> responseData) \<Rightarrow> ('s, 'a) io \<Rightarrow> ('s, responseData option) io" where
  "returnsData f m = bindM m (\<lambda>x. retM (Some (f x)))"

definition returnsVoid :: "('s, unit) io \<Rightarrow> ('s, responseData option) io" where
  "returnsVoid m = bindM m (\<lambda>_. retM None)"

text \<open>The DTO of each handler has the class its route names; a property of another object would be \<open>undefined\<close>.\<close>

definition onGet :: "(GetMessagesRequestDTO \<Rightarrow> ('s, 'a) io) \<Rightarrow> requestDTO \<Rightarrow> ('s, 'a) io" where
  "onGet f d = (case d of DGetMessages x \<Rightarrow> f x | _ \<Rightarrow> cbErr TypeError)"

definition onDelete :: "(DeleteMessageRequestDTO \<Rightarrow> ('s, 'a) io) \<Rightarrow> requestDTO \<Rightarrow> ('s, 'a) io" where
  "onDelete f d = (case d of DDeleteMessage x \<Rightarrow> f x | _ \<Rightarrow> cbErr TypeError)"

definition onPurge :: "(PurgeQueueRequestDTO \<Rightarrow> ('s, 'a) io) \<Rightarrow> requestDTO \<Rightarrow> ('s, 'a) io" where
  "onPurge f d = (case d of DPurge x \<Rightarrow> f x | _ \<Rightarrow> cbErr TypeError)"

definition onRequeue :: "(RequeueMessageRequestDTO \<Rightarrow> ('s, 'a) io) \<Rightarrow> requestDTO \<Rightarrow> ('s, 'a) io" where
  "onRequeue f d = (case d of DRequeue x \<Rightarrow> f x | _ \<Rightarrow> cbErr TypeError)"

text \<open>One definition per handler file.\<close>

definition h_GetQueues :: "'s platform \<Rightarrow> requestDTO \<Rightarrow> ('s, responseData option) io" where
  "h_GetQueues E = (\<lambda>d. returnsData QueueList (svc_getQueues E))"

definition h_GetPendingMessages :: "'s platform \<Rightarrow> requestDTO \<Rightarrow> ('s, responseData option) io" where
  "h_GetPendingMessages E = onGet (\<lambda>d. returnsData MessagesPage (svc_getPendingMessages E d))"

definition h_GetAcknowledgedMessages :: "'s platform \<Rightarrow> requestDTO \<Rightarrow> ('s, responseData option) io" where
  "h_GetAcknowledgedMessages E = onGet (\<lambda>d. returnsData MessagesPage (svc_getAcknowledgedMessages E d))"

definition h_GetPendingMessagesWithPriority :: "'s platform \<Rightarrow> requestDTO \<Rightarrow> ('s, responseData option) io" where
  "h_GetPendingMessagesWithPriority E = onGet (\<lambda>d. returnsData PlainPage (svc_getPendingMessagesWithPriority E d))"

definition h_GetDeadLetteredMessages :: "'s platform \<Rightarrow> requestDTO \<Rightarrow> ('s, responseData option) io" where
  "h_GetDeadLetteredMessages E = onGet (\<lambda>d. returnsData MessagesPage (svc_getDeadLetteredMessages E d))"

definition h_DeletePendingMessage :: "'s platform \<Rightarrow> requestDTO \<Rightarrow> ('s, responseData option) io" where
  "h_DeletePendingMessage E = onDelete (\<lambda>d. returnsVoid (svc_deletePendingMessage E d))"

definition h_DeleteAcknowledgedMessage :: "'s platform \<Rightarrow> requestDTO \<Rightarrow> ('s, responseData option) io" where
  "h_DeleteAcknowledgedMessage E = onDelete (\<lambda>d. returnsVoid (svc_deleteAcknowledgedMessage E d))"

definition h_DeleteDeadLetteredMessage :: "'s platform \<Rightarrow> requestDTO \<Rightarrow> ('s, responseData option) io" where
  "h_DeleteDeadLetteredMessage E = onDelete (\<lambda>d. returnsVoid (svc_deleteDeadLetteredMessage E d))"

definition h_PurgePendingMessages :: "'s platform \<Rightarrow> requestDTO \<Rightarrow> ('s, responseData option) io" where
  "h_PurgePendingMessages E = onPurge (\<lambda>d. returnsVoid (svc_purgePendingQueue E d))"

definition h_PurgeAcknowledgedMessages :: "'s platform \<Rightarrow> requestDTO \<Rightarrow> ('s, responseData option) io" where
  "h_PurgeAcknowledgedMessages E = onPurge (\<lambda>d. returnsVoid (svc_purgeAcknowledgedQueue E d))"

definition h_PurgePriorityMessages :: "'s platform \<Rightarrow> requestDTO \<Rightarrow> ('s, responseData option) io" where
  "h_PurgePriorityMessages E = onPurge (\<lambda>d. returnsVoid (svc_purgePriorityQueue E d))"

definition h_PurgeDeadLetteredMessages :: "'s platform \<Rightarrow> requestDTO \<Rightarrow> ('s, responseData option) io" where
  "h_PurgeDeadLetteredMessages E = onPurge (\<lambda>d. returnsVoid (svc_purgeDeadLetterQueue E d))"

definition h_RequeueDeadLetteredMessage :: "'s platform \<Rightarrow> requestDTO \<Rightarrow> ('s, responseData option) io" where
  "h_RequeueDeadLetteredMessage E = onRequeue (\<lambda>d. returnsVoid (svc_requeueDeadLetteredMessage E d))"

definition h_RequeueAcknowledgedMessage :: "'s platform \<Rightarrow> requestDTO \<Rightarrow> ('s, responseData option) io" where
  "h_RequeueAcknowledgedMessage E = onRequeue (\<lambda>d. returnsVoid (svc_requeueAcknowledgedMessage E d))"

definition h_DeletePendingMessageWithPriority :: "'s platform \<Rightarrow> requestDTO \<Rightarrow> ('s, responseData option) io" where
  "h_DeletePendingMessageWithPriority E = (\<lambda>d.
     case d of DDeleteWithPriority x \<Rightarrow> returnsVoid (svc_deletePendingMessageWithPriority E x) | _ \<Rightarrow> cbErr TypeError)"

definition h_GetScheduledMessages :: "'s platform \<Rightarrow> requestDTO \<Rightarrow> ('s, responseData option) io" where
  "h_GetScheduledMessages E = (\<lambda>d.
     case d of DGetScheduled x \<Rightarrow> returnsData PlainPage (svc_getScheduledMessages E x) | _ \<Rightarrow> cbErr TypeError)"

definition h_DeleteScheduledMessage :: "'s platform \<Rightarrow> requestDTO \<Rightarrow> ('s, responseData option) io" where
  "h_DeleteScheduledMessage E = (\<lambda>d.
     case d of DDeleteScheduled x \<Rightarrow> returnsVoid (svc_deleteScheduledMessage E x) | _ \<Rightarrow> cbErr TypeError)"

definition h_PurgeScheduledMessages :: "'s platform \<Rightarrow> requestDTO \<Rightarrow> ('s, responseData option) io" where
  "h_PurgeScheduledMessages E = (\<lambda>d. returnsVoid (svc_purgeScheduledMessagesQueue E))"

primrec handle :: "'s platform \<Rightarrow> routeHandler \<Rightarrow> requestDTO \<Rightarrow> ('s, responseData option) io" where
  "handle E GetQueuesHandler = h_GetQueues E"
| "handle E GetPendingMessagesHandler = h_GetPendingMessages E"
| "handle E GetAcknowledgedMessagesHandler = h_GetAcknowledgedMessages E"
| "handle E GetPendingMessagesWithPriorityHandler = h_GetPendingMessagesWithPriority E"
| "handle E GetDeadLetteredMessagesHandler = h_GetDeadLetteredMessages E"
| "handle E DeletePendingMessageHandler = h_DeletePendingMessage E"
| "handle E DeleteAcknowledgedMessageHandler = h_DeleteAcknowledgedMessage E"
| "handle E DeleteDeadLetteredMessageHandler = h_DeleteDeadLetteredMessage E"
| "handle E PurgePendingMessagesHandler = h_PurgePendingMessages E"
| "handle E PurgeAcknowledgedMessagesHandler = h_PurgeAcknowledgedMessages E"
| "handle E PurgePriorityMessagesHandler = h_PurgePriorityMessages E"
| "handle E PurgeDeadLetteredMessagesHandler = h_PurgeDeadLetteredMessages E"
| "handle E RequeueDeadLetteredMessageHandler = h_RequeueDeadLetteredMessage E"
| "handle E RequeueAcknowledgedMessageHandler = h_RequeueAcknowledgedMessage E"
| "handle E DeletePendingMessageWithPriorityHandler = h_DeletePendingMessageWithPriority E"
| "handle E GetScheduledMessagesHandler = h_GetScheduledMessages E"
| "handle E DeleteScheduledMessageHandler = h_DeleteScheduledMessage E"
| "handle E PurgeScheduledMessagesHandler = h_PurgeScheduledMessages E"

lemmas handler_defs = h_GetQueues_def h_GetPendingMessages_def h_GetAcknowledgedMessages_def
  h_GetPendingMessagesWithPriority_def h_GetDeadLetteredMessages_def h_DeletePendingMessage_def
  h_DeleteAcknowledgedMessage_def h_DeleteDeadLetteredMessage_def h_PurgePendingMessages_def
  h_PurgeAcknowledgedMessages_def h_PurgePriorityMessages_def h_PurgeDeadLetteredMessages_def
  h_RequeueDeadLetteredMessage_def h_RequeueAcknowledgedMessage_def h_DeletePendingMessageWithPriority_def
  h_GetScheduledMessages_def h_DeleteScheduledMessage_def h_PurgeScheduledMessages_def

section \<open>Routes\<close>

datatype ERouteControllerActionPayload = PAYLOAD_QUERY | PAYLOAD_BODY | PAYLOAD_PATH

datatype ERouteControllerActionMethod = METHOD_GET | METHOD_POST | METHOD_DELETE

datatype responseClass = GetQueuesResponse | GetPendingMessagesResponse | GetAcknowledgedMessagesResponse
  | GetDeadLetteredMessagesResponse | GetPendingMessagesWithPriorityResponse | GetScheduledMessagesResponse | NoContentResponse

record TRouteControllerAction =
  ra_path :: string
  ra_method :: ERouteControllerActionMethod
  ra_payload :: "ERouteControllerActionPayload list"
  ra_Handler :: routeHandler
  ra_RequestDTO :: dtoClass
  ra_ResponseDTO :: responseClass

record TRouteController =
  ro_prefix :: string
  ro_actions :: "TRouteControllerAction list"

abbreviation route where
  "route p m pl h c r \<equiv>
     \<lparr>ra_path = p, ra_method = m, ra_payload = pl, ra_Handler = h, ra_RequestDTO = c, ra_ResponseDTO = r\<rparr>"

abbreviation pathQuery :: "ERouteControllerActionPayload list" where
  "pathQuery \<equiv> [PAYLOAD_PATH, PAYLOAD_QUERY]"

definition queuesController :: TRouteController where
  "queuesController = \<lparr>ro_prefix = ''/queues'',
     ro_actions = [route ''/'' METHOD_GET [] GetQueuesHandler CNone GetQueuesResponse]\<rparr>"

definition messagesController :: TRouteController where
  "messagesController = \<lparr>ro_prefix = ''/ns/:ns/queues/:queueName'',
     ro_actions =
      [route ''/pending-messages'' METHOD_GET pathQuery GetPendingMessagesHandler CGetMessages GetPendingMessagesResponse,
       route ''/acknowledged-messages'' METHOD_GET pathQuery GetAcknowledgedMessagesHandler CGetMessages
         GetAcknowledgedMessagesResponse,
       route ''/pending-messages-with-priority'' METHOD_GET pathQuery GetPendingMessagesWithPriorityHandler CGetMessages
         GetPendingMessagesWithPriorityResponse,
       route ''/dead-lettered-messages'' METHOD_GET pathQuery GetDeadLetteredMessagesHandler CGetMessages
         GetDeadLetteredMessagesResponse,
       route ''/pending-messages/:id'' METHOD_DELETE pathQuery DeletePendingMessageHandler CDeleteMessage NoContentResponse,
       route ''/acknowledged-messages/:id'' METHOD_DELETE pathQuery DeleteAcknowledgedMessageHandler CDeleteMessage
         NoContentResponse,
       route ''/pending-messages-with-priority/:id'' METHOD_DELETE pathQuery DeletePendingMessageWithPriorityHandler
         CDeleteWithPriority NoContentResponse,
       route ''/dead-lettered-messages/:id'' METHOD_DELETE pathQuery DeleteDeadLetteredMessageHandler CDeleteMessage
         NoContentResponse,
       route ''/pending-messages'' METHOD_DELETE pathQuery PurgePendingMessagesHandler CPurge NoContentResponse,
       route ''/acknowledged-messages'' METHOD_DELETE pathQuery PurgeAcknowledgedMessagesHandler CPurge NoContentResponse,
       route ''/pending-messages-with-priority'' METHOD_DELETE pathQuery PurgePriorityMessagesHandler CPurge NoContentResponse,
       route ''/dead-lettered-messages'' METHOD_DELETE pathQuery PurgeDeadLetteredMessagesHandler CPurge NoContentResponse,
       route ''/dead-lettered-messages/:id/requeue'' METHOD_POST pathQuery RequeueDeadLetteredMessageHandler CRequeue
         NoContentResponse,
       route ''/acknowledged-messages/:id/requeue'' METHOD_POST pathQuery RequeueAcknowledgedMessageHandler CRequeue
         NoContentResponse]\<rparr>"

definition scheduledMessagesController :: TRouteController where
  "scheduledMessagesController = \<lparr>ro_prefix = ''/scheduled-messages'',
     ro_actions =
      [route ''/'' METHOD_GET [PAYLOAD_QUERY] GetScheduledMessagesHandler CGetScheduled GetScheduledMessagesResponse,
       route ''/:id'' METHOD_DELETE pathQuery DeleteScheduledMessageHandler CDeleteScheduled NoContentResponse,
       route ''/'' METHOD_DELETE [] PurgeScheduledMessagesHandler CNone NoContentResponse]\<rparr>"

text \<open>The routers nest: prefix of the application, of the controller, path of the action.\<close>

definition getControllerRouter :: "string \<Rightarrow> TRouteController \<Rightarrow> (string \<times> TRouteControllerAction) list" where
  "getControllerRouter pre c = map (\<lambda>a. (pre @ ro_prefix c @ ra_path a, a)) (ro_actions c)"

definition getApplicationRouter :: "TRouteController list \<Rightarrow> (string \<times> TRouteControllerAction) list" where
  "getApplicationRouter cs = concat (map (getControllerRouter ''/api'') cs)"

definition applicationRoutes :: "(string \<times> TRouteControllerAction) list" where
  "applicationRoutes = getApplicationRouter [queuesController, messagesController, scheduledMessagesController]"

section \<open>Handling a request\<close>

record httpRequest =
  req_params :: "(string \<times> string) list"
  req_query :: "(string \<times> string) list"

datatype responseBody = NoBody | Data responseData | ErrorBody int string

record httpResponse =
  res_status :: int
  res_body :: responseBody

text \<open>What class-transformer and class-validator make of the members of a request, and whether they accept a
  response.\<close>

record validator =
  v_request :: "dtoClass \<Rightarrow> (string \<times> string) list \<Rightarrow> requestDTO option"
  v_response :: "responseClass \<Rightarrow> httpResponse \<Rightarrow> bool"

text \<open>\<open>{...plain, ...xs}\<close>.\<close>

definition spread :: "(string \<times> string) list \<Rightarrow> (string \<times> string) list \<Rightarrow> (string \<times> string) list" where
  "spread obj xs = fold (\<lambda>(k, v). AList.update k v) xs obj"

text \<open>\<open>ctx.body\<close> is the body of the response, which is not there yet: it adds nothing.\<close>

fun addPayload :: "httpRequest \<Rightarrow> ERouteControllerActionPayload \<Rightarrow> (string \<times> string) list \<Rightarrow> (string \<times> string) list" where
  "addPayload rq PAYLOAD_PATH obj = spread obj (req_params rq)"
| "addPayload rq PAYLOAD_QUERY obj = spread obj (req_query rq)"
| "addPayload rq PAYLOAD_BODY obj = obj"

definition plainRequest :: "ERouteControllerActionPayload list \<Rightarrow> httpRequest \<Rightarrow> (string \<times> string) list" where
  "plainRequest payload rq = fold (addPayload rq) payload []"

text \<open>An object without members is not validated.\<close>

fun emptyDTO :: "dtoClass \<Rightarrow> requestDTO option" where
  "emptyDTO CGetScheduled = Some (DGetScheduled \<lparr>gs_skip = None, gs_take = None\<rparr>)"
| "emptyDTO CNone = Some DNone"
| "emptyDTO _ = None"

definition validateDTO :: "validator \<Rightarrow> dtoClass \<Rightarrow> (string \<times> string) list \<Rightarrow> requestDTO option" where
  "validateDTO V c obj =
     (case (if obj = [] then emptyDTO c else None) of
        Some d \<Rightarrow> Some d
      | None \<Rightarrow> v_request V c obj)"

datatype mwError = ValidationError | Failure exn

definition RequestValidator :: "validator \<Rightarrow> TRouteControllerAction \<Rightarrow> httpRequest \<Rightarrow> mwError + requestDTO" where
  "RequestValidator V a rq =
     (case validateDTO V (ra_RequestDTO a) (plainRequest (ra_payload a) rq) of
        None \<Rightarrow> Inl ValidationError
      | Some d \<Rightarrow> Inr d)"

definition ResponseValidator :: "validator \<Rightarrow> TRouteControllerAction \<Rightarrow> httpResponse \<Rightarrow> mwError + httpResponse" where
  "ResponseValidator V a r = (if v_response V (ra_ResponseDTO a) r then Inr r else Inl ValidationError)"

definition respond :: "responseData option \<Rightarrow> httpResponse" where
  "respond x =
     (case x of
        Some d \<Rightarrow> \<lparr>res_status = 200, res_body = Data d\<rparr>
      | None \<Rightarrow> \<lparr>res_status = 204, res_body = NoBody\<rparr>)"

definition getActionRouter ::
  "'s platform \<Rightarrow> validator \<Rightarrow> TRouteControllerAction \<Rightarrow> httpRequest \<Rightarrow> 's \<Rightarrow> (mwError + httpResponse) \<times> 's" where
  "getActionRouter E V a rq s =
     (case RequestValidator V a rq of
        Inl e \<Rightarrow> (Inl e, s)
      | Inr d \<Rightarrow>
          (case handle E (ra_Handler a) d s of
             (Inl e, s') \<Rightarrow> (Inl (Failure e), s')
           | (Inr x, s') \<Rightarrow> (ResponseValidator V a (respond x), s')))"

definition errorHandler :: "(mwError + httpResponse) \<times> 's \<Rightarrow> (exn + httpResponse) \<times> 's" where
  "errorHandler x =
     (case x of
        (Inr r, s) \<Rightarrow> (Inr r, s)
      | (Inl ValidationError, s) \<Rightarrow> (Inr \<lparr>res_status = 422, res_body = ErrorBody 422 ''Validation error''\<rparr>, s)
      | (Inl (Failure (Cb e)), s) \<Rightarrow> (Inr \<lparr>res_status = 500, res_body = ErrorBody 500 ''Internal server error''\<rparr>, s)
      | (Inl (Failure e), s) \<Rightarrow> (Inl e, s))"

definition serve ::
  "'s platform \<Rightarrow> validator \<Rightarrow> TRouteControllerAction \<Rightarrow> httpRequest \<Rightarrow> 's \<Rightarrow> (exn + httpResponse) \<times> 's" where
  "serve E V a rq s = errorHandler (getActionRouter E V a rq s)"

section \<open>Life of the server\<close>

text \<open>What the constructor is given: nothing usable, or a configuration with the monitor enabled or not.\<close>

datatype monitorConfig = FalsyConfig | NoObjectConfig | MonitorConfig bool

record monitorServer =
  ms_powerManager :: powerManager
  ms_workerRunner :: workerRunner
  ms_apiServer :: bool
  ms_subscribeClient :: bool

definition newMonitorServer :: monitorServer where
  "newMonitorServer = \<lparr>ms_powerManager = newPowerManager, ms_workerRunner = newWorkerRunner, ms_apiServer = False,
     ms_subscribeClient = False\<rparr>"

definition bootstrap :: "monitorConfig \<Rightarrow> unit result \<Rightarrow> unit result" where
  "bootstrap cfg conn =
     (case cfg of
        FalsyConfig \<Rightarrow> Inl (ArgumentError ''Configuration object is required.'')
      | NoObjectConfig \<Rightarrow> Inl (ArgumentError ''Invalid argument type'')
      | MonitorConfig enabled \<Rightarrow>
          if \<not> enabled then Inl (ConfigurationError ''RedisSMQ monitor is not enabled. Exiting...'') else conn)"

text \<open>\<open>listen\<close>: \<open>conn1\<close> and \<open>conn2\<close> are the outcomes of the two connections, \<open>files\<close> that of reading the directory of
  workers, \<open>bound\<close> whether the port could be bound, which is when the callback commits the transition.\<close>

definition ms_listen ::
  "monitorConfig \<Rightarrow> unit result \<Rightarrow> err + string list \<Rightarrow> unit result \<Rightarrow> bool \<Rightarrow> monitorServer \<Rightarrow> unit result \<times> monitorServer" where
  "ms_listen cfg conn1 files conn2 bound ms =
     (case goingUp (ms_powerManager ms) of
        Inl e \<Rightarrow> (Inl e, ms)
      | Inr pm \<Rightarrow>
          let ms1 = ms\<lparr>ms_powerManager := pm\<rparr> in
          case bootstrap cfg conn1 of
            Inl e \<Rightarrow> (Inl e, ms1)
          | Inr _ \<Rightarrow>
              let ms2 = ms1\<lparr>ms_apiServer := True\<rparr> in
              case wr_run files (ms_workerRunner ms2) of
                Inl e \<Rightarrow> (Inl e, ms2)
              | Inr (Some e, wr) \<Rightarrow> (Inl e, ms2\<lparr>ms_workerRunner := wr\<rparr>)
              | Inr (None, wr) \<Rightarrow>
                  let ms3 = ms2\<lparr>ms_workerRunner := wr\<rparr> in
                  case conn2 of
                    Inl e \<Rightarrow> (Inl e, ms3)
                  | Inr _ \<Rightarrow>
                      let ms4 = ms3\<lparr>ms_subscribeClient := True\<rparr> in
                      if bound then
                        (case commit pm of
                           Inl e \<Rightarrow> (Inl e, ms4)
                         | Inr pm' \<Rightarrow> (Inr (), ms4\<lparr>ms_powerManager := pm'\<rparr>))
                      else (Inr (), ms4))"

text \<open>A message on the channel \<open>stats\<close> is parsed and emitted to the sockets.\<close>

definition ms_onMessage :: "rstr \<Rightarrow> json result" where
  "ms_onMessage message = (case message of Json j \<Rightarrow> Inr j | Str t \<Rightarrow> Inl SyntaxError)"

text \<open>\<open>quit\<close>; the result lists the workers that were killed.\<close>

definition ms_quit :: "monitorServer \<Rightarrow> string list result \<times> monitorServer" where
  "ms_quit ms =
     (case goingDown (ms_powerManager ms) of
        Inl e \<Rightarrow> (Inl e, ms)
      | Inr pm \<Rightarrow>
          let ms1 = ms\<lparr>ms_powerManager := pm\<rparr> in
          if \<not> ms_apiServer ms1 \<or> \<not> ms_subscribeClient ms1 then (Inl (PanicError ''Expected a non null value.''), ms1)
          else
            (case wr_shutdown (ms_workerRunner ms1) of
               Inl e \<Rightarrow> (Inl e, ms1)
             | Inr (killed, wr) \<Rightarrow>
                 (case commit pm of
                    Inl e \<Rightarrow> (Inl e, ms1\<lparr>ms_workerRunner := wr\<rparr>)
                  | Inr pm' \<Rightarrow> (Inr killed, \<lparr>ms_powerManager = pm', ms_workerRunner = wr, ms_apiServer = False,
                      ms_subscribeClient = False\<rparr>))))"

section \<open>Facts about the routes\<close>

text \<open>The handlers that answer with data.\<close>

primrec answers :: "routeHandler \<Rightarrow> bool" where
  "answers GetQueuesHandler = True"
| "answers GetPendingMessagesHandler = True"
| "answers GetAcknowledgedMessagesHandler = True"
| "answers GetPendingMessagesWithPriorityHandler = True"
| "answers GetDeadLetteredMessagesHandler = True"
| "answers DeletePendingMessageHandler = False"
| "answers DeleteAcknowledgedMessageHandler = False"
| "answers DeletePendingMessageWithPriorityHandler = False"
| "answers DeleteDeadLetteredMessageHandler = False"
| "answers PurgePendingMessagesHandler = False"
| "answers PurgeAcknowledgedMessagesHandler = False"
| "answers PurgePriorityMessagesHandler = False"
| "answers PurgeDeadLetteredMessagesHandler = False"
| "answers RequeueDeadLetteredMessageHandler = False"
| "answers RequeueAcknowledgedMessageHandler = False"
| "answers GetScheduledMessagesHandler = True"
| "answers DeleteScheduledMessageHandler = False"
| "answers PurgeScheduledMessagesHandler = False"

lemma returnsData_Inr: "returnsData f m s = (Inr x, s') \<Longrightarrow> x \<noteq> None"
  by (auto simp: returnsData_def io_iff)

lemma returnsVoid_Inr: "returnsVoid m s = (Inr x, s') \<Longrightarrow> x = None"
  by (auto simp: returnsVoid_def io_iff)

lemma handle_answers: "handle E h d s = (Inr x, s') \<Longrightarrow> x \<noteq> None \<longleftrightarrow> answers h"
  by (cases h; cases d)
    (auto simp: handler_defs onGet_def onDelete_def onPurge_def onRequeue_def cbErr_def dest: returnsData_Inr returnsVoid_Inr)

lemma routes_method: "(p, a) \<in> set applicationRoutes \<Longrightarrow> ra_method a = METHOD_GET \<longleftrightarrow> answers (ra_Handler a)"
  by (auto simp: applicationRoutes_def getApplicationRouter_def getControllerRouter_def queuesController_def
      messagesController_def scheduledMessagesController_def)

text \<open>Segments of a pattern; one that starts with a colon is a parameter.\<close>

definition segments :: "string \<Rightarrow> string list" where
  "segments p = filter (\<lambda>w. w \<noteq> []) (splitOn ''/'' p)"

definition isParam :: "string \<Rightarrow> bool" where
  "isParam w \<longleftrightarrow> (case w of [] \<Rightarrow> False | c # _ \<Rightarrow> c = CHR '':'')"

text \<open>Two patterns that some path would match both.\<close>

definition overlap :: "string \<Rightarrow> string \<Rightarrow> bool" where
  "overlap p q \<longleftrightarrow> length (segments p) = length (segments q) \<and>
     list_all (\<lambda>(x, y). x = y \<or> isParam x \<or> isParam y) (zip (segments p) (segments q))"

fun pairwise :: "('a \<Rightarrow> 'a \<Rightarrow> bool) \<Rightarrow> 'a list \<Rightarrow> bool" where
  "pairwise R [] = True"
| "pairwise R (x # xs) = (list_all (R x) xs \<and> pairwise R xs)"

section \<open>Properties\<close>

text \<open>The table of routes: each of the eighteen handlers is reached by exactly one route, and no request can
  match two routes of its method.\<close>

theorem routes_unambiguous:
  "distinct (map (\<lambda>(p, a). ra_Handler a) applicationRoutes) \<and> h \<in> set (map (\<lambda>(p, a). ra_Handler a) applicationRoutes) \<and>
   pairwise (\<lambda>(p, a) (q, b). ra_method a \<noteq> ra_method b \<or> \<not> overlap p q) applicationRoutes"
proof (intro conjI)
  show "distinct (map (\<lambda>(p, a). ra_Handler a) applicationRoutes)" by code_simp
  show "h \<in> set (map (\<lambda>(p, a). ra_Handler a) applicationRoutes)"
    by (cases h) (simp_all add: applicationRoutes_def getApplicationRouter_def getControllerRouter_def queuesController_def
      messagesController_def scheduledMessagesController_def)
  show "pairwise (\<lambda>(p, a) (q, b). ra_method a \<noteq> ra_method b \<or> \<not> overlap p q) applicationRoutes" by code_simp
qed

text \<open>Every response has one of four forms. 200 with the data, only for \<open>GET\<close> routes, and 204 without a body, only
  for the others, when the handler succeeded; 422 when the request was refused, with Redis untouched, or when the
  validation of the response failed; 500 when the handler reported an error.\<close>

theorem http_outcomes:
  assumes "(p, a) \<in> set applicationRoutes" and "serve E V a rq s = (Inr r, s')"
  shows "(\<exists>d x. RequestValidator V a rq = Inr d \<and> ra_method a = METHOD_GET \<and> handle E (ra_Handler a) d s = (Inr (Some x), s') \<and>
       r = \<lparr>res_status = 200, res_body = Data x\<rparr>) \<or>
    (\<exists>d. RequestValidator V a rq = Inr d \<and> ra_method a \<noteq> METHOD_GET \<and> handle E (ra_Handler a) d s = (Inr None, s') \<and>
       r = \<lparr>res_status = 204, res_body = NoBody\<rparr>) \<or>
    (r = \<lparr>res_status = 422, res_body = ErrorBody 422 ''Validation error''\<rparr> \<and>
       (RequestValidator V a rq = Inl ValidationError \<and> s' = s \<or>
        (\<exists>d x. RequestValidator V a rq = Inr d \<and> handle E (ra_Handler a) d s = (Inr x, s') \<and>
           \<not> v_response V (ra_ResponseDTO a) (respond x)))) \<or>
    (\<exists>d e. RequestValidator V a rq = Inr d \<and> handle E (ra_Handler a) d s = (Inl (Cb e), s') \<and>
       r = \<lparr>res_status = 500, res_body = ErrorBody 500 ''Internal server error''\<rparr>)"
proof (cases "RequestValidator V a rq")
  case (Inl e)
  then have "e = ValidationError" by (auto simp: RequestValidator_def split: option.splits)
  with Inl assms(2) show ?thesis by (simp add: serve_def getActionRouter_def errorHandler_def)
next
  case (Inr d)
  obtain y s1 where h: "handle E (ra_Handler a) d s = (y, s1)" by fastforce
  show ?thesis
  proof (cases y)
    case (Inl e)
    with Inr h assms(2) show ?thesis
      by (cases e) (auto simp: serve_def getActionRouter_def errorHandler_def)
  next
    case y: (Inr x)
    with Inr h assms(2) have s1: "s1 = s'"
      by (auto simp: serve_def getActionRouter_def errorHandler_def ResponseValidator_def split: if_splits)
    have m: "x \<noteq> None \<longleftrightarrow> ra_method a = METHOD_GET"
      using handle_answers [of E "ra_Handler a" d s x s1] routes_method [OF assms(1)] h y by simp
    show ?thesis
    proof (cases "v_response V (ra_ResponseDTO a) (respond x)")
      case False
      with Inr h y assms(2) s1 show ?thesis
        by (simp add: serve_def getActionRouter_def errorHandler_def ResponseValidator_def)
    next
      case True
      with Inr h y assms(2) s1 m show ?thesis
        by (cases x) (auto simp: serve_def getActionRouter_def errorHandler_def ResponseValidator_def respond_def)
    qed
  qed
qed

text \<open>C26. Requeuing over HTTP, from the route to Redis: a request for the message at the position it names is
  answered with 204 after the message has left the dead-letter queue and joined, as for its first delivery, the
  priority queue if the request has a priority and the plain queue otherwise; a request that names another message
  gets 500 and changes nothing.\<close>

theorem http_requeue_dead_lettered:
  assumes "smq_live E view" and "(p, a) \<in> set applicationRoutes" and "ra_Handler a = RequeueDeadLetteredMessageHandler"
    and "RequestValidator V a rq = Inr (DRequeue d)" and "v_response V NoContentResponse (respond None)"
    and "rq_sequenceId d = int i" and "\<forall>prio. rq_priority d = Some prio \<longrightarrow> prio \<in> set MessagePriority"
    and "msgs_at (view s) (qkey KEY_QUEUE_DL (rq_ns d) (rq_queueName d)) ms"
  shows "\<exists>s'. if i < length ms \<and> uuid (ms ! i) = rq_id d
    then serve E V a rq s = (Inr \<lparr>res_status = 204, res_body = NoBody\<rparr>, s') \<and>
      enqueued E \<lparr>q_name = rq_queueName d, q_ns = rq_ns d\<rparr>
        (requeueForm (rq_ns d) (rq_queueName d) (rq_priority d \<noteq> None) (rq_priority d) (ms ! i)) (rq_priority d \<noteq> None)
        (set_list (qkey KEY_QUEUE_DL (rq_ns d) (rq_queueName d))
          (remove1 (toString (ms ! i)) (lists (view s) (qkey KEY_QUEUE_DL (rq_ns d) (rq_queueName d)))) (view s)) (view s')
    else serve E V a rq s = (Inr \<lparr>res_status = 500, res_body = ErrorBody 500 ''Internal server error''\<rparr>, s') \<and>
      view s' = view s"
proof -
  let ?k = "qkey KEY_QUEUE_DL (rq_ns d) (rq_queueName d)" and ?b = "rq_priority d \<noteq> None"
  let ?m = "requeueListMessage E (rq_queueName d) (Some (rq_ns d)) ?k (int i) (rq_id d) ?b (rq_priority d)"
  have pv: "prio_valid ?b (rq_priority d)" using assms(7) by (auto simp: prio_valid_def split: option.splits)
  have rd: "ra_ResponseDTO a = NoContentResponse"
    using assms(2,3) by (auto simp: applicationRoutes_def getApplicationRouter_def getControllerRouter_def queuesController_def
      messagesController_def scheduledMessagesController_def)
  have h: "handle E (ra_Handler a) (DRequeue d) s = returnsVoid ?m s"
    by (simp add: assms(3,6) h_RequeueDeadLetteredMessage_def onRequeue_def svc_requeueDeadLetteredMessage_def mm_requeueMessageFromDLQueue_def
        requeueMessageFromDLQueue_def smq_keys)
  show ?thesis
  proof (cases "i < length ms \<and> uuid (ms ! i) = rq_id d")
    case True
    then obtain s' where "?m s = (Inr (), s')" and "enqueued E \<lparr>q_name = rq_queueName d, q_ns = rq_ns d\<rparr>
        (requeueForm (rq_ns d) (rq_queueName d) ?b (rq_priority d) (ms ! i)) ?b
        (set_list ?k (remove1 (toString (ms ! i)) (lists (view s) ?k)) (view s)) (view s')"
      using smq_live.requeueListMessage_live [OF assms(1,8) pv, of i "rq_id d" "rq_queueName d" "Some (rq_ns d)"] by auto
    with True h assms(4,5) rd show ?thesis
      by (intro exI [of _ s'])
        (simp add: serve_def getActionRouter_def errorHandler_def returnsVoid_def bindM_def retM_def ResponseValidator_def respond_def)
  next
    case False
    then obtain s' e where "?m s = (Inl (Cb e), s')" "view s' = view s"
      using smq_live.requeueListMessage_missing [OF assms(1,8), of i "rq_id d" "rq_queueName d" "Some (rq_ns d)" ?b "rq_priority d"]
      by auto
    with False h assms(4) show ?thesis
      by (intro exI [of _ s'])
        (simp add: serve_def getActionRouter_def errorHandler_def returnsVoid_def bindM_def)
  qed
qed


text \<open>Life of the monitor server. With the monitor enabled, the connections made and the port bound it is up,
  with one worker process per worker file; quitting kills them all and leaves the server as it was created, ready
  to listen again. A first \<open>listen\<close> that fails leaves the transition pending for good: from then on both \<open>listen\<close>
  and \<open>quit\<close> are refused.\<close>

theorem monitor_lifecycle:
  "(case ms_listen (MonitorConfig True) (Inr ()) (Inr files) (Inr ()) True newMonitorServer of (r, ms) \<Rightarrow>
      r = Inr () \<and> isRunning (ms_powerManager ms) \<and> wr_workers (ms_workerRunner ms) = filter isWorkerFile files \<and>
      (\<exists>killed. ms_quit ms = (Inr killed, newMonitorServer) \<and> mset killed = mset (filter isWorkerFile files))) \<and>
   (bootstrap cfg conn = Inl e \<longrightarrow>
      (case ms_listen cfg conn files' sub bound newMonitorServer of (r, ms) \<Rightarrow>
        r = Inl e \<and> (\<exists>e1. ms_listen cfg' conn' files'' sub' bound' ms = (Inl (PowerManagerError e1), ms)) \<and>
        (\<exists>e2. ms_quit ms = (Inl (PowerManagerError e2), ms))))"
proof (intro conjI impI)
  have "mset (shutdownFn ws) = mset ws" for ws
    by (induction ws rule: shutdownFn.induct) (auto simp: mset_butlast_last [symmetric])
  then show "case ms_listen (MonitorConfig True) (Inr ()) (Inr files) (Inr ()) True newMonitorServer of (r, ms) \<Rightarrow>
      r = Inr () \<and> isRunning (ms_powerManager ms) \<and> wr_workers (ms_workerRunner ms) = filter isWorkerFile files \<and>
      (\<exists>killed. ms_quit ms = (Inr killed, newMonitorServer) \<and> mset killed = mset (filter isWorkerFile files))"
    by (simp add: ms_listen_def newMonitorServer_def bootstrap_def wr_run_def newWorkerRunner_def ms_quit_def wr_shutdown_def)
next
  assume "bootstrap cfg conn = Inl e"
  then show "case ms_listen cfg conn files' sub bound newMonitorServer of (r, ms) \<Rightarrow>
        r = Inl e \<and> (\<exists>e1. ms_listen cfg' conn' files'' sub' bound' ms = (Inl (PowerManagerError e1), ms)) \<and>
        (\<exists>e2. ms_quit ms = (Inl (PowerManagerError e2), ms))"
    by (simp add: ms_listen_def newMonitorServer_def ms_quit_def pm_starting_def pm_down_def goingUp_def goingDown_def switchState_def)
qed

section \<open>Examples\<close>

text \<open>A validator for two of the classes, and the requests it accepts.\<close>

definition demo_validator :: validator where
  "demo_validator = \<lparr>
     v_request = (\<lambda>c obj.
       case (map_of obj ''ns'', map_of obj ''queueName'') of
         (Some ns, Some q) \<Rightarrow>
           (case c of
              CRequeue \<Rightarrow>
                (case (map_of obj ''id'', Option.bind (map_of obj ''sequenceId'') js_Number) of
                   (Some i, Some n) \<Rightarrow> Some (DRequeue \<lparr>rq_ns = ns, rq_queueName = q, rq_id = i, rq_sequenceId = int n,
                     rq_priority = map_option int (Option.bind (map_of obj ''priority'') js_Number)\<rparr>)
                 | _ \<Rightarrow> None)
            | CGetMessages \<Rightarrow> Some (DGetMessages \<lparr>gr_ns = ns, gr_queueName = q,
                gr_skip = map_option int (Option.bind (map_of obj ''skip'') js_Number),
                gr_take = map_option int (Option.bind (map_of obj ''take'') js_Number)\<rparr>)
            | _ \<Rightarrow> None)
       | _ \<Rightarrow> None),
     v_response = (\<lambda>_ _. True)\<rparr>"

definition requeueRoute :: TRouteControllerAction where
  "requeueRoute = ro_actions messagesController ! 12"

definition pendingRoute :: TRouteControllerAction where
  "pendingRoute = ro_actions messagesController ! 0"

lemma demo_routes:
  "(''/api/ns/:ns/queues/:queueName/dead-lettered-messages/:id/requeue'', requeueRoute) \<in> set applicationRoutes"
  "(''/api/ns/:ns/queues/:queueName/pending-messages'', pendingRoute) \<in> set applicationRoutes"
  "ra_Handler requeueRoute = RequeueDeadLetteredMessageHandler" "ra_Handler pendingRoute = GetPendingMessagesHandler"
  by (simp_all add: applicationRoutes_def getApplicationRouter_def getControllerRouter_def queuesController_def
      messagesController_def scheduledMessagesController_def requeueRoute_def pendingRoute_def)

definition requeueRequest :: httpRequest where
  "requeueRequest = \<lparr>req_params = [(''ns'', ''default''), (''queueName'', ''orders''), (''id'', ''a'')],
     req_query = [(''sequenceId'', ''0''), (''priority'', ''2'')]\<rparr>"

definition emptyPageRequest :: httpRequest where
  "emptyPageRequest = \<lparr>req_params = [(''ns'', ''default''), (''queueName'', ''orders'')], req_query = [(''take'', ''0'')]\<rparr>"

abbreviation demo_requeue :: RequeueMessageRequestDTO where
  "demo_requeue \<equiv> \<lparr>rq_ns = ''default'', rq_queueName = ''orders'', rq_id = ''a'', rq_sequenceId = 0, rq_priority = Some 2\<rparr>"

abbreviation demo_page :: GetMessagesRequestDTO where
  "demo_page \<equiv> \<lparr>gr_ns = ''default'', gr_queueName = ''orders'', gr_skip = None, gr_take = Some 0\<rparr>"

lemma demo_requests:
  "RequestValidator demo_validator requeueRoute requeueRequest = Inr (DRequeue demo_requeue)"
  "RequestValidator demo_validator pendingRoute emptyPageRequest = Inr (DGetMessages demo_page)"
  by code_simp+

theorem http_requeue_dead_lettered_witness:
  "\<exists>s'. serve (mem_platform 0) demo_validator requeueRoute requeueRequest
      (demo_mem (qkey KEY_QUEUE_DL ''default'' ''orders'') [demo_msg ''a'']) =
    (Inr \<lparr>res_status = 204, res_body = NoBody\<rparr>, s')"
proof -
  let ?k = "qkey KEY_QUEUE_DL ''default'' ''orders''"
  have ms: "msgs_at (mem_view (demo_mem ?k [demo_msg ''a''])) (qkey KEY_QUEUE_DL (rq_ns demo_requeue) (rq_queueName demo_requeue))
      [demo_msg ''a'']"
    using demo_mem_at [of "[demo_msg ''a'']" ?k] by simp
  have r: "v_response demo_validator NoContentResponse (respond None)" by (simp add: demo_validator_def)
  have i: "rq_sequenceId demo_requeue = int 0" by simp
  have pr: "\<forall>prio. rq_priority demo_requeue = Some prio \<longrightarrow> prio \<in> set MessagePriority" by (simp add: MessagePriority_def)
  have u: "uuid (demo_msg ''a'') = ''a''" by (simp add: demo_msg_def newMessage_def)
  from http_requeue_dead_lettered [where E = "mem_platform 0" and view = mem_view and a = requeueRoute and d = demo_requeue and
      i = 0 and ms = "[demo_msg ''a'']" and s = "demo_mem ?k [demo_msg ''a'']" and V = demo_validator and rq = requeueRequest,
      OF mem_platform_live demo_routes(1,3) demo_requests(1) r i pr ms] u
  show ?thesis by auto
qed


theorem http_outcomes_witness:
  "\<exists>s' r. serve (mem_platform 0) demo_validator requeueRoute requeueRequest mem0 = (Inr r, s') \<and> res_status r \<in> {204, 422, 500}"
proof -
  have "msgs_at (mem_view mem0) (qkey KEY_QUEUE_DL ''default'' ''orders'') []"
    by (simp add: msgs_at_def mem_view_def mem0_def)
  from smq_live.requeueListMessage_missing [OF mem_platform_live [of 0] this, of 0 "''a''" "''orders''" "Some ''default''" True "Some 2"]
  obtain s' e where m: "requeueListMessage (mem_platform 0) ''orders'' (Some ''default'') (qkey KEY_QUEUE_DL ''default'' ''orders'') 0
      ''a'' True (Some 2) mem0 = (Inl (Cb e), s')" by auto
  obtain r where s: "serve (mem_platform 0) demo_validator requeueRoute requeueRequest mem0 = (Inr r, s')"
    using m by (simp add: serve_def getActionRouter_def demo_requests(1) demo_routes(3) h_RequeueDeadLetteredMessage_def onRequeue_def
        svc_requeueDeadLetteredMessage_def mm_requeueMessageFromDLQueue_def requeueMessageFromDLQueue_def smq_keys
        returnsVoid_def bindM_def errorHandler_def)
  have "ra_method requeueRoute = METHOD_POST" by (simp add: requeueRoute_def messagesController_def)
  with http_outcomes [OF demo_routes(1) s] s show ?thesis by auto
qed

theorem monitor_lifecycle_witness:
  "fst (ms_listen (MonitorConfig False) (Inr ()) (Inr []) (Inr ()) True newMonitorServer) =
     Inl (ConfigurationError ''RedisSMQ monitor is not enabled. Exiting...'')"
proof -
  have "bootstrap (MonitorConfig False) (Inr ()) = Inl (ConfigurationError ''RedisSMQ monitor is not enabled. Exiting...'')"
    by (simp add: bootstrap_def)
  from mp [OF conjunct2 [OF monitor_lifecycle [where files = "[]" and cfg = "MonitorConfig False" and conn = "Inr ()" and
        e = "ConfigurationError ''RedisSMQ monitor is not enabled. Exiting...''" and files' = "Inr []" and sub = "Inr ()" and
        bound = True and cfg' = FalsyConfig and conn' = "Inr ()" and files'' = "Inr []" and sub' = "Inr ()" and bound' = True]] this]
  show ?thesis by (auto split: prod.splits)
qed

end
