(* ===== verification/Monitor_DTO.thy ===== *)
theory Monitor_DTO
  imports Monitor_Server
begin

text \<open>
  The data transfer objects of \<^verbatim>\<open>src/monitor-server/controllers\<close>: every class is a list of its properties with their
  decorators. Validation and conversion are third-party code and arguments of the model. What the program relies on is
  documented behaviour, stated as locales: \<open>class_validator\<close> says what a decorator means, with the options of
  \<^verbatim>\<open>utils/validate-dto.ts\<close> (unknown properties are refused), \<open>class_transformer\<close> what \<open>@Type(() => Number)\<close> does, given how
  JavaScript reads a number. \<open>dto_library\<close> is both. \<open>dto_validator\<close> puts them in the place of the validator of \<open>Monitor_Server\<close>.
\<close>

section \<open>Classes and decorators\<close>

datatype decorator =
    IsInt | IsString | IsNotEmpty | IsBoolean | IsUUID4 | IsOptional | Allow | IsArray | EqualsUndefined
  | TypeNumber
  | ValidateNested schema
and schema = DTO "(string \<times> decorator list) list"

primrec properties :: "schema \<Rightarrow> (string \<times> decorator list) list" where
  "properties (DTO fs) = fs"

subsection \<open>Requests\<close>

definition class_GetMessagesRequest :: schema where
  "class_GetMessagesRequest = DTO
     [(''ns'', [IsString, IsNotEmpty]),
      (''queueName'', [IsString, IsNotEmpty]),
      (''skip'', [IsInt, TypeNumber, IsOptional]),
      (''take'', [IsInt, TypeNumber, IsOptional])]"

definition class_DeleteMessageRequest :: schema where
  "class_DeleteMessageRequest = DTO
     [(''ns'', [IsString, IsNotEmpty]),
      (''queueName'', [IsString, IsNotEmpty]),
      (''id'', [IsUUID4]),
      (''sequenceId'', [IsInt, TypeNumber])]"

definition class_DeletePendingMessageWithPriorityRequest :: schema where
  "class_DeletePendingMessageWithPriorityRequest = DTO
     [(''ns'', [IsString, IsNotEmpty]),
      (''queueName'', [IsString, IsNotEmpty]),
      (''id'', [IsUUID4])]"

definition class_PurgeQueueRequest :: schema where
  "class_PurgeQueueRequest = DTO
     [(''queueName'', [IsString, IsNotEmpty]),
      (''ns'', [IsString, IsNotEmpty])]"

definition class_RequeueMessageRequest :: schema where
  "class_RequeueMessageRequest = DTO
     [(''ns'', [IsString, IsNotEmpty]),
      (''queueName'', [IsString, IsNotEmpty]),
      (''id'', [IsUUID4]),
      (''sequenceId'', [IsInt, TypeNumber]),
      (''priority'', [IsInt, TypeNumber, IsOptional])]"

definition class_GetScheduledMessagesRequest :: schema where
  "class_GetScheduledMessagesRequest = DTO
     [(''skip'', [IsInt, TypeNumber, IsOptional]),
      (''take'', [IsInt, TypeNumber, IsOptional])]"

definition class_DeleteScheduledMessageRequest :: schema where
  "class_DeleteScheduledMessageRequest = DTO [(''id'', [IsUUID4])]"

text \<open>\<open>GetQueuesRequestDTO\<close> and \<open>PurgeScheduledMessagesRequestDTO\<close> have no properties.\<close>

fun request_schema :: "dtoClass \<Rightarrow> schema" where
  "request_schema CGetMessages = class_GetMessagesRequest"
| "request_schema CDeleteMessage = class_DeleteMessageRequest"
| "request_schema CDeleteWithPriority = class_DeletePendingMessageWithPriorityRequest"
| "request_schema CPurge = class_PurgeQueueRequest"
| "request_schema CRequeue = class_RequeueMessageRequest"
| "request_schema CGetScheduled = class_GetScheduledMessagesRequest"
| "request_schema CDeleteScheduled = class_DeleteScheduledMessageRequest"
| "request_schema CNone = DTO []"

subsection \<open>Responses\<close>

definition class_MessageQueue :: schema where
  "class_MessageQueue = DTO
     [(''name'', [IsString, IsNotEmpty]),
      (''ns'', [IsString, IsNotEmpty])]"

definition class_Message :: schema where
  "class_Message = DTO
     [(''uuid'', [IsUUID4]),
      (''attempts'', [IsInt]),
      (''createdAt'', [IsInt]),
      (''publishedAt'', [IsInt, IsOptional]),
      (''scheduledAt'', [IsInt, IsOptional]),
      (''ttl'', [IsInt, IsOptional]),
      (''retryThreshold'', [IsInt, IsOptional]),
      (''retryDelay'', [IsInt, IsOptional]),
      (''consumeTimeout'', [IsInt, IsOptional]),
      (''body'', [Allow]),
      (''scheduledCron'', [IsString, IsOptional]),
      (''scheduledCronFired'', [IsBoolean]),
      (''scheduledDelay'', [IsInt, IsOptional]),
      (''scheduledPeriod'', [IsInt, IsOptional]),
      (''scheduledRepeat'', [IsInt]),
      (''scheduledRepeatCount'', [IsInt]),
      (''delayed'', [IsBoolean]),
      (''priority'', [IsInt, IsOptional]),
      (''expired'', [IsBoolean]),
      (''queue'', [ValidateNested class_MessageQueue])]"

definition class_GetMessagesResponseBodyDataItems :: schema where
  "class_GetMessagesResponseBodyDataItems = DTO
     [(''sequenceId'', [IsInt]),
      (''message'', [ValidateNested class_Message])]"

definition class_GetMessagesResponseBodyData :: schema where
  "class_GetMessagesResponseBodyData = DTO
     [(''total'', [IsInt]),
      (''items'', [ValidateNested class_GetMessagesResponseBodyDataItems])]"

definition class_GetMessagesResponseBody :: schema where
  "class_GetMessagesResponseBody = DTO [(''data'', [ValidateNested class_GetMessagesResponseBodyData])]"

definition class_GetPendingMessagesResponse :: schema where
  "class_GetPendingMessagesResponse = DTO
     [(''status'', [IsInt]), (''body'', [ValidateNested class_GetMessagesResponseBody])]"

definition class_GetAcknowledgedMessagesResponse :: schema where
  "class_GetAcknowledgedMessagesResponse = DTO
     [(''status'', [IsInt]), (''body'', [ValidateNested class_GetMessagesResponseBody])]"

definition class_GetDeadLetteredMessagesResponse :: schema where
  "class_GetDeadLetteredMessagesResponse = DTO
     [(''status'', [IsInt]), (''body'', [ValidateNested class_GetMessagesResponseBody])]"

definition class_GetPendingMessagesWithPriorityResponse :: schema where
  "class_GetPendingMessagesWithPriorityResponse =
     (let dat = DTO [(''total'', [IsInt]), (''items'', [ValidateNested class_Message])];
          bdy = DTO [(''data'', [ValidateNested dat])]
      in DTO [(''status'', [IsInt]), (''body'', [ValidateNested bdy])])"

definition class_GetScheduledMessagesResponse :: schema where
  "class_GetScheduledMessagesResponse =
     (let dat = DTO [(''total'', [IsInt]), (''items'', [ValidateNested class_Message])];
          bdy = DTO [(''data'', [ValidateNested dat])]
      in DTO [(''status'', [IsInt]), (''body'', [ValidateNested bdy])])"

definition class_GetQueuesResponse :: schema where
  "class_GetQueuesResponse =
     (let bdy = DTO [(''data'', [IsArray, ValidateNested class_MessageQueue])]
      in DTO [(''status'', [IsInt]), (''body'', [ValidateNested bdy])])"

definition class_NoContentHttpResponse :: schema where
  "class_NoContentHttpResponse = DTO [(''status'', [IsInt]), (''body'', [EqualsUndefined])]"

fun response_schema :: "responseClass \<Rightarrow> schema" where
  "response_schema GetQueuesResponse = class_GetQueuesResponse"
| "response_schema GetPendingMessagesResponse = class_GetPendingMessagesResponse"
| "response_schema GetAcknowledgedMessagesResponse = class_GetAcknowledgedMessagesResponse"
| "response_schema GetDeadLetteredMessagesResponse = class_GetDeadLetteredMessagesResponse"
| "response_schema GetPendingMessagesWithPriorityResponse = class_GetPendingMessagesWithPriorityResponse"
| "response_schema GetScheduledMessagesResponse = class_GetScheduledMessagesResponse"
| "response_schema NoContentResponse = class_NoContentHttpResponse"

section \<open>What the decorators mean\<close>

text \<open>A property is checked by all its decorators, unless it is optional and missing or \<open>null\<close>; \<open>None\<close> is \<open>undefined\<close>.
  \<open>ok\<close> is the validation of nested objects, \<open>isUUID\<close> the test of a version 4 identifier. A nested value may be an array, whose
  elements are then validated.\<close>

fun dec_ok :: "(schema \<Rightarrow> json \<Rightarrow> bool) \<Rightarrow> (string \<Rightarrow> bool) \<Rightarrow> json option \<Rightarrow> decorator \<Rightarrow> bool" where
  "dec_ok ok isUUID v IsInt = (case v of Some (JNum _) \<Rightarrow> True | _ \<Rightarrow> False)"
| "dec_ok ok isUUID v IsString = (case v of Some (JStr _) \<Rightarrow> True | _ \<Rightarrow> False)"
| "dec_ok ok isUUID v IsNotEmpty = (v \<notin> {None, Some JNull, Some (JStr [])})"
| "dec_ok ok isUUID v IsBoolean = (case v of Some (JBool _) \<Rightarrow> True | _ \<Rightarrow> False)"
| "dec_ok ok isUUID v IsUUID4 = (case v of Some (JStr t) \<Rightarrow> isUUID t | _ \<Rightarrow> False)"
| "dec_ok ok isUUID v IsOptional = True"
| "dec_ok ok isUUID v Allow = True"
| "dec_ok ok isUUID v IsArray = (case v of Some (JArr _) \<Rightarrow> True | _ \<Rightarrow> False)"
| "dec_ok ok isUUID v EqualsUndefined = (v = None)"
| "dec_ok ok isUUID v TypeNumber = True"
| "dec_ok ok isUUID v (ValidateNested c) =
     (case v of
        None \<Rightarrow> True
      | Some JNull \<Rightarrow> True
      | Some (JObj obj) \<Rightarrow> ok c (JObj obj)
      | Some (JArr js) \<Rightarrow> list_all (ok c) js
      | _ \<Rightarrow> False)"

definition prop_ok :: "(schema \<Rightarrow> json \<Rightarrow> bool) \<Rightarrow> (string \<Rightarrow> bool) \<Rightarrow> decorator list \<Rightarrow> json option \<Rightarrow> bool" where
  "prop_ok ok isUUID ds v \<longleftrightarrow> IsOptional \<in> set ds \<and> v \<in> {None, Some JNull} \<or> list_all (dec_ok ok isUUID v) ds"

text \<open>The documented behaviour of \<open>validate\<close> with the options of \<open>validateDTO\<close>.\<close>

locale class_validator =
  fixes accepts :: "schema \<Rightarrow> json \<Rightarrow> bool" and isUUID :: "string \<Rightarrow> bool"
  assumes accepts_object:
    "accepts (DTO fs) (JObj obj) \<longleftrightarrow>
       list_all (\<lambda>(k, v). k \<in> fst ` set fs) obj \<and> list_all (\<lambda>(f, ds). prop_ok accepts isUUID ds (map_of obj f)) fs"

text \<open>A validator that does this.\<close>

function check_dto :: "(string \<Rightarrow> bool) \<Rightarrow> schema \<Rightarrow> json \<Rightarrow> bool" where
  "check_dto isUUID (DTO fs) j =
     (case j of
        JObj obj \<Rightarrow>
          list_all (\<lambda>(k, v). k \<in> fst ` set fs) obj \<and>
          list_all (\<lambda>(f, ds). IsOptional \<in> set ds \<and> map_of obj f \<in> {None, Some JNull} \<or>
            list_all (\<lambda>d. dec_ok (\<lambda>c. if size c < size (DTO fs) then check_dto isUUID c else (\<lambda>_. False)) isUUID (map_of obj f) d) ds) fs
      | _ \<Rightarrow> False)"
  by pat_completeness auto
termination by (relation "measure (\<lambda>(u, c, j). size c)") auto

lemma nested_smaller:
  assumes "(f, ds) \<in> set fs" and "ValidateNested c \<in> set ds"
  shows "size c < size (DTO fs)"
proof -
  have "size c < size_list size ds" using size_list_estimation [OF assms(2), of "size c" size] by simp
  also have "\<dots> < size (DTO fs)"
    using size_list_estimation' [OF assms(1), of "size_list size ds" "size_prod (\<lambda>_. 0) (size_list size)"] by simp
  finally show ?thesis .
qed

lemma dec_ok_cong:
  "(\<And>c. d = ValidateNested c \<Longrightarrow> ok c = ok' c) \<Longrightarrow> dec_ok ok isUUID v d = dec_ok ok' isUUID v d"
  by (cases d) (simp_all split: option.split json.split)

interpretation checker: class_validator "check_dto isUUID" isUUID for isUUID
proof
  fix fs obj
  have "list_all (\<lambda>d. dec_ok (\<lambda>c. if size c < size (DTO fs) then check_dto isUUID c else (\<lambda>_. False)) isUUID v d) ds =
      list_all (dec_ok (check_dto isUUID) isUUID v) ds" if "(f, ds) \<in> set fs" for f ds v
    using nested_smaller [OF that] by (intro list_all_cong dec_ok_cong) auto
  then have "list_all (\<lambda>(f, ds). IsOptional \<in> set ds \<and> map_of obj f \<in> {None, Some JNull} \<or>
        list_all (\<lambda>d. dec_ok (\<lambda>c. if size c < size (DTO fs) then check_dto isUUID c else (\<lambda>_. False)) isUUID (map_of obj f) d) ds) fs =
      list_all (\<lambda>(f, ds). prop_ok (check_dto isUUID) isUUID ds (map_of obj f)) fs"
    unfolding prop_ok_def by (intro list_all_cong) auto
  then show "check_dto isUUID (DTO fs) (JObj obj) \<longleftrightarrow> list_all (\<lambda>(k, v). k \<in> fst ` set fs) obj \<and>
      list_all (\<lambda>(f, ds). prop_ok (check_dto isUUID) isUUID ds (map_of obj f)) fs"
    by simp
qed

declare check_dto.simps [simp del]

section \<open>Requests and responses as objects\<close>

text \<open>A property with \<open>@Type(() => Number)\<close> is converted. A number that is not an integer (\<open>None\<close>) stays a text here;
  like the number it is refused by \<open>@IsInt()\<close>.\<close>

definition propValue :: "(string \<Rightarrow> int option) \<Rightarrow> decorator list option \<Rightarrow> string \<Rightarrow> json" where
  "propValue number ds v =
     (case ds of
        Some ds' \<Rightarrow> if TypeNumber \<in> set ds' then (case number v of Some n \<Rightarrow> JNum n | None \<Rightarrow> JStr v) else JStr v
      | None \<Rightarrow> JStr v)"

text \<open>The documented behaviour of \<open>plainToClass\<close> on a request, an object of texts.\<close>

locale class_transformer =
  fixes toClass :: "schema \<Rightarrow> (string \<times> string) list \<Rightarrow> (string \<times> json) list" and number :: "string \<Rightarrow> int option"
  assumes toClass: "toClass (DTO fs) raw = map (\<lambda>(k, v). (k, propValue number (map_of fs k) v)) raw"

text \<open>A conversion that does this.\<close>

definition convert_plain :: "(string \<Rightarrow> int option) \<Rightarrow> schema \<Rightarrow> (string \<times> string) list \<Rightarrow> (string \<times> json) list" where
  "convert_plain number c raw = map (\<lambda>(k, v). (k, propValue number (map_of (properties c) k) v)) raw"

interpretation plain: class_transformer "convert_plain number" number for number
  by unfold_locales (simp add: convert_plain_def)

text \<open>Both libraries together.\<close>

locale dto_library = class_validator accepts isUUID + class_transformer toClass number
  for accepts isUUID toClass number

interpretation dtos: dto_library "check_dto isUUID" isUUID "convert_plain number" number for isUUID number
  by unfold_locales

definition strProp :: "(string \<times> json) list \<Rightarrow> string \<Rightarrow> string" where
  "strProp obj f = (case map_of obj f of Some (JStr t) \<Rightarrow> t | _ \<Rightarrow> [])"

definition intProp :: "(string \<times> json) list \<Rightarrow> string \<Rightarrow> int option" where
  "intProp obj f = (case map_of obj f of Some (JNum n) \<Rightarrow> Some n | _ \<Rightarrow> None)"

text \<open>The object as the handlers read it.\<close>

fun instanceOf :: "dtoClass \<Rightarrow> (string \<times> json) list \<Rightarrow> requestDTO" where
  "instanceOf CGetMessages obj = DGetMessages \<lparr>gr_ns = strProp obj ''ns'', gr_queueName = strProp obj ''queueName'',
     gr_skip = intProp obj ''skip'', gr_take = intProp obj ''take''\<rparr>"
| "instanceOf CDeleteMessage obj = DDeleteMessage \<lparr>dr_ns = strProp obj ''ns'', dr_queueName = strProp obj ''queueName'',
     dr_id = strProp obj ''id'', dr_sequenceId = orDefault 0 (intProp obj ''sequenceId'')\<rparr>"
| "instanceOf CDeleteWithPriority obj = DDeleteWithPriority \<lparr>dp_ns = strProp obj ''ns'', dp_queueName = strProp obj ''queueName'',
     dp_id = strProp obj ''id''\<rparr>"
| "instanceOf CPurge obj = DPurge \<lparr>pq_queueName = strProp obj ''queueName'', pq_ns = strProp obj ''ns''\<rparr>"
| "instanceOf CRequeue obj = DRequeue \<lparr>rq_ns = strProp obj ''ns'', rq_queueName = strProp obj ''queueName'',
     rq_id = strProp obj ''id'', rq_sequenceId = orDefault 0 (intProp obj ''sequenceId''), rq_priority = intProp obj ''priority''\<rparr>"
| "instanceOf CGetScheduled obj = DGetScheduled \<lparr>gs_skip = intProp obj ''skip'', gs_take = intProp obj ''take''\<rparr>"
| "instanceOf CDeleteScheduled obj = DDeleteScheduled \<lparr>ds_id = strProp obj ''id''\<rparr>"
| "instanceOf CNone obj = DNone"

definition readRequest ::
  "(schema \<Rightarrow> json \<Rightarrow> bool) \<Rightarrow> (schema \<Rightarrow> (string \<times> string) list \<Rightarrow> (string \<times> json) list) \<Rightarrow> dtoClass \<Rightarrow>
     (string \<times> string) list \<Rightarrow> requestDTO option" where
  "readRequest accepts plainToClass c raw =
     (let obj = plainToClass (request_schema c) raw in
      if accepts (request_schema c) (JObj obj) then Some (instanceOf c obj) else None)"

definition message_json :: "message \<Rightarrow> json" where
  "message_json m = JObj (message_fields m)"

definition data_json :: "responseData \<Rightarrow> json" where
  "data_json d =
     (case d of
        MessagesPage p \<Rightarrow> JObj [(''total'', JNum (gm_total p)),
          (''items'', JArr (map (\<lambda>(i, m). JObj [(''sequenceId'', JNum i), (''message'', message_json m)]) (gm_items p)))]
      | PlainPage p \<Rightarrow> JObj [(''total'', JNum (pm_total p)), (''items'', JArr (map message_json (pm_items p)))]
      | QueueList qs \<Rightarrow> JArr (map queue_json qs))"

text \<open>\<open>{status: ctx.status, body: ctx.body}\<close>; a property that is \<open>undefined\<close> is left out.\<close>

definition context_json :: "httpResponse \<Rightarrow> json" where
  "context_json r = JObj ((''status'', JNum (res_status r)) #
     (case res_body r of
        NoBody \<Rightarrow> []
      | Data d \<Rightarrow> [(''body'', JObj [(''data'', data_json d)])]
      | ErrorBody c t \<Rightarrow> [(''body'', JObj [(''error'', JObj [(''code'', JNum c), (''message'', JStr t)])])]))"

definition dto_validator ::
  "(schema \<Rightarrow> json \<Rightarrow> bool) \<Rightarrow> (schema \<Rightarrow> (string \<times> string) list \<Rightarrow> (string \<times> json) list) \<Rightarrow> validator" where
  "dto_validator accepts plainToClass =
     \<lparr>v_request = readRequest accepts plainToClass,
      v_response = (\<lambda>c r. accepts (response_schema c) (context_json r))\<rparr>"


section \<open>Which requests are accepted\<close>

definition text_given :: "(string \<times> string) list \<Rightarrow> string \<Rightarrow> bool" where
  "text_given raw f \<longleftrightarrow> (case map_of raw f of Some v \<Rightarrow> v \<noteq> [] | None \<Rightarrow> False)"

definition uuid_given :: "(string \<Rightarrow> bool) \<Rightarrow> (string \<times> string) list \<Rightarrow> string \<Rightarrow> bool" where
  "uuid_given isUUID raw f \<longleftrightarrow> (case map_of raw f of Some v \<Rightarrow> isUUID v | None \<Rightarrow> False)"

definition int_given :: "(string \<Rightarrow> int option) \<Rightarrow> bool \<Rightarrow> (string \<times> string) list \<Rightarrow> string \<Rightarrow> bool" where
  "int_given number missing raw f \<longleftrightarrow> (case map_of raw f of Some v \<Rightarrow> number v \<noteq> None | None \<Rightarrow> missing)"

definition only :: "string list \<Rightarrow> (string \<times> string) list \<Rightarrow> bool" where
  "only fs raw \<longleftrightarrow> list_all (\<lambda>(k, v). k \<in> set fs) raw"

fun request_ok :: "(string \<Rightarrow> bool) \<Rightarrow> (string \<Rightarrow> int option) \<Rightarrow> dtoClass \<Rightarrow> (string \<times> string) list \<Rightarrow> bool" where
  "request_ok u n CGetMessages raw \<longleftrightarrow> only [''ns'', ''queueName'', ''skip'', ''take''] raw \<and>
     text_given raw ''ns'' \<and> text_given raw ''queueName'' \<and> int_given n True raw ''skip'' \<and> int_given n True raw ''take''"
| "request_ok u n CDeleteMessage raw \<longleftrightarrow> only [''ns'', ''queueName'', ''id'', ''sequenceId''] raw \<and>
     text_given raw ''ns'' \<and> text_given raw ''queueName'' \<and> uuid_given u raw ''id'' \<and> int_given n False raw ''sequenceId''"
| "request_ok u n CDeleteWithPriority raw \<longleftrightarrow> only [''ns'', ''queueName'', ''id''] raw \<and>
     text_given raw ''ns'' \<and> text_given raw ''queueName'' \<and> uuid_given u raw ''id''"
| "request_ok u n CPurge raw \<longleftrightarrow> only [''queueName'', ''ns''] raw \<and> text_given raw ''queueName'' \<and> text_given raw ''ns''"
| "request_ok u n CRequeue raw \<longleftrightarrow> only [''ns'', ''queueName'', ''id'', ''sequenceId'', ''priority''] raw \<and>
     text_given raw ''ns'' \<and> text_given raw ''queueName'' \<and> uuid_given u raw ''id'' \<and> int_given n False raw ''sequenceId'' \<and>
     int_given n True raw ''priority''"
| "request_ok u n CGetScheduled raw \<longleftrightarrow> only [''skip'', ''take''] raw \<and> int_given n True raw ''skip'' \<and> int_given n True raw ''take''"
| "request_ok u n CDeleteScheduled raw \<longleftrightarrow> only [''id''] raw \<and> uuid_given u raw ''id''"
| "request_ok u n CNone raw \<longleftrightarrow> only [] raw"

lemmas request_classes = class_GetMessagesRequest_def class_DeleteMessageRequest_def
  class_DeletePendingMessageWithPriorityRequest_def class_PurgeQueueRequest_def class_RequeueMessageRequest_def
  class_GetScheduledMessagesRequest_def class_DeleteScheduledMessageRequest_def

lemma propValue_simps [simp]:
  "propValue number (Some [IsString, IsNotEmpty]) = JStr" "propValue number (Some [IsUUID4]) = JStr"
  "propValue number (Some [IsInt, TypeNumber]) = (\<lambda>v. case number v of Some i \<Rightarrow> JNum i | None \<Rightarrow> JStr v)"
  "propValue number (Some [IsInt, TypeNumber, IsOptional]) = (\<lambda>v. case number v of Some i \<Rightarrow> JNum i | None \<Rightarrow> JStr v)"
  by (simp_all add: propValue_def fun_eq_iff)

text \<open>The three kinds of property a request has.\<close>

lemma prop_kinds:
  "prop_ok ok u [IsString, IsNotEmpty] (map_option JStr x) \<longleftrightarrow> (case x of Some v \<Rightarrow> v \<noteq> [] | None \<Rightarrow> False)"
  "prop_ok ok u [IsUUID4] (map_option JStr x) \<longleftrightarrow> (case x of Some v \<Rightarrow> u v | None \<Rightarrow> False)"
  "prop_ok ok u [IsInt, TypeNumber] (map_option (\<lambda>v. case n v of Some i \<Rightarrow> JNum i | None \<Rightarrow> JStr v) x) \<longleftrightarrow>
     (case x of Some v \<Rightarrow> n v \<noteq> None | None \<Rightarrow> False)"
  "prop_ok ok u [IsInt, TypeNumber, IsOptional] (map_option (\<lambda>v. case n v of Some i \<Rightarrow> JNum i | None \<Rightarrow> JStr v) x) \<longleftrightarrow>
     (case x of Some v \<Rightarrow> n v \<noteq> None | None \<Rightarrow> True)"
  by (auto simp: prop_ok_def split: option.splits)

context class_transformer
begin

lemma map_of_toClass: "map_of (toClass (DTO fs) raw) f = map_option (propValue number (map_of fs f)) (map_of raw f)"
  by (induction raw) (auto simp: toClass)

lemma keys_toClass: "list_all (\<lambda>(k, v). P k) (toClass (DTO fs) raw) = list_all (\<lambda>(k, v). P k) raw"
  by (induction raw) (auto simp: toClass)

end

context dto_library
begin

lemma readRequest_eq:
  "readRequest accepts toClass c raw =
     (if request_ok isUUID number c raw then Some (instanceOf c (toClass (request_schema c) raw)) else None)"
  by (cases c)
    (simp_all add: readRequest_def accepts_object request_classes keys_toClass map_of_toClass prop_kinds
      only_def text_given_def uuid_given_def int_given_def Let_def)

lemma validateDTO_eq:
  "validateDTO (dto_validator accepts toClass) c raw =
     (if request_ok isUUID number c raw then Some (instanceOf c (toClass (request_schema c) raw)) else None)"
  by (cases c; cases raw)
    (simp_all add: validateDTO_def dto_validator_def readRequest_eq only_def text_given_def uuid_given_def int_given_def
      request_classes toClass intProp_def strProp_def)

end


section \<open>Which responses are accepted\<close>

text \<open>What redis-smq writes: identifiers made by \<open>uuid.v4\<close>, queues and namespaces with a name.\<close>

definition queue_named :: "TMessageQueue \<Rightarrow> bool" where
  "queue_named q \<longleftrightarrow> q_name q \<noteq> [] \<and> q_ns q \<noteq> []"

definition message_stored :: "(string \<Rightarrow> bool) \<Rightarrow> message \<Rightarrow> bool" where
  "message_stored isUUID m \<longleftrightarrow> isUUID (uuid m) \<and> pred_option queue_named (queue m)"

definition data_stored :: "(string \<Rightarrow> bool) \<Rightarrow> responseData \<Rightarrow> bool" where
  "data_stored isUUID d =
     (case d of
        MessagesPage p \<Rightarrow> list_all (\<lambda>(i, m). message_stored isUUID m) (gm_items p)
      | PlainPage p \<Rightarrow> list_all (message_stored isUUID) (pm_items p)
      | QueueList qs \<Rightarrow> list_all queue_named qs)"

text \<open>Which data a handler answers with.\<close>

fun data_of :: "responseClass \<Rightarrow> responseData \<Rightarrow> bool" where
  "data_of GetQueuesResponse d \<longleftrightarrow> (\<exists>qs. d = QueueList qs)"
| "data_of GetPendingMessagesWithPriorityResponse d \<longleftrightarrow> (\<exists>p. d = PlainPage p)"
| "data_of GetScheduledMessagesResponse d \<longleftrightarrow> (\<exists>p. d = PlainPage p)"
| "data_of NoContentResponse d \<longleftrightarrow> False"
| "data_of _ d \<longleftrightarrow> (\<exists>p. d = MessagesPage p)"

lemma returnsData_Some: "returnsData f m s = (Inr (Some x), s') \<Longrightarrow> \<exists>y. x = f y"
  by (auto simp: returnsData_def io_iff)

lemma routes_data:
  assumes "(p, a) \<in> set applicationRoutes" and "handle E (ra_Handler a) d s = (Inr (Some x), s')"
  shows "data_of (ra_ResponseDTO a) x"
  using assms
  by (auto simp: applicationRoutes_def getApplicationRouter_def getControllerRouter_def queuesController_def
      messagesController_def scheduledMessagesController_def handler_defs onGet_def onDelete_def onPurge_def onRequeue_def
      cbErr_def split: requestDTO.splits dest!: returnsData_Some dest: returnsVoid_Inr)

lemma routes_void:
  assumes "(p, a) \<in> set applicationRoutes" and "handle E (ra_Handler a) d s = (Inr None, s')"
  shows "ra_ResponseDTO a = NoContentResponse"
  using assms
  by (auto simp: applicationRoutes_def getApplicationRouter_def getControllerRouter_def queuesController_def
      messagesController_def scheduledMessagesController_def handler_defs onGet_def
      cbErr_def split: requestDTO.splits dest: returnsData_Inr)


context class_validator
begin

lemma prop_int [simp]: "prop_ok accepts isUUID [IsInt] (Some (JNum n))"
  and prop_nested [simp]:
    "prop_ok accepts isUUID [ValidateNested c] (Some (JObj obj)) = accepts c (JObj obj)"
    "prop_ok accepts isUUID [ValidateNested c] (Some (JArr js)) = list_all (accepts c) js"
  by (simp_all add: prop_ok_def)

lemma prop_optional [simp]:
  "prop_ok accepts isUUID [IsInt, IsOptional] (Some (opt_json JNum x))"
  "prop_ok accepts isUUID [IsString, IsOptional] (Some (opt_json JStr y))"
  "prop_ok accepts isUUID [IsInt, IsOptional] (Some (JNum n))"
  by (cases x; cases y; simp add: prop_ok_def)+

lemma accepts_queue: "queue_named q \<Longrightarrow> accepts class_MessageQueue (queue_json q)"
  by (simp add: class_MessageQueue_def queue_json_def accepts_object prop_ok_def queue_named_def)

lemma accepts_message:
  assumes "message_stored isUUID m"
  shows "accepts class_Message (message_json m)"
proof -
  have q: "prop_ok accepts isUUID [ValidateNested class_MessageQueue] (Some (opt_json queue_json (queue m)))"
    using assms accepts_queue by (cases "queue m") (auto simp: prop_ok_def message_stored_def queue_json_def)
  have u: "prop_ok accepts isUUID [IsUUID4] (Some (JStr (uuid m)))"
    and b: "prop_ok accepts isUUID [IsBoolean] (Some (JBool x))" "prop_ok accepts isUUID [Allow] v" for x v
    using assms by (simp_all add: prop_ok_def message_stored_def)
  show ?thesis
    unfolding class_Message_def message_json_def message_fields_def accepts_object
    by (cases "body m") (simp_all add: q u b)
qed

lemma accepts_page:
  "list_all (message_stored isUUID) ms \<Longrightarrow> list_all (accepts class_Message) (map message_json ms)"
  by (simp add: list_all_iff accepts_message)

lemma accepts_items:
  "list_all (\<lambda>(i, m). message_stored isUUID m) xs \<Longrightarrow>
    list_all (accepts class_GetMessagesResponseBodyDataItems)
      (map (\<lambda>(i, m). JObj [(''sequenceId'', JNum i), (''message'', message_json m)]) xs)"
  using accepts_message
  by (auto simp: list_all_iff class_GetMessagesResponseBodyDataItems_def accepts_object message_json_def)

lemma accepts_queues: "list_all queue_named qs \<Longrightarrow> list_all (accepts class_MessageQueue) (map queue_json qs)"
  by (simp add: list_all_iff accepts_queue)

lemma accepts_data:
  assumes "data_of c d" and "data_stored isUUID d"
  shows "accepts (response_schema c) (context_json (respond (Some d)))"
proof -
  have arr: "prop_ok accepts isUUID [IsArray, ValidateNested class_MessageQueue] (Some (JArr js)) =
      list_all (accepts class_MessageQueue) js" for js
    by (simp add: prop_ok_def)
  note accepts_page accepts_items accepts_queues
  then show ?thesis
    using assms
    by (cases c)
      (auto simp: context_json_def respond_def data_json_def data_stored_def accepts_object arr
        class_GetPendingMessagesResponse_def class_GetAcknowledgedMessagesResponse_def
        class_GetDeadLetteredMessagesResponse_def class_GetPendingMessagesWithPriorityResponse_def
        class_GetScheduledMessagesResponse_def class_GetQueuesResponse_def class_GetMessagesResponseBody_def
        class_GetMessagesResponseBodyData_def Let_def simp del: list.pred_map)
qed

lemma accepts_void: "accepts (response_schema NoContentResponse) (context_json (respond None))"
  by (simp add: context_json_def respond_def class_NoContentHttpResponse_def accepts_object prop_ok_def)

end


section \<open>Properties\<close>

text \<open>C25. The contract of the monitor server, with the DTO classes of every route. A request is refused with 422, and Redis
  is not touched, exactly when it has an unknown member, lacks a namespace, a queue or a version 4 identifier its route asks
  for, or has something that is no integer in the place of one. Otherwise the handler gets the object of the class it
  expects; if it reports an error the answer is 500, and if it succeeds the answer is 200 or 204 with its data: data
  that redis-smq wrote always passes the validation of the response.\<close>

theorem monitor_contract:
  assumes "dto_library accepts isUUID plainToClass number" and "(p, a) \<in> set applicationRoutes" and "V = dto_validator accepts plainToClass"
    and "raw = plainRequest (ra_payload a) rq" and "d = instanceOf (ra_RequestDTO a) (plainToClass (request_schema (ra_RequestDTO a)) raw)"
  shows "if \<not> request_ok isUUID number (ra_RequestDTO a) raw
    then serve E V a rq s = (Inr \<lparr>res_status = 422, res_body = ErrorBody 422 ''Validation error''\<rparr>, s)
    else (case handle E (ra_Handler a) d s of
        (Inr x, s') \<Rightarrow> pred_option (data_stored isUUID) x \<longrightarrow> serve E V a rq s = (Inr (respond x), s')
      | (Inl (Cb e), s') \<Rightarrow> serve E V a rq s = (Inr \<lparr>res_status = 500, res_body = ErrorBody 500 ''Internal server error''\<rparr>, s')
      | (Inl e, s') \<Rightarrow> serve E V a rq s = (Inl e, s'))"
proof -
  note v = dto_library.axioms(1) [OF assms(1)]
  have r: "RequestValidator V a rq = (if request_ok isUUID number (ra_RequestDTO a) raw then Inr d else Inl ValidationError)"
    using dto_library.validateDTO_eq [OF assms(1)] by (simp add: RequestValidator_def assms(3-5))
  have "v_response V (ra_ResponseDTO a) (respond x)"
    if "handle E (ra_Handler a) d s = (Inr x, s')" "pred_option (data_stored isUUID) x" for x s'
    using that routes_data [OF assms(2), of E d s _ s'] routes_void [OF assms(2), of E d s s'] class_validator.accepts_data [OF v]
      class_validator.accepts_void [OF v]
    by (cases x) (auto simp: assms(3) dto_validator_def)
  then show ?thesis
    by (auto simp: serve_def getActionRouter_def errorHandler_def ResponseValidator_def r split: sum.splits exn.splits prod.splits)
qed


section \<open>Examples\<close>

definition pageRequest :: "(string \<times> string) list \<Rightarrow> httpRequest" where
  "pageRequest query = \<lparr>req_params = [(''ns'', ''default''), (''queueName'', ''orders'')], req_query = query\<rparr>"

abbreviation demo_dtos :: validator where
  "demo_dtos \<equiv> dto_validator (check_dto (\<lambda>t. t = ''a'')) (convert_plain (\<lambda>t. map_option int (js_Number t)))"

lemma pendingRoute_sel:
  "ra_RequestDTO pendingRoute = CGetMessages" "ra_payload pendingRoute = pathQuery" "ra_Handler pendingRoute = GetPendingMessagesHandler"
  by (simp_all add: pendingRoute_def messagesController_def)

theorem monitor_contract_witness:
  "serve (mem_platform 0) demo_dtos pendingRoute (pageRequest [(''page'', ''1'')]) mem0 =
     (Inr \<lparr>res_status = 422, res_body = ErrorBody 422 ''Validation error''\<rparr>, mem0) \<and>
   serve (mem_platform 0) demo_dtos pendingRoute (pageRequest [(''take'', ''1'')]) mem0 =
     (Inr \<lparr>res_status = 200, res_body = Data (MessagesPage \<lparr>gm_total = 0, gm_items = []\<rparr>)\<rparr>, mem0)"
proof -
  let ?n = "\<lambda>t. map_option int (js_Number t)" and ?u = "\<lambda>t. t = ''a''"
  note c = monitor_contract [OF dtos.dto_library_axioms demo_routes(2) HOL.refl HOL.refl HOL.refl, where s = mem0]
  have bad: "\<not> request_ok ?u ?n CGetMessages (plainRequest pathQuery (pageRequest [(''page'', ''1'')]))"
    and good: "request_ok ?u ?n CGetMessages (plainRequest pathQuery (pageRequest [(''take'', ''1'')]))"
    by code_simp+
  have h: "handle (mem_platform 0) GetPendingMessagesHandler (instanceOf CGetMessages (convert_plain ?n (request_schema CGetMessages)
      (plainRequest pathQuery (pageRequest [(''take'', ''1'')])))) mem0 = (Inr (Some (MessagesPage \<lparr>gm_total = 0, gm_items = []\<rparr>)), mem0)"
    by (simp add: h_GetPendingMessages_def onGet_def returnsData_def svc_getPendingMessages_def mm_getPendingMessages_def
        getPendingMessages_def getPaginatedListMessages_def getListLength_def getListMessages_def smq_keys bindM_def retM_def
        rc_llen_def redisCmd_def mem0_def)
  show ?thesis
    using c [where E = "mem_platform 0" and isUUID = ?u and number = ?n and rq = "pageRequest [(''page'', ''1'')]"]
      c [where E = "mem_platform 0" and isUUID = ?u and number = ?n and rq = "pageRequest [(''take'', ''1'')]"] bad good h
    by (simp add: pendingRoute_sel data_stored_def respond_def)
qed

end
