(* ===== verification/Monitor_App.thy ===== *)
theory Monitor_App
  imports Monitor_Server
begin

text \<open>
  The application \<^verbatim>\<open>src/monitor-server/index.ts\<close> puts together (\<open>bootstrap\<close>) and \<^verbatim>\<open>services/index.ts\<close>: the middlewares in the order in
  which they are registered, and the services as getters that make their object on first use. Koa runs a middleware with the rest of
  the chain as its argument \<open>next\<close>. The middlewares of other packages and the path matching of the router are arguments,
  collected in \<open>packages\<close>; what is documented of them for a request to the API is the locale \<open>api_request\<close>.
\<close>

section \<open>Middlewares\<close>

record httpCall =
  call_method :: ERouteControllerActionMethod
  call_path :: string
  call_query :: "(string \<times> string) list"

type_synonym 's koaNext = "'s \<Rightarrow> (mwError + httpResponse) \<times> 's"
type_synonym 's middleware = "httpCall \<Rightarrow> 's koaNext \<Rightarrow> 's koaNext"

text \<open>The chain, and the answer of Koa when no middleware gave one.\<close>

definition notFound :: "'s koaNext" where
  "notFound s = (Inr \<lparr>res_status = 404, res_body = NoBody\<rparr>, s)"

definition koaCompose :: "'s middleware list \<Rightarrow> httpCall \<Rightarrow> 's koaNext" where
  "koaCompose ms ctx = foldr (\<lambda>m nxt. m ctx nxt) ms notFound"

record 's packages =
  pk_ui :: "string list \<Rightarrow> 's middleware"
  pk_bodyParser :: "'s middleware"
  pk_cors :: "string \<Rightarrow> 's middleware"
  pk_match :: "(string \<times> TRouteControllerAction) list \<Rightarrow> httpCall \<Rightarrow> (TRouteControllerAction \<times> (string \<times> string) list) option"
  pk_allowedMethods :: "(string \<times> TRouteControllerAction) list \<Rightarrow> 's middleware"

text \<open>\<open>errorHandler\<close> as a middleware; what it does not catch goes on.\<close>

definition mw_errorHandler :: "'s middleware" where
  "mw_errorHandler ctx nxt s =
     (case errorHandler (nxt s) of (Inl e, s') \<Rightarrow> (Inl (Failure e), s') | (Inr r, s') \<Rightarrow> (Inr r, s'))"

definition mw_routes :: "'s packages \<Rightarrow> 's platform \<Rightarrow> validator \<Rightarrow> (string \<times> TRouteControllerAction) list \<Rightarrow> 's middleware" where
  "mw_routes P E V routes ctx nxt =
     (case pk_match P routes ctx of
        None \<Rightarrow> nxt
      | Some (a, params) \<Rightarrow> getActionRouter E V a \<lparr>req_params = params, req_query = call_query ctx\<rparr>)"

definition appMiddlewares :: "'s packages \<Rightarrow> 's platform \<Rightarrow> validator \<Rightarrow> 's middleware list" where
  "appMiddlewares P E V =
     [mw_errorHandler, pk_ui P [''/api/'', ''/socket.io/''], pk_bodyParser P, pk_cors P ''*'',
      mw_routes P E V applicationRoutes, pk_allowedMethods P applicationRoutes]"

definition app_callback :: "'s packages \<Rightarrow> 's platform \<Rightarrow> validator \<Rightarrow> httpCall \<Rightarrow> 's koaNext" where
  "app_callback P E V = koaCompose (appMiddlewares P E V)"

section \<open>Services\<close>

text \<open>An object is a number; \<open>made\<close> counts the constructor calls of each kind.\<close>

record services =
  messageManagerServiceInstance :: "nat option"
  queueManagerServiceInstance :: "nat option"
  mms_made :: nat
  qms_made :: nat

definition newServices :: services where
  "newServices = \<lparr>messageManagerServiceInstance = None, queueManagerServiceInstance = None, mms_made = 0, qms_made = 0\<rparr>"

definition get_messageManagerService :: "services \<Rightarrow> nat \<times> services" where
  "get_messageManagerService sv =
     (case messageManagerServiceInstance sv of
        Some i \<Rightarrow> (i, sv)
      | None \<Rightarrow> let i = mms_made sv in (i, sv\<lparr>messageManagerServiceInstance := Some i, mms_made := Suc i\<rparr>))"

definition get_queueManagerService :: "services \<Rightarrow> nat \<times> services" where
  "get_queueManagerService sv =
     (case queueManagerServiceInstance sv of
        Some i \<Rightarrow> (i, sv)
      | None \<Rightarrow> let i = qms_made sv in (i, sv\<lparr>queueManagerServiceInstance := Some i, qms_made := Suc i\<rparr>))"

fun use_services :: "bool list \<Rightarrow> services \<Rightarrow> nat list \<times> services" where
  "use_services [] sv = ([], sv)"
| "use_services (b # bs) sv =
     (case (if b then get_messageManagerService sv else get_queueManagerService sv) of (i, sv1) \<Rightarrow>
        (case use_services bs sv1 of (is, sv2) \<Rightarrow> (i # is, sv2)))"

section \<open>A request to the API\<close>

text \<open>Documented of the packages: the user interface, the body parser and the CORS headers hand a request under \<open>/api/\<close> on and
  leave the answer of the rest of the chain as it is.\<close>

locale api_request =
  fixes P :: "'s packages" and ctx :: httpCall
  assumes ui_passes: "pk_ui P [''/api/'', ''/socket.io/''] ctx nxt = nxt"
    and bodyParser_passes: "pk_bodyParser P ctx nxt = nxt"
    and cors_passes: "pk_cors P ''*'' ctx nxt = nxt"
begin

lemma callback_eq:
  "app_callback P E V ctx =
     mw_errorHandler ctx (mw_routes P E V applicationRoutes ctx (pk_allowedMethods P applicationRoutes ctx notFound))"
  by (simp add: app_callback_def koaCompose_def appMiddlewares_def ui_passes bodyParser_passes cors_passes)

lemma callback_matched:
  assumes "pk_match P applicationRoutes ctx = Some (a, params)"
  shows "app_callback P E V ctx s =
    (case serve E V a \<lparr>req_params = params, req_query = call_query ctx\<rparr> s of
       (Inl e, s') \<Rightarrow> (Inl (Failure e), s') | (Inr r, s') \<Rightarrow> (Inr r, s'))"
  by (simp add: callback_eq mw_errorHandler_def mw_routes_def assms serve_def)

end

section \<open>Properties\<close>

text \<open>The first middleware encloses all others: whatever they are and do, an error that reaches it through the chain becomes a
  response with status 422 or 500 and changes nothing in Redis beyond what was done before; only an exception thrown
  outside the chain, in a callback, escapes.\<close>

lemma app_catches:
  "koaCompose (mw_errorHandler # ms) ctx s =
     (case koaCompose ms ctx s of
        (Inl ValidationError, s') \<Rightarrow> (Inr \<lparr>res_status = 422, res_body = ErrorBody 422 ''Validation error''\<rparr>, s')
      | (Inl (Failure (Cb e)), s') \<Rightarrow> (Inr \<lparr>res_status = 500, res_body = ErrorBody 500 ''Internal server error''\<rparr>, s')
      | (Inl (Failure e), s') \<Rightarrow> (Inl (Failure e), s')
      | (Inr r, s') \<Rightarrow> (Inr r, s'))"
  by (auto simp: koaCompose_def mw_errorHandler_def errorHandler_def split: prod.split sum.split mwError.split exn.split)

text \<open>The application answers a request to the API that matches one of its routes as \<open>serve\<close> says for that route.\<close>

theorem app_serves_route:
  assumes "api_request P ctx" and "pk_match P applicationRoutes ctx = Some (a, params)"
    and "serve E V a \<lparr>req_params = params, req_query = call_query ctx\<rparr> s = (Inr r, s')"
  shows "app_callback P E V ctx s = (Inr r, s')"
  by (simp add: api_request.callback_matched [OF assms(1,2)] assms(3))

text \<open>The services: each getter returns the same object every time, and each is made at most once, in whatever order they are
  used.\<close>

definition services_ok :: "services \<Rightarrow> bool" where
  "services_ok sv \<longleftrightarrow>
     (messageManagerServiceInstance sv, mms_made sv) \<in> {(None, 0), (Some 0, 1)} \<and>
     (queueManagerServiceInstance sv, qms_made sv) \<in> {(None, 0), (Some 0, 1)}"

lemma get_service_ok:
  "services_ok sv \<Longrightarrow> fst (get_messageManagerService sv) = 0 \<and> services_ok (snd (get_messageManagerService sv))"
  "services_ok sv \<Longrightarrow> fst (get_queueManagerService sv) = 0 \<and> services_ok (snd (get_queueManagerService sv))"
  by (auto simp: services_ok_def get_messageManagerService_def get_queueManagerService_def)

theorem services_made_once:
  "set (fst (use_services bs newServices)) \<subseteq> {0} \<and> mms_made (snd (use_services bs newServices)) \<le> 1 \<and>
   qms_made (snd (use_services bs newServices)) \<le> 1"
proof -
  have "services_ok sv \<Longrightarrow> set (fst (use_services bs sv)) \<subseteq> {0} \<and> services_ok (snd (use_services bs sv))" for sv
  proof (induction bs arbitrary: sv)
    case (Cons b bs)
    let ?g = "if b then get_messageManagerService sv else get_queueManagerService sv"
    have "fst ?g = 0" "services_ok (snd ?g)" using get_service_ok Cons.prems by (cases b; simp)+
    with Cons.IH [of "snd ?g"] show ?case by (auto simp del: if_split split: prod.split)
  qed simp
  then have "set (fst (use_services bs newServices)) \<subseteq> {0}" "services_ok (snd (use_services bs newServices))"
    by (auto simp: services_ok_def newServices_def)
  then show ?thesis by (auto simp: services_ok_def)
qed

section \<open>Examples\<close>

definition demo_packages :: "'s packages" where
  "demo_packages = \<lparr>pk_ui = (\<lambda>_ _ nxt. nxt), pk_bodyParser = (\<lambda>_ nxt. nxt), pk_cors = (\<lambda>_ _ nxt. nxt),
     pk_match = (\<lambda>routes ctx. map_option (\<lambda>a. (a, [])) (map_of routes (call_path ctx))), pk_allowedMethods = (\<lambda>_ _ nxt. nxt)\<rparr>"

interpretation demo_api: api_request demo_packages ctx for ctx
  by unfold_locales (simp_all add: demo_packages_def)

end
