(* ===== verification/Events.thy ===== *)
theory Events
  imports SMQ_Prelude
begin

text \<open>
  The \<open>EventEmitter\<close> of Node as the program uses it, the names of \<^verbatim>\<open>src/system/common/events.ts\<close>, and the listeners a consumer
  and a producer have once their frontend is constructed: \<^verbatim>\<open>src/system/base.ts\<close>, \<^verbatim>\<open>consumer/consumer.ts\<close> and the two frontends.
\<close>

section \<open>Emitters\<close>

text \<open>The listeners in the order of registration, each with its event and whether it is for one time only.\<close>

type_synonym ('e, 'l) emitter = "('e \<times> bool \<times> 'l) list"

definition ee_on :: "'e \<Rightarrow> 'l \<Rightarrow> ('e, 'l) emitter \<Rightarrow> ('e, 'l) emitter" where
  "ee_on e l em = em @ [(e, False, l)]"

definition ee_once :: "'e \<Rightarrow> 'l \<Rightarrow> ('e, 'l) emitter \<Rightarrow> ('e, 'l) emitter" where
  "ee_once e l em = em @ [(e, True, l)]"

definition listeners :: "'e \<Rightarrow> ('e, 'l) emitter \<Rightarrow> 'l list" where
  "listeners e em = map (\<lambda>(_, _, l). l) (filter (\<lambda>(e', _). e' = e) em)"

text \<open>\<open>emit\<close>: the listeners that are called, and those that remain. The list is read before the first of them is called.\<close>

definition ee_emit :: "'e \<Rightarrow> ('e, 'l) emitter \<Rightarrow> 'l list \<times> ('e, 'l) emitter" where
  "ee_emit e em = (listeners e em, filter (\<lambda>(e', one, _). e' = e \<longrightarrow> \<not> one) em)"

definition ee_removeAllListeners :: "('e, 'l) emitter \<Rightarrow> ('e, 'l) emitter" where
  "ee_removeAllListeners em = []"

lemmas ee_defs = ee_on_def ee_once_def ee_emit_def ee_removeAllListeners_def listeners_def

lemma listeners_append [simp]: "listeners e (em @ em') = listeners e em @ listeners e em'"
  by (simp add: listeners_def)

lemma listeners_Nil [simp]: "listeners e [] = []"
  by (simp add: listeners_def)

lemma listeners_added [simp]:
  "listeners e (ee_on e' l em) = listeners e em @ (if e' = e then [l] else [])"
  "listeners e (ee_once e' l em) = listeners e em @ (if e' = e then [l] else [])"
  by (simp_all add: ee_defs)

text \<open>A listener for one time is gone after the emission.\<close>

lemma emit_twice:
  assumes "\<forall>(e', one, l) \<in> set em. e' = e \<longrightarrow> one"
  shows "fst (ee_emit e (snd (ee_emit e em))) = []"
  using assms by (auto simp: ee_defs filter_empty_conv)

section \<open>Events of the program\<close>

datatype events =
    GOING_UP_EVENT | UP_EVENT | GOING_DOWN_EVENT | DOWN_EVENT | ERROR_EVENT | IDLE_EVENT | SHUTDOWN_READY_EVENT
  | MESSAGE_PRODUCED_EVENT | MESSAGE_NEXT_EVENT | MESSAGE_DEQUEUED_EVENT | MESSAGE_ACKNOWLEDGED_EVENT
  | MESSAGE_UNACKNOWLEDGED_EVENT

text \<open>The listeners: a line in the log, \<open>handleError\<close>, the handlers of the consumer, and the forwarding of a frontend.\<close>

datatype listener =
    LogLine | HandleError
  | NextWhenUp | DequeueNext | AfterAcknowledged | AfterUnacknowledged
  | Forward events

definition base_registerEventsHandlers :: "(events, listener) emitter \<Rightarrow> (events, listener) emitter" where
  "base_registerEventsHandlers em =
     ee_on ERROR_EVENT HandleError
    (ee_on DOWN_EVENT LogLine
    (ee_on GOING_DOWN_EVENT LogLine
    (ee_on UP_EVENT LogLine
    (ee_on GOING_UP_EVENT LogLine em))))"

definition consumer_registerEventsHandlers :: "(events, listener) emitter \<Rightarrow> (events, listener) emitter" where
  "consumer_registerEventsHandlers em =
     ee_on MESSAGE_UNACKNOWLEDGED_EVENT AfterUnacknowledged
    (ee_on MESSAGE_ACKNOWLEDGED_EVENT AfterAcknowledged
    (ee_on MESSAGE_NEXT_EVENT DequeueNext
    (ee_on UP_EVENT NextWhenUp
    (base_registerEventsHandlers em))))"

definition consumerFrontend_registerEvents :: "(events, listener) emitter \<Rightarrow> (events, listener) emitter" where
  "consumerFrontend_registerEvents em =
     ee_on MESSAGE_DEQUEUED_EVENT (Forward MESSAGE_DEQUEUED_EVENT)
    (ee_on MESSAGE_ACKNOWLEDGED_EVENT (Forward MESSAGE_ACKNOWLEDGED_EVENT)
    (ee_on MESSAGE_UNACKNOWLEDGED_EVENT (Forward MESSAGE_UNACKNOWLEDGED_EVENT)
    (ee_on IDLE_EVENT (Forward IDLE_EVENT)
    (ee_on DOWN_EVENT (Forward DOWN_EVENT)
    (ee_on UP_EVENT (Forward UP_EVENT) em)))))"

definition producerFrontend_registerEvents :: "(events, listener) emitter \<Rightarrow> (events, listener) emitter" where
  "producerFrontend_registerEvents em =
     ee_on MESSAGE_PRODUCED_EVENT (Forward MESSAGE_PRODUCED_EVENT)
    (ee_on DOWN_EVENT (Forward DOWN_EVENT)
    (ee_on UP_EVENT (Forward UP_EVENT) em))"

text \<open>The listeners after the constructors of the frontends.\<close>

definition newConsumerFrontend :: "(events, listener) emitter" where
  "newConsumerFrontend = consumerFrontend_registerEvents (consumer_registerEventsHandlers [])"

definition newProducerFrontend :: "(events, listener) emitter" where
  "newProducerFrontend = producerFrontend_registerEvents (base_registerEventsHandlers [])"

text \<open>What a listener emits before it returns: the handlers of the consumer ask for the next message.\<close>

fun reactions :: "listener \<Rightarrow> events list" where
  "reactions NextWhenUp = [MESSAGE_NEXT_EVENT]"
| "reactions AfterAcknowledged = [MESSAGE_NEXT_EVENT]"
| "reactions AfterUnacknowledged = [MESSAGE_NEXT_EVENT]"
| "reactions _ = []"

text \<open>The listeners an emission calls, in order, with those of the emissions inside it; \<open>n\<close> bounds the depth.\<close>

fun called :: "nat \<Rightarrow> (events, listener) emitter \<Rightarrow> events \<Rightarrow> listener list" where
  "called 0 em e = []"
| "called (Suc n) em e = concat (map (\<lambda>l. l # concat (map (called n em) (reactions l))) (listeners e em))"

text \<open>What the application hears.\<close>

definition heard :: "listener list \<Rightarrow> events list" where
  "heard ls = concat (map (\<lambda>l. case l of Forward e \<Rightarrow> [e] | _ \<Rightarrow> []) ls)"

lemma heard_append [simp]: "heard (ls @ ls') = heard ls @ heard ls'"
  by (simp add: heard_def)

lemma heard_concat: "heard (concat lss) = concat (map heard lss)"
  by (induction lss) (simp_all add: heard_def)

definition consumer_forwarded :: "events set" where
  "consumer_forwarded = {UP_EVENT, DOWN_EVENT, IDLE_EVENT, MESSAGE_DEQUEUED_EVENT, MESSAGE_ACKNOWLEDGED_EVENT, MESSAGE_UNACKNOWLEDGED_EVENT}"

definition producer_forwarded :: "events set" where
  "producer_forwarded = {UP_EVENT, DOWN_EVENT, MESSAGE_PRODUCED_EVENT}"

lemmas register_defs = newConsumerFrontend_def newProducerFrontend_def consumerFrontend_registerEvents_def
  producerFrontend_registerEvents_def consumer_registerEventsHandlers_def base_registerEventsHandlers_def

text \<open>Two levels of emission are all there are. The consumer asks for the next message before the application hears of the
  outcome of the last one.\<close>

lemma consumer_called:
  "called (Suc (Suc n)) newConsumerFrontend MESSAGE_ACKNOWLEDGED_EVENT =
     [AfterAcknowledged, DequeueNext, Forward MESSAGE_ACKNOWLEDGED_EVENT]"
  "called (Suc (Suc n)) newConsumerFrontend MESSAGE_UNACKNOWLEDGED_EVENT =
     [AfterUnacknowledged, DequeueNext, Forward MESSAGE_UNACKNOWLEDGED_EVENT]"
  "called (Suc (Suc n)) newConsumerFrontend UP_EVENT = [LogLine, NextWhenUp, DequeueNext, Forward UP_EVENT]"
  "called (Suc (Suc n)) newConsumerFrontend ERROR_EVENT = [HandleError]"
  by (simp_all add: register_defs)

lemma consumer_heard:
  "heard (called (Suc (Suc n)) newConsumerFrontend e) = (if e \<in> consumer_forwarded then [e] else [])"
  by (cases e) (simp_all add: register_defs heard_def consumer_forwarded_def)

lemma producer_heard:
  "heard (called (Suc (Suc n)) newProducerFrontend e) = (if e \<in> producer_forwarded then [e] else [])"
  by (cases e) (simp_all add: register_defs heard_def producer_forwarded_def)

section \<open>Properties\<close>

text \<open>The application hears of its consumer and its producer exactly the events their frontends forward, each once, in the
  order in which they are emitted; errors and the internal events are never forwarded.\<close>

theorem frontends_forward:
  "heard (concat (map (called (Suc (Suc n)) newConsumerFrontend) es)) = filter (\<lambda>e. e \<in> consumer_forwarded) es \<and>
   heard (concat (map (called (Suc (Suc n)) newProducerFrontend) es)) = filter (\<lambda>e. e \<in> producer_forwarded) es"
  unfolding heard_concat by (induction es) (simp_all add: consumer_heard producer_heard del: called.simps)

end
