(* ===== verification/Redis_Driver.thy ===== *)
theory Redis_Driver
  imports Redis_Connection Events
begin

text \<open>
  A Redis client and its driver as objects that emit events (\<^verbatim>\<open>src/system/redis-client/redis-client.ts\<close>: constructor,
  \<open>patchedEnd\<close>, \<open>end\<close>, \<open>halt\<close>, \<open>quit\<close>). The drivers are third-party code: \<open>flush_and_error\<close> and the listeners node_redis has on its
  socket, the original \<open>end\<close> of node_redis and \<open>disconnect\<close> of ioredis are arguments of the definitions.
\<close>

section \<open>State\<close>

text \<open>Listeners on the socket: those of the driver, and the two of \<open>patchedEnd\<close>. Listeners on the driver: the forwarding of
  \<open>ready\<close>, callbacks, and those of the driver.\<close>

datatype streamListener = DriverOnStream nat | EmitEnd | IgnoreError

datatype driverListener = ForwardReady | Callback nat | DriverOwn nat

text \<open>What \<open>patchedEnd\<close> uses of a node_redis client; \<open>nr_commands\<close> are the commands without a reply, \<open>nr_end\<close> is the method \<open>end\<close>.\<close>

datatype endMethod = OriginalEnd | PatchedEnd

record 'q nodeRedis =
  nr_listeners :: "(string, driverListener) emitter"
  nr_stream :: "(string, streamListener) emitter"
  nr_commands :: 'q
  nr_warnings :: nat
  nr_connected :: bool
  nr_ready :: bool
  nr_closing :: bool
  nr_emitted_end :: bool
  nr_retry_timer :: bool
  nr_destroyed :: bool
  nr_end :: endMethod

text \<open>An ioredis client: its listeners and the rest of its state.\<close>

record 'i ioRedis =
  io_listeners :: "(string, driverListener) emitter"
  io_state :: 'i

datatype ('q, 'i) TCompatibleRedisClient = NodeRedis "'q nodeRedis" | IORedis "'i ioRedis"

record ('q, 'i) redisClient =
  rcl_client :: "('q, 'i) TCompatibleRedisClient"
  rcl_listeners :: "(string, nat) emitter"

section \<open>Methods\<close>

fun driver_once :: "string \<Rightarrow> driverListener \<Rightarrow> ('q, 'i) TCompatibleRedisClient \<Rightarrow> ('q, 'i) TCompatibleRedisClient" where
  "driver_once e l (NodeRedis c) = NodeRedis (c\<lparr>nr_listeners := ee_once e l (nr_listeners c)\<rparr>)"
| "driver_once e l (IORedis c) = IORedis (c\<lparr>io_listeners := ee_once e l (io_listeners c)\<rparr>)"

definition newRedisClient :: "('q, 'i) TCompatibleRedisClient \<Rightarrow> ('q, 'i) redisClient" where
  "newRedisClient drv =
     \<lparr>rcl_client = (case driver_once ''ready'' ForwardReady drv of
        NodeRedis c \<Rightarrow> NodeRedis (c\<lparr>nr_end := PatchedEnd\<rparr>)
      | IORedis c \<Rightarrow> IORedis c), rcl_listeners = []\<rparr>"

text \<open>\<open>patchedEnd\<close>; \<open>None\<close> is a call without an argument.\<close>

definition patchedEnd :: "('q \<Rightarrow> 'q) \<Rightarrow> bool option \<Rightarrow> 'q nodeRedis \<Rightarrow> 'q nodeRedis" where
  "patchedEnd flush_and_error flush c =
     (let c1 = (if flush = Some True then c\<lparr>nr_commands := flush_and_error (nr_commands c)\<rparr>
                else if flush = None then c\<lparr>nr_warnings := nr_warnings c + 1\<rparr>
                else c);
          c2 = (if nr_retry_timer c1 then c1\<lparr>nr_retry_timer := False\<rparr> else c1);
          stream = ee_removeAllListeners (nr_stream c2);
          stream = ee_once ''close'' EmitEnd stream;
          stream = ee_on ''error'' IgnoreError stream
      in c2\<lparr>nr_stream := stream, nr_connected := False, nr_ready := False, nr_closing := True, nr_destroyed := True\<rparr>)"

text \<open>The calls into the drivers.\<close>

record ('q, 'i) drivers =
  dr_flush_and_error :: "'q \<Rightarrow> 'q"
  dr_originalEnd :: "bool \<Rightarrow> 'q nodeRedis \<Rightarrow> 'q nodeRedis"
  dr_onStream :: "nat \<Rightarrow> string \<Rightarrow> 'q nodeRedis \<Rightarrow> driverListener list \<times> 'q nodeRedis"
  dr_disconnect :: "bool \<Rightarrow> 'i ioRedis \<Rightarrow> 'i ioRedis"

definition rc_end :: "('q, 'i) drivers \<Rightarrow> bool \<Rightarrow> ('q, 'i) redisClient \<Rightarrow> ('q, 'i) redisClient" where
  "rc_end D flush r =
     r\<lparr>rcl_client := (case rcl_client r of
        NodeRedis c \<Rightarrow> NodeRedis (case nr_end c of
            PatchedEnd \<Rightarrow> patchedEnd (dr_flush_and_error D) (Some flush) c
          | OriginalEnd \<Rightarrow> dr_originalEnd D flush c)
      | IORedis c \<Rightarrow> IORedis (dr_disconnect D False c))\<rparr>"

definition rc_halt :: "('q, 'i) drivers \<Rightarrow> nat \<Rightarrow> ('q, 'i) redisClient \<Rightarrow> ('q, 'i) redisClient" where
  "rc_halt D cb r = rc_end D True (r\<lparr>rcl_client := driver_once ''end'' (Callback cb) (rcl_client r)\<rparr>)"

section \<open>Events of the socket\<close>

text \<open>One listener of the socket is called; the result has the listeners of the driver that are called in turn.\<close>

fun streamCall ::
  "('q, 'i) drivers \<Rightarrow> string \<Rightarrow> streamListener \<Rightarrow> 'q nodeRedis \<Rightarrow> driverListener list \<times> 'q nodeRedis" where
  "streamCall D e (DriverOnStream n) c = dr_onStream D n e c"
| "streamCall D e EmitEnd c =
     (case ee_emit ''end'' (nr_listeners c) of
        (ls, em) \<Rightarrow> (ls, c\<lparr>nr_listeners := em, nr_emitted_end := True\<rparr>))"
| "streamCall D e IgnoreError c = ([], c)"

fun streamCalls ::
  "('q, 'i) drivers \<Rightarrow> string \<Rightarrow> streamListener list \<Rightarrow> 'q nodeRedis \<Rightarrow> driverListener list \<times> 'q nodeRedis" where
  "streamCalls D e [] c = ([], c)"
| "streamCalls D e (l # ls) c =
     (case streamCall D e l c of (xs, c') \<Rightarrow> (case streamCalls D e ls c' of (ys, c'') \<Rightarrow> (xs @ ys, c'')))"

definition streamEvent :: "('q, 'i) drivers \<Rightarrow> string \<Rightarrow> 'q nodeRedis \<Rightarrow> driverListener list \<times> 'q nodeRedis" where
  "streamEvent D e c =
     (case ee_emit e (nr_stream c) of (ls, em) \<Rightarrow> streamCalls D e ls (c\<lparr>nr_stream := em\<rparr>))"

text \<open>Any sequence of events of the socket.\<close>

fun streamEvents :: "('q, 'i) drivers \<Rightarrow> string list \<Rightarrow> 'q nodeRedis \<Rightarrow> driverListener list \<times> 'q nodeRedis" where
  "streamEvents D [] c = ([], c)"
| "streamEvents D (e # es) c =
     (case streamEvent D e c of (xs, c') \<Rightarrow> (case streamEvents D es c' of (ys, c'') \<Rightarrow> (xs @ ys, c'')))"

section \<open>Facts\<close>

text \<open>The socket of a client that was ended, before and after it is closed.\<close>

abbreviation closingStream :: "(string, streamListener) emitter" where
  "closingStream \<equiv> [(''close'', True, EmitEnd), (''error'', False, IgnoreError)]"

abbreviation closedStream :: "(string, streamListener) emitter" where
  "closedStream \<equiv> [(''error'', False, IgnoreError)]"

lemma patchedEnd_fields [simp]:
  "nr_stream (patchedEnd f b c) = closingStream" "nr_listeners (patchedEnd f b c) = nr_listeners c"
  "\<not> nr_connected (patchedEnd f b c)" "\<not> nr_ready (patchedEnd f b c)" "nr_closing (patchedEnd f b c)"
  "nr_destroyed (patchedEnd f b c)" "\<not> nr_retry_timer (patchedEnd f b c)"
  "nr_commands (patchedEnd f (Some True) c) = f (nr_commands c)"
  by (simp_all add: patchedEnd_def Let_def ee_defs)

lemma streamEvents_closed: "nr_stream c = closedStream \<Longrightarrow> streamEvents D es c = ([], c)"
proof (induction es)
  case (Cons e es)
  then have "streamEvent D e c = ([], c)" by (cases c) (auto simp: streamEvent_def ee_defs)
  then show ?case using Cons by simp
qed simp

lemma streamEvents_closing:
  assumes "nr_stream c = closingStream"
  shows "fst (streamEvents D es c) = (if ''close'' \<in> set es then listeners ''end'' (nr_listeners c) else [])"
  using assms
proof (induction es)
  case (Cons e es)
  show ?case
  proof (cases "e = ''close''")
    case True
    define c' where "c' = c\<lparr>nr_stream := closedStream, nr_listeners := snd (ee_emit ''end'' (nr_listeners c)), nr_emitted_end := True\<rparr>"
    have "streamEvent D e c = (listeners ''end'' (nr_listeners c), c')"
      using True Cons.prems by (simp add: streamEvent_def ee_defs c'_def)
    then show ?thesis using True streamEvents_closed [of c' D es] by (simp add: c'_def)
  next
    case False
    have "streamEvent D e c = ([], c)" using False Cons.prems by (cases c) (auto simp: streamEvent_def ee_defs)
    then show ?thesis using False Cons by (auto split: prod.splits)
  qed
qed simp

section \<open>Properties\<close>

text \<open>C31. Halting a client of node_redis calls back. The connection is marked as closed, the commands that wait for a reply are
  aborted and the socket is told to close; whatever events the socket then emits, in any number and order, the callback of
  \<open>halt\<close> is called exactly once if it closes, after the listeners that were there before, and not at all
  otherwise. (\<open>cb\<close> is a callback that is not registered yet.)\<close>

theorem halt_calls_back:
  assumes "nr_end c = PatchedEnd" and "(Callback cb) \<notin> set (listeners ''end'' (nr_listeners c))"
    and "rcl_client r = NodeRedis c"
  shows "\<exists>c'. rcl_client (rc_halt D cb r) = NodeRedis c' \<and> \<not> nr_connected c' \<and> \<not> nr_ready c' \<and> nr_closing c' \<and> nr_destroyed c' \<and>
    nr_commands c' = dr_flush_and_error D (nr_commands c) \<and>
    fst (streamEvents D es c') =
      (if ''close'' \<in> set es then listeners ''end'' (nr_listeners c) @ [Callback cb] else []) \<and>
    count_list (fst (streamEvents D es c')) (Callback cb) = (if ''close'' \<in> set es then 1 else 0)"
proof -
  let ?c = "patchedEnd (dr_flush_and_error D) (Some True) (c\<lparr>nr_listeners := ee_once ''end'' (Callback cb) (nr_listeners c)\<rparr>)"
  have "rcl_client (rc_halt D cb r) = NodeRedis ?c"
    using assms(1,3) by (simp add: rc_halt_def rc_end_def)
  moreover have "fst (streamEvents D es ?c) = (if ''close'' \<in> set es then listeners ''end'' (nr_listeners c) @ [Callback cb] else [])"
    using streamEvents_closing [of ?c D es] by simp
  ultimately show ?thesis using assms(2) by (intro exI [of _ ?c]) (simp add: count_notin)
qed

section \<open>Examples\<close>

definition demo_node :: "nat list nodeRedis" where
  "demo_node = \<lparr>nr_listeners = [(''end'', False, DriverOwn 0)], nr_stream = [(''close'', False, DriverOnStream 0)], nr_commands = [1, 2],
     nr_warnings = 0, nr_connected = True, nr_ready = True, nr_closing = False, nr_emitted_end = False, nr_retry_timer = False,
     nr_destroyed = False, nr_end = OriginalEnd\<rparr>"

definition demo_drivers :: "(nat list, unit) drivers" where
  "demo_drivers = \<lparr>dr_flush_and_error = (\<lambda>_. []), dr_originalEnd = (\<lambda>_ c. c\<lparr>nr_stream := []\<rparr>),
     dr_onStream = (\<lambda>_ _ c. ([], c)), dr_disconnect = (\<lambda>_ c. c)\<rparr>"

text \<open>Two errors of the socket, then it closes.\<close>

theorem halt_calls_back_witness:
  "\<exists>c'. rcl_client (rc_halt demo_drivers 7 (newRedisClient (NodeRedis demo_node))) = NodeRedis c' \<and> nr_commands c' = [] \<and>
     fst (streamEvents demo_drivers [''error'', ''error'', ''close''] c') = [DriverOwn 0, Callback 7]"
proof -
  let ?c = "demo_node\<lparr>nr_listeners := ee_once ''ready'' ForwardReady (nr_listeners demo_node), nr_end := PatchedEnd\<rparr>"
  have c: "nr_end ?c = PatchedEnd" "Callback 7 \<notin> set (listeners ''end'' (nr_listeners ?c))"
    "rcl_client (newRedisClient (NodeRedis demo_node)) = NodeRedis ?c"
    by (simp_all add: demo_node_def newRedisClient_def ee_defs)
  from halt_calls_back [OF c, of demo_drivers "[''error'', ''error'', ''close'']"]
  show ?thesis by (auto simp: demo_drivers_def demo_node_def ee_defs)
qed

end
