(* ===== verification/Redis_Commands.thy ===== *)
theory Redis_Commands
  imports Redis_Server
begin

text \<open>
  The commands of \<^verbatim>\<open>src/system/redis-client/redis-client.ts\<close> that no other component sends: each hands its arguments to the driver. The
  driver is an argument here: a command by its name and its arguments, texts or numbers, and what it calls back with.
\<close>

datatype commandArg = TextArg string | NumArg int

type_synonym 's driver = "string \<Rightarrow> commandArg list \<Rightarrow> 's \<Rightarrow> (err + reply) \<times> 's"

definition driverCall :: "'s driver \<Rightarrow> string \<Rightarrow> commandArg list \<Rightarrow> ('s, reply) io" where
  "driverCall D c args s = (case D c args s of (Inl e, s') \<Rightarrow> (Inl (Cb e), s') | (Inr r, s') \<Rightarrow> (Inr r, s'))"

definition rc_watch :: "'s driver \<Rightarrow> string list \<Rightarrow> ('s, reply) io" where
  "rc_watch D args = driverCall D ''watch'' (map TextArg args)"

definition rc_zrevrange :: "'s driver \<Rightarrow> string \<Rightarrow> int \<Rightarrow> int \<Rightarrow> ('s, reply) io" where
  "rc_zrevrange D key lo hi = driverCall D ''zrevrange'' [TextArg key, NumArg lo, NumArg hi]"

text \<open>No callback: the outcome is not looked at.\<close>

definition rc_subscribe :: "'s driver \<Rightarrow> string \<Rightarrow> 's \<Rightarrow> 's" where
  "rc_subscribe D channel s = snd (D ''subscribe'' [TextArg channel] s)"

definition rc_hkeys :: "'s driver \<Rightarrow> string \<Rightarrow> ('s, reply) io" where
  "rc_hkeys D key = driverCall D ''hkeys'' [TextArg key]"

definition rc_rpop :: "'s driver \<Rightarrow> string \<Rightarrow> ('s, reply) io" where
  "rc_rpop D key = driverCall D ''rpop'' [TextArg key]"

definition rc_flushall :: "'s driver \<Rightarrow> ('s, reply) io" where
  "rc_flushall D = driverCall D ''flushall'' []"

text \<open>The arguments of a script: one of them, or an array.\<close>

datatype scriptArgs = OneArg commandArg | ArgArray "commandArg list"

fun arrArgs :: "scriptArgs \<Rightarrow> commandArg list" where
  "arrArgs (ArgArray as) = as"
| "arrArgs (OneArg a) = [a]"

definition rc_eval :: "'s driver \<Rightarrow> scriptArgs \<Rightarrow> ('s, reply) io" where
  "rc_eval D args = driverCall D ''eval'' (arrArgs args)"

definition rc_loadScript :: "'s driver \<Rightarrow> string \<Rightarrow> ('s, reply) io" where
  "rc_loadScript D script = driverCall D ''script'' [TextArg ''load'', TextArg script]"

definition rc_evalsha :: "'s driver \<Rightarrow> string \<Rightarrow> scriptArgs \<Rightarrow> ('s, reply) io" where
  "rc_evalsha D hash args = driverCall D ''evalsha'' (TextArg hash # arrArgs args)"

definition rc_get :: "'s driver \<Rightarrow> string \<Rightarrow> ('s, reply) io" where
  "rc_get D key = driverCall D ''get'' [TextArg key]"

definition rc_set :: "'s driver \<Rightarrow> string \<Rightarrow> string \<Rightarrow> ('s, unit) io" where
  "rc_set D key val = voidM (driverCall D ''set'' [TextArg key, TextArg val])"

definition rc_zremrangebyscore :: "'s driver \<Rightarrow> string \<Rightarrow> int \<Rightarrow> ('s, reply) io" where
  "rc_zremrangebyscore D source score = driverCall D ''zremrangebyscore'' [TextArg source, NumArg score, NumArg score]"

text \<open>The callback is called without the error.\<close>

definition rc_quit :: "'s driver \<Rightarrow> ('s, unit) io" where
  "rc_quit D s = (Inr (), snd (D ''quit'' [] s))"

text \<open>A command of the driver that fails is reported to the caller, except by \<open>quit\<close>, which always calls back without an error.\<close>

theorem command_errors:
  "D c args s = (Inl e, s') \<Longrightarrow> driverCall D c args s = (Inl (Cb e), s')"
  "fst (rc_quit D s) = Inr ()"
  "D ''set'' [TextArg k, TextArg v] s = (Inl e, s') \<Longrightarrow> rc_set D k v s = (Inl (Cb e), s')"
  by (simp_all add: driverCall_def rc_quit_def rc_set_def voidM_def bindM_def)

end
