(* ===== verification/Restart.thy ===== *)
theory Restart
  imports Frontends Events
begin

text \<open>
  A consumer that is stopped and started again: \<^verbatim>\<open>misc/consumer-health-check.js\<close>, which runs and shuts down one consumer three times
  and prints what it sees, over the frontend of \<open>Frontends\<close> and the events of \<open>Events\<close>.
\<close>

section \<open>Halting the connection\<close>

text \<open>Halting a connection makes the driver answer the commands that wait on it with an error; for a dequeue that is the first branch of
  its callback.\<close>

definition dequeueAborted :: "err \<Rightarrow> 's consumer_io" where
  "dequeueAborted e x = handleError e ((fst x)\<lparr>c_dequeues := c_dequeues (fst x) - 1\<rparr>, snd x)"

definition dequeuesAborted :: "err \<Rightarrow> 's consumer_io" where
  "dequeuesAborted e x = waterfall (replicate (c_dequeues (fst x)) (dequeueAborted e)) x"

text \<open>The pending dequeue is aborted while the consumer goes down.\<close>

definition runAndShutdown :: "'s platform \<Rightarrow> err \<Rightarrow> 's consumer_io" where
  "runAndShutdown E e =
     bindM (cf_run E (Inr (), Inr (), Inr ())) (\<lambda>_.
     bindM (cf_shutdown E) (\<lambda>_. dequeuesAborted e))"

section \<open>The health check\<close>

text \<open>The listeners the script registers with the frontend: each prints a line.\<close>

definition scriptListeners :: "(events, string) emitter" where
  "scriptListeners =
     ee_on GOING_DOWN_EVENT ''GOING DOWN'' (ee_on GOING_UP_EVENT ''GOING UP''
    (ee_on DOWN_EVENT ''DOWN'' (ee_on UP_EVENT ''UP'' [])))"

text \<open>What it prints when the consumer behind the frontend emits the event.\<close>

definition printed :: "events \<Rightarrow> string list" where
  "printed e = concat (map (\<lambda>e'. listeners e' scriptListeners) (heard (called 2 newConsumerFrontend e)))"

text \<open>\<open>run\<close> emits \<open>GOING_UP\<close> and, before it calls back, \<open>UP\<close>; \<open>shutdown\<close> likewise.\<close>

definition runLines :: "string \<Rightarrow> string list" where
  "runLines l = printed GOING_UP_EVENT @ printed UP_EVENT @ [l]"

definition shutdownLines :: "string \<Rightarrow> string list" where
  "shutdownLines l = printed GOING_DOWN_EVENT @ printed DOWN_EVENT @ [l]"

fun healthCheck :: "'s platform \<Rightarrow> err \<Rightarrow> (string \<times> string) list \<Rightarrow> consumer \<times> 's \<Rightarrow> (exn + string list) \<times> (consumer \<times> 's)" where
  "healthCheck E e [] x = (Inr [''Done.''], x)"
| "healthCheck E e ((a, b) # ls) x =
     bindM (runAndShutdown E e) (\<lambda>_.
     bindM (healthCheck E e ls) (\<lambda>out. retM (runLines a @ shutdownLines b @ out))) x"

definition consumerHealthCheck :: "'s platform \<Rightarrow> err \<Rightarrow> consumer \<times> 's \<Rightarrow> (exn + string list) \<times> (consumer \<times> 's)" where
  "consumerHealthCheck E e =
     bindM (healthCheck E e [(''a'', ''b''), (''c'', ''d''), (''e'', ''f'')]) (\<lambda>out. retM (''start'' # out))"

lemma printed_simps [simp]:
  "printed UP_EVENT = [''UP'']" "printed DOWN_EVENT = [''DOWN'']" "printed GOING_UP_EVENT = []" "printed GOING_DOWN_EVENT = []"
  by (simp_all add: printed_def consumer_heard [of 0, simplified] numeral_2_eq_2 consumer_forwarded_def scriptListeners_def)

context queue_client
begin

lemma runAndShutdown_live:
  assumes c: "fresh_consumer c" "b_queueName c = nm" "b_id c = inst"
  shows "\<exists>c' s'. runAndShutdown E e (c, s) = (Inr (), (c', s')) \<and> fresh_consumer c' \<and> b_queueName c' = nm \<and> b_id c' = inst \<and>
    lists (view s') = lists (view s) \<and> hashes (view s') (gkey KEY_INDEX_HEARTBEATS) (Str (ikey KEY_HEARTBEAT (p_ns E) nm inst)) = None"
proof -
  let ?c1 = "(consumer_up E c)\<lparr>c_consumerFrontend := True, b_powerManager := pm_up, c_dequeues := 1\<rparr>"
  obtain s1 where 1: "consumer_run E (Inr (), Inr (), Inr ()) (c, s) = (Inr (), (?c1, s1))" "lists (view s1) = lists (view s)"
    using consumer_run_live [OF c(2,3,1)] by blast
  have up: "c_consumerWorkers ?c1 = Some demo_workers" "cw_ok demo_workers" "c_heartbeat ?c1 = Some demo_ticker"
    "tk_running demo_ticker" "b_queueName ?c1 = nm" "b_id ?c1 = inst" "b_powerManager ?c1 = pm_up"
    using cw_new [OF demo_workers_new] c(2,3)
    by (simp_all add: consumer_up_def demo_ticker_def tk_running_def pm_up_def set_up_def Let_def)
  let ?c2 = "?c1\<lparr>c_consumerWorkers := None, c_heartbeat := None, c_consumerRedisClient := False, b_broker := None,
       b_messageRate := None, b_sharedRedisClient := False, b_powerManager := pm_down\<rparr>"
  obtain s2 where 2: "consumer_shutdown E (?c1, s1) = (Inr (), (?c2, s2))" "lists (view s2) = lists (view s1)"
    "hashes (view s2) (gkey KEY_INDEX_HEARTBEATS) (Str (ikey KEY_HEARTBEAT (p_ns E) nm inst)) = None"
    using consumer_shutdown_live [OF up(7,1-6), of s1] by blast
  have 3: "dequeuesAborted e (?c2, s2) = (Inr (), (?c2\<lparr>c_dequeues := 0\<rparr>, s2))"
    by (simp add: dequeuesAborted_def dequeueAborted_def handleError_def bindM_def retM_def pm_down_def pm_defs)
  have "runAndShutdown E e (c, s) = (Inr (), (?c2\<lparr>c_dequeues := 0\<rparr>, s2))"
    using 1(1) 2(1) 3 by (simp add: runAndShutdown_def cf_run_def cf_shutdown_def bindM_def)
  moreover have "fresh_consumer (?c2\<lparr>c_dequeues := 0\<rparr>)" using c(1) by (simp add: fresh_consumer_def fresh_base_def)
  ultimately show ?thesis using c(2,3) 1(2) 2(2,3) by auto
qed

lemma healthCheck_live:
  assumes "fresh_consumer c" "b_queueName c = nm" "b_id c = inst"
  shows "\<exists>c' s'. healthCheck E e ls (c, s) =
      (Inr (concat (map (\<lambda>(a, b). [''UP'', a, ''DOWN'', b]) ls) @ [''Done.'']), (c', s')) \<and>
    fresh_consumer c' \<and> b_queueName c' = nm \<and> b_id c' = inst \<and> lists (view s') = lists (view s)"
  using assms
proof (induction ls arbitrary: c s)
  case (Cons l ls)
  obtain a b where l: "l = (a, b)" by force
  obtain c1 s1 where 1: "runAndShutdown E e (c, s) = (Inr (), (c1, s1))" "fresh_consumer c1" "b_queueName c1 = nm" "b_id c1 = inst"
    "lists (view s1) = lists (view s)"
    using runAndShutdown_live [OF Cons.prems] by blast
  from Cons.IH [OF 1(2-4)] obtain c2 s2 where 2: "healthCheck E e ls (c1, s1) =
      (Inr (concat (map (\<lambda>(a, b). [''UP'', a, ''DOWN'', b]) ls) @ [''Done.'']), (c2, s2))"
    "fresh_consumer c2" "b_queueName c2 = nm" "b_id c2 = inst" "lists (view s2) = lists (view s1)" by blast
  have "healthCheck E e (l # ls) (c, s) =
      (Inr (concat (map (\<lambda>(a, b). [''UP'', a, ''DOWN'', b]) (l # ls)) @ [''Done.'']), (c2, s2))"
    using 1(1) 2(1) by (simp add: l bindM_def retM_def runLines_def shutdownLines_def)
  with 1(5) 2(2-5) show ?case by auto
qed auto

end

section \<open>Properties\<close>



end
