(* ===== verification/Logger.thy ===== *)
theory Logger
  imports Redis_Server
begin

text \<open>
  \<^verbatim>\<open>src/system/common/logger.ts\<close> and the configuration \<^verbatim>\<open>src/system/base.ts\<close> hands to it. A logger is the six methods the
  program calls; bunyan's \<open>createLogger\<close> is the argument \<open>createLogger\<close>, and what its methods are is left open (the type \<open>'m\<close>).
\<close>

record 'm bunyanLogger =
  log_debug :: 'm
  log_warn :: 'm
  log_info :: 'm
  log_trace :: 'm
  log_fatal :: 'm
  log_error :: 'm

type_synonym logOptions = "(string \<times> json) list"

record logConfig =
  lc_enabled :: "bool option"
  lc_options :: "logOptions option"

definition noLogConfig :: logConfig where
  "noLogConfig = \<lparr>lc_enabled = None, lc_options = None\<rparr>"

text \<open>\<open>{...xs, k: v}\<close>.\<close>

definition withMember :: "string \<Rightarrow> json \<Rightarrow> logOptions \<Rightarrow> logOptions" where
  "withMember k v xs = AList.update k v xs"

definition newLogger ::
  "(logOptions \<Rightarrow> 'm bunyanLogger) \<Rightarrow> 'm \<Rightarrow> string \<Rightarrow> logConfig option \<Rightarrow> 'm bunyanLogger result" where
  "newLogger createLogger noop nm config =
     (if nm = [] then Inl (ArgumentError ''Parameter [name] is required.'')
      else
        (let cfg = (case config of None \<Rightarrow> noLogConfig | Some c \<Rightarrow> c);
             options = (case lc_options cfg of None \<Rightarrow> [] | Some os \<Rightarrow> os);
             logger = createLogger (withMember ''name'' (JStr nm) options) in
         if lc_enabled cfg \<noteq> Some True then
           Inr (logger\<lparr>log_debug := noop, log_warn := noop, log_info := noop, log_trace := noop, log_fatal := noop,
             log_error := noop\<rparr>)
         else Inr logger))"

text \<open>The configuration of the logger of a producer or consumer: who it is goes into every line.\<close>

definition base_logConfig :: "string \<Rightarrow> string \<Rightarrow> string \<Rightarrow> logConfig option \<Rightarrow> logConfig" where
  "base_logConfig uid queueName ns log =
     (let c = (case log of None \<Rightarrow> noLogConfig | Some c \<Rightarrow> c);
          options = (case lc_options c of None \<Rightarrow> [] | Some os \<Rightarrow> os) in
      c\<lparr>lc_options := Some (withMember ''ns'' (JStr ns) (withMember ''queueName'' (JStr queueName)
          (withMember ''consumerId'' (JStr uid) options)))\<rparr>)"

text \<open>Logging is off unless it is switched on: none of the six methods is then one of bunyan's. When it is on, the logger is the one
  bunyan makes from the options of the configuration with the identity of the instance and the name of its class, which
  no option of the user can replace.\<close>

theorem logger_of_instance:
  assumes "nm \<noteq> []"
  shows "(lc_enabled (base_logConfig uid q ns log) \<noteq> Some True \<longrightarrow>
      (\<exists>l. newLogger mk noop nm (Some (base_logConfig uid q ns log)) = Inr l \<and>
        {log_debug l, log_warn l, log_info l, log_trace l, log_fatal l, log_error l} = {noop})) \<and>
    (lc_enabled (base_logConfig uid q ns log) = Some True \<longrightarrow>
      (\<exists>os. newLogger mk noop nm (Some (base_logConfig uid q ns log)) = Inr (mk os) \<and>
        map_of os ''name'' = Some (JStr nm) \<and> map_of os ''consumerId'' = Some (JStr uid) \<and>
        map_of os ''queueName'' = Some (JStr q) \<and> map_of os ''ns'' = Some (JStr ns) \<and>
        (\<forall>k. k \<notin> {''name'', ''consumerId'', ''queueName'', ''ns''} \<longrightarrow>
          map_of os k = (case log of Some c \<Rightarrow> (case lc_options c of Some u \<Rightarrow> map_of u k | None \<Rightarrow> None) | None \<Rightarrow> None))))"
  using assms
  by (auto simp: newLogger_def base_logConfig_def noLogConfig_def withMember_def update_conv Let_def split: option.split)

end
