(* ===== verification/Heartbeat_Usage.thy ===== *)
theory Heartbeat_Usage
  imports Workers
begin

text \<open>
  What a heartbeat says of the process, \<^verbatim>\<open>src/system/consumer/heartbeat.ts\<close>: its addresses and its use of memory and processor. What
  \<open>os\<close> and \<open>process\<close> of Node report are arguments; so is the text of the percentage, a floating point number.
\<close>

section \<open>Addresses\<close>

record netAddr =
  na_family :: string
  na_internal :: bool
  na_address :: string

text \<open>The interfaces in the order of the object; one without addresses may be undefined.\<close>

fun addAddresses :: "netAddr list \<Rightarrow> string list \<Rightarrow> string list" where
  "addAddresses [] addresses = addresses"
| "addAddresses (a # as) addresses =
     addAddresses as (if na_family a = ''IPv4'' \<and> \<not> na_internal a then addresses @ [na_address a] else addresses)"

fun addInterfaces :: "(string \<times> netAddr list option) list \<Rightarrow> string list \<Rightarrow> string list" where
  "addInterfaces [] addresses = addresses"
| "addInterfaces ((_, addr) # nets) addresses =
     addInterfaces nets (addAddresses (case addr of None \<Rightarrow> [] | Some as \<Rightarrow> as) addresses)"

definition getIPAddresses :: "(string \<times> netAddr list option) list \<Rightarrow> string list" where
  "getIPAddresses nets = addInterfaces nets []"

section \<open>Processor\<close>

text \<open>Times in microseconds, \<open>hrtime\<close> in seconds and nanoseconds.\<close>

record cpuTimes =
  ct_user :: int
  ct_system :: int

record cpuUsageStats =
  cs_cpuUsage :: cpuTimes
  cs_time :: "int \<times> int"

definition hr_diff :: "int \<times> int \<Rightarrow> int \<times> int \<Rightarrow> int \<times> int" where
  "hr_diff now before =
     (let ns = (fst now - fst before) * 1000000000 + (snd now - snd before) in (ns div 1000000000, ns mod 1000000000))"

definition cpu_diff :: "cpuTimes \<Rightarrow> cpuTimes \<Rightarrow> cpuTimes" where
  "cpu_diff now before = \<lparr>ct_user = ct_user now - ct_user before, ct_system = ct_system now - ct_system before\<rparr>"

text \<open>The clocks are read twice: \<open>t1\<close>, \<open>c1\<close> are kept for the next call, \<open>t2\<close>, \<open>c2\<close> are compared with those of the last one.
  \<open>percentage\<close> makes the text from the used time and the elapsed time.\<close>

definition cpuUsage ::
  "(int \<Rightarrow> int \<times> int \<Rightarrow> string) \<Rightarrow> int \<times> int \<Rightarrow> cpuTimes \<Rightarrow> int \<times> int \<Rightarrow> cpuTimes \<Rightarrow> cpuUsageStats \<Rightarrow> json \<times> cpuUsageStats" where
  "cpuUsage percentage t1 c1 t2 c2 st =
     (let timestampDiff = hr_diff t2 (cs_time st); cpuUsageDiff = cpu_diff c2 (cs_cpuUsage st) in
      (JObj [(''percentage'', JStr (percentage (ct_user cpuUsageDiff + ct_system cpuUsageDiff) timestampDiff)),
             (''user'', JNum (ct_user cpuUsageDiff)), (''system'', JNum (ct_system cpuUsageDiff))],
       \<lparr>cs_cpuUsage = c1, cs_time = t1\<rparr>))"

section \<open>The payload\<close>

record processInfo =
  pi_hostname :: string
  pi_pid :: int
  pi_memoryUsage :: json
  pi_freemem :: int
  pi_totalmem :: int

definition heartbeat_usage :: "string list \<Rightarrow> processInfo \<Rightarrow> json \<Rightarrow> json" where
  "heartbeat_usage ips p cpu =
     JObj [(''ipAddress'', JArr (map JStr ips)), (''hostname'', JStr (pi_hostname p)), (''pid'', JNum (pi_pid p)),
       (''ram'', JObj [(''usage'', pi_memoryUsage p), (''free'', JNum (pi_freemem p)), (''total'', JNum (pi_totalmem p))]),
       (''cpu'', cpu)]"

section \<open>Properties\<close>

lemma addAddresses_eq: "addAddresses as xs = xs @ map na_address (filter (\<lambda>a. na_family a = ''IPv4'' \<and> \<not> na_internal a) as)"
  by (induction as arbitrary: xs) simp_all

lemma addInterfaces_eq:
  "addInterfaces nets xs = xs @ map na_address (filter (\<lambda>a. na_family a = ''IPv4'' \<and> \<not> na_internal a)
     (concat (map (\<lambda>(_, addr). case addr of None \<Rightarrow> [] | Some as \<Rightarrow> as) nets)))"
  by (induction nets xs rule: addInterfaces.induct) (simp_all add: addAddresses_eq)

text \<open>The addresses are those of all interfaces that are IPv4 and not internal, in order.\<close>

theorem ip_addresses:
  "getIPAddresses nets = map na_address (filter (\<lambda>a. na_family a = ''IPv4'' \<and> \<not> na_internal a)
     (concat (map (\<lambda>(_, addr). case addr of None \<Rightarrow> [] | Some as \<Rightarrow> as) nets)))"
  by (simp add: getIPAddresses_def addInterfaces_eq)

text \<open>The processor times of consecutive heartbeats add up to the time used since the start, when each pair of readings is taken at one
  moment: nothing is counted twice and nothing is left out.\<close>

fun cpu_reports :: "(int \<Rightarrow> int \<times> int \<Rightarrow> string) \<Rightarrow> ((int \<times> int) \<times> cpuTimes) list \<Rightarrow> cpuUsageStats \<Rightarrow> json list" where
  "cpu_reports pc [] st = []"
| "cpu_reports pc ((t, c) # rs) st = (case cpuUsage pc t c t c st of (j, st') \<Rightarrow> j # cpu_reports pc rs st')"

definition reported_user :: "json \<Rightarrow> int" where
  "reported_user j = (case j of JObj xs \<Rightarrow> (case map_of xs ''user'' of Some (JNum n) \<Rightarrow> n | _ \<Rightarrow> 0) | _ \<Rightarrow> 0)"

theorem cpu_reports_add_up:
  "sum_list (map reported_user (cpu_reports pc rs st)) =
     ct_user (if rs = [] then cs_cpuUsage st else snd (last rs)) - ct_user (cs_cpuUsage st)"
  by (induction pc rs st rule: cpu_reports.induct) (auto simp: cpuUsage_def cpu_diff_def reported_user_def Let_def)

end
