(* ===== verification/Spec2Isabelle.thy ===== *)
theory Spec2Isabelle
  imports Scheduled_Delivery Priority_Delivery Backlog Progress Stats_Process Frontends Monitor_DTO Monitor_App Redis_Driver
    Redis_Commands Restart Logger Heartbeat_Usage
begin

text \<open>
  \<^bold>\<open>redis-smq\<close>: a message queue for Node.js on top of Redis. Producers put messages into queues; every consumer
  takes one message at a time from its queue into a processing queue of its own and has the application
  consume it; a message that is not acknowledged is retried (at once or after a delay), or ends in the dead-letter
  queue. Messages may be scheduled (delay, period and repeat, cron). One consumer process, elected by a lock,
  forks worker processes that move scheduled, delayed and requeued messages and collect the messages of consumers
  that stopped sending heartbeats. All state shared by the processes is in Redis.

  \<^bold>\<open>How the program is modelled.\<close> A call with a callback is a function from the state to an outcome and a new
  state (\<open>('s, 'a) io\<close>): \<open>Inr\<close> is the reply, \<open>Inl (Cb e)\<close> an error handed to the callback, \<open>Inl (Throw e)\<close> an exception,
  \<open>Inl NoReply\<close> a callback that is not called (yet). Code outside the repository is a parameter, the record
  \<open>platform\<close>: the Redis server and its \<open>MULTI\<close> (\<open>p_srv\<close>, \<open>p_mul\<close>), the server version and loaded scripts, redlock
  (\<open>p_rlock\<close>, \<open>p_rextend\<close>, \<open>p_runlock\<close>), the clock, uuid, cron-parser, and the namespace in force. What the program relies on is
  stated as locales: \<open>redis_server\<close> (every command does what the Redis documentation says, the predicate \<open>doc\<close> on the abstract
  \<open>store\<close>), \<open>live_server\<close> (it answers), \<open>smq_platform\<close> and \<open>smq_live\<close> (the same for the whole platform; locking does not
  touch the data), \<open>queue_client\<close> (a client of one queue, with names that passed validation). \<open>delivery_queue\<close> is the contract of
  a queue (put, get, what it holds); both kinds of queue provide it by \<open>sublocale\<close>. \<open>smq_system\<close> is any number of clients of
  one queue. All of them are interpreted on the in-memory server \<open>mem_srv\<close>, on which the witnesses run.

  \<^bold>\<open>Theories, in the order of the calls\<close> (sources are under \<^verbatim>\<open>src/src/system\<close>):
  \<^item> \<open>SMQ_Prelude\<close>: errors, the state and error monad, its inversion and evaluation rules.
  \<^item> \<open>Redis_Server\<close>: texts, commands, replies, the documented meaning of each command, the in-memory server.
  \<^item> \<open>Redis_Keys\<close> (\<^verbatim>\<open>common/redis-keys\<close>): keys are injective and \<open>extractData\<close> inverts them.
  \<^item> \<open>Message\<close> (\<^verbatim>\<open>message.ts\<close>): the message record, its methods, its JSON text; round trip, well-formedness, expiry.
  \<^item> \<open>Redis_Client\<close> (\<^verbatim>\<open>redis-client\<close>, the Lua scripts): the commands as the program calls them; the two implementations of
    \<open>lpoprpush\<close> agree.
  \<^item> \<open>Lock_Manager\<close> (\<^verbatim>\<open>common/lock-manager\<close>), \<open>Message_Common\<close> (\<^verbatim>\<open>message-manager/common.ts\<close>): positional access and deletion under a
    lock, pagination.
  \<^item> \<open>Queue_Handlers\<close> (\<^verbatim>\<open>message-manager/handlers\<close>: enqueue, dequeue, processing): no message is lost or delivered twice; a queue without
    priorities is a stack, one with priorities delivers by priority; the poll loop calls back.
  \<^item> \<open>Schedule_Handlers\<close> (schedule, delay and requeue handlers): exactly the due messages are delivered, as often as asked for.
  \<^item> \<open>Power_Ticker\<close> (\<^verbatim>\<open>common/power-manager\<close>, \<^verbatim>\<open>ticker\<close>, \<^verbatim>\<open>worker-runner\<close>): the state machines of start and stop.
  \<^item> \<open>Broker\<close> (\<^verbatim>\<open>message-manager.ts\<close>, \<^verbatim>\<open>queue-manager.ts\<close>, \<^verbatim>\<open>broker.ts\<close>, \<^verbatim>\<open>producer.ts\<close>): the retry decision, producing, registration.
  \<^item> \<open>Workers\<close> (\<^verbatim>\<open>consumer/heartbeat.ts\<close>, \<^verbatim>\<open>workers\<close>): heartbeats and one tick of every worker.
  \<^item> \<open>Message_Rate\<close> (\<^verbatim>\<open>message-rate.ts\<close> and subclasses): published rates are exact.
  \<^item> \<open>Base\<close> (\<^verbatim>\<open>base.ts\<close>, \<^verbatim>\<open>producer.ts\<close>): start-up and shutdown as sequences of tasks, the producer.
  \<^item> \<open>Consumer_Workers\<close> (\<^verbatim>\<open>consumer/consumer-workers.ts\<close>): the election of the process that runs the workers.
  \<^item> \<open>Consumer\<close> (\<^verbatim>\<open>consumer/consumer.ts\<close>): the consumer as a state machine over its callbacks; one message at a time,
    and every outcome reaches the message it is about.
  \<^item> \<open>Redis_Connection\<close> (\<^verbatim>\<open>redis-client\<close>: \<open>getNewInstance\<close>, \<open>updateServerVersion\<close>, \<open>loadScripts\<close>): how a client is made. The
    class variables of \<open>RedisClient\<close> are a record; \<open>client_ready\<close> shows that a client that is handed out satisfies what the
    theories above take from the platform, a known version and loaded scripts.
  \<^item> \<open>Events\<close> (\<^verbatim>\<open>common/events.ts\<close>, the \<open>registerEvents\<close> methods): Node's \<open>EventEmitter\<close> as a list of listeners, those of
    a consumer and a producer in the order of registration, and what of it the application hears.
  \<^item> \<open>Redis_Driver\<close> (\<^verbatim>\<open>redis-client\<close>: constructor, \<open>end\<close>, \<open>halt\<close>, \<open>patchedEnd\<close>): the client and its driver as emitters; halting
    calls back exactly once.
  \<^item> \<open>Worker_Processes\<close> (\<^verbatim>\<open>workers\<close>: constructors and the handlers of the message from the parent): how a worker process
    is started, and its life as a sequence of ticks with the rest of the system in between.
  \<^item> \<open>Delivery\<close>: rounds of delivery, failure and retry, built from the consumer and the workers. \<open>Scheduled_Delivery\<close>: the same for the
    deliveries of a scheduled message. \<open>Priority_Delivery\<close>: deliveries in priority mode. \<open>Backlog\<close>: a whole queue with an application that
    does what it likes with each message. \<open>Recovery\<close>: a tick of the garbage collector over all processing queues. \<open>Conservation\<close>: the whole
    system as a step relation, whose steps are the operations above, and its invariant; \<open>Progress\<close>: a measure of the work left and the
    operations that make it smaller. The lemmas for the theorems of this theory.
  \<^item> \<open>Stats\<close> (\<^verbatim>\<open>src/src/monitor-server/workers/stats.worker.ts\<close>): one round of the statistics worker. Its state is the
    record of the three result maps; a size is a Redis reply, \<open>None\<close> is \<open>NaN\<close>. What it publishes is exact.
    \<open>Stats_Process\<close>: its process, round after round.
  \<^item> \<open>Frontends\<close> (\<^verbatim>\<open>message-manager-frontend.ts\<close>, \<^verbatim>\<open>queue-manager-frontend.ts\<close>, \<^verbatim>\<open>producer-frontend.ts\<close>,
    \<^verbatim>\<open>consumer-frontend.ts\<close>): what the application calls. Every method hands its call on; a singleton is made in two steps, the request for a client and its
    answer, since other calls may come between them.
  \<^item> \<open>Restart\<close> (\<^verbatim>\<open>src/misc/consumer-health-check.js\<close>): a consumer that is run and shut down again and again, over its frontend, and
    what the script prints.
  \<^item> \<open>Logger\<close> (\<^verbatim>\<open>common/logger.ts\<close>), \<open>Heartbeat_Usage\<close> (the use of memory and processor in \<^verbatim>\<open>consumer/heartbeat.ts\<close>) and
    \<open>Redis_Commands\<close> (the commands of \<^verbatim>\<open>redis-client.ts\<close> no component sends, which hand their arguments to the driver).
  \<^item> \<open>Monitor_Server\<close> (\<^verbatim>\<open>src/src/monitor-server\<close>): services, the eighteen handlers, the table of routes, the middlewares in the
    order koa runs them, and start and stop. A request that matched a route goes through \<open>serve\<close>; its outcome is a response, or
    none, when an exception is thrown in a callback that the error handler does not enclose. The validation of requests and
    responses is a parameter.
  \<^item> \<open>Monitor_DTO\<close> (\<^verbatim>\<open>src/src/monitor-server/controllers\<close>, the DTO files): the classes with their decorators as data. The
    documented behaviour of class-validator and class-transformer are the locales \<open>class_validator\<close> and \<open>class_transformer\<close>, together
    \<open>dto_library\<close>; with them the validators of \<open>Monitor_Server\<close> are determined, and \<open>monitor_contract\<close> says for every route
    which requests are refused and that data of redis-smq passes. \<open>Monitor_App\<close> (\<^verbatim>\<open>index.ts\<close>, \<^verbatim>\<open>services/index.ts\<close>): the application as
    the chain of its middlewares, those of other packages being arguments with their documented behaviour in the locale \<open>api_request\<close>.

  \<^bold>\<open>Composition.\<close> The theorems at the end of this theory follow a message through all components: \<open>produced_message_consumed\<close>
  from a running producer through the consumer of its queue to the answer of the application, \<open>failing_message_dead_lettered\<close>
  through all its retries, with the requeue worker in between, to the dead-letter queue, and \<open>delayed_message_dead_lettered\<close> the same
  through the delay queue and the schedule, with the delay and schedule workers in between. \<open>scheduled_message_delivered\<close> follows a message with
  a delay, period and repetitions through all its deliveries, and \<open>priority_backlog_consumed\<close> a priority queue from the producer to
  the last acknowledgement. \<open>crashed_consumer_recovered\<close> follows the message of a consumer that dies through the garbage collector and
  the requeue worker to another consumer. \<open>backlog_settled\<close> is about a whole queue and everything an application can do with its
  messages. \<open>no_message_lost\<close> is about any interleaving of all operations of all processes: the relation \<open>sys_step\<close> has a rule for each of
  them, and its invariant counts the messages in all places. A step is a whole operation of a component; other processes between two commands of
  one operation are not part of it. \<open>every_message_consumable\<close> is the other half: from each of these states all messages can still be settled.

  \<^bold>\<open>Fuel.\<close> The only loop that may not end is the polling of an empty priority queue (\<open>dequeueWithPriority\<close>); its fuel is the number
  of polls and running out is \<open>NoReply\<close>, the callback not called. \<open>priority_poll_returns\<close> shows that \<open>n + 2\<close> polls are enough
  when a message is there after tick \<open>n\<close>.

  \<^bold>\<open>Not modelled.\<close> Third-party code: sockets and HTTP, path matching of the router, the Redis drivers beyond the arguments named
  above, floating point (the percentage in a heartbeat is an argument). The calls that write a line to the log, which have no effect the program
  sees. The example scripts. Getters that return a field are the selectors of the records.
\<close>

section \<open>A message on its way through the system\<close>

text \<open>C3. From producer to acknowledgement: a producer and a consumer of the same queue are started, the producer
  produces a message that is not scheduled and has time to live, and the application answers it. Every call succeeds;
  the application gets exactly that message (with its queue and time of publication); if the application reports no error the
  message has been added to the list of acknowledged messages, otherwise to the list where the retry rules send it; every other list of
  Redis is as before, in particular the pending and the processing queue; and the consumer waits for the next
  message.\<close>

theorem produced_message_consumed:
  assumes client: "queue_client E view nm inst"
    and p: "fresh_base b" "b_queueName b = nm" "\<not> cfg_priorityQueue (b_config b)"
    and c: "fresh_consumer c" "b_queueName c = nm" "b_id c = inst" "\<not> cfg_priorityQueue (b_config c)"
    and m: "\<not> isSchedulable m" "body m \<noteq> None" "ttl m = 0 \<or> createdAt m + ttl m > p_now E"
    and kp: "kp = ikey KEY_QUEUE_PROCESSING (p_ns E) nm inst" "lists (view s) kp = []" "list_only (view s) kp"
    and pending: "msgs_at (view s) (qkey KEY_QUEUE (p_ns E) nm) ms"
    and m': "m' = published E False (produced_form E nm m)"
    and dest: "dest = (case res of None \<Rightarrow> qkey KEY_QUEUE_ACKNOWLEDGED_MESSAGES (p_ns E) nm
      | Some _ \<Rightarrow> fate_key (p_ns E) nm (fate_of (p_now E) UNACKNOWLEDGED m'))"
  shows "\<exists>b1 s1 c1 s2 b2 s3 c2 s4. producer_run E (Inr ()) (b, s) = (Inr (), (b1, s1)) \<and>
    consumer_run E (Inr (), Inr (), Inr ()) (c, s1) = (Inr (), (c1, s2)) \<and>
    producer_produceMessage E m (b1, s2) = (Inr True, (b2, s3)) \<and>
    deliver E 0 res (c1, s3) = (Inr (), (c2, s4)) \<and>
    map d_msg (c_deliveries c2) = [m'] \<and> isRunning (b_powerManager c2) \<and> c_dequeues c2 = 1 \<and> c_calls c2 = [] \<and>
    mset (lists (view s4) dest) = add_mset (toString m') (mset (lists (view s) dest)) \<and>
    (\<forall>k. k \<noteq> dest \<longrightarrow> lists (view s4) k = lists (view s) k)"
proof -
  let ?c1 = "(consumer_up E c)\<lparr>c_consumerFrontend := True, b_powerManager := pm_up, c_dequeues := 1\<rparr>"
  let ?q = "qkey KEY_QUEUE (p_ns E) nm"
  note live = queue_client.axioms(1) [OF client]
  obtain s1 where 1: "producer_run E (Inr ()) (b, s) = (Inr (), (producer_up E b, s1))"
    "lists (view s1) = lists (view s)" "list_only (view s1) kp"
    using smq_live.producer_run_live [OF live p(1), of s] kp(3) queue_client.plain_names [OF client] kp(1)
    by (auto simp: list_only_def)
  obtain s2 where 2: "consumer_run E (Inr (), Inr (), Inr ()) (c, s1) = (Inr (), (?c1, s2))"
    "lists (view s2) = lists (view s)" "list_only (view s2) kp"
    using queue_client.consumer_run_live [OF client c(2,3,1), of s1] 1(2,3) kp(1) by auto
  obtain s3 where 3: "producer_produceMessage E m (producer_up E b, s2) = (Inr True, (countInput (p_now E) (producer_up E b), s3))"
    "view s3 = set_list ?q (lists (view s2) ?q @ [toString m']) (view s2)"
    using smq_live.produce_enqueues [OF live, of pm_up m nm s2] m(1) p(2,3)
    by (auto simp: producer_up_produce m')
  have sv: "serving E nm inst 1 [] [] ?c1"
    using c by (simp add: serving_def handler_ok_def fresh_consumer_def consumer_up_def set_up_def Let_def)
  have at: "msgs_at (view s3) ?q (ms @ [m'])" "lists (view s3) kp = []" "list_only (view s3) kp"
    using 3(2) 2(2,3) pending m(2) kp(2) queue_client.processing_keys_ne [OF client]
    by (auto simp: msgs_at_def m' published_def produced_form_def reset_def kp(1) list_only_def)
  have ex: "hasExpired (p_now E) m' = (False, m')"
    using m(3) by (auto simp: hasExpired_def m' published_def produced_form_def reset_def)
  obtain c2 s4 where 4: "deliver E 0 res (?c1, s3) = (Inr (), (c2, s4))"
    "serving E nm inst 1 [\<lparr>d_msg = m', d_isTimeout = False, d_timer = False\<rparr>] [] c2"
    "view s4 = settled_view (p_ns E) nm kp (toString m') (p_now E) (answer m' res)
      (set_list kp [toString m'] (set_list ?q (map toString ms) (view s3)))"
    using queue_client.deliver_live [OF client sv kp(1) at(1) ex at(2,3), of res] by auto
  have d: "dest = settled_key (p_ns E) nm (p_now E) (answer m' res)"
    by (simp add: dest settled_key_def answer_def split: option.split)
  note ne = queue_client.settled_key_ne [OF client, of "p_now E" "answer m' res", folded d kp(1)]
  note l = settled_view_lists [of kp "p_ns E" nm "p_now E" "answer m' res", folded d, OF ne(1)]
  have "mset (lists (view s4) dest) = add_mset (toString m') (mset (lists (view s) dest))"
    using l(2) ne by (simp add: 4(3) 3(2) 2(2))
  moreover have "lists (view s4) k = lists (view s) k" if "k \<noteq> dest" for k
    using l(1,3) that pending kp(2) by (cases "k = kp") (auto simp: 4(3) 3(2) 2(2) msgs_at_def)
  ultimately show ?thesis using 1(1) 2(1) 3(1) 4(1,2)
    by (intro exI conjI) (auto simp: serving_def)
qed


text \<open>C4. A message the application never manages to consume is delivered exactly as often as its retry threshold says and
  then dead-lettered: a running consumer with an otherwise empty queue, an application that reports an error every time, and the
  requeue worker ticking in between. The deliveries are the message with its attempts counted from zero; in the end
  it is at the end of the dead-letter queue and nowhere else, and every other list is as before.\<close>

theorem failing_message_dead_lettered:
  assumes client: "queue_client E view nm inst" and "serving E nm inst 1 [] [] c"
    and "kp = ikey KEY_QUEUE_PROCESSING (p_ns E) nm inst" "lists (view s) kp = []" "list_only (view s) kp"
    and "lists (view s) (qkey KEY_QUEUE (p_ns E) nm) = [toString m]" "lists (view s) (gkey KEY_QUEUE_REQUEUE) = []"
    and "retried_at_once E nm m" "attempts m = 0" and "dl = qkey KEY_QUEUE_DL (p_ns E) nm"
  shows "\<exists>c' s'. waterfall (map (failing_round E e) [0..<nat (retryThreshold m)]) (c, s) = (Inr (), (c', s')) \<and>
    map d_msg (c_deliveries c') = map (\<lambda>i. m\<lparr>attempts := int i\<rparr>) [0..<nat (retryThreshold m)] \<and>
    isRunning (b_powerManager c') \<and> c_dequeues c' = 1 \<and> c_calls c' = [] \<and>
    lists (view s') = (lists (view s))(qkey KEY_QUEUE (p_ns E) nm := [],
      dl := lists (view s) dl @ [toString (m\<lparr>attempts := retryThreshold m - 1\<rparr>)])"
proof -
  define n where "n = nat (retryThreshold m) - 1"
  have n: "nat (retryThreshold m) = Suc n" "int n < retryThreshold m" "retryThreshold m - 1 = int n"
    using assms(8) by (auto simp: n_def retried_at_once_def)
  let ?q = "qkey KEY_QUEUE (p_ns E) nm" and ?m = "m\<lparr>attempts := int n\<rparr>"
  obtain c1 s1 where 1: "waterfall (map (failing_round E e) [0..<n]) (c, s) = (Inr (), (c1, s1))"
    "serving E nm inst 1 (attempts_of m n) [] c1" "list_only (view s1) kp"
    "lists (view s1) = (lists (view s))(?q := [toString ?m])"
    using queue_client.failing_rounds_live [OF client assms(2,3,6,7,8,9,4,5) n(2)] by blast
  have "lists (view s1) ?q = [toString ?m]" "lists (view s1) (gkey KEY_QUEUE_REQUEUE) = []"
    "retried_at_once E nm ?m" "lists (view s1) kp = []"
    using 1(4) assms(3,4,7,8) queue_client.processing_keys_ne [OF client] queue_client.plain_names [OF client] by auto
  from queue_client.failing_round_live [OF client 1(2) assms(3) this 1(3), of e] n(2) obtain c2 s2 where
    2: "failing_round E e n (c1, s1) = (Inr (), (c2, s2))" "serving E nm inst 1 (attempts_of m (Suc n)) [] c2"
    "lists (view s2) = (lists (view s1))(?q := [], dl := lists (view s1) dl @ [toString ?m])"
    using n(3) assms(10) by auto
  have dl: "lists (view s1) dl = lists (view s) dl"
    using 1(4) assms(10) queue_client.plain_names [OF client] by simp
  have "map d_msg (c_deliveries c2) = map (\<lambda>i. m\<lparr>attempts := int i\<rparr>) [0..<Suc n]"
    using 2(2) by (auto simp: serving_def attempts_of_def)
  with 1(1,4) 2 dl show ?thesis unfolding n(1,3)
    by (intro exI [of _ c2] exI [of _ s2]) (auto simp: waterfall_append bindM_def retM_def serving_def)
qed


text \<open>C5. The same for a message with a retry delay. Between two deliveries it goes through the delay queue and the schedule:
  the delay worker puts it there at its tick, and the schedule worker leaves it alone until the delay has passed since then
  and brings it back at its first tick afterwards. The message is delivered exactly as often as its retry threshold says, under the
  same identifier with its attempts counted, and is then at the end of the dead-letter queue; the schedule is empty and every
  other list is as before. The clock may take any values at the ticks that respect the delay.\<close>

theorem delayed_message_dead_lettered:
  assumes client: "queue_client E view nm inst" and "serving E nm inst 1 [] [] c"
    and "kp = ikey KEY_QUEUE_PROCESSING (p_ns E) nm inst" "lists (view s) kp = []" "list_only (view s) kp"
    and "lists (view s) (qkey KEY_QUEUE (p_ns E) nm) = [toString m]" "lists (view s) (gkey KEY_QUEUE_DELAY) = []" "unscheduled (view s)"
    and m: "retried_later E nm m" "attempts m = 0" "retryThreshold m = int (Suc (length ts))"
    and ts: "list_all (\<lambda>(t, t1, t2). 0 < t1 \<and> t1 + retryDelay m \<le> t2) ts" and "dl = qkey KEY_QUEUE_DL (p_ns E) nm"
  shows "(\<exists>c' s' m'. bindM (delayed_rounds E e 0 ts) (\<lambda>_. deliver (E\<lparr>p_now := t\<rparr>) (length ts) (Some e)) (c, s) = (Inr (), (c', s')) \<and>
      map (\<lambda>d. (uuid (d_msg d), attempts (d_msg d))) (c_deliveries c') = map (\<lambda>i. (uuid m, int i)) [0..<Suc (length ts)] \<and>
      isRunning (b_powerManager c') \<and> c_dequeues c' = 1 \<and> c_calls c' = [] \<and> unscheduled (view s') \<and>
      uuid m' = uuid m \<and> body m' = body m \<and>
      lists (view s') = (lists (view s))(qkey KEY_QUEUE (p_ns E) nm := [], dl := lists (view s) dl @ [toString m'])) \<and>
    (\<forall>s1 t1 t2. lists (view s1) (gkey KEY_QUEUE_DELAY) = [toString m] \<longrightarrow> unscheduled (view s1) \<longrightarrow> 0 < t1 \<longrightarrow> t2 < t1 + retryDelay m \<longrightarrow>
      (\<exists>s2 s3. delayWorker_onTick (E\<lparr>p_now := t1\<rparr>) s1 = (Inr (), s2) \<and>
        scheduleWorker_onTick (E\<lparr>p_now := t2\<rparr>) False s2 = (Inr (), s3) \<and> view s3 = view s2))"
proof (intro conjI allI impI)
  let ?q = "qkey KEY_QUEUE (p_ns E) nm" and ?m = "last (redeliveries E ts m)"
  have att: "attempts m + int (length ts) < retryThreshold m" using m(2,3) by simp
  obtain c1 s1 where 1: "delayed_rounds E e 0 ts (c, s) = (Inr (), (c1, s1))"
    "serving E nm inst 1 (done_deliveries (butlast (redeliveries E ts m))) [] c1" "list_only (view s1) kp" "unscheduled (view s1)"
    "lists (view s1) = (lists (view s))(?q := [toString ?m])" "retried_later E nm ?m"
    using queue_client.delayed_rounds_live [OF client assms(3,2,6,7) m(1) assms(4,5,8) att ts, of e] by auto
  have r: "redeliveries E ts m \<noteq> []" "length (redeliveries E ts m) = Suc (length ts)"
    using arg_cong [OF redeliveries_attempts [of E ts m], of length] by auto
  then have len: "length (done_deliveries (butlast (redeliveries E ts m))) = length ts" by (simp add: done_deliveries_def)
  have last: "uuid ?m = uuid m" "attempts ?m = int (length ts)" "body ?m = body m" "retryThreshold ?m = retryThreshold m"
    using arg_cong [OF redeliveries_attempts [of E ts m], of last] r(1) m(2) redeliveries_last [of E ts m] by (auto simp: last_map)
  have l1: "lists (view s1) ?q = [toString ?m]" "lists (view s1) kp = []"
    using 1(5) assms(3,4) queue_client.processing_keys_ne [OF client] by auto
  have app: "done_deliveries (butlast (redeliveries E ts m)) @ [\<lparr>d_msg = ?m, d_isTimeout = False, d_timer = False\<rparr>] =
      done_deliveries (redeliveries E ts m)"
    using arg_cong [OF append_butlast_last_id [OF r(1)], of done_deliveries] by (simp add: done_deliveries_def)
  obtain c2 s2 where 2: "deliver (E\<lparr>p_now := t\<rparr>) (length ts) (Some e) (c1, s1) = (Inr (), (c2, s2))"
    "serving E nm inst 1 (done_deliveries (redeliveries E ts m)) [] c2"
    "view s2 = fate_view (p_ns E) nm kp (toString ?m) ToDeadLetter (set_list kp [toString ?m] (set_list ?q [] (view s1)))"
    using queue_client.fails_once [OF client 1(2) assms(3) l1(1) 1(6) l1(2) 1(3), of t e, unfolded app len] last(2,4) m(3)
    by auto
  have "lists (view s2) = (lists (view s))(?q := [], dl := lists (view s) dl @ [toString ?m])"
    using assms(3,4,13) queue_client.processing_keys_ne [OF client] queue_client.plain_names [OF client]
      queue_client.fate_key_ne [OF client, of ToDeadLetter]
    by (auto simp: 2(3) 1(5) fate_view_def moved_def fate_key_def fun_eq_iff Let_def)
  moreover have "unscheduled (view s2)" using 1(4) by (simp add: 2(3) fate_view_def moved_def unscheduled_def Let_def)
  moreover have "map (\<lambda>d. (uuid (d_msg d), attempts (d_msg d))) (c_deliveries c2) = map (\<lambda>i. (uuid m, int i)) [0..<Suc (length ts)]"
    using 2(2) redeliveries_attempts [of E ts m] m(2) by (simp add: serving_def done_deliveries_def comp_def del: upt_Suc)
  ultimately show "\<exists>c' s' m'. bindM (delayed_rounds E e 0 ts) (\<lambda>_. deliver (E\<lparr>p_now := t\<rparr>) (length ts) (Some e)) (c, s) = (Inr (), (c', s')) \<and>
      map (\<lambda>d. (uuid (d_msg d), attempts (d_msg d))) (c_deliveries c') = map (\<lambda>i. (uuid m, int i)) [0..<Suc (length ts)] \<and>
      isRunning (b_powerManager c') \<and> c_dequeues c' = 1 \<and> c_calls c' = [] \<and> unscheduled (view s') \<and>
      uuid m' = uuid m \<and> body m' = body m \<and>
      lists (view s') = (lists (view s))(?q := [], dl := lists (view s) dl @ [toString m'])"
    using 1(1) 2(1,2) last by (intro exI [of _ c2] exI [of _ s2] exI [of _ ?m]) (simp add: bindM_def serving_def del: upt_Suc)
next
  fix s1 t1 t2
  assume a: "lists (view s1) (gkey KEY_QUEUE_DELAY) = [toString m]" "unscheduled (view s1)" "0 < t1" "t2 < t1 + retryDelay m"
  note live = smq_live_now [OF queue_client.axioms(1) [OF client]]
  obtain s2 where 2: "delayWorker_onTick (E\<lparr>p_now := t1\<rparr>) s1 = (Inr (), s2)"
    "zmsgs_at (view s2) (gkey KEY_QUEUE_SCHEDULED) (gkey KEY_SCHEDULED_MESSAGES) [(delayedForm (E\<lparr>p_now := t1\<rparr>) m, t1 + retryDelay m)]"
    using smq_live.delay_tick [OF live, of s1 m E nm t1] a m(1) by auto
  with smq_live.schedule_tick_early [OF live 2(2), of t2] a(4)
  show "\<exists>s2 s3. delayWorker_onTick (E\<lparr>p_now := t1\<rparr>) s1 = (Inr (), s2) \<and>
        scheduleWorker_onTick (E\<lparr>p_now := t2\<rparr>) False s2 = (Inr (), s3) \<and> view s3 = view s2" by auto
qed

text \<open>C6. A scheduled message, without a cron expression, is delivered exactly as often and not earlier than it asks: once after its delay, if it
  has one, and \<open>scheduledRepeat\<close> times, a period apart. It is produced at \<open>t0\<close>; before it is due a tick of the schedule worker
  changes nothing; each tick from then on (\<open>spaced\<close>) brings it to its queue, where the consumer takes it and the application
  acknowledges it. In the end the schedule is empty, the acknowledged messages are the deliveries, under the identifier and
  with the body that were produced, and every other list is as before.\<close>

theorem scheduled_message_delivered:
  assumes client: "queue_client E view nm inst" and "serving E nm inst 1 [] [] c" and "isUp pm"
    and "kp = ikey KEY_QUEUE_PROCESSING (p_ns E) nm inst" "lists (view s) kp = []" "list_only (view s) kp"
    and "lists (view s) (qkey KEY_QUEUE (p_ns E) nm) = []" "unscheduled (view s)"
    and m: "body m \<noteq> None" "ttl m = 0" "scheduledCron m = None" "msg_ok m" "0 < t0"
    and n: "n = (if truthy_num (scheduledDelay m) then 1 else 0) + nat (scheduledRepeat m)" "0 < n"
    and a: "a = t0 + (if truthy_num (scheduledDelay m) then the (scheduledDelay m) else periodOf m)"
    and xs: "length xs = n" "spaced (periodOf m) a (map fst xs)" and ak: "ak = qkey KEY_QUEUE_ACKNOWLEDGED_MESSAGES (p_ns E) nm"
  shows "\<exists>m' s1 c' s'. produceMessage (E\<lparr>p_now := t0\<rparr>) pm False nm m s = (Inr (True, m'), s1) \<and>
    (\<forall>t. t < a \<longrightarrow> (\<exists>s2. scheduleWorker_onTick (E\<lparr>p_now := t\<rparr>) False s1 = (Inr (), s2) \<and> view s2 = view s1)) \<and>
    scheduled_rounds E 0 xs (c, s1) = (Inr (), (c', s')) \<and>
    length (c_deliveries c') = n \<and> list_all (\<lambda>d. uuid (d_msg d) = uuid m \<and> body (d_msg d) = body m) (c_deliveries c') \<and>
    isRunning (b_powerManager c') \<and> c_dequeues c' = 1 \<and> c_calls c' = [] \<and> unscheduled (view s') \<and>
    mset (lists (view s') ak) = mset (lists (view s) ak) + mset (map (\<lambda>d. toString (d_msg d)) (c_deliveries c')) \<and>
    (\<forall>k. k \<noteq> ak \<longrightarrow> lists (view s') k = lists (view s) k)"
proof -
  let ?E = "E\<lparr>p_now := t0\<rparr>" and ?q = "qkey KEY_QUEUE (p_ns E) nm"
  let ?f = "produced_form ?E nm m"
  have f: "deliveries_left ?f = n" "waitOf ?f = a - t0" "isSchedulable m"
    using n a m(3) by (auto simp: deliveries_left_def waitOf_def delayPending_def periodOf_def produced_form_def reset_def
        isSchedulable_def truthy_num_def split: option.splits if_splits)
  note live = smq_live_now [OF queue_client.axioms(1) [OF client]]
  obtain m' s1 where 1: "produceMessage ?E pm False nm m s = (Inr (True, m'), s1)" "scheduled_at (view s1) m' a" "0 < a"
    "timed ?E nm m'" "\<not> delayPending m'" "uuid m' = uuid m" "body m' = body m" "periodOf m' = periodOf m" "n = Suc (deliveries_left m')"
    "lists (view s1) = lists (view s)" "beside_schedule (view s) (view s1)"
    using smq_live.produce_schedules [OF live assms(3) f(3) m(1-4) _ assms(8) HOL.refl, of t0 nm] m(5) f(1,2) n(2) by auto
  have early: "\<exists>s2. scheduleWorker_onTick (E\<lparr>p_now := t\<rparr>) False s1 = (Inr (), s2) \<and> view s2 = view s1" if "t < a" for t
    using smq_live.schedule_tick_early [OF live 1(2), of t] that by simp
  have tm: "timed E nm m'" using 1(4) by (simp add: timed_def)
  have em: "lists (view s1) ?q = []" "lists (view s1) kp = []" "list_only (view s1) kp"
    using 1(10,11) assms(4-7) queue_client.plain_names [OF client] by (auto simp: list_only_def beside_schedule_def)
  have sp: "spaced (periodOf m') a (map fst xs)" "length xs = Suc (deliveries_left m')" "0 \<le> a" using xs 1(3,8,9) by auto
  obtain c' s' ms where 2: "scheduled_rounds E 0 xs (c, s1) = (Inr (), (c', s'))"
    "serving E nm inst 1 ([] @ done_deliveries ms) [] c'" "length ms = length xs"
    "list_all (\<lambda>x. uuid x = uuid m' \<and> body x = body m') ms" "unscheduled (view s')"
    "mset (lists (view s') ak) = mset (lists (view s1) ak) + mset (map toString ms)"
    "\<forall>k. k \<noteq> ak \<longrightarrow> lists (view s') k = lists (view s1) k"
    using queue_client.scheduled_rounds_live [OF client assms(4) ak assms(2) 1(2) sp(3) tm 1(5) em sp(1,2), unfolded list.size(3)] by blast
  have dl: "c_deliveries c' = done_deliveries ms" using 2(2) by (simp add: serving_def)
  have d1: "length (c_deliveries c') = n" using dl 2(3) xs(1) by (simp add: done_deliveries_def)
  have d2: "list_all (\<lambda>d. uuid (d_msg d) = uuid m \<and> body (d_msg d) = body m) (c_deliveries c')"
    using 2(4) unfolding dl done_deliveries_def 1(6,7) list.pred_map comp_def by simp
  have d3: "isRunning (b_powerManager c')" "c_dequeues c' = 1" "c_calls c' = []" using 2(2) by (simp_all add: serving_def)
  have d4: "mset (lists (view s') ak) = mset (lists (view s) ak) + mset (map (\<lambda>d. toString (d_msg d)) (c_deliveries c'))"
    using 2(6) unfolding dl 1(10) done_deliveries_def by (simp add: comp_def)
  have d5: "\<forall>k. k \<noteq> ak \<longrightarrow> lists (view s') k = lists (view s) k" using 2(7) unfolding 1(10) .
  show ?thesis
    by (rule exI [of _ m'], rule exI [of _ s1], rule exI [of _ c'], rule exI [of _ s'])
      (intro conjI allI impI 1(1) 2(1) d1 d2 d3 d4 2(5) d5 [rule_format] early)
qed

text \<open>C7. Priorities, from the producer to the application: a message is produced in priority mode into a queue that already holds
  the messages \<open>M\<close>, and the consumer then serves the whole queue (\<open>us\<close> are the times of the deliveries; nothing expires). The
  application gets every message of \<open>M\<close> and the new one exactly once, in the order of the priorities; they are then,
  in that order, at the end of the acknowledged messages; the queue is empty and every other list is as before.\<close>

theorem priority_backlog_consumed:
  assumes client: "queue_client E view nm inst" and "serving_for True E nm inst 1 [] [] c" and "isUp pm"
    and kp: "kp = ikey KEY_QUEUE_PROCESSING (p_ns E) nm inst" "lists (view s) kp = []" "list_only (view s) kp"
    and M: "prio_holds view (consumerHandler E nm inst) s M" "\<forall>x \<in># M. lasting x"
    and m: "\<not> isSchedulable m" "body m \<noteq> None" "ttl m = 0" "Str (uuid m) \<notin> zkeys (view s) (qkey KEY_QUEUE_PRIORITY (p_ns E) nm)"
    and m': "m' = published E True (produced_form E nm m)"
    and us: "length us = size M + 1" and ak: "ak = qkey KEY_QUEUE_ACKNOWLEDGED_MESSAGES (p_ns E) nm"
  shows "\<exists>r s1 c' s' outs. produceMessage E pm True nm m s = (Inr (True, r), s1) \<and>
    ack_rounds E 0 us (c, s1) = (Inr (), (c', s')) \<and> map d_msg (c_deliveries c') = outs \<and>
    mset outs = add_mset m' M \<and> sorted (map prio_of outs) \<and> prio_holds view (consumerHandler E nm inst) s' {#} \<and>
    isRunning (b_powerManager c') \<and> c_dequeues c' = 1 \<and> c_calls c' = [] \<and>
    lists (view s') = (lists (view s))(ak := lists (view s) ak @ map toString outs)"
proof -
  obtain zs where zs: "prio_msgs (view s) (consumerHandler E nm inst) zs" "mset (map fst zs) = M"
    using M(1) by (auto simp: prio_holds_def)
  obtain r s1 zs1 where 1: "produceMessage E pm True nm m s = (Inr (True, r), s1)"
    "prio_msgs (view s1) (consumerHandler E nm inst) zs1"
    "mset zs1 = add_mset (m', prio_of (produced_form E nm m)) (mset zs)" "lists (view s1) = lists (view s)" "list_only (view s1) kp"
    using queue_client.produce_priority [OF client assms(3) m(1,2,4) zs(1) HOL.refl] kp queue_client.plain_names [OF client]
      queue_client.processing_keys_ne [OF client] unfolding m' by blast
  have outs: "mset (map fst zs1) = add_mset m' M" using arg_cong [OF 1(3), of "image_mset fst"] zs(2) by simp
  have "size (mset (map fst zs1)) = size M + 1" unfolding outs by simp
  then have len: "length us = length zs1" using us by simp
  have "lasting m'" using m(3) by (simp add: lasting_def m' published_def produced_form_def reset_def)
  then have "\<forall>x \<in># mset (map fst zs1). lasting x" using M(2) unfolding outs by auto
  then have la: "list_all (\<lambda>p. lasting (fst p)) zs1" by (simp add: list_all_iff)
  obtain c' s' where 2: "ack_rounds E 0 us (c, s1) = (Inr (), (c', s'))"
    "serving_for True E nm inst 1 ([] @ done_deliveries (map fst zs1)) [] c'" "prio_msgs (view s') (consumerHandler E nm inst) []"
    "lists (view s') = (lists (view s1))(ak := lists (view s1) ak @ map toString (map fst zs1))"
    using queue_client.priority_rounds_live [OF client kp(1) ak assms(2) 1(2) la _ 1(5) len, unfolded list.size(3)] 1(4) kp(2) by auto
  have d: "map d_msg (c_deliveries c') = map fst zs1" using 2(2) by (simp add: serving_def done_deliveries_def comp_def)
  have up: "isRunning (b_powerManager c')" "c_dequeues c' = 1" "c_calls c' = []" using 2(2) by (simp_all add: serving_def)
  have so: "sorted (map prio_of (map fst zs1))" by (rule queue_client.prio_msgs_sorted [OF client 1(2)])
  have em: "prio_holds view (consumerHandler E nm inst) s' {#}" using 2(3) by (auto simp: prio_holds_def)
  have l: "lists (view s') = (lists (view s))(ak := lists (view s) ak @ map toString (map fst zs1))" using 2(4) unfolding 1(4) .
  show ?thesis
    by (rule exI [of _ r], rule exI [of _ s1], rule exI [of _ c'], rule exI [of _ s'], rule exI [of _ "map fst zs1"])
      (intro conjI 1(1) 2(1) d outs so em up l)
qed

text \<open>C8. A crash loses nothing: a consumer takes the oldest message \<open>m\<close> of its queue and dies. As long as its last heartbeat
  is not older than ten seconds a tick of another consumer's garbage collector changes nothing; the first tick afterwards takes the message out
  of its processing queue and unregisters that queue (the other registered consumers have recent heartbeats). A tick of the requeue worker
  brings the message back, and the other consumer then serves the whole queue: the application gets every pending message and the
  recovered one, with its attempts counted, exactly once; all are acknowledged and every other list is as before.\<close>

theorem crashed_consumer_recovered:
  assumes c1: "queue_client E view nm i1" "serving E nm i1 1 ds1 [] c1" and c2: "queue_client E view nm i2" "serving E nm i2 1 [] [] c2"
    and i: "i1 \<noteq> i2" "i1 \<noteq> []"
    and kp1: "kp1 = ikey KEY_QUEUE_PROCESSING (p_ns E) nm i1" "lists (view s) kp1 = []" "list_only (view s) kp1"
    and kp2: "kp2 = ikey KEY_QUEUE_PROCESSING (p_ns E) nm i2" "lists (view s) kp2 = []" "list_only (view s) kp2"
    and at: "msgs_at (view s) (qkey KEY_QUEUE (p_ns E) nm) (rev (m # ms))" "lists (view s) (gkey KEY_QUEUE_REQUEUE) = []"
    and m: "list_all lasting (m # ms)" "retried_at_once E nm m" "attempts m + 1 < retryThreshold m"
    and ix: "ix = gkey KEY_INDEX_PROCESSING_QUEUES" "Str kp1 \<in> sets (view s) ix"
      "\<forall>x \<in> sets (view s) ix - {Str kp1}. spared (view s) t1 (p_ns E) i2 x"
    and hb: "hashes (view s) (gkey KEY_INDEX_HEARTBEATS) (Str (ikey KEY_HEARTBEAT (p_ns E) nm i1)) = Some (heartbeat_payload tb usage)"
      "tb + 10000 < t1"
    and us: "length us = Suc (length ms)" and ak: "ak = qkey KEY_QUEUE_ACKNOWLEDGED_MESSAGES (p_ns E) nm"
  shows "\<exists>c1' s1 s2 s3 c2' s4.
    consumer_step (E\<lparr>p_now := t\<rparr>) (Reply \<lparr>cr_calls = [], cr_throws = False\<rparr>) (c1, s) = (Inr (), (c1', s1)) \<and>
    map d_msg (c_deliveries c1') = map d_msg ds1 @ [m] \<and>
    (\<forall>t'. t' \<le> tb + 10000 \<longrightarrow> (\<exists>s2. gc_onTick (E\<lparr>p_now := t'\<rparr>) i2 s1 = (Inr (), s2) \<and> view s2 = view s1)) \<and>
    gc_onTick (E\<lparr>p_now := t1\<rparr>) i2 s1 = (Inr (), s2) \<and> Str kp1 \<notin> sets (view s2) ix \<and>
    requeueWorker_onTick (E\<lparr>p_now := t2\<rparr>) False s2 = (Inr (), s3) \<and>
    ack_rounds E 0 us (c2, s3) = (Inr (), (c2', s4)) \<and> map d_msg (c_deliveries c2') = ms @ [retried m] \<and>
    isRunning (b_powerManager c2') \<and> c_dequeues c2' = 1 \<and> c_calls c2' = [] \<and>
    lists (view s4) = (lists (view s))(qkey KEY_QUEUE (p_ns E) nm := [],
      ak := lists (view s) ak @ map toString (ms @ [retried m]))"
proof -
  let ?q = "qkey KEY_QUEUE (p_ns E) nm" and ?rk = "gkey KEY_QUEUE_REQUEUE" and ?hk = "gkey KEY_INDEX_HEARTBEATS"
  note names = queue_client.plain_names [OF c1(1)] queue_client.plain_names [OF c2(1)]
  note ne = queue_client.processing_keys_ne [OF c1(1)] queue_client.processing_keys_ne [OF c2(1)]
  note at1 = queue_client_now [OF c1(1)] and live = smq_live_now [OF queue_client.axioms(1) [OF c1(1)]]
  have kne: "kp1 \<noteq> kp2" "kp1 \<noteq> ?q" "kp1 \<noteq> ?rk" "kp2 \<noteq> ?q" "kp2 \<noteq> ?rk" "?q \<noteq> ?rk"
    using kp1(1) kp2(1) ne names i by auto
  have b: "lasting m" using m(1) by simp
  have sv1: "serving (E\<lparr>p_now := t\<rparr>) nm i1 (Suc 0) ds1 [] c1" using c1(2) by simp
  obtain c1' s1 where 1: "consumer_step (E\<lparr>p_now := t\<rparr>) (Reply \<lparr>cr_calls = [], cr_throws = False\<rparr>) (c1, s) = (Inr (), (c1', s1))"
    "serving E nm i1 0 (ds1 @ [\<lparr>d_msg = m, d_isTimeout = False, d_timer = consumeTimeout m \<noteq> 0\<rparr>]) [] c1'"
    "view s1 = set_list kp1 [toString m] (set_list ?q (map toString (rev ms)) (view s))"
    using queue_client.serve_reply [OF at1 [of t] sv1, of kp1 s "rev ms" m False] at(1) kp1 lasting_not_expired [OF b] by auto
  have v1: "sets (view s1) = sets (view s)" "hashes (view s1) = hashes (view s)" "lists (view s1) kp1 = [toString m]" "list_only (view s1) kp1"
    "lists (view s1) (gkey KEY_QUEUE_REQUEUE) = []" "list_only (view s1) kp2"
    using kp1(3) kp2(3) at(2) kne by (simp_all add: 1(3) list_only_def)
  have sp: "spared (view s1) t' (p_ns E) i2 x" if "x \<in> sets (view s1) ix - {Str kp1}" "t' \<le> t1" for x t'
    using ix(3) that spared_earlier [of "view s" t1] spared_frame [of "view s1" "view s"] v1(1,2) by metis
  have quiet: "\<exists>s2. gc_onTick (E\<lparr>p_now := t'\<rparr>) i2 s1 = (Inr (), s2) \<and> view s2 = view s1" if "t' \<le> tb + 10000" for t'
  proof -
    have "spared (view s1) t' (p_ns E) i2 (Str kp1)"
      using hb(1) that names i(2) kp1(1) v1(2) unfolding spared_def by (smt (verit))
    then have "\<forall>x \<in> sets (view s1) ix. spared (view s1) t' (p_ns E) i2 x" using sp [of _ t'] that hb(2) by force
    then show ?thesis using smq_live.gc_tick_quiet [OF live, of t' s1 i2] names(1) unfolding ix(1) by simp
  qed
  have off: "offline (view s1) t1 (p_ns E) nm i1" using hb v1(2) by (simp add: offline_def)
  have reg: "Str kp1 \<in> sets (view s1) ix" "\<forall>x \<in> sets (view s1) ix - {Str kp1}. spared (view s1) t1 (p_ns E) i2 x"
    using ix(2) v1(1) sp [of _ t1] by auto
  obtain s2 s3 where 2: "gc_onTick (E\<lparr>p_now := t1\<rparr>) i2 s1 = (Inr (), s2)" "Str kp1 \<notin> sets (view s2) ix"
    "requeueWorker_onTick (E\<lparr>p_now := t2\<rparr>) False s2 = (Inr (), s3)"
    "lists (view s3) = (lists (view s1))(kp1 := [], ?q := toString (retried m) # lists (view s1) ?q)" "list_only (view s3) kp2"
    using queue_client.recovered_pending [OF c1(1) kp1(1) ix(1) i(1) [symmetric] i(2) off v1(3,4,5) b m(2,3) reg HOL.refl, of t2] v1(6) by blast
  have l3: "lists (view s3) = (lists (view s))(?q := map toString (rev (ms @ [retried m])))"
    using kp1(2) kne by (auto simp: fun_eq_iff 2(4) 1(3))
  have ms: "msgs_at (view s3) ?q (rev (ms @ [retried m]))" "list_all lasting (ms @ [retried m])" "lists (view s3) kp2 = []"
    using l3 at(1) m(1) kp2(2) kne by (auto simp: msgs_at_def retried_def lasting_def)
  have len: "length us = length (ms @ [retried m])" using us by simp
  obtain c2' s4 where 4: "ack_rounds E 0 us (c2, s3) = (Inr (), (c2', s4))"
    "serving E nm i2 1 ([] @ done_deliveries (ms @ [retried m])) [] c2'"
    "lists (view s4) = (lists (view s3))(?q := [], ak := lists (view s3) ak @ map toString (ms @ [retried m]))"
    using queue_client.ack_rounds_live [OF c2(1) kp2(1) ak c2(2) ms 2(5) len, unfolded list.size(3)] by blast
  have "lists (view s4) = (lists (view s))(?q := [], ak := lists (view s) ak @ map toString (ms @ [retried m]))"
    using names unfolding 4(3) l3 by (simp add: ak fun_eq_iff)
  moreover have "map d_msg (c_deliveries c1') = map d_msg ds1 @ [m]" using 1(2) by (simp add: serving_def)
  moreover have "map d_msg (c_deliveries c2') = ms @ [retried m]" "isRunning (b_powerManager c2')" "c_dequeues c2' = 1" "c_calls c2' = []"
    using 4(2) by (simp_all add: serving_def done_deliveries_def comp_def)
  ultimately show ?thesis
    using 1(1) quiet 2(1-3) 4(1) by blast
qed

text \<open>C9. A backlog is settled whatever becomes of its messages. The consumer serves the pending messages \<open>ms\<close>, oldest first; at the
  time of its delivery a message may have expired, and otherwise the application answers it, throws, or lets its time run out
  (\<open>rs\<close>). The application gets exactly the messages that have not expired, in the order of the queue; every message is afterwards in
  the one list the rules send it to (an expired one in the dead-letter queue), all other lists are as before, the
  queue is empty and the consumer waits for the next message.\<close>

theorem backlog_settled:
  assumes client: "queue_client E view nm inst" and "serving E nm inst 1 [] [] c"
    and kp: "kp = ikey KEY_QUEUE_PROCESSING (p_ns E) nm inst" "lists (view s) kp = []" "list_only (view s) kp"
    and q: "q = qkey KEY_QUEUE (p_ns E) nm" "msgs_at (view s) q (rev ms)"
    and rs: "length rs = length ms" "list_all can_happen (zip ms rs)"
  shows "(\<exists>c' s'. serve_rounds E rs (c, s) = (Inr (), (c', s')) \<and>
      map d_msg (c_deliveries c') = map fst (filter (\<lambda>(m, u, oc). \<not> fst (hasExpired u m)) (zip ms rs)) \<and>
      isRunning (b_powerManager c') \<and> c_dequeues c' = 1 \<and> c_calls c' = [] \<and> lists (view s') q = [] \<and>
      (\<forall>k. k \<noteq> q \<longrightarrow> mset (lists (view s') k) = mset (lists (view s) k) +
        mset (map (\<lambda>x. toString (fst x)) (filter (\<lambda>x. outcome_key (p_ns E) nm x = k) (zip ms rs)))) \<and>
      (\<forall>k. k \<noteq> q \<longrightarrow> k \<notin> outcome_key (p_ns E) nm ` set (zip ms rs) \<longrightarrow> lists (view s') k = lists (view s) k)) \<and>
    (\<forall>m u oc. fst (hasExpired u m) \<longrightarrow> outcome_key (p_ns E) nm (m, u, oc) = qkey KEY_QUEUE_DL (p_ns E) nm)"
proof (intro conjI allI impI outcome_key_expired)
  obtain c' s' ds' where 1: "serve_rounds E rs (c, s) = (Inr (), (c', s'))" "serving E nm inst 1 ([] @ ds') [] c'"
    "map d_msg ds' = map fst (filter (\<lambda>(m, u, oc). \<not> fst (hasExpired u m)) (zip ms rs))" "lists (view s') q = []"
    "\<forall>k. k \<noteq> q \<longrightarrow> mset (lists (view s') k) = mset (lists (view s) k) +
        mset (map (\<lambda>x. toString (fst x)) (filter (\<lambda>x. outcome_key (p_ns E) nm x = k) (zip ms rs)))"
    "\<forall>k. k \<noteq> q \<longrightarrow> k \<notin> outcome_key (p_ns E) nm ` set (zip ms rs) \<longrightarrow> lists (view s') k = lists (view s) k"
    using queue_client.serve_rounds_live [OF client kp(1) q(1) assms(2) q(2) kp(2,3) rs] by blast
  have "c_deliveries c' = ds'" "isRunning (b_powerManager c')" "c_dequeues c' = 1" "c_calls c' = []"
    using 1(2) by (simp_all add: serving_def)
  then show "\<exists>c' s'. serve_rounds E rs (c, s) = (Inr (), (c', s')) \<and>
      map d_msg (c_deliveries c') = map fst (filter (\<lambda>(m, u, oc). \<not> fst (hasExpired u m)) (zip ms rs)) \<and>
      isRunning (b_powerManager c') \<and> c_dequeues c' = 1 \<and> c_calls c' = [] \<and> lists (view s') q = [] \<and>
      (\<forall>k. k \<noteq> q \<longrightarrow> mset (lists (view s') k) = mset (lists (view s) k) +
        mset (map (\<lambda>x. toString (fst x)) (filter (\<lambda>x. outcome_key (p_ns E) nm x = k) (zip ms rs)))) \<and>
      (\<forall>k. k \<noteq> q \<longrightarrow> k \<notin> outcome_key (p_ns E) nm ` set (zip ms rs) \<longrightarrow> lists (view s') k = lists (view s) k)"
    using 1(1,3-6) by blast
qed



section \<open>Examples\<close>

theorem produced_message_consumed_witness:
  "\<exists>b1 s1 c1 s2 b2 s3 c2 s4. producer_run (mem_platform 0) (Inr ()) (demo_producer, mem0) = (Inr (), (b1, s1)) \<and>
     consumer_run (mem_platform 0) (Inr (), Inr (), Inr ()) (demo_consumer, s1) = (Inr (), (c1, s2)) \<and>
     producer_produceMessage (mem_platform 0) (demo_msg ''a'') (b1, s2) = (Inr True, (b2, s3)) \<and>
     deliver (mem_platform 0) 0 None (c1, s3) = (Inr (), (c2, s4)) \<and>
     mset (lists (mem_view s4) (qkey KEY_QUEUE_ACKNOWLEDGED_MESSAGES ''default'' ''orders'')) =
       {# toString (published (mem_platform 0) False (produced_form (mem_platform 0) ''orders'' (demo_msg ''a''))) #}"
proof -
  have p: "b_queueName demo_producer = ''orders''" "\<not> cfg_priorityQueue (b_config demo_producer)"
    "\<not> cfg_priorityQueue (b_config demo_consumer)"
    by (simp_all add: demo_producer_def demo_consumer_def)
  have m: "\<not> isSchedulable (demo_msg ''a'')" "body (demo_msg ''a'') \<noteq> None"
    "ttl (demo_msg ''a'') = 0 \<or> createdAt (demo_msg ''a'') + ttl (demo_msg ''a'') > p_now (mem_platform 0)"
    by (simp_all add: demo_msg_def newMessage_def defaultOpts_def isSchedulable_def)
  have at: "msgs_at (mem_view mem0) (qkey KEY_QUEUE (p_ns (mem_platform 0)) ''orders'') []"
    by (simp add: msgs_at_def mem0_processing)
  have k: "lists (mem_view mem0) (qkey KEY_QUEUE_ACKNOWLEDGED_MESSAGES ''default'' ''orders'') = []"
    by (rule mem0_processing)
  from produced_message_consumed [OF orders_client demo_producer_fresh p(1,2) demo_consumer_fresh p(3) m HOL.refl
      mem0_processing at HOL.refl HOL.refl, of None]
  show ?thesis by (simp add: k) blast
qed

theorem failing_message_dead_lettered_witness:
  "\<exists>c' s'. waterfall (map (failing_round (mem_platform 0) (DriverError ''failed'')) [0..<3])
       ((consumer_up (mem_platform 0) demo_consumer)\<lparr>c_consumerFrontend := True, b_powerManager := pm_up, c_dequeues := 1\<rparr>,
        demo_mem orders_key [(order_msg ''a'')\<lparr>retryThreshold := 3, retryDelay := 0\<rparr>]) = (Inr (), (c', s')) \<and>
     length (c_deliveries c') = 3 \<and>
     lists (mem_view s') (qkey KEY_QUEUE_DL ''default'' ''orders'') =
       [toString ((order_msg ''a'')\<lparr>retryThreshold := 3, retryDelay := 0, attempts := 2\<rparr>)]"
proof -
  let ?c = "(consumer_up (mem_platform 0) demo_consumer)\<lparr>c_consumerFrontend := True, b_powerManager := pm_up, c_dequeues := 1\<rparr>"
  let ?m = "(order_msg ''a'')\<lparr>retryThreshold := 3, retryDelay := 0\<rparr>" and ?s = "demo_mem orders_key [(order_msg ''a'')\<lparr>retryThreshold := 3, retryDelay := 0\<rparr>]"
  have sv: "serving (mem_platform 0) ''orders'' ''c1'' 1 [] [] ?c"
    by (simp add: serving_def handler_ok_def demo_consumer_def consumer_up_def set_up_def Let_def)
  have l: "lists (mem_view ?s) k = (if k = qkey KEY_QUEUE ''default'' ''orders'' then [toString ?m] else [])"
    "list_only (mem_view ?s) k" for k
    by (simp_all add: demo_mem_def mem_view_def mem0_def list_only_def znorm_def orders_key_def)
  have m: "retried_at_once (mem_platform 0) ''orders'' ?m" "attempts ?m = 0" "retryThreshold ?m = 3"
    by (simp_all add: retried_at_once_def hasExpired_def order_msg_def demo_msg_def newMessage_def defaultOpts_def)
  have up: "nat (retryThreshold ?m) = 3" by simp
  from failing_message_dead_lettered [OF orders_client sv HOL.refl _ l(2) _ _ m(1,2) HOL.refl, of "DriverError ''failed''"] l(1)
  show ?thesis unfolding up by (force dest: arg_cong [of _ _ length])
qed

theorem delayed_message_dead_lettered_witness:
  "\<exists>c' s' m'. bindM (delayed_rounds (mem_platform 0) (DriverError ''failed'') 0 [(1, 2, 1002)])
       (\<lambda>_. deliver ((mem_platform 0)\<lparr>p_now := 1003\<rparr>) 1 (Some (DriverError ''failed'')))
       ((consumer_up (mem_platform 0) demo_consumer)\<lparr>c_consumerFrontend := True, b_powerManager := pm_up, c_dequeues := 1\<rparr>,
        demo_mem orders_key [(order_msg ''a'')\<lparr>retryThreshold := 2, retryDelay := 1000\<rparr>]) = (Inr (), (c', s')) \<and>
     length (c_deliveries c') = 2 \<and> uuid m' = ''a'' \<and>
     lists (mem_view s') (qkey KEY_QUEUE_DL ''default'' ''orders'') = [toString m']"
proof -
  let ?c = "(consumer_up (mem_platform 0) demo_consumer)\<lparr>c_consumerFrontend := True, b_powerManager := pm_up, c_dequeues := 1\<rparr>"
  let ?m = "(order_msg ''a'')\<lparr>retryThreshold := 2, retryDelay := 1000\<rparr>" and ?s = "demo_mem orders_key [(order_msg ''a'')\<lparr>retryThreshold := 2, retryDelay := 1000\<rparr>]"
  have sv: "serving (mem_platform 0) ''orders'' ''c1'' 1 [] [] ?c"
    by (simp add: serving_def handler_ok_def demo_consumer_def consumer_up_def set_up_def Let_def)
  have l: "lists (mem_view ?s) k = (if k = qkey KEY_QUEUE ''default'' ''orders'' then [toString ?m] else [])"
    "list_only (mem_view ?s) k" "unscheduled (mem_view ?s)" for k
    by (simp_all add: demo_mem_def mem_view_def mem0_def list_only_def znorm_def orders_key_def unscheduled_def)
  have m: "retried_later (mem_platform 0) ''orders'' ?m" "attempts ?m = 0" "retryThreshold ?m = int (Suc (length [(1, 2, 1002)]))"
    "list_all (\<lambda>(t, t1, t2). 0 < t1 \<and> t1 + retryDelay ?m \<le> t2) [(1, 2, 1002)]" "uuid ?m = ''a''"
    by (simp_all add: retried_later_def hasExpired_def order_msg_def demo_msg_def newMessage_def defaultOpts_def)
  from delayed_message_dead_lettered [OF orders_client sv HOL.refl _ l(2) _ _ l(3) m(1-4) HOL.refl,
      where e = "DriverError ''failed''" and t = 1003] l(1) m(5)
  show ?thesis by (force dest: arg_cong [of _ _ length])
qed

theorem scheduled_message_delivered_witness:
  "\<exists>m' s1 c' s'. produceMessage ((mem_platform 0)\<lparr>p_now := 5\<rparr>) pm_up False ''orders''
       ((demo_msg ''a'')\<lparr>scheduledDelay := Some 1000, scheduledRepeat := 1, scheduledPeriod := Some 2000\<rparr>) mem0 = (Inr (True, m'), s1) \<and>
     scheduled_rounds (mem_platform 0) 0 [(1005, 1006), (3005, 3006)]
       ((consumer_up (mem_platform 0) demo_consumer)\<lparr>c_consumerFrontend := True, b_powerManager := pm_up, c_dequeues := 1\<rparr>, s1) = (Inr (), (c', s')) \<and>
     length (c_deliveries c') = 2 \<and> unscheduled (mem_view s')"
proof -
  let ?c = "(consumer_up (mem_platform 0) demo_consumer)\<lparr>c_consumerFrontend := True, b_powerManager := pm_up, c_dequeues := 1\<rparr>"
  let ?m = "(demo_msg ''a'')\<lparr>scheduledDelay := Some 1000, scheduledRepeat := 1, scheduledPeriod := Some 2000\<rparr>"
  have sv: "serving (mem_platform 0) ''orders'' ''c1'' 1 [] [] ?c"
    by (simp add: serving_def handler_ok_def demo_consumer_def consumer_up_def set_up_def Let_def)
  have l: "lists (mem_view mem0) k = []" "list_only (mem_view mem0) k" "unscheduled (mem_view mem0)" for k
    by (simp_all add: mem_view_def mem0_def list_only_def unscheduled_def znorm_def)
  have m: "body ?m \<noteq> None" "ttl ?m = 0" "scheduledCron ?m = None" "msg_ok ?m"
    by (simp_all add: demo_msg_def newMessage_def defaultOpts_def msg_ok_def)
  have n: "2 = (if truthy_num (scheduledDelay ?m) then 1 else 0) + nat (scheduledRepeat ?m)" by simp
  have a: "(1005::int) = 5 + (if truthy_num (scheduledDelay ?m) then the (scheduledDelay ?m) else periodOf ?m)" by simp
  have x: "length [(1005::int, 1006::int), (3005, 3006)] = 2" "spaced (periodOf ?m) 1005 (map fst [(1005, 1006), (3005, 3006)])"
    by (simp_all add: periodOf_def)
  from scheduled_message_delivered [OF orders_client sv _ HOL.refl l(1,2) l(1) l(3) m _ n _ a x HOL.refl, of pm_up]
  show ?thesis by auto
qed

text \<open>A message of priority 1 is produced behind one of priority 4.\<close>

definition urgent_consumer :: consumer where
  "urgent_consumer = (consumer_up (mem_platform 0) demo_consumer)\<lparr>b_config := (b_config demo_consumer)\<lparr>cfg_priorityQueue := True\<rparr>,
     c_consumerFrontend := True, b_powerManager := pm_up, c_dequeues := 1\<rparr>"

theorem priority_backlog_consumed_witness:
  "\<exists>r s1 c' s'. produceMessage (mem_platform 0) pm_up True ''orders'' ((demo_msg ''b'')\<lparr>priority := Some 1\<rparr>) one_pending = (Inr (True, r), s1) \<and>
     ack_rounds (mem_platform 0) 0 [1, 2] (urgent_consumer, s1) = (Inr (), (c', s')) \<and>
     length (c_deliveries c') = 2 \<and> sorted (map (\<lambda>d. prio_of (d_msg d)) (c_deliveries c'))"
proof -
  let ?a = "(order_msg ''a'')\<lparr>priority := Some 4\<rparr>" and ?b = "(demo_msg ''b'')\<lparr>priority := Some 1\<rparr>"
  have sv: "serving_for True (mem_platform 0) ''orders'' ''c1'' 1 [] [] urgent_consumer"
    by (simp add: serving_def handler_ok_def urgent_consumer_def demo_consumer_def consumer_up_def set_up_def Let_def)
  have l: "lists (mem_view one_pending) k = []" for k by (simp add: one_pending_def mem_view_def mem0_def)
  have o: "list_only (mem_view one_pending) (ikey KEY_QUEUE_PROCESSING (p_ns (mem_platform 0)) ''orders'' ''c1'')"
    by (simp add: list_only_def one_pending_def mem_view_def znorm_def mem0_def)
  have "prio_msgs (mem_view one_pending) (consumerHandler (mem_platform 0) ''orders'' ''c1'') [(?a, 4)]"
    by (simp add: prio_msgs_def zmsgs_at_def smq_keys one_pending_def mem_view_def znorm_def order_msg_def demo_msg_def newMessage_def)
  then have M: "prio_holds mem_view (consumerHandler (mem_platform 0) ''orders'' ''c1'') one_pending {# ?a #}"
    unfolding prio_holds_def by (intro exI [of _ "[(?a, 4)]"]) simp
  have la: "\<forall>x \<in># {# ?a #}. lasting x"
    by (simp add: lasting_def order_msg_def demo_msg_def newMessage_def defaultOpts_def)
  have b: "\<not> isSchedulable ?b" "body ?b \<noteq> None" "ttl ?b = 0"
    "Str (uuid ?b) \<notin> zkeys (mem_view one_pending) (qkey KEY_QUEUE_PRIORITY (p_ns (mem_platform 0)) ''orders'')"
    by (simp_all add: isSchedulable_def demo_msg_def newMessage_def defaultOpts_def one_pending_zset)
  have us: "length [1, 2 :: int] = size {# ?a #} + 1" by simp
  have up: "isUp pm_up" by simp
  obtain r s1 c' s' outs where w:
    "produceMessage (mem_platform 0) pm_up True ''orders'' ?b one_pending = (Inr (True, r), s1)"
    "ack_rounds (mem_platform 0) 0 [1, 2] (urgent_consumer, s1) = (Inr (), (c', s'))" "map d_msg (c_deliveries c') = outs"
    "mset outs = add_mset (published (mem_platform 0) True (produced_form (mem_platform 0) ''orders'' ?b)) {# ?a #}"
    "sorted (map prio_of outs)"
    using priority_backlog_consumed [OF orders_client sv up HOL.refl l o M la b HOL.refl us HOL.refl] by blast
  have "length outs = 2" using arg_cong [OF w(4), of size] by simp
  then have "length (c_deliveries c') = 2" using w(3) by (metis length_map)
  moreover have "sorted (map (\<lambda>d. prio_of (d_msg d)) (c_deliveries c'))" using w(5) unfolding w(3) [symmetric] by (simp add: comp_def)
  ultimately show ?thesis using w(1,2) by blast
qed

definition running_consumer :: "string \<Rightarrow> consumer" where
  "running_consumer i = (consumer_up (mem_platform 0) (demo_consumer\<lparr>b_id := i\<rparr>))
     \<lparr>c_consumerFrontend := True, b_powerManager := pm_up, c_dequeues := 1\<rparr>"

lemma running_consumer_serves: "serving (mem_platform 0) ''orders'' i 1 [] [] (running_consumer i)"
  by (simp add: running_consumer_def serving_def handler_ok_def demo_consumer_def consumer_up_def set_up_def Let_def)

definition quick_order :: "string \<Rightarrow> message" where
  "quick_order i = (order_msg i)\<lparr>retryThreshold := 3, retryDelay := 0\<rparr>"

lemma quick_order_body [simp]: "body (quick_order i) = Some JNull"
  by (simp add: quick_order_def)

text \<open>Two pending messages, a registered consumer and its only heartbeat.\<close>

definition crash_mem :: mem where
  "crash_mem = (demo_mem orders_key [quick_order ''b'', quick_order ''a''])\<lparr>
     msets := (\<lambda>_. [])(gkey KEY_INDEX_PROCESSING_QUEUES := [Str (ikey KEY_QUEUE_PROCESSING ''default'' ''orders'' ''c1'')]),
     mhashes := (\<lambda>_. [])(gkey KEY_INDEX_HEARTBEATS := [(Str (ikey KEY_HEARTBEAT ''default'' ''orders'' ''c1''), heartbeat_payload 0 JNull)])\<rparr>"

theorem crashed_consumer_recovered_witness:
  "\<exists>c1' s1 s2 s3 c2' s4.
    consumer_step ((mem_platform 0)\<lparr>p_now := 5\<rparr>) (Reply \<lparr>cr_calls = [], cr_throws = False\<rparr>) (running_consumer ''c1'', crash_mem) = (Inr (), (c1', s1)) \<and>
    gc_onTick ((mem_platform 0)\<lparr>p_now := 10001\<rparr>) ''c2'' s1 = (Inr (), s2) \<and>
    requeueWorker_onTick ((mem_platform 0)\<lparr>p_now := 10002\<rparr>) False s2 = (Inr (), s3) \<and>
    ack_rounds (mem_platform 0) 0 [10003, 10004] (running_consumer ''c2'', s3) = (Inr (), (c2', s4)) \<and>
    map d_msg (c_deliveries c2') = [quick_order ''b'', retried (quick_order ''a'')] \<and>
    lists (mem_view s4) (qkey KEY_QUEUE_ACKNOWLEDGED_MESSAGES ''default'' ''orders'') =
      map toString [quick_order ''b'', retried (quick_order ''a'')]"
proof -
  let ?E = "mem_platform 0" and ?s = crash_mem
  let ?kp = "\<lambda>i. ikey KEY_QUEUE_PROCESSING (p_ns ?E) ''orders'' i"
  have c2: "queue_client ?E mem_view ''orders'' ''c2''"
    by (intro queue_client.intro queue_client_axioms.intro mem_platform_live) (auto simp: plain_def)
  have l: "lists (mem_view ?s) k = (if k = qkey KEY_QUEUE ''default'' ''orders'' then map toString [quick_order ''b'', quick_order ''a''] else [])" for k
    by (simp add: crash_mem_def demo_mem_def mem_view_def mem0_def orders_key_def)
  have lo: "list_only (mem_view ?s) (?kp i)" if "plain i" for i
    using that by (simp add: crash_mem_def demo_mem_def mem_view_def mem0_def list_only_def znorm_def)
  have lk: "lists (mem_view ?s) (?kp i) = []" "lists (mem_view ?s) (gkey KEY_QUEUE_REQUEUE) = []" if "plain i" for i
    using that by (simp_all add: l)
  have m: "list_all lasting (quick_order ''a'' # [quick_order ''b''])" "retried_at_once ?E ''orders'' (quick_order ''a'')"
    "attempts (quick_order ''a'') + 1 < retryThreshold (quick_order ''a'')"
    by (simp_all add: quick_order_def lasting_def retried_at_once_def hasExpired_def order_msg_def demo_msg_def newMessage_def defaultOpts_def)
  have at: "msgs_at (mem_view ?s) (qkey KEY_QUEUE (p_ns ?E) ''orders'') (rev (quick_order ''a'' # [quick_order ''b'']))"
    using l [of "qkey KEY_QUEUE ''default'' ''orders''"] by (simp add: msgs_at_def quick_order_def)
  have r: "sets (mem_view ?s) (gkey KEY_INDEX_PROCESSING_QUEUES) = {Str (?kp ''c1'')}"
    "hashes (mem_view ?s) (gkey KEY_INDEX_HEARTBEATS) (Str (ikey KEY_HEARTBEAT (p_ns ?E) ''orders'' ''c1'')) = Some (heartbeat_payload 0 JNull)"
    by (simp_all add: crash_mem_def demo_mem_def mem_view_def)
  have ix: "Str (?kp ''c1'') \<in> sets (mem_view ?s) (gkey KEY_INDEX_PROCESSING_QUEUES)"
    "\<forall>x \<in> sets (mem_view ?s) (gkey KEY_INDEX_PROCESSING_QUEUES) - {Str (?kp ''c1'')}. spared (mem_view ?s) 10001 (p_ns ?E) ''c2'' x"
    unfolding r(1) by simp_all
  have i: "''c1'' \<noteq> ''c2''" "''c1'' \<noteq> []" "(0::int) + 10000 < 10001" "length [10003, 10004::int] = Suc (length [quick_order ''b''])"
    "plain ''c2''" by (simp_all add: plain_def)
  have ak: "lists (mem_view ?s) (qkey KEY_QUEUE_ACKNOWLEDGED_MESSAGES ''default'' ''orders'') = []" by (simp add: l)
  obtain c1' s1 s2 s3 c2' s4 where w:
    "consumer_step (?E\<lparr>p_now := 5\<rparr>) (Reply \<lparr>cr_calls = [], cr_throws = False\<rparr>) (running_consumer ''c1'', ?s) = (Inr (), (c1', s1))"
    "gc_onTick (?E\<lparr>p_now := 10001\<rparr>) ''c2'' s1 = (Inr (), s2)" "requeueWorker_onTick (?E\<lparr>p_now := 10002\<rparr>) False s2 = (Inr (), s3)"
    "ack_rounds ?E 0 [10003, 10004] (running_consumer ''c2'', s3) = (Inr (), (c2', s4))"
    "map d_msg (c_deliveries c2') = [quick_order ''b''] @ [retried (quick_order ''a'')]" and
    l4: "lists (mem_view s4) = (lists (mem_view ?s))(qkey KEY_QUEUE (p_ns ?E) ''orders'' := [],
      qkey KEY_QUEUE_ACKNOWLEDGED_MESSAGES (p_ns ?E) ''orders'' := lists (mem_view ?s) (qkey KEY_QUEUE_ACKNOWLEDGED_MESSAGES (p_ns ?E) ''orders'') @
        map toString ([quick_order ''b''] @ [retried (quick_order ''a'')]))"
    using crashed_consumer_recovered [OF orders_client running_consumer_serves c2 running_consumer_serves i(1,2) HOL.refl
        lk(1) [OF plain_demo(3)] lo [OF plain_demo(3)] HOL.refl lk(1) [OF i(5)] lo [OF i(5)] at lk(2) [OF i(5)] m HOL.refl ix r(2) i(3,4)
        HOL.refl, of 5 10002] by blast
  have a: "lists (mem_view s4) (qkey KEY_QUEUE_ACKNOWLEDGED_MESSAGES ''default'' ''orders'') =
      map toString [quick_order ''b'', retried (quick_order ''a'')]"
    unfolding l4 by (simp add: ak)
  show ?thesis
    by (rule exI [of _ c1'], rule exI [of _ s1], rule exI [of _ s2], rule exI [of _ s3], rule exI [of _ c2'], rule exI [of _ s4])
      (intro conjI w(1-4) w(5) [unfolded append_Cons append_Nil] a)
qed

theorem backlog_settled_witness:
  "\<exists>c' s'. serve_rounds (mem_platform 0) [(1, Answers None), (100, Answers None), (101, Throws)]
      (running_consumer ''c1'', demo_mem orders_key [quick_order ''c'', (quick_order ''b'')\<lparr>ttl := 10\<rparr>, quick_order ''a'']) = (Inr (), (c', s')) \<and>
    map d_msg (c_deliveries c') = [quick_order ''a'', quick_order ''c''] \<and>
    mset (lists (mem_view s') (qkey KEY_QUEUE_DL ''default'' ''orders'')) = {# toString ((quick_order ''b'')\<lparr>ttl := 10\<rparr>) #} \<and>
    mset (lists (mem_view s') (gkey KEY_QUEUE_REQUEUE)) = {# toString (quick_order ''c'') #}"
proof -
  let ?E = "mem_platform 0" and ?b = "(quick_order ''b'')\<lparr>ttl := 10\<rparr>" and ?q = "qkey KEY_QUEUE ''default'' ''orders''"
  let ?ms = "[quick_order ''a'', ?b, quick_order ''c'']" and ?rs = "[(1, Answers None), (100, Answers None), (101, Throws)]"
  let ?s = "demo_mem orders_key [quick_order ''c'', ?b, quick_order ''a'']"
  have l: "lists (mem_view ?s) k = (if k = ?q then map toString (rev ?ms) else [])" "list_only (mem_view ?s) k" for k
    by (simp_all add: demo_mem_def mem_view_def mem0_def list_only_def znorm_def orders_key_def)
  have at: "lists (mem_view ?s) (ikey KEY_QUEUE_PROCESSING ''default'' ''orders'' ''c1'') = []" "msgs_at (mem_view ?s) ?q (rev ?ms)"
    by (simp_all add: l msgs_at_def)
  have h: "list_all can_happen (zip ?ms ?rs)" "length ?rs = length ?ms" by (simp_all add: can_happen_def)
  note ex = quick_order_def order_msg_def demo_msg_def newMessage_def defaultOpts_def hasExpired_def
  have k: "map (outcome_key ''default'' ''orders'') (zip ?ms ?rs) =
      [qkey KEY_QUEUE_ACKNOWLEDGED_MESSAGES ''default'' ''orders'', qkey KEY_QUEUE_DL ''default'' ''orders'', gkey KEY_QUEUE_REQUEUE]"
    by (simp add: outcome_key_def outcome_call_def settled_key_def answer_def fate_of_def fate_key_def ex)
  have f: "map fst (filter (\<lambda>(m, u, oc). \<not> fst (hasExpired u m)) (zip ?ms ?rs)) = [quick_order ''a'', quick_order ''c'']"
    by (simp add: ex)
  have n: "p_ns ?E = ''default''" by simp
  obtain c' s' where w: "serve_rounds ?E ?rs (running_consumer ''c1'', ?s) = (Inr (), (c', s'))"
    "map d_msg (c_deliveries c') = [quick_order ''a'', quick_order ''c'']"
    "\<forall>k. k \<noteq> ?q \<longrightarrow> mset (lists (mem_view s') k) = mset (lists (mem_view ?s) k) +
        mset (map (\<lambda>x. toString (fst x)) (filter (\<lambda>x. outcome_key ''default'' ''orders'' x = k) (zip ?ms ?rs)))"
    using conjunct1 [OF backlog_settled [OF orders_client running_consumer_serves HOL.refl _ l(2) HOL.refl _ h(2,1), unfolded n, OF at, unfolded f]]
    by (elim exE conjE) (rule that)
  have "mset (lists (mem_view s') (qkey KEY_QUEUE_DL ''default'' ''orders'')) = {# toString ?b #}"
    "mset (lists (mem_view s') (gkey KEY_QUEUE_REQUEUE)) = {# toString (quick_order ''c'') #}"
    using w(3) k by (simp_all add: l)
  with w(1,2) show ?thesis by simp
qed

text \<open>A message is produced and a consumer takes it.\<close>

lemma short_run:
  "\<exists>s. sys_steps (mem_platform 0) mem_view ''orders'' {''c1'', ''c2''} ([], mem0) ([''a''], s) \<and>
     lists (mem_view s) (ikey KEY_QUEUE_PROCESSING ''default'' ''orders'' ''c1'') \<noteq> []"
proof -
  let ?E = "mem_platform 0" and ?I = "{''c1'', ''c2''}" and ?q = "qkey KEY_QUEUE ''default'' ''orders''"
  let ?kp = "ikey KEY_QUEUE_PROCESSING ''default'' ''orders'' ''c1''"
  let ?m = "published (?E\<lparr>p_now := 1\<rparr>) False (produced_form (?E\<lparr>p_now := 1\<rparr>) ''orders'' (demo_msg ''a''))"
  have n: "p_ns ?E = ''default''" "p_ns (?E\<lparr>p_now := t\<rparr>) = ''default''" for t by simp_all
  have l0: "lists (mem_view mem0) k = []" for k by (simp add: mem_view_def mem0_def)
  have a: "\<not> isSchedulable (demo_msg ''a'')" "one_shot (demo_msg ''a'')" "body ?m \<noteq> None" "isUp pm_up" "(1::int) > 0"
    "uuid (demo_msg ''a'') \<notin> set []"
    by (simp_all add: isSchedulable_def one_shot_def msg_ok_def opt_ok_def span_ok_def truthy_num_def demo_msg_def newMessage_def defaultOpts_def
        published_def produced_form_def reset_def)
  obtain m' s1 where 1: "produceMessage (?E\<lparr>p_now := 1\<rparr>) pm_up False ''orders'' (demo_msg ''a'') mem0 = (Inr (True, m'), s1)"
    "mem_view s1 = set_list ?q [toString ?m] (mem_view mem0)"
    using smq_live.produce_enqueues [OF smq_live_now [OF mem_platform_live, of 1 0] a(4,1), of "''orders''" mem0] by (auto simp: l0)
  have r1: "sys_step ?E mem_view ''orders'' ?I ([], mem0) ([''a''], s1)"
    using sys_produce [OF a(6,2,4,5) 1(1)] by simp
  have l1: "lists (mem_view s1) ?q = [toString ?m]" "lists (mem_view s1) ?kp = []" by (simp_all add: 1(2) l0)
  then have ms: "msgs_at (mem_view s1) (qkey KEY_QUEUE (p_ns (?E\<lparr>p_now := 2\<rparr>)) ''orders'') ([] @ [?m])" using a(3) by (simp add: msgs_at_def)
  from queue_client.dequeue_step [OF queue_client_now [OF orders_client] ms] obtain s2 where
    2: "dequeue (?E\<lparr>p_now := 2\<rparr>) (consumerHandler (?E\<lparr>p_now := 2\<rparr>) ''orders'' ''c1'') s1 = (Inr (Some (toString ?m)), s2)"
    "lists (mem_view s2) ?kp = [toString ?m]" by (auto simp: l1)
  have "sys_step ?E mem_view ''orders'' ?I ([''a''], s1) ([''a''], s2)"
    by (rule sys_take [of "''c1''" _ _ _ _ _ 2]) (use 2(1) l1 in \<open>simp_all add: n consumerHandler_now\<close>)
  with r1 have "sys_steps ?E mem_view ''orders'' ?I ([], mem0) ([''a''], s2)" by (rule converse_rtranclp_into_rtranclp [OF _ r_into_rtranclp])
  with 2(2) show ?thesis by auto
qed

lemma empty_store:
  "\<forall>k \<in> place_keys (p_ns (mem_platform 0)) ''orders'' {''c1'', ''c2''}. list_only (mem_view mem0) k \<and> lists (mem_view mem0) k = []"
  "zsets (mem_view mem0) (gkey KEY_QUEUE_SCHEDULED) = []"
  by (simp_all add: list_only_def mem_view_def mem0_def znorm_def)



end
